(* ===== verification/Prelude.thy ===== *)
theory Prelude
  imports
    "HOL-Library.Char_ord"
    "HOL-Library.List_Lexorder"
    "HOL-Library.Product_Lexorder"
    "HOL-Library.Sublist"
    "HOL-Library.Multiset"
    "HOL-Library.Word"
begin

text \<open>
  Shared vocabulary of the development: machine integers, strings in the byte order of Rust's
  \<^verbatim>\<open>String\<close>, the ordered containers of the Rust standard library
  (\<^verbatim>\<open>BTreeMap\<close>, \<^verbatim>\<open>BTreeSet\<close>) as sorted lists with their equations, and the generic
  list lemmas the component proofs use.  A Rust string is its sequence of UTF-8 bytes, so \<^typ>\<open>string\<close> with the
  lexicographic order on byte values is exactly \<^verbatim>\<open>impl Ord for String\<close>.
\<close>

named_theorems btm_simps \<open>equations of the ordered map operations\<close>
named_theorems report_simps \<open>equations of the diagnostic accumulators\<close>

type_synonym u8 = "8 word"
type_synonym u16 = "16 word"
type_synonym u32 = "32 word"
type_synonym u64 = "64 word"
type_synonym module_id = string
type_synonym stage_id = string

section \<open>BTreeMap and BTreeSet\<close>

type_synonym ('k, 'v) btree_map = "('k \<times> 'v) list"

fun btm_insert :: "'k::linorder \<Rightarrow> 'v \<Rightarrow> ('k, 'v) btree_map \<Rightarrow> ('k, 'v) btree_map" where
  "btm_insert k v [] = [(k, v)]"
| "btm_insert k v (e # m) =
     (if k = fst e then (k, v) # m
      else if k < fst e then (k, v) # e # m
      else e # btm_insert k v m)"

definition btm_get :: "('k, 'v) btree_map \<Rightarrow> 'k \<Rightarrow> 'v option" where
  "btm_get m k = map_of m k"

definition btm_keys :: "('k, 'v) btree_map \<Rightarrow> 'k list" where
  "btm_keys m = map fst m"

definition btm_wf :: "('k::linorder, 'v) btree_map \<Rightarrow> bool" where
  "btm_wf m \<longleftrightarrow> sorted_wrt (<) (map fst m)"

text \<open>\<^verbatim>\<open>iter().collect::<BTreeMap<_, _>>()\<close>: later pairs replace earlier ones.\<close>

definition btm_collect :: "('k::linorder \<times> 'v) list \<Rightarrow> ('k, 'v) btree_map" where
  "btm_collect kvs = fold (\<lambda>(k, v). btm_insert k v) kvs []"

text \<open>\<^verbatim>\<open>entry(k).or_insert(d)\<close> followed by an in-place update \<open>f\<close>.\<close>

definition btm_entry :: "'k::linorder \<Rightarrow> 'v \<Rightarrow> ('v \<Rightarrow> 'v) \<Rightarrow> ('k, 'v) btree_map \<Rightarrow> ('k, 'v) btree_map" where
  "btm_entry k d f m = btm_insert k (f (case btm_get m k of None \<Rightarrow> d | Some v \<Rightarrow> v)) m"

text \<open>\<^verbatim>\<open>if let Some(v) = m.get_mut(k) { *v = f(*v) }\<close>.\<close>

definition btm_modify :: "'k::linorder \<Rightarrow> ('v \<Rightarrow> 'v) \<Rightarrow> ('k, 'v) btree_map \<Rightarrow> ('k, 'v) btree_map" where
  "btm_modify k f m = map (\<lambda>e. if fst e = k then (k, f (snd e)) else e) m"

text \<open>A loop of \<^verbatim>\<open>entry(k).or_default().push(v)\<close> over key/value pairs.\<close>

definition btm_group :: "('k::linorder \<times> 'v) list \<Rightarrow> ('k, 'v list) btree_map" where
  "btm_group kvs = fold (\<lambda>(k, v). btm_entry k [] (\<lambda>l. l @ [v])) kvs []"

text \<open>\<^verbatim>\<open>iter().collect::<BTreeSet<_>>()\<close> and \<^verbatim>\<open>BTreeSet::insert\<close>.\<close>

definition bts_collect :: "'a::linorder list \<Rightarrow> 'a list" where
  "bts_collect xs = sort (remdups xs)"

definition bts_insert :: "'a::linorder \<Rightarrow> 'a list \<Rightarrow> 'a list" where
  "bts_insert x s = (if x \<in> set s then s else insort x s)"

definition bts_wf :: "'a::linorder list \<Rightarrow> bool" where
  "bts_wf s \<longleftrightarrow> sorted_wrt (<) s"

subsection \<open>Laws of the containers\<close>

lemma keys_btm_insert [simp]: "set (map fst (btm_insert k v m)) = insert k (set (map fst m))"
  by (induction m) auto

lemma btm_insert_map_of: "map_of (btm_insert k v m) = (map_of m)(k \<mapsto> v)"
  by (induction m) (auto simp: fun_eq_iff)

lemma btm_get_insert [simp, btm_simps]:
  "btm_get (btm_insert k v m) k' = (if k' = k then Some v else btm_get m k')"
  by (simp add: btm_get_def btm_insert_map_of)

lemma btm_get_Nil [simp, btm_simps]: "btm_get [] k = None"
  by (simp add: btm_get_def)

lemma btm_wf_Nil [simp]: "btm_wf []"
  by (simp add: btm_wf_def)

lemma btm_wf_insert [simp]: "btm_wf m \<Longrightarrow> btm_wf (btm_insert k v m)"
proof (induction m)
  case Nil
  then show ?case by (simp add: btm_wf_def)
next
  case (Cons e m)
  then have wf: "btm_wf m" and above: "\<forall>x \<in> set (map fst m). fst e < x"
    by (auto simp: btm_wf_def)
  have rec: "btm_wf (btm_insert k v m)" using wf by (rule Cons.IH)
  have keys: "set (map fst (btm_insert k v m)) = insert k (set (map fst m))"
    by (rule keys_btm_insert)
  show ?case
    using wf above rec keys by (auto simp: btm_wf_def not_less_iff_gr_or_eq simp del: keys_btm_insert)
qed

lemma btm_get_None_iff: "btm_get m k = None \<longleftrightarrow> k \<notin> set (btm_keys m)"
  by (simp add: btm_get_def btm_keys_def map_of_eq_None_iff)

lemma btm_wf_distinct: "btm_wf m \<Longrightarrow> distinct (btm_keys m)"
  by (simp add: btm_wf_def btm_keys_def strict_sorted_iff)

lemma btm_get_Some_iff: "btm_wf m \<Longrightarrow> btm_get m k = Some v \<longleftrightarrow> (k, v) \<in> set m"
  using btm_wf_distinct [of m] by (simp add: btm_get_def btm_keys_def map_of_eq_Some_iff)

lemma btm_wf_ext:
  assumes "btm_wf m" and "btm_wf m'" and "\<And>k. btm_get m k = btm_get m' k"
  shows "m = m'"
proof -
  have "set m = set m'"
    using assms by (auto simp: btm_get_Some_iff [symmetric])
  moreover have "sorted (map fst m)" "sorted (map fst m')" "distinct (map fst m)" "distinct (map fst m')"
    using assms(1,2) by (simp_all add: btm_wf_def strict_sorted_iff)
  ultimately show ?thesis
    by (intro map_sorted_distinct_set_unique [where f = fst]) (auto simp: inj_on_def distinct_map)
qed

lemma fold_btm_insert_wf: "btm_wf m \<Longrightarrow> btm_wf (fold (\<lambda>(k, v). btm_insert k v) kvs m)"
  by (induction kvs arbitrary: m) (auto split: prod.splits)

lemma fold_btm_insert_get:
  "btm_get (fold (\<lambda>(k, v). btm_insert k v) kvs m) k =
     (case map_of (rev kvs) k of None \<Rightarrow> btm_get m k | Some v \<Rightarrow> Some v)"
  by (induction kvs arbitrary: m) (auto split: option.splits prod.splits simp: map_add_def)

lemma btm_collect_wf [simp]: "btm_wf (btm_collect kvs)"
  by (simp add: btm_collect_def fold_btm_insert_wf)

lemma btm_collect_get: "btm_get (btm_collect kvs) k = map_of (rev kvs) k"
  by (simp add: btm_collect_def fold_btm_insert_get split: option.splits)

lemma btm_keys_set: "set (btm_keys m) = {k. btm_get m k \<noteq> None}"
  by (auto simp: btm_get_None_iff)

lemma btm_collect_keys: "set (btm_keys (btm_collect kvs)) = fst ` set kvs"
  by (auto simp: btm_keys_set btm_collect_get map_of_eq_None_iff simp flip: not_None_eq)

lemma map_of_rev_distinct: "distinct (map fst kvs) \<Longrightarrow> map_of (rev kvs) = map_of kvs"
  by (metis distinct_rev map_of_eqI map_of_inject_set rev_map set_rev)

lemma btm_collect_get_distinct: "distinct (map fst kvs) \<Longrightarrow> btm_get (btm_collect kvs) k = map_of kvs k"
  by (simp add: btm_collect_get map_of_rev_distinct)

lemma btm_entry_get [btm_simps]:
  "btm_get (btm_entry k d f m) k' =
     (if k' = k then Some (f (case btm_get m k of None \<Rightarrow> d | Some v \<Rightarrow> v)) else btm_get m k')"
  by (simp add: btm_entry_def)

lemma btm_entry_wf [simp]: "btm_wf m \<Longrightarrow> btm_wf (btm_entry k d f m)"
  by (simp add: btm_entry_def)

lemma fold_group_get:
  "btm_get (fold (\<lambda>(k, v). btm_entry k [] (\<lambda>l. l @ [v])) kvs m) k =
     (if k \<in> fst ` set kvs
      then Some ((case btm_get m k of None \<Rightarrow> [] | Some l \<Rightarrow> l) @ map snd (filter (\<lambda>e. fst e = k) kvs))
      else btm_get m k)"
proof (induction kvs arbitrary: m)
  case (Cons e kvs)
  show ?case
    by (cases e) (auto simp: Cons.IH btm_entry_get filter_empty_conv image_iff split: option.split)
qed simp

lemma btm_group_get:
  "btm_get (btm_group kvs) k =
     (if k \<in> fst ` set kvs then Some (map snd (filter (\<lambda>e. fst e = k) kvs)) else None)"
  by (simp add: btm_group_def fold_group_get)

lemma btm_group_values: "btm_get (btm_group kvs) k = Some vs \<Longrightarrow> set vs = {v. (k, v) \<in> set kvs}"
  by (force simp: btm_group_get split: if_splits)

lemma fold_btm_entry_wf: "btm_wf m \<Longrightarrow> btm_wf (fold (\<lambda>(k, v). btm_entry k d (f v)) kvs m)"
  by (induction kvs arbitrary: m) (auto split: prod.splits)

lemma btm_group_wf [simp]: "btm_wf (btm_group kvs)"
  unfolding btm_group_def by (rule fold_btm_entry_wf) simp

lemma btm_filter_map_get:
  assumes "btm_wf m"
  shows "btm_get (btm_collect (concat (map (\<lambda>(k, v). case g k v of None \<Rightarrow> [] | Some w \<Rightarrow> [(k, w)]) m))) k =
    (case btm_get m k of None \<Rightarrow> None | Some v \<Rightarrow> g k v)"
proof -
  let ?f = "\<lambda>(k, v). case g k v of None \<Rightarrow> [] | Some w \<Rightarrow> [(k, w)]"
  have sub: "fst ` set (concat (map ?f xs)) \<subseteq> fst ` set xs" for xs
    by (force split: option.splits)
  have "distinct (map fst xs) \<Longrightarrow> distinct (map fst (concat (map ?f xs))) \<and>
      map_of (concat (map ?f xs)) k = (case map_of xs k of None \<Rightarrow> None | Some v \<Rightarrow> g k v)" for xs
  proof (induction xs)
    case (Cons x xs)
    obtain a v where x: "x = (a, v)" by (cases x)
    have "a \<notin> fst ` set xs" using Cons.prems by (simp add: x)
    with sub [of xs] have fresh: "a \<notin> fst ` set (concat (map ?f xs))" by (rule contra_subsetD)
    then have none: "map_of (concat (map ?f xs)) a = None" by (simp only: map_of_eq_None_iff not_False_eq_True)
    show ?case using Cons fresh none by (cases "g a v") (auto simp: x)
  qed simp
  then show ?thesis
    using btm_wf_distinct [OF assms] by (simp add: btm_keys_def btm_get_def [of m] btm_collect_get_distinct)
qed

lemma concat_map_Nil: "concat (map g xs) = [] \<longleftrightarrow> (\<forall>x \<in> set xs. g x = [])"
  by (induction xs) auto

lemma if_single_Nil: "(if P then [x] else []) = [] \<longleftrightarrow> \<not> P"
  by simp

lemma comprehension_Nil: "concat (map (\<lambda>x. if P x then [f x] else []) xs) = [] \<longleftrightarrow> (\<forall>x \<in> set xs. \<not> P x)"
  by (induction xs) auto

lemma btm_modify_get [btm_simps]:
  "btm_get (btm_modify k f m) k' = (if k' = k then map_option f (btm_get m k) else btm_get m k')"
  by (induction m) (auto simp: btm_modify_def btm_get_def)

lemma btm_keys_modify [simp]: "btm_keys (btm_modify k f m) = btm_keys m"
  by (simp add: btm_modify_def btm_keys_def comp_def if_distrib [of fst] cong: if_cong)

lemma btm_modify_wf [simp]: "btm_wf m \<Longrightarrow> btm_wf (btm_modify k f m)"
  using btm_keys_modify [of k f m] by (simp add: btm_wf_def btm_keys_def)

lemma bts_collect_set [simp]: "set (bts_collect xs) = set xs"
  by (simp add: bts_collect_def)

lemma bts_collect_wf [simp]: "bts_wf (bts_collect xs)"
  by (simp add: bts_collect_def bts_wf_def strict_sorted_iff)

lemma bts_insert_set [simp]: "set (bts_insert x s) = insert x (set s)"
  by (auto simp: bts_insert_def set_insort_key)

lemma bts_insert_wf [simp]: "bts_wf s \<Longrightarrow> bts_wf (bts_insert x s)"
  by (auto simp: bts_insert_def bts_wf_def strict_sorted_iff sorted_insort distinct_insort)

lemma bts_wf_distinct: "bts_wf s \<Longrightarrow> distinct s"
  by (simp add: bts_wf_def strict_sorted_iff)

end
