(* ===== verification/Manifest.thy ===== *)
theory Manifest
  imports Prelude
begin

text \<open>
  Module manifests as the scheduler sees them after ingestion:
  \<^verbatim>\<open>crates/slicer-scheduler/src/manifest.rs\<close> with the version type of
  \<^verbatim>\<open>crates/slicer-ir/src/slice_ir.rs\<close>.  The theory holds the loaded-module record and its
  builder, the version parser and printer, the per-manifest checks of region-split declarations
  and of parallel safety, and the registry scan that merges the search roots with the integrated
  modules.  File-system access and TOML parsing are parameters of the scan: \<open>discover\<close> lists the
  manifests under a root, \<open>ingest\<close> reads one of them, \<open>ingest_text\<close> reads an embedded one.
\<close>

section \<open>Versions\<close>

record semver =
  major :: u32
  minor :: u32
  patch :: u32

definition semver_lt :: "semver \<Rightarrow> semver \<Rightarrow> bool" where
  "semver_lt a b = ((major a, minor a, patch a) < (major b, minor b, patch b))"

text \<open>Decimal printing and parsing of an unsigned integer, as \<^verbatim>\<open>Display\<close> and
  \<^verbatim>\<open>FromStr\<close> of \<^verbatim>\<open>u32\<close> do it: the parser takes an optional plus sign and at least one
  digit, and fails on overflow.\<close>

definition digit_char :: "nat \<Rightarrow> char" where
  "digit_char d = (char_of (48 + d) :: char)"

fun dec_nat :: "nat \<Rightarrow> string" where
  "dec_nat n = (if n < 10 then [digit_char n] else dec_nat (n div 10) @ [digit_char (n mod 10)])"

declare dec_nat.simps [simp del]

definition digit_value :: "char \<Rightarrow> nat option" where
  "digit_value c = (let n = (of_char c :: nat) in if 48 \<le> n \<and> n \<le> 57 then Some (n - 48) else None)"

fun parse_digits :: "nat \<Rightarrow> string \<Rightarrow> nat option" where
  "parse_digits acc [] = Some acc"
| "parse_digits acc (c # cs) =
     (case digit_value c of None \<Rightarrow> None | Some d \<Rightarrow> parse_digits (acc * 10 + d) cs)"

definition parse_u32 :: "string \<Rightarrow> u32 option" where
  "parse_u32 s =
     (let body = (if prefix ''+'' s then tl s else s)
      in if body = [] then None
         else case parse_digits 0 body of
                None \<Rightarrow> None
              | Some n \<Rightarrow> if n < 2 ^ 32 then Some (of_nat n) else None)"

fun split_char :: "char \<Rightarrow> string \<Rightarrow> string list" where
  "split_char c [] = [[]]"
| "split_char c (x # xs) =
     (if x = c then [] # split_char c xs
      else (x # hd (split_char c xs)) # tl (split_char c xs))"

definition parse_semver :: "string \<Rightarrow> semver option" where
  "parse_semver text =
     (case split_char (CHR ''.'') text of
        [a, b, c] \<Rightarrow>
          (case (parse_u32 a, parse_u32 b, parse_u32 c) of
             (Some x, Some y, Some z) \<Rightarrow> Some \<lparr>major = x, minor = y, patch = z\<rparr>
           | _ \<Rightarrow> None)
      | _ \<Rightarrow> None)"

definition display_semver :: "semver \<Rightarrow> string" where
  "display_semver v =
     dec_nat (unat (major v)) @ ''.'' @ dec_nat (unat (minor v)) @ ''.'' @ dec_nat (unat (patch v))"

section \<open>Loaded modules\<close>

datatype region_split_value_type = RsFlag | RsToolIndex | RsCustomString

record region_split_declaration =
  rs_semantic :: string
  rs_priority :: u32
  rs_value_type :: region_split_value_type

datatype module_provenance = External | Integrated

record loaded_module =
  lm_id :: module_id
  lm_version :: semver
  lm_stage :: stage_id
  lm_ir_reads :: "string list"
  lm_ir_writes :: "string list"
  lm_claims :: "string list"
  lm_requires_claims :: "string list"
  lm_incompatible_with :: "string list"
  lm_requires_modules :: "module_id list"
  lm_min_host_version :: semver
  lm_min_ir_schema :: semver
  lm_max_ir_schema :: semver
  lm_config_keys :: "string list"
  lm_layer_parallel_safe :: bool
  lm_wasm_path :: string
  lm_provenance :: module_provenance
  lm_placeholder_wasm :: bool
  lm_region_splits :: "region_split_declaration list"
  lm_paint_only :: bool
  lm_region_split_semantics :: "string set"

text \<open>\<^verbatim>\<open>LoadedModuleBuilder::new\<close> fixes the identity fields and the defaults of all
  others; the chained setters are record updates, and \<^verbatim>\<open>build\<close> derives the per-layer
  dispatch set.\<close>

definition builder_new :: "module_id \<Rightarrow> semver \<Rightarrow> stage_id \<Rightarrow> string \<Rightarrow> loaded_module" where
  "builder_new i v st path =
     \<lparr>lm_id = i, lm_version = v, lm_stage = st, lm_ir_reads = [], lm_ir_writes = [],
      lm_claims = [], lm_requires_claims = [], lm_incompatible_with = [],
      lm_requires_modules = [],
      lm_min_host_version = \<lparr>major = 0, minor = 0, patch = 0\<rparr>,
      lm_min_ir_schema = \<lparr>major = 0, minor = 0, patch = 0\<rparr>,
      lm_max_ir_schema = \<lparr>major = 0, minor = 0, patch = 0\<rparr>,
      lm_config_keys = [], lm_layer_parallel_safe = False, lm_wasm_path = path,
      lm_provenance = External, lm_placeholder_wasm = False, lm_region_splits = [],
      lm_paint_only = False, lm_region_split_semantics = {}\<rparr>"

definition builder_build :: "loaded_module \<Rightarrow> loaded_module" where
  "builder_build b =
     b\<lparr>lm_region_split_semantics :=
         (if lm_paint_only b then set (map rs_semantic (lm_region_splits b)) else {})\<rparr>"

section \<open>Diagnostics and load errors\<close>

datatype diagnostic_level = LInfo | LWarning | LError

record load_diagnostic =
  ld_level :: diagnostic_level
  ld_path :: string
  ld_field :: "string option"
  ld_message :: string

datatype load_error_kind =
    LeNotImplemented
  | LeIo
  | LeTomlParse
  | LeSchema
  | LeMissingWasm
  | LeValidation
  | LeDuplicateRegionSplitSemantic string "nat option" "nat option"
  | LeScalarValueTypeNotAllowedInRegionSplit string
  | LeCommunityPriorityBelowFloor string u32 u32
  | LeCorePriorityMismatch string u32 u32
  | LePaintOnlyWithoutRegionSplit

record load_error =
  le_path :: string
  le_field :: "string option"
  le_kind :: load_error_kind
  le_message :: string

section \<open>Per-manifest checks\<close>

definition core_region_split_priorities :: "(string \<times> u32) list" where
  "core_region_split_priorities = [(''material'', 100), (''fuzzy_skin'', 200)]"

definition community_priority_floor :: u32 where
  "community_priority_floor = 1000"

definition region_split_error :: "string \<Rightarrow> load_error_kind \<Rightarrow> string \<Rightarrow> load_error" where
  "region_split_error path kind msg =
     \<lparr>le_path = path, le_field = Some ''region_split'', le_kind = kind, le_message = msg\<rparr>"

fun check_duplicate_semantics ::
  "string \<Rightarrow> string list \<Rightarrow> region_split_declaration list \<Rightarrow> load_error + unit" where
  "check_duplicate_semantics path seen [] = Inr ()"
| "check_duplicate_semantics path seen (d # ds) =
     (if rs_semantic d \<in> set seen
      then Inl (region_split_error path (LeDuplicateRegionSplitSemantic (rs_semantic d) None None)
             (''duplicate region_split semantic '' @ [CHR 39] @ rs_semantic d @ [CHR 39] @
              '': each semantic may only appear once per manifest''))
      else check_duplicate_semantics path (rs_semantic d # seen) ds)"

definition check_region_split_priority ::
  "string \<Rightarrow> region_split_declaration \<Rightarrow> load_error + unit" where
  "check_region_split_priority path d =
     (case map_of core_region_split_priorities (rs_semantic d) of
        Some expected \<Rightarrow>
          if rs_priority d \<noteq> expected
          then Inl (region_split_error path
                 (LeCorePriorityMismatch (rs_semantic d) (rs_priority d) expected)
                 (''core semantic '' @ [CHR 39] @ rs_semantic d @ [CHR 39] @ '' must have priority ''
                  @ dec_nat (unat expected) @ '', but '' @ dec_nat (unat (rs_priority d))
                  @ '' was declared''))
          else Inr ()
      | None \<Rightarrow>
          if rs_priority d < community_priority_floor
          then Inl (region_split_error path
                 (LeCommunityPriorityBelowFloor (rs_semantic d) (rs_priority d)
                    community_priority_floor)
                 (''community semantic '' @ [CHR 39] @ rs_semantic d @ [CHR 39] @ '' priority ''
                  @ dec_nat (unat (rs_priority d)) @ '' is below the minimum floor of ''
                  @ dec_nat (unat community_priority_floor)))
          else Inr ())"

fun check_region_split_priorities ::
  "string \<Rightarrow> region_split_declaration list \<Rightarrow> load_error + unit" where
  "check_region_split_priorities path [] = Inr ()"
| "check_region_split_priorities path (d # ds) =
     (case check_region_split_priority path d of
        Inl e \<Rightarrow> Inl e
      | Inr _ \<Rightarrow> check_region_split_priorities path ds)"

definition validate_region_splits ::
  "region_split_declaration list \<Rightarrow> string \<Rightarrow> load_error + unit" where
  "validate_region_splits splits path =
     (case check_duplicate_semantics path [] splits of
        Inl e \<Rightarrow> Inl e
      | Inr _ \<Rightarrow> check_region_split_priorities path splits)"

definition validate_claim_ids :: "string list \<Rightarrow> string \<Rightarrow> load_error + string list" where
  "validate_claim_ids holds path = Inr holds"

definition effective_parallel_safety ::
  "string \<Rightarrow> stage_id \<Rightarrow> bool \<Rightarrow> load_diagnostic list \<Rightarrow> bool \<times> load_diagnostic list" where
  "effective_parallel_safety path st declared diags =
     (if st = ''PostPass::LayerFinalization''
      then (False,
            if declared
            then diags @ [\<lparr>ld_level = LWarning, ld_path = path,
                   ld_field = Some ''hints.layer-parallel-safe'',
                   ld_message = ''PostPass::LayerFinalization modules are always serialized; normalizing layer-parallel-safe to false''\<rparr>]
            else diags)
      else (declared, diags))"

section \<open>Scanning the search roots\<close>

record load_modules_report =
  lr_modules :: "loaded_module list"
  lr_diagnostics :: "load_diagnostic list"

record integrated_module_registration =
  ir_manifest_toml :: string
  ir_origin_label :: string

type_synonym ingested = "loaded_module \<times> load_diagnostic list"

definition duplicate_message :: "module_id \<Rightarrow> string" where
  "duplicate_message i =
     ''duplicate module id '' @ [CHR 39] @ i @ [CHR 39] @
     '' ignored because an earlier search root already provided it''"

definition shadow_message :: "module_id \<Rightarrow> string" where
  "shadow_message i = ''external module '' @ i @ '' shadows integrated module '' @ i"

text \<open>The scan state: the report and \<^verbatim>\<open>seen_ids\<close>, the provenance under which an
  id was registered first.\<close>

type_synonym scan_state = "load_modules_report \<times> (module_id \<rightharpoonup> module_provenance)"

definition register_module :: "loaded_module \<Rightarrow> load_diagnostic list \<Rightarrow> scan_state \<Rightarrow> scan_state" where
  "register_module m ds = (\<lambda>(r, seen).
     (r\<lparr>lr_modules := lr_modules r @ [m], lr_diagnostics := lr_diagnostics r @ ds\<rparr>,
      seen(lm_id m \<mapsto> lm_provenance m)))"

definition reject_module ::
  "string \<Rightarrow> string \<Rightarrow> load_diagnostic list \<Rightarrow> scan_state \<Rightarrow> scan_state" where
  "reject_module path msg ds = (\<lambda>(r, seen).
     (r\<lparr>lr_diagnostics := lr_diagnostics r
          @ [\<lparr>ld_level = LWarning, ld_path = path, ld_field = Some ''module.id'', ld_message = msg\<rparr>]
          @ ds\<rparr>, seen))"

fun scan_manifests ::
  "(string \<Rightarrow> load_error + ingested) \<Rightarrow> string list \<Rightarrow> scan_state \<Rightarrow> load_error + scan_state" where
  "scan_manifests ingest [] s = Inr s"
| "scan_manifests ingest (p # ps) s =
     (case ingest p of
        Inl e \<Rightarrow> Inl e
      | Inr (m, ds) \<Rightarrow>
          scan_manifests ingest ps
            (if snd s (lm_id m) \<noteq> None
             then reject_module p (duplicate_message (lm_id m)) ds s
             else register_module m ds s))"

fun scan_roots ::
  "(string \<Rightarrow> load_error + string list) \<Rightarrow> (string \<Rightarrow> load_error + ingested)
    \<Rightarrow> string list \<Rightarrow> scan_state \<Rightarrow> load_error + scan_state" where
  "scan_roots discover ingest [] s = Inr s"
| "scan_roots discover ingest (root # roots) s =
     (case discover root of
        Inl e \<Rightarrow>
          scan_roots discover ingest roots
            ((fst s)\<lparr>lr_diagnostics := lr_diagnostics (fst s)
                @ [\<lparr>ld_level = LError, ld_path = le_path e, ld_field = le_field e,
                    ld_message = le_message e\<rparr>]\<rparr>, snd s)
      | Inr manifest_paths \<Rightarrow>
          (case scan_manifests ingest manifest_paths s of
             Inl e \<Rightarrow> Inl e
           | Inr s' \<Rightarrow> scan_roots discover ingest roots s'))"

fun scan_integrated ::
  "(string \<Rightarrow> string \<Rightarrow> load_error + ingested) \<Rightarrow> integrated_module_registration list
    \<Rightarrow> scan_state \<Rightarrow> load_error + scan_state" where
  "scan_integrated ingest_text [] s = Inr s"
| "scan_integrated ingest_text (g # gs) s =
     (case ingest_text (ir_manifest_toml g) (ir_origin_label g) of
        Inl e \<Rightarrow> Inl e
      | Inr (m, ds) \<Rightarrow>
          scan_integrated ingest_text gs
            (case snd s (lm_id m) of
               Some External \<Rightarrow> reject_module (ir_origin_label g) (shadow_message (lm_id m)) ds s
             | Some Integrated \<Rightarrow> reject_module (ir_origin_label g) (duplicate_message (lm_id m)) ds s
             | None \<Rightarrow> register_module m ds s))"

definition load_modules_from_roots_with_integrated ::
  "(string \<Rightarrow> load_error + string list) \<Rightarrow> (string \<Rightarrow> load_error + ingested)
    \<Rightarrow> (string \<Rightarrow> string \<Rightarrow> load_error + ingested)
    \<Rightarrow> string list \<Rightarrow> integrated_module_registration list \<Rightarrow> load_error + load_modules_report" where
  "load_modules_from_roots_with_integrated discover ingest ingest_text roots integrated =
     (case scan_roots discover ingest roots (\<lparr>lr_modules = [], lr_diagnostics = []\<rparr>, Map.empty) of
        Inl e \<Rightarrow> Inl e
      | Inr s \<Rightarrow>
          (case scan_integrated ingest_text integrated s of
             Inl e \<Rightarrow> Inl e
           | Inr s' \<Rightarrow> Inr (fst s')))"


section \<open>Versions: printing and parsing are inverse\<close>

lemma digit_value_digit_char [simp]: "d < 10 \<Longrightarrow> digit_value (digit_char d) = Some d"
  by (simp add: digit_value_def digit_char_def Let_def of_char_of)

lemma digit_char_neq: "d < 10 \<Longrightarrow> digit_char d \<noteq> CHR ''.''" "d < 10 \<Longrightarrow> digit_char d \<noteq> CHR ''+''"
  using digit_value_digit_char [of d] by (auto simp: digit_value_def)

lemma dec_nat_Nil [simp]: "dec_nat n \<noteq> []"
  by (subst dec_nat.simps) simp

lemma dec_nat_chars: "c \<in> set (dec_nat n) \<Longrightarrow> c \<noteq> CHR ''.'' \<and> c \<noteq> CHR ''+''"
proof (induction n rule: dec_nat.induct)
  case (1 n)
  then show ?case
    by (cases "n < 10") (auto simp: dec_nat.simps [of n] digit_char_neq)
qed

lemma parse_digits_append:
  "parse_digits acc (xs @ ys) = (case parse_digits acc xs of None \<Rightarrow> None | Some a \<Rightarrow> parse_digits a ys)"
  by (induction acc xs rule: parse_digits.induct) (auto split: option.splits)

lemma parse_digits_dec_nat: "parse_digits 0 (dec_nat n) = Some n"
proof (induction n rule: dec_nat.induct)
  case (1 n)
  show ?case
  proof (cases "n < 10")
    case True
    then show ?thesis by (simp add: dec_nat.simps [of n])
  next
    case False
    then show ?thesis by (simp add: dec_nat.simps [of n] parse_digits_append 1)
  qed
qed

lemma parse_u32_dec_nat: "parse_u32 (dec_nat (unat w)) = Some w" for w :: u32
proof -
  have "\<not> prefix ''+'' (dec_nat (unat w))"
    using dec_nat_chars [of "CHR ''+''" "unat w"] by (cases "dec_nat (unat w)") auto
  then show ?thesis
    using unsigned_less [of w] by (simp add: parse_u32_def parse_digits_dec_nat Let_def)
qed

lemma split_char_nonempty [simp]: "split_char c s \<noteq> []"
  by (induction s) auto

lemma split_char_none: "c \<notin> set s \<Longrightarrow> split_char c s = [s]"
  by (induction s) auto

lemma split_char_app: "c \<notin> set s \<Longrightarrow> split_char c (s @ c # t) = s # split_char c t"
  by (induction s) auto

lemma parse_display_semver: "parse_semver (display_semver v) = Some v"
proof -
  have nodot: "CHR ''.'' \<notin> set (dec_nat n)" for n
    using dec_nat_chars by blast
  show ?thesis
    by (simp add: parse_semver_def display_semver_def split_char_app split_char_none nodot
        parse_u32_dec_nat)
qed

lemma semver_lt_irrefl: "\<not> semver_lt a a"
  by (simp add: semver_lt_def)

lemma semver_lt_trans: "semver_lt a b \<Longrightarrow> semver_lt b c \<Longrightarrow> semver_lt a c"
  unfolding semver_lt_def by (rule order.strict_trans)

section \<open>What an accepted manifest guarantees\<close>

lemma check_duplicate_semantics_Inr:
  "check_duplicate_semantics path seen ds = Inr () \<longleftrightarrow>
     distinct (map rs_semantic ds) \<and> set seen \<inter> rs_semantic ` set ds = {}"
  by (induction path seen ds rule: check_duplicate_semantics.induct) auto

definition priority_ok :: "region_split_declaration \<Rightarrow> bool" where
  "priority_ok d \<longleftrightarrow>
     (rs_semantic d = ''material'' \<longrightarrow> rs_priority d = 100) \<and>
     (rs_semantic d = ''fuzzy_skin'' \<longrightarrow> rs_priority d = 200) \<and>
     (rs_semantic d \<notin> {''material'', ''fuzzy_skin''} \<longrightarrow> 1000 \<le> rs_priority d)"

lemma check_region_split_priority_Inr:
  "check_region_split_priority path d = Inr () \<longleftrightarrow> priority_ok d"
  by (auto simp: check_region_split_priority_def core_region_split_priorities_def
      community_priority_floor_def priority_ok_def not_less)

lemma check_region_split_priorities_Inr:
  "check_region_split_priorities path ds = Inr () \<longleftrightarrow> (\<forall>d \<in> set ds. priority_ok d)"
proof (induction ds)
  case Nil
  then show ?case by simp
next
  case (Cons d ds)
  then show ?case
    by (cases "check_region_split_priority path d")
      (use check_region_split_priority_Inr [of path d] in auto)
qed

lemma validate_region_splits_Inr:
  "validate_region_splits ds path = Inr () \<longleftrightarrow>
     distinct (map rs_semantic ds) \<and> (\<forall>d \<in> set ds. priority_ok d)"
  using check_duplicate_semantics_Inr [of path "[]" ds] check_region_split_priorities_Inr [of path ds]
  by (cases "check_duplicate_semantics path [] ds") (auto simp: validate_region_splits_def)

section \<open>The registry scan yields pairwise distinct ids\<close>

definition scan_inv :: "scan_state \<Rightarrow> bool" where
  "scan_inv s \<longleftrightarrow> distinct (map lm_id (lr_modules (fst s))) \<and>
     (\<forall>i. snd s i \<noteq> None \<longleftrightarrow> i \<in> lm_id ` set (lr_modules (fst s)))"

lemma scan_inv_register: "scan_inv s \<Longrightarrow> snd s (lm_id m) = None \<Longrightarrow> scan_inv (register_module m ds s)"
  by (cases s) (auto simp: scan_inv_def register_module_def image_iff split: if_splits, metis option.distinct(1))

lemma scan_inv_reject: "scan_inv s \<Longrightarrow> scan_inv (reject_module p msg ds s)"
  by (cases s) (auto simp: scan_inv_def reject_module_def)

lemma scan_manifests_inv:
  "scan_manifests ingest ps s = Inr s' \<Longrightarrow> scan_inv s \<Longrightarrow> scan_inv s'"
proof (induction ps arbitrary: s)
  case Nil
  then show ?case by simp
next
  case (Cons p ps)
  from Cons.prems(1) obtain m ds where m: "ingest p = Inr (m, ds)"
    by (auto split: sum.splits)
  let ?s1 = "if snd s (lm_id m) \<noteq> None then reject_module p (duplicate_message (lm_id m)) ds s
    else register_module m ds s"
  have "scan_inv ?s1" using Cons.prems(2) by (simp add: scan_inv_register scan_inv_reject)
  moreover have "scan_manifests ingest ps ?s1 = Inr s'" using Cons.prems(1) m by simp
  ultimately show ?case using Cons.IH by blast
qed

lemma scan_roots_inv:
  "scan_roots discover ingest roots s = Inr s' \<Longrightarrow> scan_inv s \<Longrightarrow> scan_inv s'"
proof (induction roots arbitrary: s)
  case Nil
  then show ?case by simp
next
  case (Cons r roots)
  show ?case
  proof (cases "discover r")
    case (Inl e)
    let ?s1 = "((fst s)\<lparr>lr_diagnostics := lr_diagnostics (fst s)
      @ [\<lparr>ld_level = LError, ld_path = le_path e, ld_field = le_field e,
          ld_message = le_message e\<rparr>]\<rparr>, snd s)"
    have "scan_inv ?s1" using Cons.prems(2) by (simp add: scan_inv_def)
    moreover have "scan_roots discover ingest roots ?s1 = Inr s'"
      using Cons.prems(1) Inl by simp
    ultimately show ?thesis using Cons.IH by blast
  next
    case (Inr ps)
    then obtain s1 where "scan_manifests ingest ps s = Inr s1"
      and "scan_roots discover ingest roots s1 = Inr s'"
      using Cons.prems(1) by (auto split: sum.splits)
    then show ?thesis using Cons.IH Cons.prems(2) scan_manifests_inv by blast
  qed
qed

lemma scan_integrated_inv:
  "scan_integrated ingest_text gs s = Inr s' \<Longrightarrow> scan_inv s \<Longrightarrow> scan_inv s'"
proof (induction gs arbitrary: s)
  case Nil
  then show ?case by simp
next
  case (Cons g gs)
  from Cons.prems(1) obtain m ds where
    m: "ingest_text (ir_manifest_toml g) (ir_origin_label g) = Inr (m, ds)"
    by (auto split: sum.splits)
  let ?s1 = "case snd s (lm_id m) of
      Some External \<Rightarrow> reject_module (ir_origin_label g) (shadow_message (lm_id m)) ds s
    | Some Integrated \<Rightarrow> reject_module (ir_origin_label g) (duplicate_message (lm_id m)) ds s
    | None \<Rightarrow> register_module m ds s"
  have "scan_inv ?s1"
    using Cons.prems(2)
    by (simp add: scan_inv_register scan_inv_reject split: option.split module_provenance.split)
  moreover have "scan_integrated ingest_text gs ?s1 = Inr s'" using Cons.prems(1) m by simp
  ultimately show ?case using Cons.IH by blast
qed

lemma load_modules_distinct_ids:
  assumes "load_modules_from_roots_with_integrated discover ingest ingest_text roots integrated = Inr r"
  shows "distinct (map lm_id (lr_modules r))"
proof -
  obtain s s' where "scan_roots discover ingest roots (\<lparr>lr_modules = [], lr_diagnostics = []\<rparr>, Map.empty) = Inr s"
    and "scan_integrated ingest_text integrated s = Inr s'" and "r = fst s'"
    using assms by (auto simp: load_modules_from_roots_with_integrated_def split: sum.splits)
  moreover have "scan_inv (\<lparr>lr_modules = [], lr_diagnostics = []\<rparr>, Map.empty)"
    by (simp add: scan_inv_def)
  ultimately have "scan_inv s'"
    using scan_roots_inv scan_integrated_inv by blast
  then show ?thesis using \<open>r = fst s'\<close> by (simp add: scan_inv_def)
qed

section \<open>Properties\<close>

text \<open>a version survives printing and parsing: the text that \<^verbatim>\<open>Display\<close> writes is
  accepted by \<^verbatim>\<open>parse_semver\<close> and gives back the same version.\<close>

theorem semver_print_parse: "parse_semver (display_semver v) = Some v"
  by (rule parse_display_semver)

text \<open>a module id is registered once.  Whatever the search roots and the integrated manifests
  contain, a successful scan returns modules with pairwise distinct ids.\<close>

theorem registry_ids_distinct:
  assumes "load_modules_from_roots_with_integrated discover ingest ingest_text roots integrated = Inr report"
  shows "distinct (map lm_id (lr_modules report))"
  by (rule load_modules_distinct_ids [OF assms])

theorem registry_ids_distinct_witness:
  "\<exists>report. load_modules_from_roots_with_integrated (\<lambda>root. Inr [root @ ''/m.toml''])
       (\<lambda>p. Inr (builder_new ''m'' \<lparr>major = 1, minor = 0, patch = 0\<rparr> ''Layer::Infill'' p, []))
       (\<lambda>toml origin. Inr ((builder_new toml \<lparr>major = 1, minor = 0, patch = 0\<rparr> ''Layer::Infill'' origin)
          \<lparr>lm_provenance := Integrated\<rparr>, []))
       [''a'', ''b''] [\<lparr>ir_manifest_toml = ''m'', ir_origin_label = ''o''\<rparr>, \<lparr>ir_manifest_toml = ''n'', ir_origin_label = ''o''\<rparr>]
     = Inr report \<and> map lm_id (lr_modules report) = [''m'', ''n''] \<and> distinct (map lm_id (lr_modules report))"
proof -
  let ?load = "load_modules_from_roots_with_integrated (\<lambda>root. Inr [root @ ''/m.toml''])
       (\<lambda>p. Inr (builder_new ''m'' \<lparr>major = 1, minor = 0, patch = 0\<rparr> ''Layer::Infill'' p, []))
       (\<lambda>toml origin. Inr ((builder_new toml \<lparr>major = 1, minor = 0, patch = 0\<rparr> ''Layer::Infill'' origin)
          \<lparr>lm_provenance := Integrated\<rparr>, []))
       [''a'', ''b''] [\<lparr>ir_manifest_toml = ''m'', ir_origin_label = ''o''\<rparr>, \<lparr>ir_manifest_toml = ''n'', ir_origin_label = ''o''\<rparr>]"
  have "case ?load of Inl e \<Rightarrow> False | Inr report \<Rightarrow> map lm_id (lr_modules report) = [''m'', ''n'']"
    by code_simp
  then obtain report where r: "?load = Inr report" and ids: "map lm_id (lr_modules report) = [''m'', ''n'']"
    by (auto split: sum.splits)
  show ?thesis by (intro exI conjI) (rule r, rule ids, rule registry_ids_distinct [OF r])
qed

end
