(* ===== verification/StageOrder.thy ===== *)
theory StageOrder
  imports Prelude
begin

text \<open>
  The canonical stage list and the helpers derived from it:
  \<^verbatim>\<open>STAGE_ORDER\<close> of \<^verbatim>\<open>crates/slicer-scheduler/src/execution_plan.rs\<close> and
  \<^verbatim>\<open>crates/slicer-scheduler/src/stage_order.rs\<close>.
\<close>

definition STAGE_ORDER :: "stage_id list" where
  "STAGE_ORDER =
    [''PrePass::MeshAnalysis'',
     ''PrePass::LayerPlanning'',
     ''PrePass::SeamPlanning'',
     ''PrePass::PaintSegmentation'',
     ''PrePass::RegionMapping'',
     ''PrePass::Slice'',
     ''PrePass::OverhangAnnotation'',
     ''PrePass::ShellClassification'',
     ''PrePass::SupportAnalysis'',
     ''PrePass::SupportGeometry'',
     ''Layer::PaintRegionAnnotation'',
     ''Layer::SlicePostProcess'',
     ''Layer::Perimeters'',
     ''Layer::PerimetersPostProcess'',
     ''Layer::Infill'',
     ''Layer::InfillPostProcess'',
     ''Layer::Support'',
     ''Layer::SupportPostProcess'',
     ''Layer::AnchoredEvents'',
     ''Layer::PathOptimization'',
     ''PostPass::LayerFinalization'',
     ''PostPass::GCodeEmit'',
     ''PostPass::GCodePostProcess'',
     ''PostPass::TextPostProcess'']"

definition is_known_stage :: "string \<Rightarrow> bool" where
  "is_known_stage st \<longleftrightarrow> st \<in> set STAGE_ORDER"

definition stage_order_index :: "(stage_id, nat) btree_map" where
  "stage_order_index = btm_collect (zip STAGE_ORDER [0 ..< length STAGE_ORDER])"

definition tier_of :: "string \<Rightarrow> string" where
  "tier_of st =
     (if prefix ''PrePass::'' st then ''prepass''
      else if prefix ''Layer::'' st then ''per_layer''
      else if prefix ''PostPass::'' st then ''postpass''
      else ''unknown'')"

section \<open>The list, its index and the tiers agree\<close>

lemma STAGE_ORDER_distinct: "distinct STAGE_ORDER"
  by (simp add: STAGE_ORDER_def)

lemma stage_index_conv:
  "btm_get stage_order_index st = map_of (zip STAGE_ORDER [0 ..< length STAGE_ORDER]) st"
  by (simp add: stage_order_index_def btm_collect_get_distinct STAGE_ORDER_distinct)

lemma stage_index_Some_iff:
  "btm_get stage_order_index st = Some i \<longleftrightarrow> i < length STAGE_ORDER \<and> STAGE_ORDER ! i = st"
proof -
  have "btm_get stage_order_index st = Some i \<longleftrightarrow> (st, i) \<in> set (zip STAGE_ORDER [0 ..< length STAGE_ORDER])"
    by (simp add: stage_index_conv map_of_eq_Some_iff STAGE_ORDER_distinct)
  also have "\<dots> \<longleftrightarrow> i < length STAGE_ORDER \<and> STAGE_ORDER ! i = st"
    by (auto simp: in_set_zip)
  finally show ?thesis .
qed

lemma stage_index_known: "btm_get stage_order_index st \<noteq> None \<longleftrightarrow> is_known_stage st"
  by (auto simp: is_known_stage_def stage_index_Some_iff in_set_conv_nth)

text \<open>The tier ranks \<open>0 < 1 < 2\<close> follow the stage order: a stage never precedes one of an
  earlier tier.\<close>

definition tier_rank :: "string \<Rightarrow> nat" where
  "tier_rank st =
     (if tier_of st = ''prepass'' then 0 else if tier_of st = ''per_layer'' then 1
      else if tier_of st = ''postpass'' then 2 else 3)"

lemma tier_ranks: "map tier_rank STAGE_ORDER = replicate 10 0 @ replicate 10 1 @ replicate 4 2"
  by (simp add: STAGE_ORDER_def tier_rank_def tier_of_def numeral_eq_Suc)

lemma stage_tiers_sorted:
  assumes "btm_get stage_order_index a = Some i" and "btm_get stage_order_index b = Some j" and "i \<le> j"
  shows "tier_rank a \<le> tier_rank b \<and> tier_rank b < 3"
proof -
  have sorted: "sorted (map tier_rank STAGE_ORDER)" and bound: "\<forall>r \<in> set (map tier_rank STAGE_ORDER). r < 3"
    by (simp_all add: tier_ranks numeral_eq_Suc del: replicate_Suc)
      (simp_all add: numeral_eq_Suc)
  have a: "i < length STAGE_ORDER" "STAGE_ORDER ! i = a"
    and b: "j < length STAGE_ORDER" "STAGE_ORDER ! j = b"
    using assms(1,2) by (auto simp: stage_index_Some_iff)
  have "map tier_rank STAGE_ORDER ! i \<le> map tier_rank STAGE_ORDER ! j"
    using sorted assms(3) b(1) by (intro sorted_nth_mono) auto
  then show ?thesis using a b bound by auto
qed

end
