(* ===== verification/Dag.thy ===== *)
theory Dag
  imports Manifest StageOrder
begin

text \<open>
  Dependency graphs between modules: \<^verbatim>\<open>crates/slicer-scheduler/src/dag.rs\<close> (the
  producer projection, the per-stage graph and the global edge list) and the serial edges of
  \<^verbatim>\<open>crates/slicer-scheduler/src/instrumentation.rs\<close>.  The nested loops of the source
  generate edges in a fixed order; here that order is a list comprehension, and the
  \<^verbatim>\<open>BTreeMap\<close> bookkeeping is a fold over it.
\<close>

section \<open>Producers\<close>

record producer =
  pr_id :: module_id
  pr_stage :: stage_id
  pr_ir_writes :: "string list"
  pr_ir_reads :: "string list"
  pr_claims_holds :: "string list"
  pr_claims_requires :: "string list"
  pr_requires_modules :: "module_id list"
  pr_min_ir_schema :: semver
  pr_max_ir_schema :: semver

text \<open>\<^verbatim>\<open>impl Producer for LoadedModule\<close>.\<close>

definition producer_of_module :: "loaded_module \<Rightarrow> producer" where
  "producer_of_module m =
     \<lparr>pr_id = lm_id m, pr_stage = lm_stage m, pr_ir_writes = lm_ir_writes m,
      pr_ir_reads = lm_ir_reads m, pr_claims_holds = lm_claims m,
      pr_claims_requires = lm_requires_claims m, pr_requires_modules = lm_requires_modules m,
      pr_min_ir_schema = lm_min_ir_schema m, pr_max_ir_schema = lm_max_ir_schema m\<rparr>"

text \<open>\<^verbatim>\<open>BuiltinProducer\<close> and its \<^verbatim>\<open>Producer\<close> implementation; the
  \<^verbatim>\<open>OnceLock\<close> caches hold copies of the static lists and are not observable.\<close>

record builtin_producer =
  bp_id :: module_id
  bp_stage :: stage_id
  bp_ir_writes :: "string list"
  bp_ir_reads :: "string list"
  bp_claims_holds :: "string list"
  bp_claims_requires :: "string list"
  bp_requires_modules :: "module_id list"
  bp_min_ir_schema :: semver
  bp_max_ir_schema :: semver

definition producer_of_builtin :: "builtin_producer \<Rightarrow> producer" where
  "producer_of_builtin b =
     \<lparr>pr_id = bp_id b, pr_stage = bp_stage b, pr_ir_writes = bp_ir_writes b,
      pr_ir_reads = bp_ir_reads b, pr_claims_holds = bp_claims_holds b,
      pr_claims_requires = bp_claims_requires b, pr_requires_modules = bp_requires_modules b,
      pr_min_ir_schema = bp_min_ir_schema b, pr_max_ir_schema = bp_max_ir_schema b\<rparr>"

section \<open>Edges\<close>

datatype edge_reason = IrWriteRead string | ExplicitRequires

record edge_to =
  et_to :: module_id
  et_reasons :: "edge_reason list"

record module_node =
  mn_module_id :: module_id
  mn_ir_reads :: "string list"
  mn_ir_writes :: "string list"
  mn_edges_to :: "edge_to list"

record global_edge =
  ge_from :: module_id
  ge_from_stage :: stage_id
  ge_to :: module_id
  ge_to_stage :: stage_id
  ge_reason :: edge_reason

record serial_edge =
  se_from :: module_id
  se_to :: module_id
  se_reason :: edge_reason

fun reason_tag :: "edge_reason \<Rightarrow> nat" where
  "reason_tag (IrWriteRead _) = 0"
| "reason_tag ExplicitRequires = 1"

text \<open>The last component of the comparators: writer paths are compared only between two
  write/read reasons, which the tag comparison before it has already separated.\<close>

fun reason_path :: "edge_reason \<Rightarrow> string" where
  "reason_path (IrWriteRead p) = p"
| "reason_path ExplicitRequires = ''''"

section \<open>The global edge list\<close>

definition global_edges_unsorted :: "producer list \<Rightarrow> global_edge list" where
  "global_edges_unsorted ps =
     [\<lparr>ge_from = pr_id w, ge_from_stage = pr_stage w, ge_to = pr_id r, ge_to_stage = pr_stage r,
       ge_reason = IrWriteRead path\<rparr>.
        w \<leftarrow> ps, r \<leftarrow> ps, pr_id w \<noteq> pr_id r,
        path \<leftarrow> pr_ir_writes w, path \<in> set (pr_ir_reads r)]
     @ [\<lparr>ge_from = pr_id q, ge_from_stage = pr_stage q, ge_to = pr_id p, ge_to_stage = pr_stage p,
         ge_reason = ExplicitRequires\<rparr>.
        p \<leftarrow> ps, required \<leftarrow> pr_requires_modules p,
        q \<leftarrow> (case find (\<lambda>x. pr_id x = required) ps of None \<Rightarrow> [] | Some q \<Rightarrow> [q])]"

definition build_global_dag :: "producer list \<Rightarrow> global_edge list" where
  "build_global_dag ps =
     sort_key (\<lambda>e. (ge_from e, ge_to e, reason_tag (ge_reason e), reason_path (ge_reason e)))
       (global_edges_unsorted ps)"

section \<open>Serial edges of one stage\<close>

definition serial_edges_unsorted :: "loaded_module list \<Rightarrow> serial_edge list" where
  "serial_edges_unsorted ms =
     [\<lparr>se_from = lm_id w, se_to = lm_id r, se_reason = IrWriteRead path\<rparr>.
        w \<leftarrow> ms, r \<leftarrow> ms, lm_id w \<noteq> lm_id r,
        path \<leftarrow> lm_ir_writes w, path \<in> set (lm_ir_reads r)]
     @ [\<lparr>se_from = required, se_to = lm_id m, se_reason = ExplicitRequires\<rparr>.
        m \<leftarrow> ms, required \<leftarrow> lm_requires_modules m, list_ex (\<lambda>x. lm_id x = required) ms]"

definition compute_serial_edges_for_stage :: "loaded_module list \<Rightarrow> serial_edge list" where
  "compute_serial_edges_for_stage ms =
     sort_key (\<lambda>e. (se_from e, se_to e, reason_tag (se_reason e), reason_path (se_reason e)))
       (serial_edges_unsorted ms)"

section \<open>The graph of one stage\<close>

type_synonym edges_by_source = "(module_id, (module_id, edge_reason list) btree_map) btree_map"

text \<open>\<^verbatim>\<open>by_dst.entry(to).or_default()\<close> with a reason pushed unless already present.\<close>

definition push_reason :: "edge_reason \<Rightarrow> edge_reason list \<Rightarrow> edge_reason list" where
  "push_reason r rs = (if r \<in> set rs then rs else rs @ [r])"

definition add_edge :: "module_id \<times> module_id \<times> edge_reason \<Rightarrow> edges_by_source \<Rightarrow> edges_by_source" where
  "add_edge = (\<lambda>(src, dst, r) m. btm_modify src (btm_entry dst [] (push_reason r)) m)"

definition stage_edge_events :: "producer list \<Rightarrow> (module_id \<times> module_id \<times> edge_reason) list" where
  "stage_edge_events sps =
     [(pr_id w, pr_id r, IrWriteRead path).
        w \<leftarrow> sps, r \<leftarrow> sps, pr_id w \<noteq> pr_id r,
        path \<leftarrow> pr_ir_writes w, path \<in> set (pr_ir_reads r)]
     @ [(required, pr_id p, ExplicitRequires). p \<leftarrow> sps, required \<leftarrow> pr_requires_modules p]"

definition node_of_producer :: "producer \<Rightarrow> module_node" where
  "node_of_producer p =
     \<lparr>mn_module_id = pr_id p, mn_ir_reads = pr_ir_reads p, mn_ir_writes = pr_ir_writes p,
      mn_edges_to = []\<rparr>"

definition edges_to_of :: "(module_id, edge_reason list) btree_map \<Rightarrow> edge_to list" where
  "edges_to_of by_dst = map (\<lambda>(to, rs). \<lparr>et_to = to, et_reasons = rs\<rparr>) by_dst"

definition build_intra_stage_dag :: "stage_id \<Rightarrow> producer list \<Rightarrow> module_node list" where
  "build_intra_stage_dag st ps =
     (let sps = filter (\<lambda>p. pr_stage p = st) ps;
          nodes = btm_collect (map (\<lambda>p. (pr_id p, node_of_producer p)) sps);
          empty = btm_collect (map (\<lambda>k. (k, [])) (btm_keys nodes));
          edges = fold add_edge (stage_edge_events sps) empty
      in map (\<lambda>(k, n). case btm_get edges k of
                None \<Rightarrow> n
              | Some by_dst \<Rightarrow> n\<lparr>mn_edges_to := edges_to_of by_dst\<rparr>) nodes)"


section \<open>What the stage graph contains\<close>

text \<open>The dependency rule, without the bookkeeping: \<open>v\<close> runs after \<open>u\<close> in stage \<open>st\<close>
  because of \<open>r\<close>.\<close>

definition stage_depends :: "stage_id \<Rightarrow> producer list \<Rightarrow> module_id \<Rightarrow> module_id \<Rightarrow> edge_reason \<Rightarrow> bool" where
  "stage_depends st ps u v r \<longleftrightarrow>
     (\<exists>p \<in> set ps. \<exists>q \<in> set ps. pr_stage p = st \<and> pr_stage q = st \<and> pr_id p = u \<and> pr_id q = v \<and>
        (case r of
           IrWriteRead path \<Rightarrow> u \<noteq> v \<and> path \<in> set (pr_ir_writes p) \<and> path \<in> set (pr_ir_reads q)
         | ExplicitRequires \<Rightarrow> u \<in> set (pr_requires_modules q)))"

definition dag_edge :: "module_node list \<Rightarrow> module_id \<Rightarrow> module_id \<Rightarrow> bool" where
  "dag_edge ns u v \<longleftrightarrow> (\<exists>n \<in> set ns. mn_module_id n = u \<and> v \<in> et_to ` set (mn_edges_to n))"

definition edge_has_reason :: "module_node list \<Rightarrow> module_id \<Rightarrow> module_id \<Rightarrow> edge_reason \<Rightarrow> bool" where
  "edge_has_reason ns u v r \<longleftrightarrow>
     (\<exists>n \<in> set ns. mn_module_id n = u \<and>
        (\<exists>e \<in> set (mn_edges_to n). et_to e = v \<and> r \<in> set (et_reasons e)))"

definition map_has_reason :: "edges_by_source \<Rightarrow> module_id \<Rightarrow> module_id \<Rightarrow> edge_reason \<Rightarrow> bool" where
  "map_has_reason m u v r \<longleftrightarrow>
     (\<exists>by_dst rs. btm_get m u = Some by_dst \<and> btm_get by_dst v = Some rs \<and> r \<in> set rs)"

definition dst_wf :: "(module_id, edge_reason list) btree_map \<Rightarrow> bool" where
  "dst_wf by_dst \<longleftrightarrow> btm_wf by_dst \<and>
     (\<forall>v rs. btm_get by_dst v = Some rs \<longrightarrow> rs \<noteq> [] \<and> distinct rs)"

definition edges_wf :: "edges_by_source \<Rightarrow> bool" where
  "edges_wf m \<longleftrightarrow> (\<forall>u by_dst. btm_get m u = Some by_dst \<longrightarrow> dst_wf by_dst)"

lemma add_edge_dom: "btm_get (add_edge e m) u = None \<longleftrightarrow> btm_get m u = None"
  by (cases e) (simp add: add_edge_def btm_modify_get)

lemma add_edge_has_reason:
  "map_has_reason (add_edge (s, d, q) m) u v r \<longleftrightarrow>
     map_has_reason m u v r \<or> (u = s \<and> v = d \<and> r = q \<and> btm_get m s \<noteq> None)"
  by (auto simp: map_has_reason_def add_edge_def btm_modify_get btm_entry_get push_reason_def
      split: option.splits if_splits)

lemma add_edge_edges_wf:
  assumes "edges_wf m"
  shows "edges_wf (add_edge e m)"
proof -
  obtain s d q where e: "e = (s, d, q)" by (cases e)
  have inner: "dst_wf by_dst \<Longrightarrow> dst_wf (btm_entry d [] (push_reason q) by_dst)" for by_dst
    by (auto simp: dst_wf_def btm_entry_get push_reason_def split: option.split)
  show ?thesis
    using assms inner by (auto simp: edges_wf_def e add_edge_def btm_modify_get)
qed

lemma fold_add_edge_has_reason:
  "map_has_reason (fold add_edge evs m) u v r \<longleftrightarrow>
     map_has_reason m u v r \<or> ((u, v, r) \<in> set evs \<and> btm_get m u \<noteq> None)"
proof (induction evs arbitrary: m)
  case Nil
  then show ?case by simp
next
  case (Cons e evs)
  obtain s d q where e: "e = (s, d, q)" by (cases e)
  show ?case
    using add_edge_dom [of "(s, d, q)" m u] by (auto simp: Cons.IH e add_edge_has_reason)
qed

lemma fold_add_edge_dom: "btm_get (fold add_edge evs m) u = None \<longleftrightarrow> btm_get m u = None"
  by (induction evs arbitrary: m) (auto simp: add_edge_dom)

lemma fold_add_edge_wf: "edges_wf m \<Longrightarrow> edges_wf (fold add_edge evs m)"
  by (induction evs arbitrary: m) (auto simp: add_edge_edges_wf)

lemma stage_edge_events_set:
  "(u, v, r) \<in> set (stage_edge_events sps) \<longleftrightarrow>
     (\<exists>p \<in> set sps. \<exists>q \<in> set sps. \<exists>path. pr_id p = u \<and> pr_id q = v \<and> u \<noteq> v \<and>
        path \<in> set (pr_ir_writes p) \<and> path \<in> set (pr_ir_reads q) \<and> r = IrWriteRead path)
     \<or> (\<exists>q \<in> set sps. pr_id q = v \<and> u \<in> set (pr_requires_modules q) \<and> r = ExplicitRequires)"
  by (auto simp: stage_edge_events_def split: if_splits)

text \<open>The intermediate maps of \<^const>\<open>build_intra_stage_dag\<close>, named for the proofs.\<close>

definition stage_nodes :: "stage_id \<Rightarrow> producer list \<Rightarrow> (module_id, module_node) btree_map" where
  "stage_nodes st ps =
     btm_collect (map (\<lambda>p. (pr_id p, node_of_producer p)) (filter (\<lambda>p. pr_stage p = st) ps))"

definition stage_edges :: "stage_id \<Rightarrow> producer list \<Rightarrow> edges_by_source" where
  "stage_edges st ps =
     fold add_edge (stage_edge_events (filter (\<lambda>p. pr_stage p = st) ps))
       (btm_collect (map (\<lambda>k. (k, [])) (btm_keys (stage_nodes st ps))))"

definition close_node :: "edges_by_source \<Rightarrow> module_id \<times> module_node \<Rightarrow> module_node" where
  "close_node edges = (\<lambda>(k, n). case btm_get edges k of
      None \<Rightarrow> n | Some by_dst \<Rightarrow> n\<lparr>mn_edges_to := edges_to_of by_dst\<rparr>)"

lemma build_intra_stage_dag_alt:
  "build_intra_stage_dag st ps = map (close_node (stage_edges st ps)) (stage_nodes st ps)"
  by (simp add: build_intra_stage_dag_def stage_nodes_def stage_edges_def close_node_def Let_def)

lemma stage_nodes_wf [simp]: "btm_wf (stage_nodes st ps)"
  by (simp add: stage_nodes_def)

lemma stage_nodes_keys: "set (btm_keys (stage_nodes st ps)) = pr_id ` {p \<in> set ps. pr_stage p = st}"
  by (simp add: stage_nodes_def btm_collect_keys image_image)

lemma stage_nodes_entry:
  assumes "(k, n) \<in> set (stage_nodes st ps)"
  shows "mn_module_id n = k"
proof -
  have "btm_get (stage_nodes st ps) k = Some n"
    using assms by (simp add: btm_get_Some_iff)
  then show ?thesis
    by (auto simp: stage_nodes_def btm_collect_get node_of_producer_def dest!: map_of_SomeD)
qed

lemma close_node_id: "mn_module_id (close_node edges (k, n)) = mn_module_id n"
  by (simp add: close_node_def split: option.split)

lemma build_intra_stage_dag_ids:
  "map mn_module_id (build_intra_stage_dag st ps) = btm_keys (stage_nodes st ps)"
  using stage_nodes_entry [of _ _ st ps]
  by (auto simp: build_intra_stage_dag_alt btm_keys_def close_node_id)

lemma build_intra_stage_dag_ids_sorted:
  "sorted_wrt (<) (map mn_module_id (build_intra_stage_dag st ps))"
  using stage_nodes_wf [of st ps] by (simp add: build_intra_stage_dag_ids btm_wf_def btm_keys_def)

lemma build_intra_stage_dag_ids_set:
  "set (map mn_module_id (build_intra_stage_dag st ps)) = pr_id ` {p \<in> set ps. pr_stage p = st}"
  by (simp only: build_intra_stage_dag_ids stage_nodes_keys)

lemma btm_get_const: "btm_get (btm_collect (map (\<lambda>k. (k, c)) ks)) u = (if u \<in> set ks then Some c else None)"
proof -
  have "map_of (map (\<lambda>k. (k, c)) xs) u = (if u \<in> set xs then Some c else None)" for xs
    by (induction xs) auto
  then show ?thesis by (simp add: btm_collect_get rev_map)
qed

lemma stage_edges_dom:
  "btm_get (stage_edges st ps) u \<noteq> None \<longleftrightarrow> u \<in> pr_id ` {p \<in> set ps. pr_stage p = st}"
  unfolding stage_edges_def fold_add_edge_dom btm_get_const stage_nodes_keys by simp

lemma stage_edges_wf: "edges_wf (stage_edges st ps)"
  unfolding stage_edges_def
  by (rule fold_add_edge_wf) (simp add: edges_wf_def dst_wf_def btm_get_const)

lemma stage_edges_reason: "map_has_reason (stage_edges st ps) u v r \<longleftrightarrow> stage_depends st ps u v r"
proof -
  have "map_has_reason (stage_edges st ps) u v r \<longleftrightarrow>
      (u, v, r) \<in> set (stage_edge_events (filter (\<lambda>p. pr_stage p = st) ps)) \<and>
      u \<in> pr_id ` {p \<in> set ps. pr_stage p = st}"
    by (simp add: stage_edges_def fold_add_edge_has_reason map_has_reason_def [of "btm_collect _"]
        btm_get_const stage_nodes_keys del: set_map)
  also have "\<dots> \<longleftrightarrow> stage_depends st ps u v r"
    unfolding stage_edge_events_set stage_depends_def
    by (cases r) auto
  finally show ?thesis .
qed

lemma dag_node_edges:
  assumes "n \<in> set (build_intra_stage_dag st ps)"
  shows "\<exists>by_dst. btm_get (stage_edges st ps) (mn_module_id n) = Some by_dst \<and>
           mn_edges_to n = edges_to_of by_dst"
proof -
  obtain k n0 where k: "(k, n0) \<in> set (stage_nodes st ps)" and n: "n = close_node (stage_edges st ps) (k, n0)"
    using assms by (auto simp: build_intra_stage_dag_alt)
  have "k \<in> set (btm_keys (stage_nodes st ps))"
    using k by (force simp: btm_keys_def)
  then obtain by_dst where "btm_get (stage_edges st ps) k = Some by_dst"
    using stage_edges_dom [of st ps k] stage_nodes_keys [of st ps] by auto
  then show ?thesis
    using n stage_nodes_entry [OF k] by (simp add: close_node_def)
qed

lemma edge_has_reason_iff: "edge_has_reason (build_intra_stage_dag st ps) u v r \<longleftrightarrow> stage_depends st ps u v r"
proof
  assume "edge_has_reason (build_intra_stage_dag st ps) u v r"
  then obtain n e where n: "n \<in> set (build_intra_stage_dag st ps)" "mn_module_id n = u"
    and e: "e \<in> set (mn_edges_to n)" "et_to e = v" "r \<in> set (et_reasons e)"
    by (auto simp: edge_has_reason_def)
  obtain by_dst where b: "btm_get (stage_edges st ps) u = Some by_dst" "mn_edges_to n = edges_to_of by_dst"
    using dag_node_edges [OF n(1)] n(2) by auto
  have "btm_wf by_dst" using stage_edges_wf b(1) by (auto simp: edges_wf_def dst_wf_def)
  then have "map_has_reason (stage_edges st ps) u v r"
    using b e by (auto simp: map_has_reason_def edges_to_of_def btm_get_Some_iff)
  then show "stage_depends st ps u v r" by (simp add: stage_edges_reason)
next
  assume "stage_depends st ps u v r"
  then obtain by_dst rs where b: "btm_get (stage_edges st ps) u = Some by_dst"
    and rs: "btm_get by_dst v = Some rs" "r \<in> set rs"
    by (auto simp: stage_edges_reason [symmetric] map_has_reason_def)
  have "u \<in> set (map mn_module_id (build_intra_stage_dag st ps))"
    using b stage_edges_dom [of st ps u] by (simp only: build_intra_stage_dag_ids_set) auto
  then obtain n where n: "n \<in> set (build_intra_stage_dag st ps)" "mn_module_id n = u" by auto
  then have "mn_edges_to n = edges_to_of by_dst" using dag_node_edges [OF n(1)] b by auto
  moreover have "(v, rs) \<in> set by_dst"
    using rs(1) by (auto simp: btm_get_def dest: map_of_SomeD)
  ultimately show "edge_has_reason (build_intra_stage_dag st ps) u v r"
    using n rs(2) by (force simp: edge_has_reason_def edges_to_of_def)
qed

lemma dag_edges_shape:
  assumes "n \<in> set (build_intra_stage_dag st ps)"
  shows "sorted_wrt (<) (map et_to (mn_edges_to n)) \<and>
         (\<forall>e \<in> set (mn_edges_to n). et_reasons e \<noteq> [] \<and> distinct (et_reasons e))"
proof -
  obtain by_dst where b: "btm_get (stage_edges st ps) (mn_module_id n) = Some by_dst"
    "mn_edges_to n = edges_to_of by_dst"
    using dag_node_edges [OF assms] by auto
  have wf: "btm_wf by_dst" and rs: "\<forall>v rs. btm_get by_dst v = Some rs \<longrightarrow> rs \<noteq> [] \<and> distinct rs"
    using stage_edges_wf b(1) by (auto simp: edges_wf_def dst_wf_def)
  have "map et_to (mn_edges_to n) = map fst by_dst"
    by (simp add: b(2) edges_to_of_def comp_def case_prod_beta)
  moreover have "\<forall>e \<in> set (mn_edges_to n). et_reasons e \<noteq> [] \<and> distinct (et_reasons e)"
    using rs wf by (auto simp: b(2) edges_to_of_def btm_get_Some_iff)
  ultimately show ?thesis using wf by (simp add: btm_wf_def)
qed

lemma dag_edge_iff: "dag_edge (build_intra_stage_dag st ps) u v \<longleftrightarrow> (\<exists>r. stage_depends st ps u v r)"
proof -
  have "dag_edge (build_intra_stage_dag st ps) u v \<longleftrightarrow> (\<exists>r. edge_has_reason (build_intra_stage_dag st ps) u v r)"
    using dag_edges_shape [of _ st ps]
    by (fastforce simp: dag_edge_def edge_has_reason_def neq_Nil_conv)
  then show ?thesis by (simp add: edge_has_reason_iff)
qed

lemma dag_edge_target:
  "dag_edge (build_intra_stage_dag st ps) u v \<Longrightarrow> v \<in> set (map mn_module_id (build_intra_stage_dag st ps))"
  by (auto simp only: build_intra_stage_dag_ids_set dag_edge_iff stage_depends_def)

section \<open>Properties\<close>

text \<open>C34: the graph of a stage is its dependency relation.  It has one node per producer id of the
  stage, in id order, and an edge from one module to another carries exactly the reasons why the
  second depends on the first: a path that one writes and the other reads, or an explicit
  requirement.\<close>

theorem stage_graph_is_dependency_relation:
  "sorted_wrt (<) (map mn_module_id (build_intra_stage_dag st ps)) \<and>
   set (map mn_module_id (build_intra_stage_dag st ps)) = pr_id ` {p \<in> set ps. pr_stage p = st} \<and>
   (edge_has_reason (build_intra_stage_dag st ps) u v r \<longleftrightarrow> stage_depends st ps u v r)"
  by (intro conjI build_intra_stage_dag_ids_sorted build_intra_stage_dag_ids_set edge_has_reason_iff)

end
