(* ===== verification/Topology.thy ===== *)
theory Topology
  imports Dag
begin

text \<open>
  In-stage ordering and reachability: \<^verbatim>\<open>crates/slicer-scheduler/src/topology.rs\<close> (the
  deterministic sort that the plan uses) and the private graph helpers of
  \<^verbatim>\<open>crates/slicer-scheduler/src/validation.rs\<close> (the first-in first-out sort of the cycle
  check and the reachability sets).  Both sorts are Kahn's algorithm over a different worklist;
  the locale \<open>kahn_worklist\<close> states what a worklist and its loop provide, its lemmas are
  proved once, and it is interpreted for both loops.  The decrement
  \<^verbatim>\<open>*degree -= 1\<close> of a \<^verbatim>\<open>usize\<close> is guarded in the model: \<open>None\<close> stands for
  the underflow, and the lemmas show that it never happens.
\<close>

section \<open>One step of Kahn's algorithm\<close>

type_synonym degrees = "(module_id, nat) btree_map"

fun release :: "(module_id \<Rightarrow> module_id list \<Rightarrow> module_id list) \<Rightarrow> module_id list
    \<Rightarrow> degrees \<Rightarrow> module_id list \<Rightarrow> (degrees \<times> module_id list) option" where
  "release push [] deg ready = Some (deg, ready)"
| "release push (d # ds) deg ready =
     (case btm_get deg d of
        None \<Rightarrow> release push ds deg ready
      | Some n \<Rightarrow>
          if n = 0 then None
          else release push ds (btm_modify d (\<lambda>k. k - 1) deg)
                 (if n - 1 = 0 then push d ready else ready))"

text \<open>The measure of both loops: modules still blocked plus modules waiting.\<close>

definition blocked :: "degrees \<Rightarrow> nat" where
  "blocked deg = length (filter (\<lambda>e. 0 < snd e) deg)"

lemma blocked_modify_le: "blocked (btm_modify d (\<lambda>k. k - 1) deg) \<le> blocked deg"
  by (induction deg) (auto simp: blocked_def btm_modify_def)

lemma blocked_modify_less:
  "btm_get deg d = Some (Suc 0) \<Longrightarrow> blocked (btm_modify d (\<lambda>k. k - 1) deg) < blocked deg"
proof (induction deg)
  case Nil
  then show ?case by simp
next
  case (Cons e deg)
  show ?case
  proof (cases "fst e = d")
    case True
    with Cons.prems have "snd e = Suc 0" by (cases e) (simp add: btm_get_def)
    with True blocked_modify_le [of d deg] show ?thesis
      by (simp add: blocked_def btm_modify_def)
  next
    case False
    with Cons.prems have "btm_get deg d = Some (Suc 0)" by (cases e) (auto simp: btm_get_def)
    from Cons.IH [OF this] False show ?thesis
      by (simp add: blocked_def btm_modify_def)
  qed
qed

lemma release_blocked:
  assumes "release push ds deg ready = Some (deg', ready')"
    and len: "\<And>x q. length (push x q) \<le> Suc (length q)"
  shows "blocked deg' + length ready' \<le> blocked deg + length ready"
  using assms(1)
proof (induction ds arbitrary: deg ready)
  case Nil
  then show ?case by simp
next
  case (Cons d ds)
  show ?case
  proof (cases "btm_get deg d")
    case None
    with Cons show ?thesis by simp
  next
    case (Some n)
    with Cons.prems have pos: "n \<noteq> 0" by (auto split: if_splits)
    let ?ready = "if n - 1 = 0 then push d ready else ready"
    have "blocked deg' + length ready' \<le> blocked (btm_modify d (\<lambda>k. k - 1) deg) + length ?ready"
      using Cons.prems Some pos by (intro Cons.IH) simp
    also have "\<dots> \<le> blocked deg + length ready"
      using pos Some blocked_modify_le [of d deg] blocked_modify_less [of deg d] len [of d ready]
      by (cases "n = 1") auto
    finally show ?thesis .
  qed
qed

section \<open>The two loops\<close>

text \<open>\<^verbatim>\<open>topology::topological_sort\<close>: the worklist is a \<^verbatim>\<open>BTreeSet\<close>, so the
  smallest ready id is taken first.\<close>

function topo_loop :: "(module_id \<Rightarrow> module_id list) \<Rightarrow> degrees \<Rightarrow> module_id list \<Rightarrow> module_id list
    \<Rightarrow> (degrees \<times> module_id list) option" where
  "topo_loop succs deg [] out = Some (deg, out)"
| "topo_loop succs deg (m # ready) out =
     (case release bts_insert (succs m) deg ready of
        None \<Rightarrow> None
      | Some (deg', ready') \<Rightarrow> topo_loop succs deg' ready' (out @ [m]))"
  by pat_completeness auto
termination
proof (relation "measure (\<lambda>(succs, deg, ready, out). blocked deg + length ready)", goal_cases)
  case 1
  show ?case by simp
next
  case (2 succs deg m ready out x deg' ready')
  then have rel: "release bts_insert (succs m) deg ready = Some (deg', ready')" by simp
  have "blocked deg' + length ready' \<le> blocked deg + length ready"
    by (rule release_blocked [OF rel]) (auto simp: bts_insert_def)
  then show ?case by simp
qed

text \<open>\<^verbatim>\<open>validation::topological_sort\<close>: the worklist is a \<^verbatim>\<open>VecDeque\<close>.\<close>

definition push_back :: "'a \<Rightarrow> 'a list \<Rightarrow> 'a list" where
  "push_back x q = q @ [x]"

function fifo_loop :: "(module_id \<Rightarrow> module_id list) \<Rightarrow> degrees \<Rightarrow> module_id list \<Rightarrow> module_id list
    \<Rightarrow> (degrees \<times> module_id list) option" where
  "fifo_loop succs deg [] out = Some (deg, out)"
| "fifo_loop succs deg (m # ready) out =
     (case release push_back (succs m) deg ready of
        None \<Rightarrow> None
      | Some (deg', ready') \<Rightarrow> fifo_loop succs deg' ready' (out @ [m]))"
  by pat_completeness auto
termination
proof (relation "measure (\<lambda>(succs, deg, ready, out). blocked deg + length ready)", goal_cases)
  case 1
  show ?case by simp
next
  case (2 succs deg m ready out x deg' ready')
  then have rel: "release push_back (succs m) deg ready = Some (deg', ready')" by simp
  have "blocked deg' + length ready' \<le> blocked deg + length ready"
    by (rule release_blocked [OF rel]) (simp add: push_back_def)
  then show ?case by simp
qed

section \<open>The two sorts\<close>

definition zero_degrees :: "module_node list \<Rightarrow> degrees" where
  "zero_degrees nodes = btm_collect (map (\<lambda>n. (mn_module_id n, 0)) nodes)"

definition count_edges :: "module_id list \<Rightarrow> degrees \<Rightarrow> degrees" where
  "count_edges targets deg = fold (\<lambda>d. btm_modify d Suc) targets deg"

definition ready_ids :: "degrees \<Rightarrow> module_id list" where
  "ready_ids deg = map fst (filter (\<lambda>e. snd e = 0) deg)"

definition adjacency :: "module_node list \<Rightarrow> (module_id, module_id list) btree_map" where
  "adjacency nodes =
     btm_collect (map (\<lambda>n. (mn_module_id n, bts_collect (map et_to (mn_edges_to n)))) nodes)"

definition adj_succs :: "(module_id, module_id list) btree_map \<Rightarrow> module_id \<Rightarrow> module_id list" where
  "adj_succs adj m = (case btm_get adj m of None \<Rightarrow> [] | Some ds \<Rightarrow> ds)"

text \<open>\<open>None\<close> is the panic of an underflowing counter; the result is \<^verbatim>\<open>Ok\<close> (\<open>Inr\<close>)
  with the order, or \<^verbatim>\<open>Err\<close> (\<open>Inl\<close>) with the modules that could not be placed.\<close>

definition topological_sort :: "module_node list \<Rightarrow> (module_id list + module_id list) option" where
  "topological_sort nodes =
     (let adj = adjacency nodes;
          deg = count_edges (concat (map snd adj)) (zero_degrees nodes)
      in case topo_loop (adj_succs adj) deg (ready_ids deg) [] of
           None \<Rightarrow> None
         | Some (deg', out) \<Rightarrow>
             Some (if length out = length nodes then Inr out
                   else Inl (map fst (filter (\<lambda>e. 0 < snd e) deg'))))"

definition node_succs :: "module_node list \<Rightarrow> module_id \<Rightarrow> module_id list" where
  "node_succs nodes m =
     (case find (\<lambda>n. mn_module_id n = m) nodes of
        None \<Rightarrow> [] | Some n \<Rightarrow> map et_to (mn_edges_to n))"

definition validation_topological_sort ::
  "module_node list \<Rightarrow> (module_id list + module_id list) option" where
  "validation_topological_sort nodes =
     (let deg = count_edges (concat (map (\<lambda>n. map et_to (mn_edges_to n)) nodes)) (zero_degrees nodes)
      in case fifo_loop (node_succs nodes) deg (ready_ids deg) [] of
           None \<Rightarrow> None
         | Some (deg', out) \<Rightarrow>
             Some (if length out = length nodes then Inr out
                   else Inl (filter (\<lambda>i. i \<notin> set out) (map mn_module_id nodes))))"

section \<open>Reachability\<close>

definition reach_adjacency :: "module_node list \<Rightarrow> (module_id, module_id list) btree_map" where
  "reach_adjacency nodes =
     btm_collect (map (\<lambda>n. (mn_module_id n, map et_to (mn_edges_to n))) nodes)"

definition reach_universe :: "(module_id, module_id list) btree_map \<Rightarrow> module_id list \<Rightarrow> module_id set" where
  "reach_universe adj queue = set queue \<union> (\<Union>e \<in> set adj. set (snd e))"

lemma adj_succs_universe: "set (adj_succs adj x) \<subseteq> reach_universe adj queue"
proof (cases "btm_get adj x")
  case None
  then show ?thesis by (simp add: adj_succs_def)
next
  case (Some ds)
  then have "(x, ds) \<in> set adj" by (simp add: btm_get_def map_of_SomeD)
  then have "set ds \<subseteq> (\<Union>e \<in> set adj. set (snd e))" by force
  with Some show ?thesis by (auto simp: adj_succs_def reach_universe_def)
qed

lemma finite_reach_universe [simp]: "finite (reach_universe adj queue)"
  by (simp add: reach_universe_def)

function reach_loop :: "(module_id, module_id list) btree_map \<Rightarrow> module_id list \<Rightarrow> module_id list
    \<Rightarrow> module_id list" where
  "reach_loop adj [] visited = visited"
| "reach_loop adj (x # queue) visited =
     (if x \<in> set visited then reach_loop adj queue visited
      else reach_loop adj (queue @ adj_succs adj x) (bts_insert x visited))"
  by pat_completeness auto

termination
proof (relation "inv_image (finite_psubset <*lex*> less_than)
    (\<lambda>(adj, queue, visited). (reach_universe adj queue - set visited, length queue))")
  show "wf (inv_image (finite_psubset <*lex*> less_than)
      (\<lambda>(adj, queue, visited). (reach_universe adj queue - set visited, length queue)))"
    by (simp add: wf_finite_psubset wf_lex_prod)
next
  fix adj and x :: module_id and queue visited
  assume "x \<in> set visited"
  then have "reach_universe adj queue - set visited = reach_universe adj (x # queue) - set visited"
    by (auto simp: reach_universe_def)
  then show "((adj, queue, visited), (adj, x # queue, visited)) \<in> inv_image (finite_psubset <*lex*> less_than)
      (\<lambda>(adj, queue, visited). (reach_universe adj queue - set visited, length queue))"
    by simp
next
  fix adj and x :: module_id and queue visited
  assume new: "x \<notin> set visited"
  have "reach_universe adj (queue @ adj_succs adj x) \<subseteq> reach_universe adj (x # queue)"
    using adj_succs_universe [of adj x queue] by (auto simp: reach_universe_def)
  moreover have "x \<in> reach_universe adj (x # queue)" by (simp add: reach_universe_def)
  ultimately have "reach_universe adj (queue @ adj_succs adj x) - insert x (set visited)
      \<subset> reach_universe adj (x # queue) - set visited"
    using new by auto
  then show "((adj, queue @ adj_succs adj x, bts_insert x visited), (adj, x # queue, visited))
      \<in> inv_image (finite_psubset <*lex*> less_than)
      (\<lambda>(adj, queue, visited). (reach_universe adj queue - set visited, length queue))"
    by (simp add: finite_psubset_def)
qed

definition compute_reachability :: "module_node list \<Rightarrow> (module_id, module_id list) btree_map" where
  "compute_reachability nodes =
     (let adj = reach_adjacency nodes
      in btm_collect (map (\<lambda>n. (mn_module_id n, reach_loop adj (adj_succs adj (mn_module_id n)) [])) nodes))"

definition can_reach :: "(module_id, module_id list) btree_map \<Rightarrow> module_id \<Rightarrow> module_id \<Rightarrow> bool" where
  "can_reach reachability from to =
     (case btm_get reachability from of None \<Rightarrow> False | Some reachable \<Rightarrow> to \<in> set reachable)"


section \<open>Kahn's algorithm over any worklist\<close>

definition indeg :: "(module_id \<Rightarrow> module_id list) \<Rightarrow> module_id set \<Rightarrow> module_id \<Rightarrow> nat" where
  "indeg succs S d = (\<Sum>m \<in> S. count_list (succs m) d)"

definition precedes :: "(module_id \<Rightarrow> module_id list) \<Rightarrow> module_id set \<Rightarrow> module_id list \<Rightarrow> bool" where
  "precedes succs N out \<longleftrightarrow>
     (\<forall>i < length out. \<forall>m \<in> N. out ! i \<in> set (succs m) \<longrightarrow> m \<in> set (take i out))"

definition kahn_inv :: "(module_id \<Rightarrow> module_id list) \<Rightarrow> module_id set \<Rightarrow> degrees
    \<Rightarrow> module_id list \<Rightarrow> module_id list \<Rightarrow> bool" where
  "kahn_inv succs N deg ready out \<longleftrightarrow>
     finite N \<and> (\<forall>d. d \<notin> N \<longrightarrow> btm_get deg d = None) \<and>
     (\<forall>d \<in> N. btm_get deg d = Some (indeg succs (N - set out) d)) \<and>
     distinct (out @ ready) \<and> set (out @ ready) \<subseteq> N \<and>
     (\<forall>d \<in> N. indeg succs (N - set out) d = 0 \<longleftrightarrow> d \<in> set (out @ ready)) \<and>
     precedes succs N out"

definition succ_rel :: "(module_id \<Rightarrow> module_id list) \<Rightarrow> module_id set \<Rightarrow> (module_id \<times> module_id) set" where
  "succ_rel succs N = {(u, v). u \<in> N \<and> v \<in> N \<and> v \<in> set (succs u)}"

lemma indeg_remove:
  "finite S \<Longrightarrow> m \<in> S \<Longrightarrow> indeg succs S d = indeg succs (S - {m}) d + count_list (succs m) d"
  by (simp add: indeg_def sum.remove add.commute)

lemma indeg_zero_iff: "finite S \<Longrightarrow> indeg succs S d = 0 \<longleftrightarrow> (\<forall>m \<in> S. d \<notin> set (succs m))"
  by (simp add: indeg_def count_list_0_iff)

locale kahn_worklist =
  fixes push :: "module_id \<Rightarrow> module_id list \<Rightarrow> module_id list"
    and loop :: "(module_id \<Rightarrow> module_id list) \<Rightarrow> degrees \<Rightarrow> module_id list \<Rightarrow> module_id list
      \<Rightarrow> (degrees \<times> module_id list) option"
  assumes set_push: "set (push x q) = insert x (set q)"
    and distinct_push: "distinct q \<Longrightarrow> x \<notin> set q \<Longrightarrow> distinct (push x q)"
    and loop_Nil: "loop succs deg [] out = Some (deg, out)"
    and loop_Cons: "loop succs deg (m # ready) out =
      (case release push (succs m) deg ready of
         None \<Rightarrow> None | Some (deg', ready') \<Rightarrow> loop succs deg' ready' (out @ [m]))"
begin

lemma release_correct:
  assumes "\<forall>d. d \<notin> N \<longrightarrow> btm_get deg d = None"
    and "\<forall>d \<in> N. btm_get deg d = Some (g d + count_list ds d)"
    and "distinct ready" and "\<forall>d \<in> set ready. d \<in> N \<and> g d + count_list ds d = 0"
  shows "\<exists>deg' ready'. release push ds deg ready = Some (deg', ready') \<and>
    (\<forall>d. d \<notin> N \<longrightarrow> btm_get deg' d = None) \<and> (\<forall>d \<in> N. btm_get deg' d = Some (g d)) \<and>
    distinct ready' \<and> set ready' = set ready \<union> {d \<in> N. g d = 0 \<and> d \<in> set ds}"
  using assms
proof (induction ds arbitrary: deg ready)
  case Nil
  then show ?case by simp
next
  case (Cons x ds)
  show ?case
  proof (cases "x \<in> N")
    case False
    have none: "btm_get deg x = None" using Cons.prems(1) False by blast
    have h2: "\<forall>d \<in> N. btm_get deg d = Some (g d + count_list ds d)"
      using Cons.prems(2) False by auto
    have h4: "\<forall>d \<in> set ready. d \<in> N \<and> g d + count_list ds d = 0"
      using Cons.prems(4) by (auto split: if_splits)
    have "{d \<in> N. g d = 0 \<and> d \<in> set (x # ds)} = {d \<in> N. g d = 0 \<and> d \<in> set ds}"
      using False by auto
    then show ?thesis
      using Cons.IH [OF Cons.prems(1) h2 Cons.prems(3) h4] none by simp
  next
    case True
    let ?n = "g x + count_list ds x"
    let ?deg = "btm_modify x (\<lambda>k. k - 1) deg"
    let ?ready = "if ?n = 0 then push x ready else ready"
    have get: "btm_get deg x = Some (Suc ?n)" using Cons.prems(2) True by simp
    have x: "x \<notin> set ready" using Cons.prems(4) by auto
    have h1: "\<forall>d. d \<notin> N \<longrightarrow> btm_get ?deg d = None"
      using Cons.prems(1) True by (simp add: btm_modify_get)
    have h2: "\<forall>d \<in> N. btm_get ?deg d = Some (g d + count_list ds d)"
      using Cons.prems(2) get by (simp add: btm_modify_get)
    have h3: "distinct ?ready"
      using Cons.prems(3) x by (simp add: distinct_push)
    have h4: "\<forall>d \<in> set ?ready. d \<in> N \<and> g d + count_list ds d = 0"
      using Cons.prems(4) True x by (auto simp: set_push split: if_splits)
    have new: "set ?ready \<union> {d \<in> N. g d = 0 \<and> d \<in> set ds} =
        set ready \<union> {d \<in> N. g d = 0 \<and> d \<in> set (x # ds)}"
    proof (cases "?n = 0")
      case True
      then show ?thesis using \<open>x \<in> N\<close> by (auto simp: set_push)
    next
      case False
      then have "g x = 0 \<Longrightarrow> x \<in> set ds" by (metis add_0 count_notin)
      then show ?thesis using False by auto
    qed
    have "release push (x # ds) deg ready = release push ds ?deg ?ready"
      using get by simp
    then show ?thesis using Cons.IH [OF h1 h2 h3 h4] new by simp
  qed
qed

lemma kahn_step:
  assumes inv: "kahn_inv succs N deg (m # ready) out"
  shows "\<exists>deg' ready'. release push (succs m) deg ready = Some (deg', ready') \<and>
    kahn_inv succs N deg' ready' (out @ [m])"
proof -
  let ?S = "N - set out"
  have fin: "finite ?S" and mS: "m \<in> ?S" and mready: "m \<notin> set ready"
    using inv by (auto simp: kahn_inv_def)
  define g where "g = indeg succs (?S - {m})"
  have split: "indeg succs ?S d = g d + count_list (succs m) d" for d
    unfolding g_def by (rule indeg_remove [OF fin mS])
  have zero: "d \<in> N \<Longrightarrow> indeg succs ?S d = 0 \<longleftrightarrow> d \<in> set (out @ m # ready)" for d
    using inv by (auto simp: kahn_inv_def)
  have ready: "\<forall>d \<in> set ready. d \<in> N \<and> g d + count_list (succs m) d = 0"
    using inv zero split by (auto simp: kahn_inv_def)
  obtain deg' ready' where r: "release push (succs m) deg ready = Some (deg', ready')"
    "\<forall>d. d \<notin> N \<longrightarrow> btm_get deg' d = None" "\<forall>d \<in> N. btm_get deg' d = Some (g d)"
    "distinct ready'" "set ready' = set ready \<union> {d \<in> N. g d = 0 \<and> d \<in> set (succs m)}"
    using release_correct [of N deg g "succs m" ready] inv split ready
    by (auto simp: kahn_inv_def)
  have S': "N - set (out @ [m]) = ?S - {m}" by auto
  have "\<forall>d \<in> N. g d = 0 \<longleftrightarrow> d \<in> set ((out @ [m]) @ ready')"
    using zero split r(5) by (auto simp: count_list_0_iff)
  moreover have "distinct ((out @ [m]) @ ready')"
  proof -
    have "d \<notin> set (out @ [m])" if "d \<in> N" "d \<in> set (succs m)" for d
      using zero [OF that(1)] split [of d] that(2) by (auto simp: count_list_0_iff)
    then show ?thesis using r(4,5) inv by (auto simp: kahn_inv_def)
  qed
  moreover have "set ((out @ [m]) @ ready') \<subseteq> N"
    using r(5) inv by (auto simp: kahn_inv_def)
  moreover have "precedes succs N (out @ [m])"
  proof -
    have "indeg succs ?S m = 0" using zero [of m] mS by auto
    then have "\<forall>u \<in> ?S. m \<notin> set (succs u)" by (simp only: indeg_zero_iff [OF fin])
    then show ?thesis using inv by (auto simp: kahn_inv_def precedes_def nth_append less_Suc_eq)
  qed
  ultimately have "kahn_inv succs N deg' ready' (out @ [m])"
    using r inv unfolding kahn_inv_def S' g_def by auto
  with r(1) show ?thesis by blast
qed

lemma kahn_loop:
  assumes "kahn_inv succs N deg ready out"
  shows "\<exists>deg' out'. loop succs deg ready out = Some (deg', out') \<and> kahn_inv succs N deg' [] out'"
  using assms
proof (induction "card (N - set out)" arbitrary: deg ready out rule: less_induct)
  case less
  show ?case
  proof (cases ready)
    case Nil
    with less.prems show ?thesis by (simp add: loop_Nil)
  next
    case (Cons m ready0)
    obtain deg' ready' where r: "release push (succs m) deg ready0 = Some (deg', ready')"
      and inv: "kahn_inv succs N deg' ready' (out @ [m])"
      using kahn_step less.prems Cons by blast
    have "card (N - set (out @ [m])) < card (N - set out)"
      using less.prems Cons by (intro psubset_card_mono) (auto simp: kahn_inv_def)
    from less.hyps [OF this inv] r Cons show ?thesis by (simp add: loop_Cons)
  qed
qed

end

text \<open>What a finished run says, whatever the worklist was.\<close>

lemma kahn_stuck:
  assumes "kahn_inv succs N deg [] out" and "d \<in> N - set out"
  shows "\<exists>m \<in> N - set out. d \<in> set (succs m)"
proof -
  have "finite (N - set out)" and "indeg succs (N - set out) d \<noteq> 0"
    using assms by (auto simp: kahn_inv_def)
  then show ?thesis using indeg_zero_iff [of "N - set out" succs d] by simp
qed

lemma kahn_complete_acyclic:
  assumes inv: "kahn_inv succs N deg [] out" and all: "set out = N"
  shows "acyclic (succ_rel succs N)"
proof -
  have dist: "distinct out" and prec: "precedes succs N out" using inv by (auto simp: kahn_inv_def)
  define pos where "pos = (\<lambda>v. THE i. i < length out \<and> out ! i = v)"
  have pos: "pos (out ! i) = i" if "i < length out" for i
    unfolding pos_def using that dist by (auto simp: nth_eq_iff_index_eq)
  have "pos u < pos v" if "(u, v) \<in> succ_rel succs N" for u v
  proof -
    have "v \<in> set out" using that all by (simp add: succ_rel_def)
    then obtain i where i: "i < length out" "out ! i = v" by (meson in_set_conv_nth)
    then have "u \<in> set (take i out)" using prec that by (auto simp: precedes_def succ_rel_def)
    then obtain j where "j < i" "out ! j = u" by (auto simp: in_set_conv_nth)
    then show ?thesis using pos i by auto
  qed
  then have "succ_rel succs N \<subseteq> measure pos" by auto
  then show ?thesis by (metis acyclic_subset wf_acyclic wf_measure)
qed

lemma kahn_acyclic_complete:
  assumes inv: "kahn_inv succs N deg [] out" and ac: "acyclic (succ_rel succs N)"
  shows "set out = N"
proof (rule ccontr)
  assume "set out \<noteq> N"
  moreover have sub: "set out \<subseteq> N" and fin: "finite N" using inv by (auto simp: kahn_inv_def)
  ultimately obtain d where d: "d \<in> N - set out" by blast
  have "succ_rel succs N \<subseteq> N \<times> N" by (auto simp: succ_rel_def)
  then have "finite (succ_rel succs N)" using fin by (meson finite_SigmaI finite_subset)
  then have "wf (succ_rel succs N)" using ac by (rule finite_acyclic_wf)
  then obtain z where z: "z \<in> N - set out" "\<And>y. (y, z) \<in> succ_rel succs N \<Longrightarrow> y \<notin> N - set out"
    using wfE_min [OF _ d] by metis
  then show False using kahn_stuck [OF inv z(1)] by (auto simp: succ_rel_def)
qed

lemma kahn_complete_iff:
  "kahn_inv succs N deg [] out \<Longrightarrow> set out = N \<longleftrightarrow> acyclic (succ_rel succs N)"
  using kahn_complete_acyclic kahn_acyclic_complete by blast

interpretation ordered_kahn: kahn_worklist bts_insert topo_loop
  by unfold_locales (auto simp: bts_insert_def distinct_insort set_insort_key split: option.split)

interpretation fifo_kahn: kahn_worklist push_back fifo_loop
  by unfold_locales (auto simp: push_back_def split: option.split)


section \<open>The sorts establish the invariant\<close>

abbreviation node_ids :: "module_node list \<Rightarrow> module_id list" where
  "node_ids nodes \<equiv> map mn_module_id nodes"

definition dag_rel :: "module_node list \<Rightarrow> (module_id \<times> module_id) set" where
  "dag_rel nodes = {(u, v). dag_edge nodes u v \<and> v \<in> set (node_ids nodes)}"

lemma count_edges_get:
  "btm_get (count_edges ts deg) d = map_option (\<lambda>n. n + count_list ts d) (btm_get deg d)"
proof (induction ts arbitrary: deg)
  case Nil
  then show ?case by (simp add: count_edges_def option.map_ident)
next
  case (Cons t ts)
  have "count_edges (t # ts) deg = count_edges ts (btm_modify t Suc deg)"
    by (simp add: count_edges_def)
  then show ?case
    using Cons.IH by (cases "btm_get deg d") (auto simp: btm_modify_get)
qed

lemma count_edges_wf: "btm_wf deg \<Longrightarrow> btm_wf (count_edges ts deg)"
  by (induction ts arbitrary: deg) (auto simp: count_edges_def)

lemma zero_degrees_get:
  "btm_get (zero_degrees nodes) d = (if d \<in> set (node_ids nodes) then Some 0 else None)"
  using btm_get_const [of 0 "node_ids nodes" d] by (simp add: zero_degrees_def comp_def)

lemma ready_ids_set: "btm_wf deg \<Longrightarrow> set (ready_ids deg) = {d. btm_get deg d = Some 0}"
  by (force simp: ready_ids_def btm_get_Some_iff)

lemma ready_ids_distinct: "btm_wf deg \<Longrightarrow> distinct (ready_ids deg)"
  by (simp add: ready_ids_def distinct_map_filter btm_wf_def strict_sorted_iff)

lemma kahn_inv_init:
  fixes nodes defines "N \<equiv> set (node_ids nodes)"
  assumes deg: "deg = count_edges ts (zero_degrees nodes)"
    and cnt: "\<And>d. d \<in> N \<Longrightarrow> count_list ts d = indeg succs N d"
  shows "kahn_inv succs N deg (ready_ids deg) []"
proof -
  have wf: "btm_wf deg" by (simp add: deg count_edges_wf zero_degrees_def)
  have get: "btm_get deg d = (if d \<in> N then Some (indeg succs N d) else None)" for d
    using cnt [of d] by (auto simp: deg count_edges_get zero_degrees_get N_def)
  have "finite N" by (simp add: N_def)
  then show ?thesis
    using get ready_ids_distinct [OF wf] ready_ids_set [OF wf]
    by (auto simp: kahn_inv_def precedes_def split: if_splits)
qed

text \<open>Counting every edge of an association list counts each source once.\<close>

lemma count_concat_indeg:
  assumes "distinct (map fst kvs)"
  shows "count_list (concat (map snd kvs)) d =
    indeg (\<lambda>k. case map_of kvs k of None \<Rightarrow> [] | Some ds \<Rightarrow> ds) (set (map fst kvs)) d"
proof -
  let ?succs = "\<lambda>k. case map_of kvs k of None \<Rightarrow> [] | Some ds \<Rightarrow> ds"
  have "count_list (concat xss) d = sum_list (map (\<lambda>xs. count_list xs d) xss)" for xss
    by (induction xss) simp_all
  then have "count_list (concat (map snd kvs)) d = sum_list (map (\<lambda>e. count_list (snd e) d) kvs)"
    by (simp add: comp_def)
  also have "\<dots> = sum_list (map (\<lambda>e. count_list (?succs (fst e)) d) kvs)"
    using assms by (intro arg_cong [where f = sum_list] map_cong refl) auto
  also have "\<dots> = sum_list (map (\<lambda>k. count_list (?succs k) d) (map fst kvs))"
    by (simp add: comp_def)
  also have "\<dots> = indeg ?succs (set (map fst kvs)) d"
    unfolding indeg_def using assms by (rule sum.distinct_set_conv_list [symmetric])
  finally show ?thesis .
qed

lemma adjacency_get:
  "distinct (node_ids nodes) \<Longrightarrow> btm_get (adjacency nodes) m =
     map_of (map (\<lambda>n. (mn_module_id n, bts_collect (map et_to (mn_edges_to n)))) nodes) m"
  by (simp add: adjacency_def btm_collect_get_distinct comp_def)

lemma adjacency_keys: "set (btm_keys (adjacency nodes)) = set (node_ids nodes)"
  by (simp add: adjacency_def btm_collect_keys image_image)

lemma node_succs_map_of:
  "node_succs nodes m =
     (case map_of (map (\<lambda>n. (mn_module_id n, map et_to (mn_edges_to n))) nodes) m of
        None \<Rightarrow> [] | Some ds \<Rightarrow> ds)"
  by (induction nodes) (auto simp: node_succs_def split: option.splits)

lemma topo_init:
  assumes "distinct (node_ids nodes)"
    and "deg = count_edges (concat (map snd (adjacency nodes))) (zero_degrees nodes)"
  shows "kahn_inv (adj_succs (adjacency nodes)) (set (node_ids nodes)) deg (ready_ids deg) []"
proof (rule kahn_inv_init [OF assms(2)])
  fix d
  have "distinct (map fst (adjacency nodes))"
    using btm_wf_distinct [of "adjacency nodes"] by (simp add: adjacency_def btm_keys_def)
  from count_concat_indeg [OF this, of d]
  show "count_list (concat (map snd (adjacency nodes))) d =
      indeg (adj_succs (adjacency nodes)) (set (node_ids nodes)) d"
    using adjacency_keys [of nodes]
    by (simp add: adj_succs_def [abs_def] btm_get_def btm_keys_def)
qed

lemma fifo_init:
  assumes "distinct (node_ids nodes)"
    and "deg = count_edges (concat (map (\<lambda>n. map et_to (mn_edges_to n)) nodes)) (zero_degrees nodes)"
  shows "kahn_inv (node_succs nodes) (set (node_ids nodes)) deg (ready_ids deg) []"
proof (rule kahn_inv_init [OF assms(2)])
  fix d
  let ?kvs = "map (\<lambda>n. (mn_module_id n, map et_to (mn_edges_to n))) nodes"
  have "distinct (map fst ?kvs)" using assms(1) by (simp add: comp_def)
  from count_concat_indeg [OF this, of d]
  show "count_list (concat (map (\<lambda>n. map et_to (mn_edges_to n)) nodes)) d =
      indeg (node_succs nodes) (set (node_ids nodes)) d"
    by (simp add: node_succs_map_of [abs_def] comp_def image_image)
qed

lemma map_of_nodes:
  assumes "distinct (node_ids nodes)"
  shows "map_of (map (\<lambda>n. (mn_module_id n, f n)) nodes) u = Some x \<longleftrightarrow>
     (\<exists>n \<in> set nodes. mn_module_id n = u \<and> f n = x)"
  using assms by (subst map_of_eq_Some_iff) (auto simp: comp_def image_iff)

lemma lookup_targets:
  assumes "distinct (node_ids nodes)" and f: "\<And>n. set (f n) = et_to ` set (mn_edges_to n)"
  shows "v \<in> set (case map_of (map (\<lambda>n. (mn_module_id n, f n)) nodes) u of None \<Rightarrow> [] | Some ds \<Rightarrow> ds)
    \<longleftrightarrow> dag_edge nodes u v"
proof (cases "map_of (map (\<lambda>n. (mn_module_id n, f n)) nodes) u")
  case None
  then have "u \<notin> mn_module_id ` set nodes"
    by (simp add: map_of_eq_None_iff image_image)
  then have "\<not> dag_edge nodes u v" by (auto simp: dag_edge_def)
  with None show ?thesis by simp
next
  case (Some ds)
  then have "\<exists>n \<in> set nodes. mn_module_id n = u \<and> f n = ds"
    by (simp only: map_of_nodes [OF assms(1)])
  then obtain n where n: "n \<in> set nodes" "mn_module_id n = u" "f n = ds" by (elim bexE conjE)
  have uniq: "n' = n" if "n' \<in> set nodes" "mn_module_id n' = u" for n'
  proof (rule inj_onD [of mn_module_id "set nodes"])
    show "inj_on mn_module_id (set nodes)" using assms(1) by (simp only: distinct_map)
  qed (simp_all only: n that)
  have "dag_edge nodes u v \<longleftrightarrow> v \<in> et_to ` set (mn_edges_to n)"
  proof
    assume "dag_edge nodes u v"
    then obtain n' where n': "n' \<in> set nodes" "mn_module_id n' = u" "v \<in> et_to ` set (mn_edges_to n')"
      unfolding dag_edge_def by (elim bexE conjE)
    then show "v \<in> et_to ` set (mn_edges_to n)" using uniq [OF n'(1,2)] by simp
  next
    assume "v \<in> et_to ` set (mn_edges_to n)"
    then show "dag_edge nodes u v" unfolding dag_edge_def using n(1,2) by (intro bexI conjI)
  qed
  moreover have "set ds = et_to ` set (mn_edges_to n)" unfolding n(3) [symmetric] by (rule f)
  ultimately show ?thesis unfolding Some by simp
qed

lemma dag_edge_adj:
  assumes "distinct (node_ids nodes)"
  shows "v \<in> set (adj_succs (adjacency nodes) u) \<longleftrightarrow> dag_edge nodes u v"
  unfolding adj_succs_def adjacency_get [OF assms] by (rule lookup_targets [OF assms]) simp

lemma dag_edge_node_succs:
  assumes "distinct (node_ids nodes)"
  shows "v \<in> set (node_succs nodes u) \<longleftrightarrow> dag_edge nodes u v"
  unfolding node_succs_map_of by (rule lookup_targets [OF assms]) simp

lemma dag_edge_source: "dag_edge nodes u v \<Longrightarrow> u \<in> set (node_ids nodes)"
  by (auto simp: dag_edge_def)

lemma succ_rel_dag_rel:
  assumes "\<And>u v. v \<in> set (succs u) \<longleftrightarrow> dag_edge nodes u v"
  shows "succ_rel succs (set (node_ids nodes)) = dag_rel nodes"
  using assms dag_edge_source by (auto simp: succ_rel_def dag_rel_def)

section \<open>Results about the sorts\<close>

lemma topo_loop_result:
  assumes "distinct (node_ids nodes)"
  obtains deg out where
    "topological_sort nodes = Some (if length out = length nodes then Inr out
        else Inl (map fst (filter (\<lambda>e. 0 < snd e) deg)))"
    "kahn_inv (adj_succs (adjacency nodes)) (set (node_ids nodes)) deg [] out"
  using ordered_kahn.kahn_loop [OF topo_init [OF assms refl]]
  by (auto simp: topological_sort_def Let_def split: option.splits)

lemma fifo_loop_result:
  assumes "distinct (node_ids nodes)"
  obtains deg out where
    "validation_topological_sort nodes = Some (if length out = length nodes then Inr out
        else Inl (filter (\<lambda>i. i \<notin> set out) (node_ids nodes)))"
    "kahn_inv (node_succs nodes) (set (node_ids nodes)) deg [] out"
  using fifo_kahn.kahn_loop [OF fifo_init [OF assms refl]]
  by (auto simp: validation_topological_sort_def Let_def split: option.splits)

lemma kahn_length_iff:
  assumes "kahn_inv succs (set (node_ids nodes)) deg [] out" and "distinct (node_ids nodes)"
  shows "length out = length nodes \<longleftrightarrow> set out = set (node_ids nodes)"
proof -
  have "distinct out" "set out \<subseteq> set (node_ids nodes)" using assms(1) by (auto simp: kahn_inv_def)
  moreover have "length out = card (set out)" "length nodes = card (set (node_ids nodes))"
    using \<open>distinct out\<close> assms(2) by (simp_all only: distinct_card [symmetric] length_map) 
      (metis distinct_card length_map)
  ultimately show ?thesis by (metis List.finite_set card_subset_eq)
qed

lemma topological_sort_Inr_iff:
  assumes "distinct (node_ids nodes)"
  shows "(\<exists>out. topological_sort nodes = Some (Inr out)) \<longleftrightarrow> acyclic (dag_rel nodes)"
proof -
  obtain deg out where res: "topological_sort nodes = Some (if length out = length nodes then Inr out
        else Inl (map fst (filter (\<lambda>e. 0 < snd e) deg)))"
    and inv: "kahn_inv (adj_succs (adjacency nodes)) (set (node_ids nodes)) deg [] out"
    by (rule topo_loop_result [OF assms])
  have rel: "succ_rel (adj_succs (adjacency nodes)) (set (node_ids nodes)) = dag_rel nodes"
    by (rule succ_rel_dag_rel) (rule dag_edge_adj [OF assms])
  show ?thesis
    using res kahn_length_iff [OF inv assms] kahn_complete_iff [OF inv] unfolding rel
    by (simp split: if_splits)
qed

lemma validation_topological_sort_Inr_iff:
  assumes "distinct (node_ids nodes)"
  shows "(\<exists>out. validation_topological_sort nodes = Some (Inr out)) \<longleftrightarrow> acyclic (dag_rel nodes)"
proof -
  obtain deg out where res: "validation_topological_sort nodes = Some (if length out = length nodes
        then Inr out else Inl (filter (\<lambda>i. i \<notin> set out) (node_ids nodes)))"
    and inv: "kahn_inv (node_succs nodes) (set (node_ids nodes)) deg [] out"
    by (rule fifo_loop_result [OF assms])
  have rel: "succ_rel (node_succs nodes) (set (node_ids nodes)) = dag_rel nodes"
    by (rule succ_rel_dag_rel) (rule dag_edge_node_succs [OF assms])
  show ?thesis
    using res kahn_length_iff [OF inv assms] kahn_complete_iff [OF inv] unfolding rel
    by (simp split: if_splits)
qed

subsection \<open>The modules reported as unplaced\<close>

lemma release_keys: "release push ds deg ready = Some (deg', ready') \<Longrightarrow> btm_keys deg' = btm_keys deg"
  by (induction push ds deg ready rule: release.induct) (auto split: option.splits if_splits)

lemma topo_loop_keys: "topo_loop succs deg ready out = Some (deg', out') \<Longrightarrow> btm_keys deg' = btm_keys deg"
  by (induction succs deg ready out rule: topo_loop.induct)
    (auto split: option.splits dest: release_keys)

lemma topo_loop_wf: "topo_loop succs deg ready out = Some (deg', out') \<Longrightarrow> btm_wf deg \<Longrightarrow> btm_wf deg'"
  using topo_loop_keys [of succs deg ready out deg' out'] by (simp add: btm_wf_def btm_keys_def)

lemma kahn_unplaced:
  assumes "kahn_inv succs N deg [] out" and "btm_wf deg"
  shows "set (map fst (filter (\<lambda>e. 0 < snd e) deg)) = N - set out"
proof -
  have mem: "(d, n) \<in> set deg \<longleftrightarrow> btm_get deg d = Some n" for d n
    by (rule btm_get_Some_iff [OF assms(2), symmetric])
  have "set (map fst (filter (\<lambda>e. 0 < snd e) deg)) = {d. \<exists>n. btm_get deg d = Some n \<and> 0 < n}"
    unfolding mem [symmetric] by force
  also have "\<dots> = N - set out"
  proof -
    have "btm_get deg d = (if d \<in> N then Some (indeg succs (N - set out) d) else None)"
      and "d \<in> N \<Longrightarrow> 0 < indeg succs (N - set out) d \<longleftrightarrow> d \<notin> set out" for d
      using assms(1) by (auto simp: kahn_inv_def)
    then show ?thesis by auto
  qed
  finally show ?thesis .
qed

text \<open>An order of \<open>nodes\<close>: every module once, and every edge points forward.\<close>

definition topo_order :: "module_node list \<Rightarrow> module_id list \<Rightarrow> bool" where
  "topo_order nodes out \<longleftrightarrow>
     distinct out \<and> set out = set (node_ids nodes) \<and>
     (\<forall>i < length out. \<forall>j < length out. dag_edge nodes (out ! i) (out ! j) \<longrightarrow> i < j)"

lemma kahn_topo_order:
  assumes inv: "kahn_inv succs (set (node_ids nodes)) deg [] out"
    and all: "set out = set (node_ids nodes)"
    and succs: "\<And>u v. v \<in> set (succs u) \<longleftrightarrow> dag_edge nodes u v"
  shows "topo_order nodes out"
  unfolding topo_order_def
proof (intro conjI allI impI)
  show dist: "distinct out" using inv by (simp add: kahn_inv_def)
  show "set out = set (node_ids nodes)" by (rule all)
  fix i j assume ij: "i < length out" "j < length out" "dag_edge nodes (out ! i) (out ! j)"
  then have "out ! i \<in> set (node_ids nodes)" by (intro dag_edge_source)
  then have "out ! i \<in> set (take j out)"
    using inv ij by (auto simp: kahn_inv_def precedes_def succs)
  then obtain k where "k < j" "out ! k = out ! i" by (auto simp: in_set_conv_nth)
  then show "i < j" using ij dist by (auto simp: nth_eq_iff_index_eq)
qed

section \<open>Order of the input\<close>

lemma btm_collect_perm:
  assumes "distinct (map fst kvs)" and "mset kvs = mset kvs'"
  shows "btm_collect kvs = btm_collect kvs'"
proof (rule btm_wf_ext)
  have "mset (map fst kvs) = mset (map fst kvs')" using assms(2) by simp
  then have "distinct (map fst kvs')" using assms(1) by (metis mset_eq_imp_distinct_iff)
  moreover have "set kvs = set kvs'" using assms(2) by (metis set_mset_mset)
  ultimately show "btm_get (btm_collect kvs) k = btm_get (btm_collect kvs') k" for k
    using assms(1) map_of_inject_set [of kvs kvs'] by (simp add: btm_collect_get_distinct)
qed simp_all

lemma topological_sort_cong:
  assumes "adjacency nodes = adjacency nodes'" and "zero_degrees nodes = zero_degrees nodes'"
    and "length nodes = length nodes'"
  shows "topological_sort nodes = topological_sort nodes'"
  unfolding topological_sort_def assms ..

section \<open>Reachability is the transitive closure\<close>

lemma reach_adjacency_succs:
  assumes "distinct (node_ids nodes)"
  shows "v \<in> set (adj_succs (reach_adjacency nodes) u) \<longleftrightarrow> dag_edge nodes u v"
proof -
  have "btm_get (reach_adjacency nodes) u =
      map_of (map (\<lambda>n. (mn_module_id n, map et_to (mn_edges_to n))) nodes) u"
    using assms by (simp add: reach_adjacency_def btm_collect_get_distinct comp_def)
  then show ?thesis unfolding adj_succs_def by (simp only: lookup_targets [OF assms] set_map)
qed

text \<open>Everything found is reachable from the queue, and what was visited stays closed.\<close>

lemma reach_loop_mono: "set visited \<subseteq> set (reach_loop adj queue visited)"
  by (induction adj queue visited rule: reach_loop.induct) auto

lemma reach_loop_queue: "set queue \<subseteq> set (reach_loop adj queue visited)"
proof (induction adj queue visited rule: reach_loop.induct)
  case (2 adj x queue visited)
  then show ?case
    using reach_loop_mono [of visited adj queue]
      reach_loop_mono [of "bts_insert x visited" adj "queue @ adj_succs adj x"]
    by (auto split: if_splits)
qed simp

lemma reach_loop_sound:
  assumes "v \<in> set (reach_loop adj queue visited)"
  shows "v \<in> set visited \<or> (\<exists>x \<in> set queue. (x, v) \<in> {(a, b). b \<in> set (adj_succs adj a)}\<^sup>*)"
  using assms
proof (induction adj queue visited rule: reach_loop.induct)
  case (2 adj x queue visited)
  let ?R = "{(a, b). b \<in> set (adj_succs adj a)}"
  show ?case
  proof (cases "x \<in> set visited")
    case True
    with 2 show ?thesis by auto
  next
    case False
    then have "v \<in> set (bts_insert x visited) \<or> (\<exists>y \<in> set (queue @ adj_succs adj x). (y, v) \<in> ?R\<^sup>*)"
      using "2.IH"(2) "2.prems" by simp
    moreover have "(x, v) \<in> ?R\<^sup>*" if "y \<in> set (adj_succs adj x)" "(y, v) \<in> ?R\<^sup>*" for y
      using that by (intro converse_rtrancl_into_rtrancl [of x y]) simp_all
    ultimately show ?thesis by auto
  qed
qed simp

lemma reach_loop_closed:
  assumes "\<forall>a \<in> set visited. set (adj_succs adj a) \<subseteq> set visited \<union> set queue"
    and "a \<in> set (reach_loop adj queue visited)"
  shows "set (adj_succs adj a) \<subseteq> set (reach_loop adj queue visited)"
  using assms
proof (induction adj queue visited rule: reach_loop.induct)
  case (2 adj x queue visited)
  show ?case
  proof (cases "x \<in> set visited")
    case True
    have "\<forall>a \<in> set visited. set (adj_succs adj a) \<subseteq> set visited \<union> set queue"
      using "2.prems"(1) True by fastforce
    then show ?thesis using "2.IH"(1) "2.prems"(2) True by simp
  next
    case False
    have "\<forall>a \<in> set (bts_insert x visited). set (adj_succs adj a)
        \<subseteq> set (bts_insert x visited) \<union> set (queue @ adj_succs adj x)"
      using "2.prems"(1) by fastforce
    then show ?thesis using "2.IH"(2) "2.prems"(2) False by simp
  qed
qed auto

lemma reach_loop_rtrancl:
  "set (reach_loop adj queue []) = {(a, b). b \<in> set (adj_succs adj a)}\<^sup>* `` set queue" (is "?L = ?R\<^sup>* `` _")
proof
  show "?L \<subseteq> ?R\<^sup>* `` set queue" using reach_loop_sound [of _ adj queue "[]"] by auto
  have "?R `` ?L \<subseteq> ?L" using reach_loop_closed [of "[]" adj queue] by auto
  then have "?R\<^sup>* `` ?L \<subseteq> ?L" using Image_closed_trancl [of ?R ?L] by simp
  then show "?R\<^sup>* `` set queue \<subseteq> ?L"
    using reach_loop_queue [of queue adj "[]"] by blast
qed


lemma map_of_by_id:
  "map_of (map (\<lambda>n. (mn_module_id n, f (mn_module_id n))) nodes) u =
     (if u \<in> set (node_ids nodes) then Some (f u) else None)"
  by (induction nodes) auto

lemma trancl_from_succs: "(u, v) \<in> R\<^sup>+ \<longleftrightarrow> v \<in> R\<^sup>* `` (R `` {u})"
  by (auto simp: trancl_unfold_left relcomp_unfold)

lemma can_reach_iff:
  assumes "distinct (node_ids nodes)"
  shows "can_reach (compute_reachability nodes) u v \<longleftrightarrow> (u, v) \<in> {(a, b). dag_edge nodes a b}\<^sup>+"
proof -
  let ?adj = "reach_adjacency nodes"
  have rel: "{(a, b). b \<in> set (adj_succs ?adj a)} = {(a, b). dag_edge nodes a b}"
    by (simp add: reach_adjacency_succs [OF assms])
  have "btm_get (compute_reachability nodes) u =
      map_of (map (\<lambda>n. (mn_module_id n, reach_loop ?adj (adj_succs ?adj (mn_module_id n)) [])) nodes) u"
    using assms by (simp add: compute_reachability_def Let_def btm_collect_get_distinct comp_def)
  also have "\<dots> = (if u \<in> set (node_ids nodes) then Some (reach_loop ?adj (adj_succs ?adj u) []) else None)"
    by (rule map_of_by_id)
  finally have "can_reach (compute_reachability nodes) u v \<longleftrightarrow>
      u \<in> set (node_ids nodes) \<and> v \<in> {(a, b). dag_edge nodes a b}\<^sup>* `` {w. dag_edge nodes u w}"
    using reach_loop_rtrancl [of ?adj "adj_succs ?adj u"] reach_adjacency_succs [OF assms, of _ u]
    by (simp add: can_reach_def rel) (metis (no_types, lifting) mem_Collect_eq set_eq_iff)
  then show ?thesis
    using dag_edge_source [of nodes u] by (auto simp: trancl_from_succs)
qed

lemma topo_run:
  assumes "distinct (node_ids nodes)"
  obtains deg out where
    "topological_sort nodes = Some (if length out = length nodes then Inr out
        else Inl (map fst (filter (\<lambda>e. 0 < snd e) deg)))"
    "kahn_inv (adj_succs (adjacency nodes)) (set (node_ids nodes)) deg [] out" "btm_wf deg"
proof -
  let ?deg0 = "count_edges (concat (map snd (adjacency nodes))) (zero_degrees nodes)"
  obtain deg out where loop: "topo_loop (adj_succs (adjacency nodes)) ?deg0 (ready_ids ?deg0) [] = Some (deg, out)"
    and inv: "kahn_inv (adj_succs (adjacency nodes)) (set (node_ids nodes)) deg [] out"
    using ordered_kahn.kahn_loop [OF topo_init [OF assms refl]] by blast
  have "btm_wf deg" using topo_loop_wf [OF loop] by (simp add: count_edges_wf zero_degrees_def)
  moreover have "topological_sort nodes = Some (if length out = length nodes then Inr out
      else Inl (map fst (filter (\<lambda>e. 0 < snd e) deg)))"
    using loop by (simp add: topological_sort_def Let_def)
  ultimately show ?thesis using that inv by blast
qed

lemma topological_sort_order:
  assumes "distinct (node_ids nodes)" and "topological_sort nodes = Some (Inr out)"
  shows "topo_order nodes out"
proof -
  obtain deg out' where res: "topological_sort nodes = Some (if length out' = length nodes then Inr out'
        else Inl (map fst (filter (\<lambda>e. 0 < snd e) deg)))"
    and inv: "kahn_inv (adj_succs (adjacency nodes)) (set (node_ids nodes)) deg [] out'"
    by (rule topo_run [OF assms(1)])
  then have "out' = out" "length out = length nodes" using assms(2) by (auto split: if_splits)
  then show ?thesis
    using kahn_topo_order [OF inv _ dag_edge_adj [OF assms(1)]] kahn_length_iff [OF inv assms(1)] by simp
qed

lemma topological_sort_stuck:
  assumes "distinct (node_ids nodes)" and "topological_sort nodes = Some (Inl rest)"
  shows "rest \<noteq> [] \<and> distinct rest \<and> (\<forall>v \<in> set rest. \<exists>u \<in> set rest. (u, v) \<in> dag_rel nodes)"
proof -
  let ?N = "set (node_ids nodes)"
  obtain deg out where res: "topological_sort nodes = Some (if length out = length nodes then Inr out
        else Inl (map fst (filter (\<lambda>e. 0 < snd e) deg)))"
    and inv: "kahn_inv (adj_succs (adjacency nodes)) ?N deg [] out" and wf: "btm_wf deg"
    by (rule topo_run [OF assms(1)])
  have len: "length out \<noteq> length nodes" and rest: "rest = map fst (filter (\<lambda>e. 0 < snd e) deg)"
    using res assms(2) by (auto split: if_splits)
  have set: "set rest = ?N - set out" unfolding rest by (rule kahn_unplaced [OF inv wf])
  have "set out \<subseteq> ?N" "set out \<noteq> ?N"
    using len inv kahn_length_iff [OF inv assms(1)] by (auto simp: kahn_inv_def)
  then have "set rest \<noteq> {}" unfolding set by blast
  moreover have "distinct rest"
    using wf by (simp add: rest distinct_map_filter btm_wf_def strict_sorted_iff)
  moreover have "\<exists>u \<in> set rest. (u, v) \<in> dag_rel nodes" if "v \<in> set rest" for v
    using kahn_stuck [OF inv, of v] that unfolding set
    by (auto simp: dag_edge_adj [OF assms(1)] dag_rel_def)
  ultimately show ?thesis by auto
qed

section \<open>Properties\<close>

text \<open>C2: the execution-order sort is total and correct.  On modules with distinct ids it never
  underflows a counter; it returns an order exactly when the edges between the modules are
  acyclic, and then the order lists every module once with every edge pointing forward;
  otherwise it reports a non-empty set of modules each of which waits for another reported one.\<close>

theorem topological_sort_correct:
  assumes "distinct (node_ids nodes)"
  shows "case topological_sort nodes of
      None \<Rightarrow> False
    | Some (Inr out) \<Rightarrow> acyclic (dag_rel nodes) \<and> topo_order nodes out
    | Some (Inl rest) \<Rightarrow> \<not> acyclic (dag_rel nodes) \<and> rest \<noteq> [] \<and> distinct rest \<and>
        (\<forall>v \<in> set rest. \<exists>u \<in> set rest. (u, v) \<in> dag_rel nodes)"
proof -
  obtain r where r: "topological_sort nodes = Some r" using topo_run [OF assms] by metis
  show ?thesis
    using topological_sort_Inr_iff [OF assms] topological_sort_order [OF assms]
      topological_sort_stuck [OF assms]
    by (cases r) (auto simp: r)
qed

theorem topological_sort_correct_witness:
  "topological_sort
      [\<lparr>mn_module_id = ''a'', mn_ir_reads = [], mn_ir_writes = [],
        mn_edges_to = [\<lparr>et_to = ''b'', et_reasons = [ExplicitRequires]\<rparr>]\<rparr>,
       \<lparr>mn_module_id = ''b'', mn_ir_reads = [], mn_ir_writes = [], mn_edges_to = []\<rparr>]
     = Some (Inr [''a'', ''b'']) \<and>
   topo_order
      [\<lparr>mn_module_id = ''a'', mn_ir_reads = [], mn_ir_writes = [],
        mn_edges_to = [\<lparr>et_to = ''b'', et_reasons = [ExplicitRequires]\<rparr>]\<rparr>,
       \<lparr>mn_module_id = ''b'', mn_ir_reads = [], mn_ir_writes = [], mn_edges_to = []\<rparr>]
      [''a'', ''b'']"
proof -
  let ?ns = "[\<lparr>mn_module_id = ''a'', mn_ir_reads = [], mn_ir_writes = [],
        mn_edges_to = [\<lparr>et_to = ''b'', et_reasons = [ExplicitRequires]\<rparr>]\<rparr>,
       \<lparr>mn_module_id = ''b'', mn_ir_reads = [], mn_ir_writes = [], mn_edges_to = []\<rparr>]"
  have run: "topological_sort ?ns = Some (Inr [''a'', ''b''])" by code_simp
  have "distinct (node_ids ?ns)" by simp
  from topological_sort_correct [OF this] show ?thesis unfolding run by simp
qed

text \<open>the sort does not depend on the order in which the modules are given, so the
  execution order is a function of the set of modules and their edges.\<close>

theorem topological_sort_deterministic:
  assumes "distinct (node_ids nodes)" and "mset nodes = mset nodes'"
  shows "topological_sort nodes = topological_sort nodes'"
proof (rule topological_sort_cong)
  show "adjacency nodes = adjacency nodes'" and "zero_degrees nodes = zero_degrees nodes'"
    unfolding adjacency_def zero_degrees_def using assms
    by (auto intro!: btm_collect_perm simp: comp_def)
  show "length nodes = length nodes'" using assms(2) by (rule mset_eq_length)
qed

theorem topological_sort_deterministic_witness:
  "topological_sort
      [\<lparr>mn_module_id = ''a'', mn_ir_reads = [], mn_ir_writes = [], mn_edges_to = []\<rparr>,
       \<lparr>mn_module_id = ''b'', mn_ir_reads = [], mn_ir_writes = [], mn_edges_to = []\<rparr>]
   = topological_sort
      [\<lparr>mn_module_id = ''b'', mn_ir_reads = [], mn_ir_writes = [], mn_edges_to = []\<rparr>,
       \<lparr>mn_module_id = ''a'', mn_ir_reads = [], mn_ir_writes = [], mn_edges_to = []\<rparr>]"
  by (rule topological_sort_deterministic) simp_all

text \<open>the first-in first-out sort of startup validation accepts exactly the graphs that the
  execution-order sort accepts; its answer is an order of the same modules, and its rejection
  names at least one module.\<close>

theorem validation_sort_agrees:
  assumes "distinct (node_ids nodes)"
  shows "case validation_topological_sort nodes of
      None \<Rightarrow> False
    | Some (Inr out) \<Rightarrow> topo_order nodes out \<and>
        (\<exists>out'. topological_sort nodes = Some (Inr out') \<and> mset out' = mset out)
    | Some (Inl rest) \<Rightarrow> rest \<noteq> [] \<and> (\<exists>rest'. topological_sort nodes = Some (Inl rest'))"
proof -
  obtain deg out where res: "validation_topological_sort nodes = Some (if length out = length nodes
        then Inr out else Inl (filter (\<lambda>i. i \<notin> set out) (node_ids nodes)))"
    and inv: "kahn_inv (node_succs nodes) (set (node_ids nodes)) deg [] out"
    by (rule fifo_loop_result [OF assms])
  obtain r where r: "topological_sort nodes = Some r" using topo_run [OF assms] by metis
  have iff: "length out = length nodes \<longleftrightarrow> (\<exists>out'. topological_sort nodes = Some (Inr out'))"
    using validation_topological_sort_Inr_iff [OF assms] topological_sort_Inr_iff [OF assms] res
    by (simp split: if_splits)
  have "topo_order nodes out" if "length out = length nodes"
    using kahn_topo_order [OF inv _ dag_edge_node_succs [OF assms]] kahn_length_iff [OF inv assms] that by simp
  moreover have "mset out' = mset out" if "topological_sort nodes = Some (Inr out')" "topo_order nodes out" for out'
    using topological_sort_order [OF assms that(1)] that(2) set_eq_iff_mset_eq_distinct [of out' out]
    by (simp add: topo_order_def)
  moreover have "filter (\<lambda>i. i \<notin> set out) (node_ids nodes) \<noteq> []" if "length out \<noteq> length nodes"
    using that inv kahn_length_iff [OF inv assms] by (auto simp: kahn_inv_def filter_empty_conv)
  ultimately show ?thesis unfolding res using iff r by (cases r) auto
qed

theorem validation_sort_agrees_witness:
  "validation_topological_sort
      [\<lparr>mn_module_id = ''a'', mn_ir_reads = [], mn_ir_writes = [],
        mn_edges_to = [\<lparr>et_to = ''a'', et_reasons = [ExplicitRequires]\<rparr>]\<rparr>] = Some (Inl [''a'']) \<and>
   (\<exists>rest'. topological_sort
      [\<lparr>mn_module_id = ''a'', mn_ir_reads = [], mn_ir_writes = [],
        mn_edges_to = [\<lparr>et_to = ''a'', et_reasons = [ExplicitRequires]\<rparr>]\<rparr>] = Some (Inl rest'))"
proof -
  let ?ns = "[\<lparr>mn_module_id = ''a'', mn_ir_reads = [], mn_ir_writes = [],
        mn_edges_to = [\<lparr>et_to = ''a'', et_reasons = [ExplicitRequires]\<rparr>]\<rparr>]"
  have run: "validation_topological_sort ?ns = Some (Inl [''a''])" by code_simp
  have "distinct (node_ids ?ns)" by simp
  from validation_sort_agrees [OF this] show ?thesis unfolding run by simp
qed

text \<open>C38: the reachability sets are the transitive closure of the edges: a module reaches
  another exactly when a non-empty path of edges leads there, and the breadth-first search
  terminates also on cyclic graphs.\<close>

theorem reachability_is_transitive_closure:
  assumes "distinct (node_ids nodes)"
  shows "can_reach (compute_reachability nodes) u v \<longleftrightarrow> (u, v) \<in> {(a, b). dag_edge nodes a b}\<^sup>+"
  using assms by (rule can_reach_iff)

theorem reachability_is_transitive_closure_witness:
  "can_reach (compute_reachability
      [\<lparr>mn_module_id = ''a'', mn_ir_reads = [], mn_ir_writes = [],
        mn_edges_to = [\<lparr>et_to = ''b'', et_reasons = [ExplicitRequires]\<rparr>]\<rparr>,
       \<lparr>mn_module_id = ''b'', mn_ir_reads = [], mn_ir_writes = [],
        mn_edges_to = [\<lparr>et_to = ''c'', et_reasons = [ExplicitRequires]\<rparr>]\<rparr>]) ''a'' ''c''"
  by (subst reachability_is_transitive_closure, simp)
    (rule trancl_into_trancl [of _ "''b''"]; auto simp: dag_edge_def)

end
