(* ===== verification/Validation.thy ===== *)
theory Validation
  imports Topology
begin

text \<open>
  Startup validation of the module set: \<^verbatim>\<open>crates/slicer-scheduler/src/validation.rs\<close>.
  The theory holds the fill-role holders, the diagnostics and the report, the fourteen passes in
  the order in which \<^verbatim>\<open>validate_startup_dag\<close> runs them, and what a report without errors
  guarantees.  A pass appends its diagnostics to the report; the list of diagnostics of a pass is a
  definition of its own.
\<close>

section \<open>Fill-role claims\<close>

definition FILL_CLAIM_IDS :: "string list" where
  "FILL_CLAIM_IDS = [''claim:top-fill'', ''claim:bottom-fill'', ''claim:bridge-fill'', ''claim:sparse-fill'']"

record fill_holders =
  fh_top :: string
  fh_bottom :: string
  fh_bridge :: string
  fh_sparse :: string

definition holder_for :: "fill_holders \<Rightarrow> string \<Rightarrow> string option" where
  "holder_for h claim =
     (if claim = ''claim:top-fill'' then Some (fh_top h)
      else if claim = ''claim:bottom-fill'' then Some (fh_bottom h)
      else if claim = ''claim:bridge-fill'' then Some (fh_bridge h)
      else if claim = ''claim:sparse-fill'' then Some (fh_sparse h)
      else None)"

definition strip_prefix :: "string \<Rightarrow> string \<Rightarrow> string option" where
  "strip_prefix p s = (if prefix p s then Some (drop (length p) s) else None)"

definition module_id_matches_holder :: "module_id \<Rightarrow> string \<Rightarrow> bool" where
  "module_id_matches_holder module_id holder =
     (if module_id = holder then True
      else case strip_prefix ''com.core.'' module_id of
             None \<Rightarrow> False | Some short \<Rightarrow> short = holder)"

definition resolve_held_claims :: "module_id \<Rightarrow> string list \<Rightarrow> fill_holders \<Rightarrow> string list" where
  "resolve_held_claims module_id declared holders =
     filter (\<lambda>claim. claim = ''claim:raft-fill'' \<or>
               (case holder_for holders claim of
                  None \<Rightarrow> False | Some h \<Rightarrow> module_id_matches_holder module_id h))
       (filter (\<lambda>claim. claim \<in> set FILL_CLAIM_IDS \<or> claim = ''claim:raft-fill'') declared)"

section \<open>Diagnostics\<close>

datatype conflict_scope =
    ScopeGlobal
  | ScopeRegion (sr_object_id: string) (sr_region_id: string) (sr_layer: "u32 option")

datatype access_kind = AccessRead | AccessWrite

datatype scheduler_error =
    NotImplemented
  | UnknownStage module_id stage_id
  | ClaimConflict string module_id module_id conflict_scope
  | IncompatibleModules module_id module_id string
  | MissingDependency module_id module_id
  | CyclicDependency "module_id list"
  | UnfulfilledRead module_id string "string option"
  | IrVersionIncompatible module_id string semver semver
  | HostVersionIncompatible module_id semver semver
  | StageMismatch module_id stage_id string
  | WriteConflict string module_id module_id stage_id bool
  | DeadWrite module_id string
  | UndeclaredAccess module_id access_kind string
  | CrossStageDependency module_id module_id stage_id stage_id
  | TransitiveStageDependency module_id "module_id list" stage_id stage_id

record stage_dag =
  sd_stage :: stage_id
  sd_nodes :: "module_node list"

record claim_holder =
  ch_claim :: string
  ch_module_id :: module_id
  ch_scope :: conflict_scope

text \<open>\<^verbatim>\<open>batch_calls\<close> and \<^verbatim>\<open>diagnostics\<close> of the audit are recorded for other
  consumers; validation reads only the two path lists.\<close>

record module_access_audit =
  ma_module_id :: module_id
  ma_runtime_reads :: "string list"
  ma_runtime_writes :: "string list"

record dag_validation_request =
  rq_modules :: "loaded_module list"
  rq_stage_dags :: "stage_dag list"
  rq_host_ir_schema_version :: semver
  rq_host_version :: semver
  rq_claim_holders :: "claim_holder list"
  rq_access_audits :: "module_access_audit list"

datatype dag_validation_pass =
    StageIdValidation
  | GlobalClaimConflicts
  | PerRegionClaimConflicts
  | IncompatibilityDeclarations
  | MissingDependencies
  | IrVersionCompatibility
  | CycleDetection
  | WriteConflicts
  | UnfulfilledReads
  | DeadWrites
  | UndeclaredAccessPass
  | CrossStageDependencyLegality
  | TransitiveDependencyLegality
  | HostVersionCompatibility

record dag_validation_diagnostic =
  dd_pass :: dag_validation_pass
  dd_level :: diagnostic_level
  dd_detail :: scheduler_error

record dag_validation_report =
  dr_errors :: "dag_validation_diagnostic list"
  dr_warnings :: "dag_validation_diagnostic list"

definition push_error :: "dag_validation_pass \<Rightarrow> scheduler_error \<Rightarrow> dag_validation_report \<Rightarrow> dag_validation_report" where
  "push_error pass detail report =
     report\<lparr>dr_errors := dr_errors report @ [\<lparr>dd_pass = pass, dd_level = LError, dd_detail = detail\<rparr>]\<rparr>"

definition push_warning :: "dag_validation_pass \<Rightarrow> scheduler_error \<Rightarrow> dag_validation_report \<Rightarrow> dag_validation_report" where
  "push_warning pass detail report =
     report\<lparr>dr_warnings := dr_warnings report @ [\<lparr>dd_pass = pass, dd_level = LWarning, dd_detail = detail\<rparr>]\<rparr>"

definition is_valid :: "dag_validation_report \<Rightarrow> bool" where
  "is_valid report = (dr_errors report = [])"

definition empty_report :: dag_validation_report where
  "empty_report = \<lparr>dr_errors = [], dr_warnings = []\<rparr>"

text \<open>A pass pushes a list of diagnostics one by one.\<close>

definition push_errors :: "dag_validation_pass \<Rightarrow> scheduler_error list \<Rightarrow> dag_validation_report \<Rightarrow> dag_validation_report" where
  "push_errors pass details report = fold (push_error pass) details report"

definition push_warnings :: "dag_validation_pass \<Rightarrow> scheduler_error list \<Rightarrow> dag_validation_report \<Rightarrow> dag_validation_report" where
  "push_warnings pass details report = fold (push_warning pass) details report"

type_synonym modules_by_id = "(module_id, loaded_module) btree_map"

definition index_modules :: "loaded_module list \<Rightarrow> modules_by_id" where
  "index_modules ms = btm_collect (map (\<lambda>m. (lm_id m, m)) ms)"

definition stage_index :: "stage_id \<Rightarrow> nat option" where
  "stage_index st = btm_get stage_order_index st"

section \<open>Pass 1: stage ids\<close>

definition stage_id_errors :: "dag_validation_request \<Rightarrow> scheduler_error list" where
  "stage_id_errors rq =
     [UnknownStage (lm_id m) (lm_stage m). m \<leftarrow> rq_modules rq, stage_index (lm_stage m) = None]
     @ [UnknownStage (case sd_nodes sd of [] \<Rightarrow> ''<stage-dag>'' | n # _ \<Rightarrow> mn_module_id n) (sd_stage sd).
          sd \<leftarrow> rq_stage_dags rq, stage_index (sd_stage sd) = None]"

definition validate_stage_ids :: "dag_validation_request \<Rightarrow> dag_validation_report \<Rightarrow> dag_validation_report" where
  "validate_stage_ids rq = push_errors StageIdValidation (stage_id_errors rq)"

section \<open>Passes 2 and 3: claim conflicts\<close>

definition FAMILY_SCOPED_SUPPORT_CLAIMS :: "string list" where
  "FAMILY_SCOPED_SUPPORT_CLAIMS =
     [''support-generator'', ''support-planner'', ''support-family:traditional'', ''support-family:tree'']"

definition non_transitionable_claims :: "string list" where
  "non_transitionable_claims = [''perimeter-generator'', ''seam-placer'', ''layer-planner'', ''mesh-analyzer'']"

fun scope_key :: "conflict_scope \<Rightarrow> string" where
  "scope_key ScopeGlobal = ''global''"
| "scope_key (ScopeRegion obj reg lay) =
     ''region:'' @ obj @ '':'' @ reg @ '':'' @
     (case lay of None \<Rightarrow> ''none'' | Some v \<Rightarrow> dec_nat (unat v))"

fun scope_key_without_layer :: "conflict_scope \<Rightarrow> string" where
  "scope_key_without_layer ScopeGlobal = ''global''"
| "scope_key_without_layer (ScopeRegion obj reg _) = ''region:'' @ obj @ '':'' @ reg @ '':_''"

text \<open>\<^verbatim>\<open>str::splitn(n, c)\<close>: at most \<open>n\<close> pieces, the last one unsplit.\<close>

fun splitn_char :: "nat \<Rightarrow> char \<Rightarrow> string \<Rightarrow> string list" where
  "splitn_char 0 c s = []"
| "splitn_char (Suc 0) c s = [s]"
| "splitn_char (Suc (Suc n)) c s =
     (case dropWhile (\<lambda>x. x \<noteq> c) s of
        [] \<Rightarrow> [s]
      | _ # rest \<Rightarrow> takeWhile (\<lambda>x. x \<noteq> c) s # splitn_char (Suc n) c rest)"

definition nth_or_default :: "string list \<Rightarrow> nat \<Rightarrow> string" where
  "nth_or_default parts i = (if i < length parts then parts ! i else '''')"

definition region_scope_from_key :: "string \<Rightarrow> conflict_scope" where
  "region_scope_from_key key =
     (let parts = splitn_char 4 (CHR '':'') key
      in ScopeRegion (nth_or_default parts 1) (nth_or_default parts 2)
           (if 3 < length parts
            then (if parts ! 3 = ''none'' then None else parse_u32 (parts ! 3))
            else None))"

definition holder_key :: "bool \<Rightarrow> claim_holder \<Rightarrow> string" where
  "holder_key global_only h =
     (if global_only then scope_key (ch_scope h)
      else if ch_claim h \<in> set non_transitionable_claims then scope_key_without_layer (ch_scope h)
      else scope_key (ch_scope h))"

definition holders_by_claim :: "bool \<Rightarrow> claim_holder list \<Rightarrow> (string \<times> string, module_id list) btree_map" where
  "holders_by_claim global_only hs =
     btm_group (map (\<lambda>h. ((ch_claim h, holder_key global_only h), ch_module_id h))
       (filter (\<lambda>h. (ch_scope h = ScopeGlobal) = global_only) hs))"

fun pairs :: "'a list \<Rightarrow> ('a \<times> 'a) list" where
  "pairs [] = []"
| "pairs (x # xs) = map (Pair x) xs @ pairs xs"

definition fill_coverage_errors :: "(string \<times> string, module_id list) btree_map \<Rightarrow> scheduler_error list" where
  "fill_coverage_errors hbc =
     [MissingDependency (''fill-role-claim:'' @ c) (''no module holds '' @ c).
        c \<leftarrow> FILL_CLAIM_IDS, \<not> list_ex (\<lambda>k. fst k = c) (btm_keys hbc)]"

definition conflict_errors_of :: "bool \<Rightarrow> (string \<times> string) \<times> module_id list \<Rightarrow> scheduler_error list" where
  "conflict_errors_of global_only = (\<lambda>((claim, key), modules).
     let sorted_modules = bts_collect modules
     in if length sorted_modules < 2 then []
        else if global_only \<and> claim \<in> set FILL_CLAIM_IDS then []
        else if global_only \<and> claim \<in> set FAMILY_SCOPED_SUPPORT_CLAIMS then []
        else map (\<lambda>(a, b). ClaimConflict claim a b
                    (if global_only then ScopeGlobal else region_scope_from_key key))
               (pairs sorted_modules))"

definition validate_claim_conflicts ::
  "dag_validation_request \<Rightarrow> dag_validation_pass \<Rightarrow> bool \<Rightarrow> dag_validation_report \<Rightarrow> dag_validation_report" where
  "validate_claim_conflicts rq pass global_only report =
     (let hbc = holders_by_claim global_only (rq_claim_holders rq)
      in push_errors pass (concat (map (conflict_errors_of global_only) hbc))
           (push_errors GlobalClaimConflicts (if global_only then fill_coverage_errors hbc else []) report))"

section \<open>Passes 4 to 6 and 14: declarations and versions\<close>

definition incompatibility_errors :: "modules_by_id \<Rightarrow> scheduler_error list" where
  "incompatibility_errors mbi =
     [IncompatibleModules (lm_id m) c
        (''module '' @ [CHR 39] @ lm_id m @ [CHR 39] @ '' declares '' @ [CHR 39] @ c @ [CHR 39] @ '' as incompatible'').
        m \<leftarrow> map snd mbi, c \<leftarrow> lm_incompatible_with m, btm_get mbi c \<noteq> None]"

definition validate_incompatibilities :: "modules_by_id \<Rightarrow> dag_validation_report \<Rightarrow> dag_validation_report" where
  "validate_incompatibilities mbi = push_errors IncompatibilityDeclarations (incompatibility_errors mbi)"

definition missing_dependency_errors :: "dag_validation_request \<Rightarrow> modules_by_id \<Rightarrow> scheduler_error list" where
  "missing_dependency_errors rq mbi =
     (let available_claims = bts_collect (map ch_claim (rq_claim_holders rq))
      in concat (map (\<lambda>m.
           [MissingDependency (lm_id m) r. r \<leftarrow> lm_requires_modules m, btm_get mbi r = None]
           @ [MissingDependency (lm_id m) c. c \<leftarrow> lm_requires_claims m, c \<notin> set available_claims])
         (rq_modules rq)))"

definition validate_missing_dependencies ::
  "dag_validation_request \<Rightarrow> modules_by_id \<Rightarrow> dag_validation_report \<Rightarrow> dag_validation_report" where
  "validate_missing_dependencies rq mbi = push_errors MissingDependencies (missing_dependency_errors rq mbi)"

definition ir_version_errors :: "dag_validation_request \<Rightarrow> scheduler_error list" where
  "ir_version_errors rq =
     [IrVersionIncompatible (lm_id m) ''host-ir-schema'' (lm_min_ir_schema m) (rq_host_ir_schema_version rq).
        m \<leftarrow> rq_modules rq,
        semver_lt (rq_host_ir_schema_version rq) (lm_min_ir_schema m) \<or>
        \<not> semver_lt (rq_host_ir_schema_version rq) (lm_max_ir_schema m)]"

definition validate_ir_versions :: "dag_validation_request \<Rightarrow> dag_validation_report \<Rightarrow> dag_validation_report" where
  "validate_ir_versions rq = push_errors IrVersionCompatibility (ir_version_errors rq)"

definition host_version_errors :: "dag_validation_request \<Rightarrow> scheduler_error list" where
  "host_version_errors rq =
     [HostVersionIncompatible (lm_id m) (lm_min_host_version m) (rq_host_version rq).
        m \<leftarrow> rq_modules rq, semver_lt (rq_host_version rq) (lm_min_host_version m)]"

definition validate_host_version :: "dag_validation_request \<Rightarrow> dag_validation_report \<Rightarrow> dag_validation_report" where
  "validate_host_version rq = push_errors HostVersionCompatibility (host_version_errors rq)"

section \<open>Pass 7: cycles\<close>

text \<open>The sort may panic in the model (\<open>None\<close>), and the panic would abort the pass.\<close>

fun validate_cycles :: "stage_dag list \<Rightarrow> dag_validation_report \<Rightarrow> dag_validation_report option" where
  "validate_cycles [] report = Some report"
| "validate_cycles (sd # sds) report =
     (case validation_topological_sort (sd_nodes sd) of
        None \<Rightarrow> None
      | Some (Inr _) \<Rightarrow> validate_cycles sds report
      | Some (Inl cycle) \<Rightarrow> validate_cycles sds (push_error CycleDetection (CyclicDependency cycle) report))"

section \<open>Pass 8: write conflicts\<close>

definition shared_paths :: "string list \<Rightarrow> string list \<Rightarrow> string list" where
  "shared_paths left right =
     (let right_set = bts_collect right in bts_collect (filter (\<lambda>p. p \<in> set right_set) left))"

definition family_support_modules :: "claim_holder list \<Rightarrow> module_id list" where
  "family_support_modules hs =
     bts_collect (map ch_module_id (filter (\<lambda>h. ch_claim h \<in> set FAMILY_SCOPED_SUPPORT_CLAIMS) hs))"

definition support_field :: "string \<Rightarrow> bool" where
  "support_field field \<longleftrightarrow>
     field = ''SupportPlanIR'' \<or> prefix ''SupportPlanIR.'' field \<or>
     field = ''SupportIR'' \<or> prefix ''SupportIR.'' field"

definition write_orderable ::
  "module_id list \<Rightarrow> (module_id, module_id list) btree_map \<Rightarrow> module_node \<Rightarrow> module_node \<Rightarrow> string \<Rightarrow> bool" where
  "write_orderable family reachability left right field \<longleftrightarrow>
     (field \<in> set (mn_ir_reads right) \<and> can_reach reachability (mn_module_id left) (mn_module_id right)) \<or>
     (field \<in> set (mn_ir_reads left) \<and> can_reach reachability (mn_module_id right) (mn_module_id left)) \<or>
     (mn_module_id left \<in> set family \<and> mn_module_id right \<in> set family \<and> support_field field)"

definition write_conflict_errors :: "dag_validation_request \<Rightarrow> scheduler_error list" where
  "write_conflict_errors rq =
     (let family = family_support_modules (rq_claim_holders rq)
      in concat (map (\<lambda>sd.
           let reachability = compute_reachability (sd_nodes sd)
           in [WriteConflict field (mn_module_id left) (mn_module_id right) (sd_stage sd) False.
                 (left, right) \<leftarrow> pairs (sd_nodes sd),
                 field \<leftarrow> shared_paths (mn_ir_writes left) (mn_ir_writes right),
                 \<not> write_orderable family reachability left right field])
         (rq_stage_dags rq)))"

definition validate_write_conflicts :: "dag_validation_request \<Rightarrow> dag_validation_report \<Rightarrow> dag_validation_report" where
  "validate_write_conflicts rq = push_errors WriteConflicts (write_conflict_errors rq)"

section \<open>Passes 9 and 10: reads and dead writes\<close>

text \<open>\<^verbatim>\<open>unwrap_or(usize::MAX)\<close> on a 64-bit host.\<close>

definition sorted_stage_dags :: "stage_dag list \<Rightarrow> stage_dag list" where
  "sorted_stage_dags sds =
     sort_key (\<lambda>sd. (case stage_index (sd_stage sd) of None \<Rightarrow> 2 ^ 64 - 1 | Some i \<Rightarrow> i, sd_stage sd)) sds"

definition by_field :: "(module_node \<Rightarrow> string list) \<Rightarrow> stage_dag list
    \<Rightarrow> (string, (stage_id \<times> module_id) list) btree_map" where
  "by_field sel sds =
     btm_group
       [(field, sd_stage sd, mn_module_id n).
          sd \<leftarrow> sorted_stage_dags sds, n \<leftarrow> sd_nodes sd, field \<leftarrow> sel n]"

definition writers_by_field :: "stage_dag list \<Rightarrow> (string, (stage_id \<times> module_id) list) btree_map" where
  "writers_by_field = by_field mn_ir_writes"

definition readers_by_field :: "stage_dag list \<Rightarrow> (string, (stage_id \<times> module_id) list) btree_map" where
  "readers_by_field = by_field mn_ir_reads"

definition read_satisfied_by ::
  "nat option \<Rightarrow> (module_id, module_id list) btree_map \<Rightarrow> loaded_module \<Rightarrow> stage_id \<times> module_id \<Rightarrow> bool" where
  "read_satisfied_by current reachability m = (\<lambda>(writer_stage, writer_id).
     if writer_id = lm_id m then False
     else case (current, stage_index writer_stage) of
            (Some reader_index, Some writer_index) \<Rightarrow>
              if writer_index < reader_index then True
              else if writer_stage = lm_stage m then can_reach reachability writer_id (lm_id m)
              else False
          | _ \<Rightarrow> False)"

definition unfulfilled_read_errors :: "dag_validation_request \<Rightarrow> scheduler_error list" where
  "unfulfilled_read_errors rq =
     (let all_writers = writers_by_field (rq_stage_dags rq); mbi = index_modules (rq_modules rq)
      in concat (map (\<lambda>sd.
           let reachability = compute_reachability (sd_nodes sd); current = stage_index (sd_stage sd)
           in concat (map (\<lambda>n.
                case btm_get mbi (mn_module_id n) of
                  None \<Rightarrow> []
                | Some m \<Rightarrow>
                    [UnfulfilledRead (lm_id m) field None.
                       field \<leftarrow> lm_ir_reads m,
                       \<not> (case btm_get all_writers field of
                            None \<Rightarrow> False
                          | Some ws \<Rightarrow> list_ex (read_satisfied_by current reachability m) ws)])
              (sd_nodes sd)))
         (rq_stage_dags rq)))"

definition validate_unfulfilled_reads :: "dag_validation_request \<Rightarrow> dag_validation_report \<Rightarrow> dag_validation_report" where
  "validate_unfulfilled_reads rq = push_errors UnfulfilledReads (unfulfilled_read_errors rq)"

definition write_consumed_by ::
  "nat option \<Rightarrow> (module_id, module_id list) btree_map \<Rightarrow> stage_id \<Rightarrow> module_id \<Rightarrow> stage_id \<times> module_id \<Rightarrow> bool" where
  "write_consumed_by current reachability st i = (\<lambda>(reader_stage, reader_id).
     case (current, stage_index reader_stage) of
       (Some writer_index, Some reader_index) \<Rightarrow>
         if writer_index < reader_index then True
         else if reader_stage = st then can_reach reachability i reader_id
         else False
     | _ \<Rightarrow> False)"

definition dead_write_warnings :: "dag_validation_request \<Rightarrow> scheduler_error list" where
  "dead_write_warnings rq =
     (let all_readers = readers_by_field (rq_stage_dags rq)
      in concat (map (\<lambda>sd.
           let reachability = compute_reachability (sd_nodes sd); current = stage_index (sd_stage sd)
           in [DeadWrite (mn_module_id n) field.
                 n \<leftarrow> sd_nodes sd, field \<leftarrow> mn_ir_writes n,
                 \<not> (case btm_get all_readers field of
                      None \<Rightarrow> False
                    | Some rs \<Rightarrow> list_ex (write_consumed_by current reachability (sd_stage sd) (mn_module_id n)) rs)])
         (rq_stage_dags rq)))"

definition validate_dead_writes :: "dag_validation_request \<Rightarrow> dag_validation_report \<Rightarrow> dag_validation_report" where
  "validate_dead_writes rq = push_warnings DeadWrites (dead_write_warnings rq)"

section \<open>Pass 11: undeclared access\<close>

definition ir_root :: "string \<Rightarrow> string" where
  "ir_root path = takeWhile (\<lambda>c. c \<noteq> CHR ''.'') path"

definition read_is_declared :: "string list \<Rightarrow> string \<Rightarrow> bool" where
  "read_is_declared declared runtime_path =
     (let root = ir_root runtime_path in list_ex (\<lambda>d. ir_root d = root) declared)"

definition undeclared_access_errors :: "dag_validation_request \<Rightarrow> modules_by_id \<Rightarrow> scheduler_error list" where
  "undeclared_access_errors rq mbi =
     concat (map (\<lambda>audit.
       case btm_get mbi (ma_module_id audit) of
         None \<Rightarrow> []
       | Some m \<Rightarrow>
           [UndeclaredAccess (lm_id m) AccessRead path.
              path \<leftarrow> ma_runtime_reads audit, \<not> read_is_declared (lm_ir_reads m) path]
           @ [UndeclaredAccess (lm_id m) AccessWrite path.
              path \<leftarrow> ma_runtime_writes audit, path \<notin> set (lm_ir_writes m)])
     (rq_access_audits rq))"

definition validate_undeclared_access ::
  "dag_validation_request \<Rightarrow> modules_by_id \<Rightarrow> dag_validation_report \<Rightarrow> dag_validation_report" where
  "validate_undeclared_access rq mbi = push_errors UndeclaredAccessPass (undeclared_access_errors rq mbi)"

section \<open>Passes 12 and 13: dependencies across stages\<close>

definition cross_stage_errors :: "loaded_module list \<Rightarrow> modules_by_id \<Rightarrow> scheduler_error list" where
  "cross_stage_errors ms mbi =
     concat (map (\<lambda>m.
       case stage_index (lm_stage m) of
         None \<Rightarrow> []
       | Some module_index \<Rightarrow>
           concat (map (\<lambda>required.
             case btm_get mbi required of
               None \<Rightarrow> []
             | Some q \<Rightarrow>
                 (case stage_index (lm_stage q) of
                    None \<Rightarrow> []
                  | Some required_index \<Rightarrow>
                      if required_index > module_index
                      then [CrossStageDependency (lm_id m) (lm_id q) (lm_stage m) (lm_stage q)]
                      else []))
           (lm_requires_modules m)))
     ms)"

definition validate_cross_stage_dependencies ::
  "loaded_module list \<Rightarrow> modules_by_id \<Rightarrow> dag_validation_report \<Rightarrow> dag_validation_report" where
  "validate_cross_stage_dependencies ms mbi = push_errors CrossStageDependencyLegality (cross_stage_errors ms mbi)"

definition extensions :: "module_id list \<Rightarrow> loaded_module \<Rightarrow> module_id list list" where
  "extensions path current =
     map (\<lambda>i. path @ [i]) (filter (\<lambda>i. i \<notin> set path) (sort (lm_requires_modules current)))"

text \<open>Every extension uses up one of the finitely many required ids: the multiset of the ids
  that the queued paths have left decreases.\<close>

definition required_ids :: "modules_by_id \<Rightarrow> module_id set" where
  "required_ids mbi = (\<Union>e \<in> set mbi. set (lm_requires_modules (snd e)))"

definition path_room :: "modules_by_id \<Rightarrow> module_id list \<Rightarrow> nat" where
  "path_room mbi path = card (required_ids mbi - set path)"

lemma finite_required_ids [simp]: "finite (required_ids mbi)"
  by (simp add: required_ids_def)

lemma extension_room:
  assumes "btm_get mbi i = Some current" and "p \<in> set (extensions path current)"
  shows "path_room mbi p < path_room mbi path"
proof -
  obtain j where j: "p = path @ [j]" "j \<notin> set path" "j \<in> set (lm_requires_modules current)"
    using assms(2) by (auto simp: extensions_def)
  have "(i, current) \<in> set mbi" using assms(1) by (simp add: btm_get_def map_of_SomeD)
  then have "j \<in> required_ids mbi" using j(3) by (force simp: required_ids_def)
  then have "required_ids mbi - set p \<subset> required_ids mbi - set path" using j by auto
  then show ?thesis unfolding path_room_def by (intro psubset_card_mono) simp_all
qed

lemma extensions_decrease:
  assumes "btm_get mbi (last path) = Some current"
  shows "(mset (map (path_room mbi) (queue @ extensions path current)),
    mset (map (path_room mbi) (path # queue))) \<in> mult less_than"
proof -
  have "(mset (map (path_room mbi) queue) + mset (map (path_room mbi) (extensions path current)),
      mset (map (path_room mbi) queue) + {#path_room mbi path#}) \<in> mult less_than"
    using extension_room [OF assms] by (intro one_step_implies_mult) auto
  then show ?thesis by simp
qed

lemma queue_decrease:
  "(mset (map (path_room mbi) queue), mset (map (path_room mbi) (path # queue))) \<in> mult less_than"
  using one_step_implies_mult [of "{#path_room mbi path#}" "{#}" less_than "mset (map (path_room mbi) queue)"]
  by simp

text \<open>The breadth-first search of one module: the first dependency path that ends in a later
  stage, with that stage.\<close>

function transitive_loop :: "modules_by_id \<Rightarrow> nat \<Rightarrow> module_id list list \<Rightarrow> module_id list list
    \<Rightarrow> (module_id list \<times> stage_id) option" where
  "transitive_loop mbi module_index [] visited = None"
| "transitive_loop mbi module_index (path # queue) visited =
     (if path = [] then transitive_loop mbi module_index queue visited
      else if path \<in> set visited then transitive_loop mbi module_index queue visited
      else case btm_get mbi (last path) of
             None \<Rightarrow> transitive_loop mbi module_index queue (bts_insert path visited)
           | Some current \<Rightarrow>
               (case stage_index (lm_stage current) of
                  None \<Rightarrow> transitive_loop mbi module_index queue (bts_insert path visited)
                | Some current_index \<Rightarrow>
                    if current_index > module_index then Some (path, lm_stage current)
                    else transitive_loop mbi module_index (queue @ extensions path current)
                           (bts_insert path visited)))"
  by pat_completeness auto

termination
  by (relation "inv_image (mult less_than) (\<lambda>(mbi, k, queue, visited). mset (map (path_room mbi) queue))")
    (use queue_decrease extensions_decrease in \<open>auto simp: wf_mult\<close>)

definition transitive_errors :: "loaded_module list \<Rightarrow> modules_by_id \<Rightarrow> scheduler_error list" where
  "transitive_errors ms mbi =
     concat (map (\<lambda>m.
       case stage_index (lm_stage m) of
         None \<Rightarrow> []
       | Some module_index \<Rightarrow>
           (case transitive_loop mbi module_index (map (\<lambda>r. [lm_id m, r]) (lm_requires_modules m)) [] of
              None \<Rightarrow> []
            | Some (path, later_stage) \<Rightarrow>
                [TransitiveStageDependency (lm_id m) path (lm_stage m) later_stage]))
     ms)"

definition validate_transitive_dependencies ::
  "loaded_module list \<Rightarrow> modules_by_id \<Rightarrow> dag_validation_report \<Rightarrow> dag_validation_report" where
  "validate_transitive_dependencies ms mbi = push_errors TransitiveDependencyLegality (transitive_errors ms mbi)"

section \<open>All passes\<close>

definition validate_startup_dag :: "dag_validation_request \<Rightarrow> dag_validation_report option" where
  "validate_startup_dag rq =
     (let report = empty_report;
          mbi = index_modules (rq_modules rq);
          report = validate_stage_ids rq report;
          report = validate_claim_conflicts rq GlobalClaimConflicts True report;
          report = validate_claim_conflicts rq PerRegionClaimConflicts False report;
          report = validate_incompatibilities mbi report;
          report = validate_missing_dependencies rq mbi report;
          report = validate_ir_versions rq report;
          report = validate_host_version rq report
      in case validate_cycles (rq_stage_dags rq) report of
           None \<Rightarrow> None
         | Some report \<Rightarrow>
             (let report = validate_write_conflicts rq report;
                  report = validate_unfulfilled_reads rq report;
                  report = validate_dead_writes rq report;
                  report = validate_undeclared_access rq mbi report;
                  report = validate_cross_stage_dependencies (rq_modules rq) mbi report;
                  report = validate_transitive_dependencies (rq_modules rq) mbi report
              in Some report))"

section \<open>Validity of the report is emptiness of every pass\<close>

lemma push_errors_errors [report_simps]:
  "dr_errors (push_errors pass ds report) =
     dr_errors report @ map (\<lambda>d. \<lparr>dd_pass = pass, dd_level = LError, dd_detail = d\<rparr>) ds"
  by (induction ds arbitrary: report) (simp_all add: push_errors_def push_error_def)

lemma push_warnings_errors [report_simps]: "dr_errors (push_warnings pass ds report) = dr_errors report"
  by (induction ds arbitrary: report) (simp_all add: push_warnings_def push_warning_def)

lemma is_valid_push_errors [report_simps]:
  "is_valid (push_errors pass ds report) \<longleftrightarrow> is_valid report \<and> ds = []"
  by (auto simp: is_valid_def push_errors_errors)

lemma is_valid_push_warnings [report_simps]:
  "is_valid (push_warnings pass ds report) \<longleftrightarrow> is_valid report"
  by (simp add: is_valid_def push_warnings_errors)

lemma is_valid_empty_report [report_simps]: "is_valid empty_report"
  by (simp add: is_valid_def empty_report_def)

lemma validate_cycles_valid:
  "validate_cycles sds report = Some report' \<Longrightarrow>
     is_valid report' \<longleftrightarrow> is_valid report \<and>
       (\<forall>sd \<in> set sds. \<exists>out. validation_topological_sort (sd_nodes sd) = Some (Inr out))"
proof (induction sds arbitrary: report)
  case (Cons sd sds)
  have "\<not> is_valid (push_error CycleDetection e report)" for e
    by (simp add: is_valid_def push_error_def)
  then show ?case
    using Cons.prems Cons.IH by (auto split: option.splits sum.splits)
qed simp

lemma validate_cycles_total:
  "\<forall>sd \<in> set sds. distinct (node_ids (sd_nodes sd)) \<Longrightarrow> \<exists>report'. validate_cycles sds report = Some report'"
proof (induction sds arbitrary: report)
  case (Cons sd sds)
  then obtain deg out where "validation_topological_sort (sd_nodes sd) =
      Some (if length out = length (sd_nodes sd) then Inr out
        else Inl (filter (\<lambda>i. i \<notin> set out) (node_ids (sd_nodes sd))))"
    using fifo_loop_result [of "sd_nodes sd"] by (metis list.set_intros(1))
  then show ?case using Cons by simp
qed simp

lemmas pass_defs =
  validate_stage_ids_def validate_claim_conflicts_def validate_incompatibilities_def
  validate_missing_dependencies_def validate_ir_versions_def validate_host_version_def
  validate_write_conflicts_def validate_unfulfilled_reads_def validate_dead_writes_def
  validate_undeclared_access_def validate_cross_stage_dependencies_def
  validate_transitive_dependencies_def

lemma startup_valid_passes:
  assumes "validate_startup_dag rq = Some report" and "is_valid report"
  defines "mbi \<equiv> index_modules (rq_modules rq)"
  shows "stage_id_errors rq = []"
    and "fill_coverage_errors (holders_by_claim True (rq_claim_holders rq)) = []"
    and "\<And>e. e \<in> set (holders_by_claim True (rq_claim_holders rq)) \<Longrightarrow> conflict_errors_of True e = []"
    and "\<And>e. e \<in> set (holders_by_claim False (rq_claim_holders rq)) \<Longrightarrow> conflict_errors_of False e = []"
    and "incompatibility_errors mbi = []"
    and "missing_dependency_errors rq mbi = []"
    and "ir_version_errors rq = []"
    and "host_version_errors rq = []"
    and "\<And>sd. sd \<in> set (rq_stage_dags rq) \<Longrightarrow> \<exists>out. validation_topological_sort (sd_nodes sd) = Some (Inr out)"
    and "write_conflict_errors rq = []"
    and "unfulfilled_read_errors rq = []"
    and "undeclared_access_errors rq mbi = []"
    and "cross_stage_errors (rq_modules rq) mbi = []"
    and "transitive_errors (rq_modules rq) mbi = []"
  using assms
  by (auto simp: validate_startup_dag_def Let_def pass_defs report_simps split: option.splits
      dest!: validate_cycles_valid)

section \<open>What single passes guarantee\<close>

lemma index_modules_get:
  "distinct (map lm_id ms) \<Longrightarrow> btm_get (index_modules ms) i = Some m \<longleftrightarrow> m \<in> set ms \<and> lm_id m = i"
  unfolding index_modules_def
  by (subst btm_collect_get_distinct) (auto simp: comp_def map_of_eq_Some_iff)

lemma index_modules_mem: "btm_get (index_modules ms) i = Some m \<Longrightarrow> m \<in> set ms \<and> lm_id m = i"
  unfolding index_modules_def by (auto simp: btm_collect_get dest!: map_of_SomeD)

lemma index_modules_None: "btm_get (index_modules ms) i = None \<longleftrightarrow> i \<notin> lm_id ` set ms"
  unfolding btm_get_None_iff index_modules_def btm_collect_keys by (simp add: image_image)

lemma index_modules_all:
  assumes "distinct (map lm_id ms)"
  shows "(case btm_get (index_modules ms) i of None \<Rightarrow> [] | Some m \<Rightarrow> f m) = [] \<longleftrightarrow>
    (\<forall>m \<in> set ms. lm_id m = i \<longrightarrow> f m = [])"
proof (cases "btm_get (index_modules ms) i")
  case None
  then show ?thesis using index_modules_None [of ms i] by auto
next
  case (Some m)
  then have "m' = m" if "m' \<in> set ms" "lm_id m' = i" for m'
    using index_modules_get [OF assms, of i m'] that by simp
  moreover have "m \<in> set ms" "lm_id m = i" using index_modules_mem [OF Some] by simp_all
  ultimately show ?thesis unfolding Some option.case by blast
qed

lemma stage_index_None: "stage_index st = None \<longleftrightarrow> \<not> is_known_stage st"
  using stage_index_known [of st] by (auto simp: stage_index_def)

lemma pairs_complete: "x \<in> set xs \<Longrightarrow> y \<in> set xs \<Longrightarrow> x \<noteq> y \<Longrightarrow> (x, y) \<in> set (pairs xs) \<or> (y, x) \<in> set (pairs xs)"
  by (induction xs) auto

lemma pairs_mem: "(x, y) \<in> set (pairs xs) \<Longrightarrow> x \<in> set xs \<and> y \<in> set xs"
  by (induction xs) auto

lemma pairs_distinct: "distinct (map f xs) \<Longrightarrow> (x, y) \<in> set (pairs xs) \<Longrightarrow> f x \<noteq> f y"
  by (induction xs) (auto dest: pairs_mem)

lemma pairs_Nil_iff: "pairs xs = [] \<longleftrightarrow> length xs < 2"
  by (cases xs rule: pairs.cases) (auto simp: neq_Nil_conv length_Suc_conv less_Suc_eq numeral_2_eq_2)

lemma shared_paths_set [simp]: "set (shared_paths l r) = set l \<inter> set r"
  by (auto simp: shared_paths_def Let_def)

lemma sorted_stage_dags_set [simp]: "set (sorted_stage_dags sds) = set sds"
  by (simp add: sorted_stage_dags_def)

lemma by_field_get:
  assumes "btm_get (by_field sel sds) field = Some ws"
  shows "(st, i) \<in> set ws \<longleftrightarrow>
    (\<exists>sd \<in> set sds. \<exists>n \<in> set (sd_nodes sd). sd_stage sd = st \<and> mn_module_id n = i \<and> field \<in> set (sel n))"
  using btm_group_values [OF assms [unfolded by_field_def]] by auto

lemma by_field_None:
  "btm_get (by_field sel sds) field = None \<longleftrightarrow>
     \<not> (\<exists>sd \<in> set sds. \<exists>n \<in> set (sd_nodes sd). field \<in> set (sel n))"
  by (simp add: by_field_def btm_group_get image_UN image_image)

text \<open>At most one module holds a claim under one key unless the claim is exempt.\<close>

lemma holders_get:
  "btm_get (holders_by_claim g hs) (c, k) = Some ms \<Longrightarrow>
     set ms = {ch_module_id h | h. h \<in> set hs \<and> (ch_scope h = ScopeGlobal) = g \<and> ch_claim h = c \<and> holder_key g h = k}"
  unfolding holders_by_claim_def by (drule btm_group_values) auto

lemma holders_present:
  assumes "h \<in> set hs" and "(ch_scope h = ScopeGlobal) = g"
  shows "\<exists>ms. btm_get (holders_by_claim g hs) (ch_claim h, holder_key g h) = Some ms"
  using assms by (auto simp: holders_by_claim_def btm_group_get image_iff split: if_splits)

lemma holders_unique:
  assumes clean: "\<And>e. e \<in> set (holders_by_claim g hs) \<Longrightarrow> conflict_errors_of g e = []"
    and h: "h \<in> set hs" "(ch_scope h = ScopeGlobal) = g"
    and h': "h' \<in> set hs" "(ch_scope h' = ScopeGlobal) = g"
    and same: "ch_claim h = ch_claim h'" "holder_key g h = holder_key g h'"
    and nonexempt: "g \<Longrightarrow> ch_claim h \<notin> set FILL_CLAIM_IDS \<union> set FAMILY_SCOPED_SUPPORT_CLAIMS"
  shows "ch_module_id h = ch_module_id h'"
proof -
  obtain ms where ms: "btm_get (holders_by_claim g hs) (ch_claim h, holder_key g h) = Some ms"
    using holders_present [OF h] by blast
  then have "((ch_claim h, holder_key g h), ms) \<in> set (holders_by_claim g hs)"
    by (subst btm_get_Some_iff [symmetric]) (simp_all add: holders_by_claim_def)
  from clean [OF this] have "length (bts_collect ms) < 2"
    using nonexempt by (auto simp: conflict_errors_of_def Let_def pairs_Nil_iff split: if_splits)
  moreover have "card (set ms) = length (bts_collect ms)"
    using bts_wf_distinct [of "bts_collect ms"] distinct_card [of "bts_collect ms"] by simp
  moreover have "ch_module_id h \<in> set ms" "ch_module_id h' \<in> set ms"
    using holders_get [OF ms] h h' same by auto
  ultimately show ?thesis
    using card_le_Suc0_iff_eq [of "set ms"] by simp
qed

text \<open>Dependencies never point to a later stage when pass 12 is silent.\<close>

lemma cross_stage_mono:
  assumes "cross_stage_errors ms mbi = []" and "m \<in> set ms" and "r \<in> set (lm_requires_modules m)"
    and "btm_get mbi r = Some q" and "stage_index (lm_stage m) = Some i" and "stage_index (lm_stage q) = Some j"
  shows "j \<le> i"
proof -
  note outer = assms(1) [unfolded cross_stage_errors_def concat_eq_Nil_conv set_map ball_simps, rule_format, OF assms(2)]
  note inner = outer [unfolded assms(5) option.case concat_eq_Nil_conv set_map ball_simps, rule_format, OF assms(3)]
  show ?thesis using inner assms(4,6) by (simp split: if_splits)
qed

lemma transitive_loop_None:
  assumes "cross_stage_errors ms (index_modules ms) = []"
    and "\<forall>path \<in> set queue. path \<noteq> [] \<and>
      (\<forall>q j. btm_get (index_modules ms) (last path) = Some q \<longrightarrow> stage_index (lm_stage q) = Some j \<longrightarrow> j \<le> i)"
  shows "transitive_loop (index_modules ms) i queue visited = None"
  using assms(2)
proof (induction "index_modules ms" i queue visited rule: transitive_loop.induct)
  case (2 i path queue visited)
  let ?ok = "\<lambda>p. p \<noteq> [] \<and> (\<forall>q j. btm_get (index_modules ms) (last p) = Some q \<longrightarrow>
    stage_index (lm_stage q) = Some j \<longrightarrow> j \<le> i)"
  have ext: "\<forall>p \<in> set (extensions path c). ?ok p"
    if c: "btm_get (index_modules ms) (last path) = Some c" "stage_index (lm_stage c) = Some k" for c k
  proof -
    have "c \<in> set ms" using index_modules_mem [OF c(1)] by simp
    moreover have "k \<le> i" using "2.prems" c by auto
    ultimately show ?thesis
      using cross_stage_mono [OF assms(1)] c(2) by (fastforce simp: extensions_def intro: order_trans)
  qed
  have rest: "\<forall>p \<in> set queue. ?ok p" using "2.prems" by simp
  have ok: "?ok path" using "2.prems" by simp
  have "\<forall>p \<in> set (queue @ extensions path c). ?ok p"
    if "btm_get (index_modules ms) (last path) = Some c" "stage_index (lm_stage c) = Some k" for c k
    using ext [OF that] rest by auto
  then show ?case
    using "2.hyps" rest ok by (auto split: option.split)
qed simp

section \<open>The contract of a clean report\<close>

text \<open>What startup validation promises, without reports, maps or searches.\<close>

definition module_runnable :: "dag_validation_request \<Rightarrow> loaded_module \<Rightarrow> bool" where
  "module_runnable rq m \<longleftrightarrow>
     is_known_stage (lm_stage m) \<and>
     \<not> semver_lt (rq_host_ir_schema_version rq) (lm_min_ir_schema m) \<and>
     semver_lt (rq_host_ir_schema_version rq) (lm_max_ir_schema m) \<and>
     \<not> semver_lt (rq_host_version rq) (lm_min_host_version m) \<and>
     set (lm_requires_modules m) \<subseteq> lm_id ` set (rq_modules rq) \<and>
     set (lm_incompatible_with m) \<inter> lm_id ` set (rq_modules rq) = {} \<and>
     set (lm_requires_claims m) \<subseteq> ch_claim ` set (rq_claim_holders rq)"

definition claims_exclusive :: "bool \<Rightarrow> claim_holder list \<Rightarrow> bool" where
  "claims_exclusive g hs \<longleftrightarrow>
     (\<forall>h \<in> set hs. \<forall>h' \<in> set hs.
        (ch_scope h = ScopeGlobal) = g \<and> (ch_scope h' = ScopeGlobal) = g \<and>
        ch_claim h = ch_claim h' \<and> holder_key g h = holder_key g h' \<and>
        (g \<longrightarrow> ch_claim h \<notin> set FILL_CLAIM_IDS \<union> set FAMILY_SCOPED_SUPPORT_CLAIMS) \<longrightarrow>
        ch_module_id h = ch_module_id h')"

definition fill_roles_held :: "claim_holder list \<Rightarrow> bool" where
  "fill_roles_held hs \<longleftrightarrow> (\<forall>c \<in> set FILL_CLAIM_IDS. \<exists>h \<in> set hs. ch_scope h = ScopeGlobal \<and> ch_claim h = c)"

definition runs_before :: "stage_dag \<Rightarrow> module_id \<Rightarrow> module_id \<Rightarrow> bool" where
  "runs_before sd u v \<longleftrightarrow> (u, v) \<in> {(a, b). dag_edge (sd_nodes sd) a b}\<^sup>+"

definition writes_ordered :: "dag_validation_request \<Rightarrow> stage_dag \<Rightarrow> bool" where
  "writes_ordered rq sd \<longleftrightarrow>
     (\<forall>n \<in> set (sd_nodes sd). \<forall>n' \<in> set (sd_nodes sd). \<forall>field \<in> set (mn_ir_writes n) \<inter> set (mn_ir_writes n').
        mn_module_id n \<noteq> mn_module_id n' \<longrightarrow>
        (field \<in> set (mn_ir_reads n') \<and> runs_before sd (mn_module_id n) (mn_module_id n')) \<or>
        (field \<in> set (mn_ir_reads n) \<and> runs_before sd (mn_module_id n') (mn_module_id n)) \<or>
        ({mn_module_id n, mn_module_id n'} \<subseteq> set (family_support_modules (rq_claim_holders rq)) \<and> support_field field))"

definition read_supplied :: "dag_validation_request \<Rightarrow> stage_dag \<Rightarrow> loaded_module \<Rightarrow> string \<Rightarrow> bool" where
  "read_supplied rq sd m field \<longleftrightarrow>
     (\<exists>sd' \<in> set (rq_stage_dags rq). \<exists>w \<in> set (sd_nodes sd'). \<exists>i j.
        field \<in> set (mn_ir_writes w) \<and> mn_module_id w \<noteq> lm_id m \<and>
        stage_index (sd_stage sd) = Some i \<and> stage_index (sd_stage sd') = Some j \<and>
        (j < i \<or> (sd_stage sd' = lm_stage m \<and> runs_before sd (mn_module_id w) (lm_id m))))"

definition reads_supplied :: "dag_validation_request \<Rightarrow> stage_dag \<Rightarrow> bool" where
  "reads_supplied rq sd \<longleftrightarrow>
     (\<forall>n \<in> set (sd_nodes sd). \<forall>m \<in> set (rq_modules rq). lm_id m = mn_module_id n \<longrightarrow>
        (\<forall>field \<in> set (lm_ir_reads m). read_supplied rq sd m field))"

definition access_declared :: "dag_validation_request \<Rightarrow> bool" where
  "access_declared rq \<longleftrightarrow>
     (\<forall>a \<in> set (rq_access_audits rq). \<forall>m \<in> set (rq_modules rq). lm_id m = ma_module_id a \<longrightarrow>
        ir_root ` set (ma_runtime_reads a) \<subseteq> ir_root ` set (lm_ir_reads m) \<and>
        set (ma_runtime_writes a) \<subseteq> set (lm_ir_writes m))"

definition requires_stage_ordered :: "loaded_module list \<Rightarrow> bool" where
  "requires_stage_ordered ms \<longleftrightarrow>
     (\<forall>m \<in> set ms. \<forall>q \<in> set ms. \<forall>i j. lm_id q \<in> set (lm_requires_modules m) \<and>
        stage_index (lm_stage m) = Some i \<and> stage_index (lm_stage q) = Some j \<longrightarrow> j \<le> i)"

definition startup_contract :: "dag_validation_request \<Rightarrow> bool" where
  "startup_contract rq \<longleftrightarrow>
     (\<forall>m \<in> set (rq_modules rq). module_runnable rq m) \<and>
     (\<forall>sd \<in> set (rq_stage_dags rq). is_known_stage (sd_stage sd)) \<and>
     fill_roles_held (rq_claim_holders rq) \<and>
     claims_exclusive True (rq_claim_holders rq) \<and> claims_exclusive False (rq_claim_holders rq) \<and>
     (\<forall>sd \<in> set (rq_stage_dags rq). acyclic (dag_rel (sd_nodes sd)) \<and> writes_ordered rq sd \<and> reads_supplied rq sd) \<and>
     access_declared rq \<and> requires_stage_ordered (rq_modules rq)"

lemma conflict_errors_exclusive:
  "(\<forall>e \<in> set (holders_by_claim g hs). conflict_errors_of g e = []) \<longleftrightarrow> claims_exclusive g hs"
proof
  assume "\<forall>e \<in> set (holders_by_claim g hs). conflict_errors_of g e = []"
  then have clean: "\<And>e. e \<in> set (holders_by_claim g hs) \<Longrightarrow> conflict_errors_of g e = []" by blast
  show "claims_exclusive g hs"
    unfolding claims_exclusive_def
  proof (intro ballI impI, elim conjE)
    fix h h' assume "h \<in> set hs" "h' \<in> set hs" "(ch_scope h = ScopeGlobal) = g" "(ch_scope h' = ScopeGlobal) = g"
      "ch_claim h = ch_claim h'" "holder_key g h = holder_key g h'"
      "g \<longrightarrow> ch_claim h \<notin> set FILL_CLAIM_IDS \<union> set FAMILY_SCOPED_SUPPORT_CLAIMS"
    then show "ch_module_id h = ch_module_id h'" by (intro holders_unique [OF clean]) simp_all
  qed
next
  assume excl: "claims_exclusive g hs"
  show "\<forall>e \<in> set (holders_by_claim g hs). conflict_errors_of g e = []"
  proof
    fix e assume e: "e \<in> set (holders_by_claim g hs)"
    obtain ck ms where "e = (ck, ms)" by (cases e)
    moreover obtain c k where "ck = (c, k)" by (cases ck)
    ultimately have ckm: "e = ((c, k), ms)" by simp
    have "btm_wf (holders_by_claim g hs)" by (simp add: holders_by_claim_def)
    then have get: "btm_get (holders_by_claim g hs) (c, k) = Some ms"
      using e unfolding ckm by (simp only: btm_get_Some_iff)
    show "conflict_errors_of g e = []"
    proof (cases "g \<and> c \<in> set FILL_CLAIM_IDS \<union> set FAMILY_SCOPED_SUPPORT_CLAIMS")
      case True
      then show ?thesis by (auto simp: ckm conflict_errors_of_def Let_def)
    next
      case False
      have "x = y" if mem: "x \<in> set ms" "y \<in> set ms" for x y
      proof -
        obtain h where h: "h \<in> set hs" "(ch_scope h = ScopeGlobal) = g" "ch_claim h = c"
          "holder_key g h = k" "x = ch_module_id h"
          using mem(1) unfolding holders_get [OF get] mem_Collect_eq by (elim exE conjE) (rule that)
        obtain h' where h': "h' \<in> set hs" "(ch_scope h' = ScopeGlobal) = g" "ch_claim h' = c"
          "holder_key g h' = k" "y = ch_module_id h'"
          using mem(2) unfolding holders_get [OF get] mem_Collect_eq by (elim exE conjE) (rule that)
        have "g \<longrightarrow> ch_claim h \<notin> set FILL_CLAIM_IDS \<union> set FAMILY_SCOPED_SUPPORT_CLAIMS"
          using False unfolding h(3) by simp
        then show ?thesis
          using excl [unfolded claims_exclusive_def, rule_format, OF h(1) h'(1)] unfolding h(2-5) h'(2-5)
          by (simp only: simp_thms)
      qed
      then have "card (set ms) \<le> 1" by (simp add: card_le_Suc0_iff_eq)
      then have "length (bts_collect ms) < 2"
        using bts_wf_distinct [of "bts_collect ms"] distinct_card [of "bts_collect ms"] by simp
      then show ?thesis by (simp add: ckm conflict_errors_of_def)
    qed
  qed
qed

lemma fill_coverage_held:
  "fill_coverage_errors (holders_by_claim True hs) = [] \<longleftrightarrow> fill_roles_held hs"
proof -
  have "list_ex (\<lambda>k. fst k = c) (btm_keys (holders_by_claim True hs)) \<longleftrightarrow>
      (\<exists>h \<in> set hs. ch_scope h = ScopeGlobal \<and> ch_claim h = c)" for c
  proof -
    have "list_ex (\<lambda>k. fst k = c) (btm_keys (holders_by_claim True hs)) \<longleftrightarrow>
        (\<exists>k. btm_get (holders_by_claim True hs) (c, k) \<noteq> None)"
      by (auto simp: list_ex_iff btm_keys_set simp del: not_None_eq)
    also have "\<dots> \<longleftrightarrow> (\<exists>h \<in> set hs. ch_scope h = ScopeGlobal \<and> ch_claim h = c)"
      by (simp add: holders_by_claim_def btm_group_get image_iff) blast
    finally show ?thesis .
  qed
  then show ?thesis
    by (simp add: fill_coverage_errors_def fill_roles_held_def comprehension_Nil del: concat_eq_Nil_conv)
qed

lemma write_conflicts_ordered:
  assumes "\<And>sd. sd \<in> set (rq_stage_dags rq) \<Longrightarrow> distinct (node_ids (sd_nodes sd))"
  shows "write_conflict_errors rq = [] \<longleftrightarrow> (\<forall>sd \<in> set (rq_stage_dags rq). writes_ordered rq sd)"
proof -
  let ?F = "family_support_modules (rq_claim_holders rq)"
  have "(\<forall>(l, r) \<in> set (pairs (sd_nodes sd)). \<forall>field \<in> set (mn_ir_writes l) \<inter> set (mn_ir_writes r).
      write_orderable ?F (compute_reachability (sd_nodes sd)) l r field) \<longleftrightarrow> writes_ordered rq sd"
    (is "?L \<longleftrightarrow> _") if "sd \<in> set (rq_stage_dags rq)" for sd
  proof -
    note dist = assms [OF that]
    let ?W = "write_orderable ?F (compute_reachability (sd_nodes sd))"
    have W: "?W l r field \<longleftrightarrow>
        (field \<in> set (mn_ir_reads r) \<and> runs_before sd (mn_module_id l) (mn_module_id r)) \<or>
        (field \<in> set (mn_ir_reads l) \<and> runs_before sd (mn_module_id r) (mn_module_id l)) \<or>
        ({mn_module_id l, mn_module_id r} \<subseteq> set ?F \<and> support_field field)" for l r field
      by (simp add: write_orderable_def runs_before_def can_reach_iff [OF dist])
    have ids: "l \<in> set (sd_nodes sd) \<and> r \<in> set (sd_nodes sd) \<and> mn_module_id l \<noteq> mn_module_id r"
      if "(l, r) \<in> set (pairs (sd_nodes sd))" for l r
      using pairs_mem [OF that] pairs_distinct [OF dist that] by simp
    show ?thesis
    proof
      assume L: ?L
      show "writes_ordered rq sd" unfolding writes_ordered_def W [symmetric]
      proof (intro ballI impI)
        fix n n' field assume *: "n \<in> set (sd_nodes sd)" "n' \<in> set (sd_nodes sd)"
          "field \<in> set (mn_ir_writes n) \<inter> set (mn_ir_writes n')" "mn_module_id n \<noteq> mn_module_id n'"
        then have "(n, n') \<in> set (pairs (sd_nodes sd)) \<or> (n', n) \<in> set (pairs (sd_nodes sd))"
          by (intro pairs_complete) auto
        then have "?W n n' field \<or> ?W n' n field" using L *(3) by auto
        then show "?W n n' field" unfolding W by auto
      qed
    next
      assume "writes_ordered rq sd"
      then show ?L using ids unfolding writes_ordered_def W [symmetric] by blast
    qed
  qed
  then show ?thesis
    unfolding write_conflict_errors_def Let_def
    by (simp add: concat_map_Nil comprehension_Nil case_prod_beta del: concat_eq_Nil_conv cong: ball_cong)
qed

lemma unfulfilled_reads_supplied:
  assumes "\<And>sd. sd \<in> set (rq_stage_dags rq) \<Longrightarrow> distinct (node_ids (sd_nodes sd))"
    and mods: "distinct (map lm_id (rq_modules rq))"
  shows "unfulfilled_read_errors rq = [] \<longleftrightarrow> (\<forall>sd \<in> set (rq_stage_dags rq). reads_supplied rq sd)"
proof -
  have sup: "(case btm_get (writers_by_field (rq_stage_dags rq)) field of None \<Rightarrow> False
      | Some ws \<Rightarrow> list_ex (read_satisfied_by (stage_index (sd_stage sd)) (compute_reachability (sd_nodes sd)) m) ws)
    \<longleftrightarrow> read_supplied rq sd m field" if "sd \<in> set (rq_stage_dags rq)" for sd m field
  proof (cases "btm_get (writers_by_field (rq_stage_dags rq)) field")
    case None
    then have "\<not> (\<exists>sd' \<in> set (rq_stage_dags rq). \<exists>w \<in> set (sd_nodes sd'). field \<in> set (mn_ir_writes w))"
      unfolding writers_by_field_def by_field_None .
    then have "\<not> read_supplied rq sd m field" unfolding read_supplied_def by blast
    with None show ?thesis by simp
  next
    case (Some ws)
    note mem = by_field_get [OF Some [unfolded writers_by_field_def]]
    have sat: "read_satisfied_by (stage_index (sd_stage sd)) (compute_reachability (sd_nodes sd)) m (st, i) \<longleftrightarrow>
      i \<noteq> lm_id m \<and> (\<exists>a b. stage_index (sd_stage sd) = Some a \<and> stage_index st = Some b \<and>
        (b < a \<or> (st = lm_stage m \<and> runs_before sd i (lm_id m))))" for st i
      by (cases "stage_index (sd_stage sd)"; cases "stage_index st")
        (auto simp: read_satisfied_by_def runs_before_def can_reach_iff [OF assms(1) [OF that]])
    have "list_ex (read_satisfied_by (stage_index (sd_stage sd)) (compute_reachability (sd_nodes sd)) m) ws \<longleftrightarrow>
      (\<exists>st i. (st, i) \<in> set ws \<and> read_satisfied_by (stage_index (sd_stage sd)) (compute_reachability (sd_nodes sd)) m (st, i))"
      unfolding list_ex_iff by (simp only: Bex_def split_paired_Ex)
    also have "\<dots> \<longleftrightarrow> read_supplied rq sd m field"
      unfolding mem sat read_supplied_def by blast
    finally show ?thesis using Some by simp
  qed
  show ?thesis
    unfolding unfulfilled_read_errors_def Let_def concat_map_Nil reads_supplied_def
  proof (intro ball_cong refl)
    fix sd n assume sd: "sd \<in> set (rq_stage_dags rq)" and "n \<in> set (sd_nodes sd)"
    show "(case btm_get (index_modules (rq_modules rq)) (mn_module_id n) of None \<Rightarrow> []
       | Some m \<Rightarrow> [UnfulfilledRead (lm_id m) field None. field \<leftarrow> lm_ir_reads m,
           \<not> (case btm_get (writers_by_field (rq_stage_dags rq)) field of None \<Rightarrow> False
              | Some ws \<Rightarrow> list_ex (read_satisfied_by (stage_index (sd_stage sd)) (compute_reachability (sd_nodes sd)) m) ws)]) = []
      \<longleftrightarrow> (\<forall>m \<in> set (rq_modules rq). lm_id m = mn_module_id n \<longrightarrow> (\<forall>field \<in> set (lm_ir_reads m). read_supplied rq sd m field))"
      unfolding sup [OF sd] index_modules_all [OF mods] comprehension_Nil not_not ..
  qed
qed

lemma undeclared_access_declared:
  assumes "distinct (map lm_id (rq_modules rq))"
  shows "undeclared_access_errors rq (index_modules (rq_modules rq)) = [] \<longleftrightarrow> access_declared rq"
  unfolding undeclared_access_errors_def concat_map_Nil access_declared_def
proof (intro ball_cong refl)
  fix a
  have root: "read_is_declared ds p \<longleftrightarrow> ir_root p \<in> ir_root ` set ds" for ds p
    unfolding read_is_declared_def Let_def list_ex_iff image_iff by metis
  show "(case btm_get (index_modules (rq_modules rq)) (ma_module_id a) of None \<Rightarrow> []
      | Some m \<Rightarrow>
        [UndeclaredAccess (lm_id m) AccessRead path. path \<leftarrow> ma_runtime_reads a, \<not> read_is_declared (lm_ir_reads m) path]
        @ [UndeclaredAccess (lm_id m) AccessWrite path. path \<leftarrow> ma_runtime_writes a, path \<notin> set (lm_ir_writes m)]) = []
    \<longleftrightarrow> (\<forall>m \<in> set (rq_modules rq). lm_id m = ma_module_id a \<longrightarrow>
        ir_root ` set (ma_runtime_reads a) \<subseteq> ir_root ` set (lm_ir_reads m) \<and>
        set (ma_runtime_writes a) \<subseteq> set (lm_ir_writes m))"
    unfolding index_modules_all [OF assms] append_is_Nil_conv comprehension_Nil not_not root
    by (auto simp: image_subset_iff subset_iff)
qed

lemma module_passes_runnable:
  assumes "distinct (map lm_id (rq_modules rq))"
  defines "mbi \<equiv> index_modules (rq_modules rq)"
  shows "stage_id_errors rq = [] \<and> incompatibility_errors mbi = [] \<and> missing_dependency_errors rq mbi = [] \<and>
      ir_version_errors rq = [] \<and> host_version_errors rq = [] \<longleftrightarrow>
    (\<forall>m \<in> set (rq_modules rq). module_runnable rq m) \<and> (\<forall>sd \<in> set (rq_stage_dags rq). is_known_stage (sd_stage sd))"
proof -
  have none: "btm_get mbi i = None \<longleftrightarrow> i \<notin> lm_id ` set (rq_modules rq)" for i
    unfolding mbi_def by (rule index_modules_None)
  have "set (map snd mbi) = set (rq_modules rq)"
  proof -
    have "m \<in> set (map snd mbi) \<longleftrightarrow> (\<exists>i. btm_get mbi i = Some m)" for m
      by (force simp: mbi_def index_modules_def btm_get_Some_iff)
    then show ?thesis using index_modules_get [OF assms(1)] by (auto simp: mbi_def)
  qed
  note all = this
  have a: "incompatibility_errors mbi = [] \<longleftrightarrow>
      (\<forall>m \<in> set (rq_modules rq). set (lm_incompatible_with m) \<inter> lm_id ` set (rq_modules rq) = {})"
    unfolding incompatibility_errors_def concat_map_Nil if_single_Nil none all disjoint_iff Ball_def not_not ..
  have b: "missing_dependency_errors rq mbi = [] \<longleftrightarrow>
      (\<forall>m \<in> set (rq_modules rq). set (lm_requires_modules m) \<subseteq> lm_id ` set (rq_modules rq) \<and>
        set (lm_requires_claims m) \<subseteq> ch_claim ` set (rq_claim_holders rq))"
    unfolding missing_dependency_errors_def Let_def concat_map_Nil append_is_Nil_conv if_single_Nil none
      not_not subset_iff bts_collect_set set_map Ball_def ..
  have c: "stage_id_errors rq = [] \<longleftrightarrow> (\<forall>m \<in> set (rq_modules rq). is_known_stage (lm_stage m)) \<and>
      (\<forall>sd \<in> set (rq_stage_dags rq). is_known_stage (sd_stage sd))"
    unfolding stage_id_errors_def append_is_Nil_conv comprehension_Nil stage_index_None not_not ..
  have d: "ir_version_errors rq = [] \<longleftrightarrow> (\<forall>m \<in> set (rq_modules rq).
      \<not> semver_lt (rq_host_ir_schema_version rq) (lm_min_ir_schema m) \<and>
      semver_lt (rq_host_ir_schema_version rq) (lm_max_ir_schema m))"
    unfolding ir_version_errors_def comprehension_Nil de_Morgan_disj not_not ..
  have e: "host_version_errors rq = [] \<longleftrightarrow>
      (\<forall>m \<in> set (rq_modules rq). \<not> semver_lt (rq_host_version rq) (lm_min_host_version m))"
    unfolding host_version_errors_def comprehension_Nil ..
  show ?thesis unfolding a b c d e module_runnable_def ball_conj_distrib by (simp only: conj_ac)
qed

lemma cross_stage_ordered:
  assumes "distinct (map lm_id ms)"
  shows "cross_stage_errors ms (index_modules ms) = [] \<longleftrightarrow> requires_stage_ordered ms"
proof
  assume "cross_stage_errors ms (index_modules ms) = []"
  then show "requires_stage_ordered ms"
    unfolding requires_stage_ordered_def
    using cross_stage_mono index_modules_get [OF assms] by blast
next
  assume ord: "requires_stage_ordered ms"
  have "j \<le> i" if "m \<in> set ms" "r \<in> set (lm_requires_modules m)" "btm_get (index_modules ms) r = Some q"
    "stage_index (lm_stage m) = Some i" "stage_index (lm_stage q) = Some j" for m r q i j
    using ord that index_modules_get [OF assms, of r q] by (auto simp: requires_stage_ordered_def)
  then show "cross_stage_errors ms (index_modules ms) = []"
    unfolding cross_stage_errors_def concat_map_Nil by (auto simp: not_less split: option.split)
qed

lemma transitive_errors_silent:
  assumes "cross_stage_errors ms (index_modules ms) = []"
  shows "transitive_errors ms (index_modules ms) = []"
proof -
  have "transitive_loop (index_modules ms) i (map (\<lambda>r. [lm_id m, r]) (lm_requires_modules m)) [] = None"
    if "m \<in> set ms" "stage_index (lm_stage m) = Some i" for m i
    using cross_stage_mono [OF assms that(1)] that(2)
    by (intro transitive_loop_None [OF assms]) auto
  then show ?thesis
    unfolding transitive_errors_def concat_map_Nil by (simp split: option.split)
qed

lemma startup_valid_contract:
  assumes dags: "\<And>sd. sd \<in> set (rq_stage_dags rq) \<Longrightarrow> distinct (node_ids (sd_nodes sd))"
    and mods: "distinct (map lm_id (rq_modules rq))"
    and run: "validate_startup_dag rq = Some report"
  shows "is_valid report \<longleftrightarrow> startup_contract rq"
proof -
  let ?mbi = "index_modules (rq_modules rq)" and ?hs = "rq_claim_holders rq"
  have "is_valid report \<longleftrightarrow>
      (stage_id_errors rq = [] \<and> incompatibility_errors ?mbi = [] \<and> missing_dependency_errors rq ?mbi = [] \<and>
       ir_version_errors rq = [] \<and> host_version_errors rq = []) \<and>
      fill_coverage_errors (holders_by_claim True ?hs) = [] \<and>
      (\<forall>e \<in> set (holders_by_claim True ?hs). conflict_errors_of True e = []) \<and>
      (\<forall>e \<in> set (holders_by_claim False ?hs). conflict_errors_of False e = []) \<and>
      (\<forall>sd \<in> set (rq_stage_dags rq). \<exists>out. validation_topological_sort (sd_nodes sd) = Some (Inr out)) \<and>
      write_conflict_errors rq = [] \<and> unfulfilled_read_errors rq = [] \<and> undeclared_access_errors rq ?mbi = [] \<and>
      cross_stage_errors (rq_modules rq) ?mbi = [] \<and> transitive_errors (rq_modules rq) ?mbi = []"
    using run
    by (auto simp: validate_startup_dag_def Let_def pass_defs report_simps concat_map_Nil
        simp del: concat_eq_Nil_conv split: option.splits dest!: validate_cycles_valid)
  moreover have "(\<forall>sd \<in> set (rq_stage_dags rq). \<exists>out. validation_topological_sort (sd_nodes sd) = Some (Inr out)) \<longleftrightarrow>
      (\<forall>sd \<in> set (rq_stage_dags rq). acyclic (dag_rel (sd_nodes sd)))"
    by (intro ball_cong refl validation_topological_sort_Inr_iff dags)
  moreover have "write_conflict_errors rq = [] \<longleftrightarrow> (\<forall>sd \<in> set (rq_stage_dags rq). writes_ordered rq sd)"
    by (rule write_conflicts_ordered) (rule dags)
  moreover have "unfulfilled_read_errors rq = [] \<longleftrightarrow> (\<forall>sd \<in> set (rq_stage_dags rq). reads_supplied rq sd)"
    using mods by (rule unfulfilled_reads_supplied [rotated]) (rule dags)
  ultimately show ?thesis
    unfolding startup_contract_def module_passes_runnable [OF mods] fill_coverage_held conflict_errors_exclusive
      undeclared_access_declared [OF mods] ball_conj_distrib
    using cross_stage_ordered [OF mods] transitive_errors_silent [of "rq_modules rq"] by blast
qed

lemma requires_chain_stage:
  assumes ord: "requires_stage_ordered ms" and known: "\<forall>m \<in> set ms. is_known_stage (lm_stage m)"
    and chain: "(m, q) \<in> {(a, b). a \<in> set ms \<and> b \<in> set ms \<and> lm_id b \<in> set (lm_requires_modules a)}\<^sup>*"
    and m: "m \<in> set ms"
  shows "\<exists>i j. stage_index (lm_stage m) = Some i \<and> stage_index (lm_stage q) = Some j \<and> j \<le> i"
  using chain
proof (induction rule: rtrancl_induct)
  case base
  show ?case using m known stage_index_None by fastforce
next
  case (step q r)
  then obtain i j where ij: "stage_index (lm_stage m) = Some i" "stage_index (lm_stage q) = Some j" "j \<le> i" by blast
  have qr: "q \<in> set ms" "r \<in> set ms" "lm_id r \<in> set (lm_requires_modules q)" using step.hyps(2) by auto
  then obtain k where "stage_index (lm_stage r) = Some k" using known stage_index_None by fastforce
  moreover from this have "k \<le> j" using ord qr ij(2) unfolding requires_stage_ordered_def by blast
  ultimately show ?case using ij by auto
qed

lemma splitn_char_cons:
  "c \<notin> set s \<Longrightarrow> splitn_char (Suc (Suc n)) c (s @ c # t) = s # splitn_char (Suc n) c t"
proof -
  assume "c \<notin> set s"
  then have "dropWhile (\<lambda>x. x \<noteq> c) (s @ c # t) = c # t" "takeWhile (\<lambda>x. x \<noteq> c) (s @ c # t) = s"
    by (induction s) auto
  then show ?thesis by simp
qed

section \<open>Properties\<close>

text \<open>C3: startup validation is total and decides its contract.  When module ids are distinct in
  the module list and in every stage graph, validation returns a report, and the report has no
  errors exactly when the request meets the contract: every module runnable on this host, claims
  held exclusively, fill roles covered, stage graphs acyclic, conflicting writes ordered, reads
  supplied, runtime accesses declared, and no dependency on a later stage.\<close>

theorem startup_validation_decides_contract:
  assumes "\<forall>sd \<in> set (rq_stage_dags rq). distinct (node_ids (sd_nodes sd))"
    and "distinct (map lm_id (rq_modules rq))"
  shows "\<exists>report. validate_startup_dag rq = Some report \<and> (is_valid report \<longleftrightarrow> startup_contract rq)"
proof -
  have "\<exists>report. validate_startup_dag rq = Some report"
    unfolding validate_startup_dag_def Let_def using validate_cycles_total [OF assms(1)]
    by (metis (no_types, lifting) option.case(2))
  then show ?thesis using startup_valid_contract [OF _ assms(2)] assms(1) by blast
qed

definition sample_module :: loaded_module where
  "sample_module =
     (builder_new ''com.acme.fill'' \<lparr>major = 1, minor = 0, patch = 0\<rparr> ''Layer::Infill'' ''fill.wasm'')
       \<lparr>lm_ir_writes := [''InfillIR''], lm_max_ir_schema := \<lparr>major = 9, minor = 0, patch = 0\<rparr>\<rparr>"

definition sample_request :: dag_validation_request where
  "sample_request =
     \<lparr>rq_modules = [sample_module],
      rq_stage_dags = [\<lparr>sd_stage = ''Layer::Infill'',
        sd_nodes = build_intra_stage_dag ''Layer::Infill'' [producer_of_module sample_module]\<rparr>],
      rq_host_ir_schema_version = \<lparr>major = 1, minor = 0, patch = 0\<rparr>,
      rq_host_version = \<lparr>major = 1, minor = 0, patch = 0\<rparr>,
      rq_claim_holders = map (\<lambda>c. \<lparr>ch_claim = c, ch_module_id = ''com.acme.fill'', ch_scope = ScopeGlobal\<rparr>) FILL_CLAIM_IDS,
      rq_access_audits = []\<rparr>"

lemma sample_request_dags: "\<forall>sd \<in> set (rq_stage_dags sample_request). distinct (node_ids (sd_nodes sd))"
  using build_intra_stage_dag_ids_sorted by (simp add: sample_request_def strict_sorted_iff)

lemma sample_request_modules: "distinct (map lm_id (rq_modules sample_request))"
  by (simp add: sample_request_def)

lemma sample_request_valid: "\<exists>report. validate_startup_dag sample_request = Some report \<and> is_valid report"
proof -
  have "case validate_startup_dag sample_request of None \<Rightarrow> False | Some report \<Rightarrow> is_valid report"
    by code_simp
  then show ?thesis by (simp split: option.splits)
qed

theorem startup_validation_decides_contract_witness: "startup_contract sample_request"
  using startup_validation_decides_contract [OF sample_request_dags sample_request_modules] sample_request_valid
  by auto

text \<open>when validation accepts, every stage graph can be ordered: the execution-order sort
  returns an order of all its modules that respects every edge.\<close>

theorem valid_startup_orders_stages:
  assumes "validate_startup_dag rq = Some report" and "is_valid report"
    and "sd \<in> set (rq_stage_dags rq)" and "distinct (node_ids (sd_nodes sd))"
  shows "\<exists>out. topological_sort (sd_nodes sd) = Some (Inr out) \<and> topo_order (sd_nodes sd) out"
proof -
  have "acyclic (dag_rel (sd_nodes sd))"
    using startup_valid_passes(9) [OF assms(1-3)] validation_topological_sort_Inr_iff [OF assms(4)] by blast
  then show ?thesis
    using topological_sort_Inr_iff [OF assms(4)] topological_sort_order [OF assms(4)] by blast
qed

theorem valid_startup_orders_stages_witness:
  "\<exists>sd out. sd \<in> set (rq_stage_dags sample_request) \<and> topological_sort (sd_nodes sd) = Some (Inr out)"
proof -
  obtain report where r: "validate_startup_dag sample_request = Some report" "is_valid report"
    using sample_request_valid by blast
  obtain sd where sd: "sd \<in> set (rq_stage_dags sample_request)" by (simp add: sample_request_def)
  have "distinct (node_ids (sd_nodes sd))" using sample_request_dags sd by blast
  from valid_startup_orders_stages [OF r sd this] sd show ?thesis by blast
qed

text \<open>when validation accepts, no chain of module requirements, however long, leads to a
  module of a later stage.\<close>

theorem valid_startup_no_later_stage:
  assumes "validate_startup_dag rq = Some report" and "is_valid report"
    and "distinct (map lm_id (rq_modules rq))" and "m \<in> set (rq_modules rq)"
    and "(m, q) \<in> {(a, b). a \<in> set (rq_modules rq) \<and> b \<in> set (rq_modules rq) \<and>
                            lm_id b \<in> set (lm_requires_modules a)}\<^sup>*"
  shows "\<exists>i j. stage_index (lm_stage m) = Some i \<and> stage_index (lm_stage q) = Some j \<and> j \<le> i"
proof (rule requires_chain_stage [OF _ _ assms(5,4)])
  show "requires_stage_ordered (rq_modules rq)"
    using startup_valid_passes(13) [OF assms(1,2)] cross_stage_ordered [OF assms(3)] by blast
  show "\<forall>m \<in> set (rq_modules rq). is_known_stage (lm_stage m)"
    using startup_valid_passes(1) [OF assms(1,2)] by (auto simp: stage_id_errors_def stage_index_None)
qed

theorem valid_startup_no_later_stage_witness:
  "\<exists>i j. stage_index (lm_stage sample_module) = Some i \<and> stage_index (lm_stage sample_module) = Some j \<and> j \<le> i"
proof -
  obtain report where "validate_startup_dag sample_request = Some report" "is_valid report"
    using sample_request_valid by blast
  from valid_startup_no_later_stage [OF this sample_request_modules, of sample_module sample_module]
  show ?thesis by (simp add: sample_request_def)
qed

text \<open>the transitive-dependency search never finds what the direct check missed: if pass 12
  is silent then so is pass 13, although the search visits every simple dependency path.\<close>

theorem transitive_pass_subsumed:
  assumes "cross_stage_errors ms (index_modules ms) = []"
  shows "validate_transitive_dependencies ms (index_modules ms) report = report"
  using transitive_errors_silent [OF assms]
  by (simp add: validate_transitive_dependencies_def push_errors_def)

theorem transitive_pass_subsumed_witness:
  "validate_transitive_dependencies [sample_module] (index_modules [sample_module]) empty_report = empty_report"
  by (rule transitive_pass_subsumed) code_simp

text \<open>a region scope whose object and region ids contain no colon survives the round trip
  through its textual key, so the scope reported with a conflict is the scope of its holders.\<close>

theorem scope_key_roundtrip:
  assumes "CHR '':'' \<notin> set obj" and "CHR '':'' \<notin> set reg"
  shows "region_scope_from_key (scope_key (ScopeRegion obj reg lay)) = ScopeRegion obj reg lay"
proof -
  let ?t = "case lay of None \<Rightarrow> ''none'' | Some v \<Rightarrow> dec_nat (unat v)"
  have "splitn_char 4 (CHR '':'') (''region'' @ CHR '':'' # obj @ CHR '':'' # reg @ CHR '':'' # ?t) =
      [''region'', obj, reg, ?t]"
    using assms by (simp add: numeral_eq_Suc splitn_char_cons del: append.simps splitn_char.simps)
      (simp add: splitn_char_cons)
  moreover have "dec_nat n \<noteq> ''none''" for n
    using dec_nat_chars parse_digits_dec_nat [of n] by (auto simp: digit_value_def)
  ultimately show ?thesis
    by (simp add: region_scope_from_key_def nth_or_default_def numeral_eq_Suc parse_u32_dec_nat split: option.split)
qed

theorem scope_key_roundtrip_witness:
  "region_scope_from_key (scope_key (ScopeRegion ''obj-1'' ''7'' (Some 3))) = ScopeRegion ''obj-1'' ''7'' (Some 3)"
  by (rule scope_key_roundtrip) simp_all

text \<open>without that restriction the keys are ambiguous: two different region scopes share one
  key, their holders are pooled, and the conflict is reported for a third scope.\<close>

theorem scope_key_collision:
  "scope_key (ScopeRegion ''a:b'' ''c'' None) = scope_key (ScopeRegion ''a'' ''b:c'' None) \<and>
   region_scope_from_key (scope_key (ScopeRegion ''a:b'' ''c'' (Some 3))) = ScopeRegion ''a'' ''b'' None"
  by code_simp

text \<open>a fill role goes to the configured holder: a module holds a declared fill claim exactly
  when its id is the configured holder or its built-in namespaced form, the raft claim is held by
  every declarer, and nothing else is held.\<close>

theorem resolve_held_claims_iff:
  "c \<in> set (resolve_held_claims i declared h) \<longleftrightarrow>
     c \<in> set declared \<and>
     (c = ''claim:raft-fill'' \<or> (\<exists>holder. holder_for h c = Some holder \<and> (i = holder \<or> i = ''com.core.'' @ holder)))"
proof -
  have m: "module_id_matches_holder i holder \<longleftrightarrow> i = holder \<or> i = ''com.core.'' @ holder" for holder
    by (auto simp: module_id_matches_holder_def strip_prefix_def prefix_def split: option.split)
  have "holder_for h c \<noteq> None \<longleftrightarrow> c \<in> set FILL_CLAIM_IDS"
    by (auto simp: holder_for_def FILL_CLAIM_IDS_def)
  then show ?thesis by (auto simp: resolve_held_claims_def m split: option.split)
qed

end
