(* ===== verification/Config.thy ===== *)
theory Config
  imports Validation
begin

text \<open>
  Config values and the per-module views of them: the value type and the view of
  \<^verbatim>\<open>crates/slicer-ir/src/slice_ir.rs\<close>, the alias table of
  \<^verbatim>\<open>crates/slicer-config/src/ingestion.rs\<close>, and the projection of the resolved config onto
  a module's declared keys in \<^verbatim>\<open>crates/slicer-scheduler/src/execution_plan.rs\<close>.  The
  hash maps of the source are sorted association lists here; their iteration order is not
  observable in any result.  Floating-point payloads are bit patterns.
\<close>

section \<open>Values\<close>

datatype config_value =
    CvBool bool
  | CvInt "64 word"
  | CvFloat u64
  | CvString string
  | CvList "config_value list"
  | CvPercent u64
  | CvFloatOrPercent u64 bool

type_synonym config_map = "(string, config_value) btree_map"

text \<open>\<^verbatim>\<open>ConfigView::from_declared\<close>.\<close>

definition from_declared :: "config_map \<Rightarrow> string list \<Rightarrow> config_map" where
  "from_declared source declared =
     fold (\<lambda>k fields. case btm_get source k of None \<Rightarrow> fields | Some v \<Rightarrow> btm_insert k v fields) declared []"

section \<open>Declared keys\<close>

definition CONFIG_KEY_ALIASES :: "(string \<times> string) list" where
  "CONFIG_KEY_ALIASES =
     [(''first_layer_line_width'', ''initial_layer_line_width''),
      (''support_overhang_angle'', ''support_threshold_angle'')]"

definition canonical_config_key :: "string \<Rightarrow> string" where
  "canonical_config_key k = (case map_of CONFIG_KEY_ALIASES k of None \<Rightarrow> k | Some c \<Rightarrow> c)"

definition strip_suffix :: "string \<Rightarrow> string \<Rightarrow> string option" where
  "strip_suffix suf s = (if suffix suf s then Some (take (length s - length suf) s) else None)"

definition source_key_matches_declared :: "string \<Rightarrow> string \<Rightarrow> bool" where
  "source_key_matches_declared declared_key candidate =
     (case strip_suffix '':*'' declared_key of
        Some pre \<Rightarrow> (case strip_prefix pre candidate of None \<Rightarrow> False | Some rest \<Rightarrow> prefix '':'' rest)
      | None \<Rightarrow> declared_key = candidate)"

definition config_key_declared :: "string list \<Rightarrow> string \<Rightarrow> bool" where
  "config_key_declared declared key = list_ex (\<lambda>d. source_key_matches_declared d key) declared"

section \<open>Views\<close>

definition add_alias :: "string \<Rightarrow> config_map \<Rightarrow> config_map" where
  "add_alias d source =
     (let c = canonical_config_key d
      in if c \<noteq> d then (case btm_get source c of None \<Rightarrow> source | Some v \<Rightarrow> btm_insert d v source)
         else source)"

definition effective_keys :: "config_map \<Rightarrow> string list \<Rightarrow> string list" where
  "effective_keys source declared =
     concat (map (\<lambda>d. if suffix '':*'' d then filter (source_key_matches_declared d) (btm_keys source) else [d])
       declared)"

text \<open>\<open>rendered\<close> is \<^verbatim>\<open>resolved.to_config_map()\<close>, the flat rendering of the resolved
  config.\<close>

definition project_declared_config_view :: "config_map \<Rightarrow> string list \<Rightarrow> config_map" where
  "project_declared_config_view rendered declared =
     (let source = fold add_alias declared rendered
      in from_declared source (effective_keys source declared))"

definition SUPPORT_GENERATOR_CONFIG_KEY :: string where
  "SUPPORT_GENERATOR_CONFIG_KEY = ''support_type''"

definition SUPPORT_FAMILY_CONFIG_KEY :: string where
  "SUPPORT_FAMILY_CONFIG_KEY = ''support_family''"

definition is_support_family_module :: "loaded_module \<Rightarrow> bool" where
  "is_support_family_module m = list_ex (prefix ''support-family:'') (lm_claims m)"

definition declare_key :: "string list \<Rightarrow> string \<Rightarrow> string list" where
  "declare_key declared k = (if k \<in> set declared then declared else declared @ [k])"

definition bind_module_config_view :: "loaded_module \<Rightarrow> config_map \<Rightarrow> config_map" where
  "bind_module_config_view m rendered =
     (let declared = lm_config_keys m;
          declared = (if is_support_family_module m
             then declare_key (declare_key declared SUPPORT_GENERATOR_CONFIG_KEY) SUPPORT_FAMILY_CONFIG_KEY
             else declared)
      in project_declared_config_view rendered declared)"

section \<open>JSON config sources\<close>

text \<open>A parsed JSON value; numbers are a parameter type with the accessors
  \<^verbatim>\<open>as_i64\<close> and \<^verbatim>\<open>as_f64\<close> of the JSON library.\<close>

datatype 'n json =
    JNull
  | JBool bool
  | JNumber 'n
  | JString string
  | JArray "'n json list"
  | JObject "(string \<times> 'n json) list"

text \<open>\<^verbatim>\<open>f64::is_subnormal\<close> on the bit pattern: zero exponent, non-zero mantissa.\<close>

definition is_subnormal :: "u64 \<Rightarrow> bool" where
  "is_subnormal b \<longleftrightarrow> (uint b div 2 ^ 52) mod 2 ^ 11 = 0 \<and> uint b mod 2 ^ 52 \<noteq> 0"

fun json_to_config_value :: "('n \<Rightarrow> 64 word option) \<Rightarrow> ('n \<Rightarrow> u64 option) \<Rightarrow> 'n json \<Rightarrow> config_value option"
and json_list_to_config_values :: "('n \<Rightarrow> 64 word option) \<Rightarrow> ('n \<Rightarrow> u64 option) \<Rightarrow> 'n json list \<Rightarrow> config_value list option" where
  "json_to_config_value as_i64 as_f64 (JBool b) = Some (CvBool b)"
| "json_to_config_value as_i64 as_f64 (JNumber n) =
     (case as_i64 n of
        Some i \<Rightarrow> Some (CvInt i)
      | None \<Rightarrow> (case as_f64 n of
                  Some f \<Rightarrow> Some (CvFloat (if is_subnormal f then 0 else f))
                | None \<Rightarrow> None))"
| "json_to_config_value as_i64 as_f64 (JString s) = Some (CvString s)"
| "json_to_config_value as_i64 as_f64 (JArray items) = map_option CvList (json_list_to_config_values as_i64 as_f64 items)"
| "json_to_config_value as_i64 as_f64 JNull = None"
| "json_to_config_value as_i64 as_f64 (JObject _) = None"
| "json_list_to_config_values as_i64 as_f64 [] = Some []"
| "json_list_to_config_values as_i64 as_f64 (x # xs) =
     (case json_to_config_value as_i64 as_f64 x of
        None \<Rightarrow> None
      | Some v \<Rightarrow> map_option ((#) v) (json_list_to_config_values as_i64 as_f64 xs))"

datatype config_source_parse_error = InvalidJson string | NotAnObject | UnsupportedValue string

fun convert_entries :: "('n \<Rightarrow> 64 word option) \<Rightarrow> ('n \<Rightarrow> u64 option) \<Rightarrow> (string \<times> 'n json) list \<Rightarrow> config_map
    \<Rightarrow> config_source_parse_error + config_map" where
  "convert_entries as_i64 as_f64 [] out = Inr out"
| "convert_entries as_i64 as_f64 ((k, raw) # es) out =
     (case json_to_config_value as_i64 as_f64 raw of
        None \<Rightarrow> Inl (UnsupportedValue k)
      | Some v \<Rightarrow> convert_entries as_i64 as_f64 es (btm_insert k v out))"

definition parse_cli_config_source :: "(string \<Rightarrow> string + 'n json) \<Rightarrow> ('n \<Rightarrow> 64 word option) \<Rightarrow> ('n \<Rightarrow> u64 option)
    \<Rightarrow> string \<Rightarrow> config_source_parse_error + config_map" where
  "parse_cli_config_source from_str as_i64 as_f64 text =
     (case from_str text of
        Inl message \<Rightarrow> Inl (InvalidJson message)
      | Inr (JObject object) \<Rightarrow> convert_entries as_i64 as_f64 object []
      | Inr _ \<Rightarrow> Inl NotAnObject)"

section \<open>What a view exposes\<close>

lemma from_declared_get:
  "btm_get (from_declared source declared) k = (if k \<in> set declared then btm_get source k else None)"
proof -
  have "btm_get (fold (\<lambda>k fields. case btm_get source k of None \<Rightarrow> fields | Some v \<Rightarrow> btm_insert k v fields) declared m) k
      = (if k \<in> set declared \<and> btm_get source k \<noteq> None then btm_get source k else btm_get m k)" for m
    by (induction declared arbitrary: m) (auto split: option.split)
  from this [of "[]"] show ?thesis by (simp add: from_declared_def)
qed

lemma canonical_idem: "canonical_config_key (canonical_config_key k) = canonical_config_key k"
  by (auto simp: canonical_config_key_def CONFIG_KEY_ALIASES_def)

lemma add_alias_get:
  "btm_get (add_alias d source) k =
     (if k = d \<and> canonical_config_key d \<noteq> d \<and> btm_get source (canonical_config_key d) \<noteq> None
      then btm_get source (canonical_config_key d) else btm_get source k)"
  by (auto simp: add_alias_def Let_def split: option.split)

lemma fold_add_alias_get:
  "btm_get (fold add_alias declared source) k =
     (if k \<in> set declared \<and> canonical_config_key k \<noteq> k \<and> btm_get source (canonical_config_key k) \<noteq> None
      then btm_get source (canonical_config_key k) else btm_get source k)"
proof (induction declared arbitrary: source)
  case (Cons d ds)
  have "btm_get (add_alias d source) (canonical_config_key x) = btm_get source (canonical_config_key x)" for x
    using canonical_idem [of x] by (auto simp: add_alias_get)
  then show ?case unfolding fold_Cons comp_def Cons.IH by (auto simp: add_alias_get)
qed simp

lemma matches_exact: "\<not> suffix '':*'' d \<Longrightarrow> source_key_matches_declared d k \<longleftrightarrow> d = k"
  by (simp add: source_key_matches_declared_def strip_suffix_def)

lemma effective_keys_mem:
  "k \<in> set (effective_keys source declared) \<longleftrightarrow>
     (\<exists>d \<in> set declared. source_key_matches_declared d k \<and> (suffix '':*'' d \<longrightarrow> k \<in> set (btm_keys source)))"
proof -
  have "k \<in> set (effective_keys source declared) \<longleftrightarrow>
      (\<exists>d \<in> set declared. k \<in> set (if suffix '':*'' d then filter (source_key_matches_declared d) (btm_keys source) else [d]))"
    by (simp only: effective_keys_def set_concat set_map UN_iff bex_simps)
  also have "\<dots> \<longleftrightarrow> (\<exists>d \<in> set declared. source_key_matches_declared d k \<and> (suffix '':*'' d \<longrightarrow> k \<in> set (btm_keys source)))"
    by (intro bex_cong refl) (auto simp: matches_exact)
  finally show ?thesis .
qed

lemma effective_keys_iff:
  "k \<in> set (effective_keys source declared) \<and> btm_get source k \<noteq> None \<longleftrightarrow>
     (\<exists>d \<in> set declared. source_key_matches_declared d k) \<and> btm_get source k \<noteq> None"
proof -
  have "k \<in> set (effective_keys source declared) \<longleftrightarrow> (\<exists>d \<in> set declared. source_key_matches_declared d k)"
    if "btm_get source k \<noteq> None"
  proof -
    have "k \<in> set (btm_keys source)" using that by (simp only: btm_get_None_iff not_not)
    then show ?thesis unfolding effective_keys_mem by blast
  qed
  then show ?thesis by blast
qed

lemma projected_view_get:
  "btm_get (project_declared_config_view rendered declared) k =
     (if \<exists>d \<in> set declared. source_key_matches_declared d k
      then (if k \<in> set declared \<and> canonical_config_key k \<noteq> k \<and> btm_get rendered (canonical_config_key k) \<noteq> None
            then btm_get rendered (canonical_config_key k) else btm_get rendered k)
      else None)"
proof -
  let ?src = "fold add_alias declared rendered"
  have "btm_get (project_declared_config_view rendered declared) k =
      (if k \<in> set (effective_keys ?src declared) \<and> btm_get ?src k \<noteq> None then btm_get ?src k else None)"
    by (simp add: project_declared_config_view_def Let_def from_declared_get)
  also have "\<dots> = (if \<exists>d \<in> set declared. source_key_matches_declared d k then btm_get ?src k else None)"
    unfolding effective_keys_iff by simp
  finally show ?thesis unfolding fold_add_alias_get .
qed

lemma bound_view_declared:
  assumes "btm_get (bind_module_config_view m rendered) k \<noteq> None"
  shows "config_key_declared (lm_config_keys m) k \<or>
    (is_support_family_module m \<and> (k = SUPPORT_GENERATOR_CONFIG_KEY \<or> k = SUPPORT_FAMILY_CONFIG_KEY))"
proof -
  let ?decl = "if is_support_family_module m
    then declare_key (declare_key (lm_config_keys m) SUPPORT_GENERATOR_CONFIG_KEY) SUPPORT_FAMILY_CONFIG_KEY
    else lm_config_keys m"
  obtain d where d: "d \<in> set ?decl" "source_key_matches_declared d k"
    using assms unfolding bind_module_config_view_def Let_def projected_view_get by (auto split: if_splits)
  have "source_key_matches_declared SUPPORT_GENERATOR_CONFIG_KEY k \<longleftrightarrow> SUPPORT_GENERATOR_CONFIG_KEY = k"
    "source_key_matches_declared SUPPORT_FAMILY_CONFIG_KEY k \<longleftrightarrow> SUPPORT_FAMILY_CONFIG_KEY = k"
    by (rule matches_exact, simp add: SUPPORT_GENERATOR_CONFIG_KEY_def SUPPORT_FAMILY_CONFIG_KEY_def suffix_def)+
  then show ?thesis
    using d by (auto simp: config_key_declared_def list_ex_iff declare_key_def split: if_splits)
qed

section \<open>Properties\<close>

text \<open>a projected view exposes exactly the declared part of the resolved config: a key is
  visible iff some declaration covers it (exactly, or as a \<open>prefix:*\<close> wildcard) and the source
  has a value for it, where a declared legacy spelling reads the value of its canonical key.\<close>

theorem projected_view_exact:
  "btm_get (project_declared_config_view rendered declared) k =
     (if \<exists>d \<in> set declared. source_key_matches_declared d k
      then (if k \<in> set declared \<and> canonical_config_key k \<noteq> k \<and> btm_get rendered (canonical_config_key k) \<noteq> None
            then btm_get rendered (canonical_config_key k) else btm_get rendered k)
      else None)"
  by (rule projected_view_get)

end
