(* ===== verification/ClaimDedup.thy ===== *)
theory ClaimDedup
  imports Config
begin

text \<open>
  Claim deduplication and support-family selection at load time:
  \<^verbatim>\<open>dedup_same_claim_modules_typed\<close>, \<^verbatim>\<open>validate_support_family_pairing\<close> and
  \<^verbatim>\<open>module_claims_match_active_region\<close> of
  \<^verbatim>\<open>crates/slicer-scheduler/src/execution_plan.rs\<close>, with the support-type vocabulary of
  \<^verbatim>\<open>crates/slicer-ir/src/slice_ir.rs\<close>.
\<close>

section \<open>Support families\<close>

datatype support_type = NormalAuto | TreeAuto | NormalManual | TreeManual

fun as_canonical_str :: "support_type \<Rightarrow> string" where
  "as_canonical_str NormalAuto = ''normal(auto)''"
| "as_canonical_str TreeAuto = ''tree(auto)''"
| "as_canonical_str NormalManual = ''normal(manual)''"
| "as_canonical_str TreeManual = ''tree(manual)''"

definition from_canonical_str :: "string \<Rightarrow> support_type option" where
  "from_canonical_str s =
     (if s = ''normal(auto)'' then Some NormalAuto
      else if s = ''tree(auto)'' then Some TreeAuto
      else if s = ''normal(manual)'' then Some NormalManual
      else if s = ''tree(manual)'' then Some TreeManual
      else None)"

definition is_auto :: "support_type \<Rightarrow> bool" where
  "is_auto t = (t = NormalAuto \<or> t = TreeAuto)"

definition is_tree :: "support_type \<Rightarrow> bool" where
  "is_tree t = (t = TreeAuto \<or> t = TreeManual)"

definition family_claim :: "support_type \<Rightarrow> string option" where
  "family_claim t = (if t = NormalAuto then None else Some (as_canonical_str t))"

definition canonical_support_family :: "string option \<Rightarrow> string" where
  "canonical_support_family v =
     (case v of
        Some s \<Rightarrow> if prefix ''tree'' s \<or> prefix ''hybrid'' s then ''tree'' else ''traditional''
      | None \<Rightarrow> ''traditional'')"

definition select_support_family :: "string option \<Rightarrow> string option \<Rightarrow> string" where
  "select_support_family support_family support_type =
     canonical_support_family (case support_type of Some t \<Rightarrow> Some t | None \<Rightarrow> support_family)"

text \<open>An active region, with the parts of its resolved config that dispatch reads; the
  geometric fields are carried but not used here.\<close>

record active_region =
  ar_object_id :: string
  ar_region_id :: u64
  ar_extensions :: config_map
  ar_support_type :: support_type

definition string_value :: "config_value option \<Rightarrow> string option" where
  "string_value v = (case v of Some (CvString s) \<Rightarrow> Some s | _ \<Rightarrow> None)"

definition selected_family :: "active_region \<Rightarrow> string" where
  "selected_family r =
     select_support_family
       (string_value (btm_get (ar_extensions r) SUPPORT_FAMILY_CONFIG_KEY))
       (case string_value (btm_get (ar_extensions r) SUPPORT_GENERATOR_CONFIG_KEY) of
          Some t \<Rightarrow> Some t | None \<Rightarrow> family_claim (ar_support_type r))"

fun match_claims :: "string list \<Rightarrow> active_region \<Rightarrow> bool \<Rightarrow> bool" where
  "match_claims [] r has_family = (\<not> has_family)"
| "match_claims (c # cs) r has_family =
     (case strip_prefix ''support-family:'' c of
        None \<Rightarrow> match_claims cs r has_family
      | Some family \<Rightarrow> if family = selected_family r then True else match_claims cs r True)"

definition module_claims_match_active_region :: "string list \<Rightarrow> active_region \<Rightarrow> bool" where
  "module_claims_match_active_region claims r = match_claims claims r False"

record support_family_pairing_error =
  sp_missing_renderers :: "string list"
  sp_missing_planners :: "string list"

definition families_with :: "string \<Rightarrow> loaded_module list \<Rightarrow> string list" where
  "families_with claim ms =
     bts_collect [f. m \<leftarrow> ms, c \<leftarrow> lm_claims m,
       f \<leftarrow> (case strip_prefix ''support-family:'' c of None \<Rightarrow> [] | Some f \<Rightarrow> [f]), claim \<in> set (lm_claims m)]"

definition validate_support_family_pairing ::
  "loaded_module list \<Rightarrow> support_family_pairing_error + support_family_pairing_error list" where
  "validate_support_family_pairing ms =
     (let planners = families_with ''support-planner'' ms; renderers = families_with ''support-generator'' ms;
          err = \<lparr>sp_missing_renderers = filter (\<lambda>f. f \<notin> set renderers) planners,
                 sp_missing_planners = filter (\<lambda>f. f \<notin> set planners) renderers\<rparr>
      in if sp_missing_renderers err = [] \<and> sp_missing_planners err = [] then Inr [] else Inr [err])"

section \<open>Deduplication\<close>

definition CLASSIC_PERIMETERS_MODULE_ID :: module_id where
  "CLASSIC_PERIMETERS_MODULE_ID = ''com.core.classic-perimeters''"

definition ARACHNE_PERIMETERS_MODULE_ID :: module_id where
  "ARACHNE_PERIMETERS_MODULE_ID = ''com.core.arachne-perimeters''"

definition wall_generator_preferred_module_id :: "config_value option \<Rightarrow> module_id" where
  "wall_generator_preferred_module_id v =
     (if v = Some (CvString ''arachne'') then ARACHNE_PERIMETERS_MODULE_ID else CLASSIC_PERIMETERS_MODULE_ID)"

type_synonym claim_key = "stage_id \<times> string"

definition candidates_for :: "loaded_module list \<Rightarrow> (claim_key, module_id list) btree_map" where
  "candidates_for sorted_modules =
     btm_group [((lm_stage m, c), lm_id m). m \<leftarrow> sorted_modules, c \<leftarrow> lm_claims m,
       \<not> (c \<in> set FILL_CLAIM_IDS \<or> prefix ''support-family:'' c)]"

definition family_scoped :: "loaded_module list \<Rightarrow> module_id set" where
  "family_scoped ms = set (map lm_id (filter is_support_family_module ms))"

definition resolve_winner :: "config_value option \<Rightarrow> bool \<Rightarrow> module_id set \<Rightarrow> string \<Rightarrow> module_id list \<Rightarrow> module_id option" where
  "resolve_winner wall_generator spiral_vase scoped claim candidate_ids =
     (if length candidate_ids < 2 then None
      else let preferred = (if spiral_vase then CLASSIC_PERIMETERS_MODULE_ID
                            else wall_generator_preferred_module_id wall_generator)
           in if claim = ''perimeter-generator'' \<and> preferred \<in> set candidate_ids then Some preferred
              else if claim = ''support-generator'' then None
              else if claim = ''support-planner''
                   then (let global_candidates = filter (\<lambda>i. i \<notin> scoped) candidate_ids
                         in if length global_candidates < 2 then None else Some (hd global_candidates))
              else Some (hd candidate_ids))"

definition winner_for :: "config_value option \<Rightarrow> bool \<Rightarrow> loaded_module list \<Rightarrow> (claim_key, module_id) btree_map" where
  "winner_for wall_generator spiral_vase sorted_modules =
     btm_collect (concat (map (\<lambda>((st, c), ids).
        case resolve_winner wall_generator spiral_vase (family_scoped sorted_modules) c ids of
          None \<Rightarrow> [] | Some w \<Rightarrow> [((st, c), w)]) (candidates_for sorted_modules)))"

definition dedup_exempt :: "module_id set \<Rightarrow> module_id \<Rightarrow> string \<Rightarrow> bool" where
  "dedup_exempt scoped i claim \<longleftrightarrow>
     claim \<in> set FILL_CLAIM_IDS \<or> claim = ''support-generator'' \<or> (claim = ''support-planner'' \<and> i \<in> scoped)"

fun losing_claim :: "(claim_key, module_id) btree_map \<Rightarrow> module_id set \<Rightarrow> loaded_module \<Rightarrow> string list
    \<Rightarrow> (string \<times> module_id) option" where
  "losing_claim winners scoped m [] = None"
| "losing_claim winners scoped m (c # cs) =
     (if dedup_exempt scoped (lm_id m) c then losing_claim winners scoped m cs
      else case btm_get winners (lm_stage m, c) of
             Some w \<Rightarrow> if w \<noteq> lm_id m then Some (c, w) else losing_claim winners scoped m cs
           | None \<Rightarrow> losing_claim winners scoped m cs)"

definition dropped_diagnostic :: "loaded_module \<Rightarrow> string \<times> module_id \<Rightarrow> load_diagnostic" where
  "dropped_diagnostic m = (\<lambda>(claim, winner).
     \<lparr>ld_level = LInfo, ld_path = lm_wasm_path m, ld_field = Some ''claims.holds'',
      ld_message = ''module '' @ [CHR 39] @ lm_id m @ [CHR 39] @ '' in stage '' @ [CHR 39] @ lm_stage m @ [CHR 39]
        @ '' dropped: claim '' @ [CHR 39] @ claim @ [CHR 39] @ '' already held by '' @ [CHR 39] @ winner @ [CHR 39]
        @ '' (first-winner dedup; docs/04 '' @ [CHR 0xC2, CHR 0xA7] @ ''2)''\<rparr>)"

definition dedup_same_claim_modules_typed :: "loaded_module list \<Rightarrow> load_diagnostic list \<Rightarrow> config_value option \<Rightarrow> bool
    \<Rightarrow> loaded_module list \<times> load_diagnostic list" where
  "dedup_same_claim_modules_typed ms diags wall_generator spiral_vase =
     (let sorted_modules = sort_key lm_id ms;
          scoped = family_scoped sorted_modules;
          winners = winner_for wall_generator spiral_vase sorted_modules
      in fold (\<lambda>m (kept, ds).
           case losing_claim winners scoped m (lm_claims m) of
             Some loss \<Rightarrow> (kept, ds @ [dropped_diagnostic m loss])
           | None \<Rightarrow> (kept @ [m], ds)) sorted_modules ([], diags))"

definition dedup_same_claim_modules :: "loaded_module list \<Rightarrow> load_diagnostic list \<Rightarrow> string option \<Rightarrow> bool
    \<Rightarrow> loaded_module list \<times> load_diagnostic list" where
  "dedup_same_claim_modules ms diags wall_generator spiral_vase =
     dedup_same_claim_modules_typed ms diags (map_option CvString wall_generator) spiral_vase"

section \<open>What survives deduplication\<close>

lemma strip_prefix_Some: "strip_prefix p s = Some r \<longleftrightarrow> s = p @ r"
  by (auto simp: strip_prefix_def prefix_def)

lemma strip_prefix_None: "strip_prefix p s = None \<longleftrightarrow> \<not> prefix p s"
  by (simp add: strip_prefix_def)

lemma candidates_get:
  assumes "btm_get (candidates_for ms) (st, c) = Some ids"
  shows "i \<in> set ids \<longleftrightarrow> (\<exists>m \<in> set ms. lm_id m = i \<and> lm_stage m = st \<and> c \<in> set (lm_claims m)) \<and>
    c \<notin> set FILL_CLAIM_IDS \<and> \<not> prefix ''support-family:'' c"
  using btm_group_values [OF assms [unfolded candidates_for_def]] by (auto split: if_splits)

lemma candidates_present:
  assumes "m \<in> set ms" and "c \<in> set (lm_claims m)" and "c \<notin> set FILL_CLAIM_IDS" and "\<not> prefix ''support-family:'' c"
  obtains ids where "btm_get (candidates_for ms) (lm_stage m, c) = Some ids" "lm_id m \<in> set ids"
proof -
  let ?kvs = "[((lm_stage m, c), lm_id m). m \<leftarrow> ms, c \<leftarrow> lm_claims m,
       \<not> (c \<in> set FILL_CLAIM_IDS \<or> prefix ''support-family:'' c)]"
  have "((lm_stage m, c), lm_id m) \<in> set ?kvs" using assms by (auto split: if_splits)
  then have "(lm_stage m, c) \<in> fst ` set ?kvs" by (rule rev_image_eqI) simp
  then obtain ids where get: "btm_get (candidates_for ms) (lm_stage m, c) = Some ids"
    unfolding candidates_for_def btm_group_get by (simp only: if_True)
  then show ?thesis using that candidates_get [OF get, of "lm_id m"] assms by blast
qed

lemma winner_get:
  "btm_get (winner_for wg sv ms) (st, c) =
     (case btm_get (candidates_for ms) (st, c) of None \<Rightarrow> None
      | Some ids \<Rightarrow> resolve_winner wg sv (family_scoped ms) c ids)"
proof -
  have wf: "btm_wf (candidates_for ms)" by (simp add: candidates_for_def)
  have fn: "(\<lambda>((st, c), ids). case resolve_winner wg sv (family_scoped ms) c ids of None \<Rightarrow> [] | Some w \<Rightarrow> [((st, c), w)])
      = (\<lambda>(k, ids). case resolve_winner wg sv (family_scoped ms) (snd k) ids of None \<Rightarrow> [] | Some w \<Rightarrow> [(k, w)])"
    by (auto simp: fun_eq_iff)
  show ?thesis
    unfolding winner_for_def fn by (subst btm_filter_map_get [OF wf]) (simp only: snd_conv)
qed

lemma resolve_winner_candidate: "resolve_winner wg sv scoped c ids = Some w \<Longrightarrow> w \<in> set ids"
proof -
  have "length xs \<ge> 2 \<Longrightarrow> hd xs \<in> set xs" for xs :: "module_id list" by (cases xs) auto
  moreover have "hd (filter P xs) \<in> set xs" if "length (filter P xs) \<ge> 2" for P and xs :: "module_id list"
    using that by (metis calculation filter_is_subset subsetD)
  ultimately show "resolve_winner wg sv scoped c ids = Some w \<Longrightarrow> w \<in> set ids"
    by (auto simp: resolve_winner_def Let_def not_less split: if_splits)
qed

lemma resolve_winner_total:
  assumes "i \<in> set ids" and "j \<in> set ids" and "i \<noteq> j" and "c \<noteq> ''support-generator''"
    and "c = ''support-planner'' \<Longrightarrow> i \<notin> scoped \<and> j \<notin> scoped"
  shows "resolve_winner wg sv scoped c ids \<noteq> None"
proof -
  have two: "length xs \<ge> 2" if "i \<in> set xs" "j \<in> set xs" for xs
    using that assms(3) by (cases xs rule: pairs.cases; cases "tl xs") auto
  have "length ids \<ge> 2" by (rule two) fact+
  moreover have "c = ''support-planner'' \<Longrightarrow> length (filter (\<lambda>i. i \<notin> scoped) ids) \<ge> 2"
    using assms by (intro two) auto
  ultimately show ?thesis using assms(4) by (auto simp: resolve_winner_def Let_def)
qed

lemma losing_claim_None:
  "losing_claim winners scoped m cs = None \<longleftrightarrow>
     (\<forall>c \<in> set cs. \<not> dedup_exempt scoped (lm_id m) c \<longrightarrow>
        (\<forall>w. btm_get winners (lm_stage m, c) = Some w \<longrightarrow> w = lm_id m))"
  by (induction cs) (auto split: option.split)

lemma losing_claim_Some:
  "losing_claim winners scoped m cs = Some (c, w) \<Longrightarrow>
     c \<in> set cs \<and> btm_get winners (lm_stage m, c) = Some w \<and> w \<noteq> lm_id m"
  by (induction cs) (auto split: option.splits if_splits)

lemma dedup_result:
  defines "win \<equiv> \<lambda>wg sv ms. winner_for wg sv (sort_key lm_id ms)"
  shows "dedup_same_claim_modules_typed ms diags wg sv =
    (filter (\<lambda>m. losing_claim (win wg sv ms) (family_scoped ms) m (lm_claims m) = None) (sort_key lm_id ms),
     diags @ concat (map (\<lambda>m. case losing_claim (win wg sv ms) (family_scoped ms) m (lm_claims m) of
        None \<Rightarrow> [] | Some l \<Rightarrow> [dropped_diagnostic m l]) (sort_key lm_id ms)))"
proof -
  let ?lose = "\<lambda>m. losing_claim (win wg sv ms) (family_scoped ms) m (lm_claims m)"
  have "fold (\<lambda>m (kept, ds). case ?lose m of
      Some loss \<Rightarrow> (kept, ds @ [dropped_diagnostic m loss]) | None \<Rightarrow> (kept @ [m], ds)) xs (kept0, ds0) =
    (kept0 @ filter (\<lambda>m. ?lose m = None) xs,
     ds0 @ concat (map (\<lambda>m. case ?lose m of None \<Rightarrow> [] | Some l \<Rightarrow> [dropped_diagnostic m l]) xs))" for xs kept0 ds0
    by (induction xs arbitrary: kept0 ds0) (auto split: option.split)
  moreover have "family_scoped (sort_key lm_id ms) = family_scoped ms" by (simp add: family_scoped_def)
  ultimately show ?thesis by (simp add: dedup_same_claim_modules_typed_def win_def Let_def)
qed

lemma kept_iff:
  "m \<in> set (fst (dedup_same_claim_modules_typed ms diags wg sv)) \<longleftrightarrow>
     m \<in> set ms \<and> losing_claim (winner_for wg sv (sort_key lm_id ms)) (family_scoped ms) m (lm_claims m) = None"
  by (auto simp: dedup_result)

lemma kept_winner:
  assumes "m \<in> set (fst (dedup_same_claim_modules_typed ms diags wg sv))" and "c \<in> set (lm_claims m)"
    and "\<not> dedup_exempt (family_scoped ms) (lm_id m) c"
    and "btm_get (winner_for wg sv (sort_key lm_id ms)) (lm_stage m, c) = Some w"
  shows "lm_id m = w"
  using assms by (auto simp: kept_iff losing_claim_None)

section \<open>Properties\<close>

text \<open>deduplication leaves at most one holder per stage and claim.  Two surviving modules of
  one stage that hold the same claim are the same module, unless the claim is one that dispatch
  resolves per region (fill roles, support families, support renderers and family planners).\<close>

theorem dedup_unique_holder:
  assumes "m \<in> set (fst (dedup_same_claim_modules_typed ms diags wg sv))"
    and "m' \<in> set (fst (dedup_same_claim_modules_typed ms diags wg sv))"
    and "lm_stage m = lm_stage m'" and "c \<in> set (lm_claims m)" and "c \<in> set (lm_claims m')"
    and "\<not> prefix ''support-family:'' c"
    and "\<not> dedup_exempt (family_scoped ms) (lm_id m) c" and "\<not> dedup_exempt (family_scoped ms) (lm_id m') c"
  shows "lm_id m = lm_id m'"
proof (rule ccontr)
  assume ne: "lm_id m \<noteq> lm_id m'"
  have fill: "c \<notin> set FILL_CLAIM_IDS" using assms(7) by (simp add: dedup_exempt_def)
  let ?s = "sort_key lm_id ms"
  have m: "m \<in> set ?s" and m': "m' \<in> set ?s" using assms(1,2) by (simp_all add: kept_iff)
  obtain ids where ids: "btm_get (candidates_for ?s) (lm_stage m, c) = Some ids" "lm_id m \<in> set ids"
    using candidates_present [OF m assms(4) fill assms(6)] .
  moreover have "lm_id m' \<in> set ids"
    using candidates_get [OF ids(1), of "lm_id m'"] m' assms(3,5,6) fill by auto
  moreover have "c = ''support-planner'' \<Longrightarrow> lm_id m \<notin> family_scoped ?s \<and> lm_id m' \<notin> family_scoped ?s"
    using assms(7,8) by (simp add: dedup_exempt_def family_scoped_def)
  ultimately have "resolve_winner wg sv (family_scoped ?s) c ids \<noteq> None"
    using ne assms(7) by (intro resolve_winner_total) (auto simp: dedup_exempt_def)
  then obtain w where "btm_get (winner_for wg sv ?s) (lm_stage m, c) = Some w"
    using ids(1) by (auto simp: winner_get)
  then show False
    using kept_winner [OF assms(1,4,7)] kept_winner [OF assms(2,5,8)] assms(3) ne by simp
qed

definition claim_module :: "module_id \<Rightarrow> string list \<Rightarrow> loaded_module" where
  "claim_module i cs =
     (builder_new i \<lparr>major = 0, minor = 1, patch = 0\<rparr> ''Layer::Perimeters'' (i @ ''.wasm''))\<lparr>lm_claims := cs\<rparr>"

theorem dedup_unique_holder_witness:
  "claim_module ''b'' [''seam-placer''] \<notin>
     set (fst (dedup_same_claim_modules_typed [claim_module ''b'' [''seam-placer''], claim_module ''a'' [''seam-placer'']] [] None False))"
proof
  let ?ms = "[claim_module ''b'' [''seam-placer''], claim_module ''a'' [''seam-placer'']]"
  assume "claim_module ''b'' [''seam-placer''] \<in> set (fst (dedup_same_claim_modules_typed ?ms [] None False))"
  moreover have "claim_module ''a'' [''seam-placer''] \<in> set (fst (dedup_same_claim_modules_typed ?ms [] None False))"
    by code_simp
  ultimately have "lm_id (claim_module ''b'' [''seam-placer'']) = lm_id (claim_module ''a'' [''seam-placer''])"
    by (rule dedup_unique_holder [where c = "''seam-placer''"]) code_simp+
  then show False by (simp add: claim_module_def builder_new_def)
qed

text \<open>nothing disappears without a reason.  The survivors are a sorted selection of the input,
  one diagnostic is added per dropped module, and every dropped module shares a claim and its
  stage with a different module of the input.\<close>

theorem dedup_drops_are_explained:
  assumes "dedup_same_claim_modules_typed ms diags wg sv = (kept, diags')"
  shows "set kept \<subseteq> set ms \<and> sorted (map lm_id kept) \<and>
    length kept + length diags' = length ms + length diags \<and>
    (\<forall>m \<in> set ms - set kept. \<exists>c \<in> set (lm_claims m). \<exists>m' \<in> set ms.
       lm_stage m' = lm_stage m \<and> c \<in> set (lm_claims m') \<and> lm_id m' \<noteq> lm_id m)"
proof (intro conjI ballI)
  let ?win = "winner_for wg sv (sort_key lm_id ms)"
  let ?lose = "\<lambda>m. losing_claim ?win (family_scoped ms) m (lm_claims m)"
  have kept: "kept = filter (\<lambda>m. ?lose m = None) (sort_key lm_id ms)"
    and diags': "diags' = diags @ concat (map (\<lambda>m. case ?lose m of None \<Rightarrow> [] | Some l \<Rightarrow> [dropped_diagnostic m l]) (sort_key lm_id ms))"
    using assms by (simp_all add: dedup_result)
  show "set kept \<subseteq> set ms" by (auto simp: kept)
  show "sorted (map lm_id kept)" unfolding kept by (rule sorted_filter) simp
  have "length (filter (\<lambda>m. ?lose m = None) xs) +
      length (concat (map (\<lambda>m. case ?lose m of None \<Rightarrow> [] | Some l \<Rightarrow> [dropped_diagnostic m l]) xs)) = length xs" for xs
    by (induction xs) (auto split: option.split)
  from this [of "sort_key lm_id ms"] show "length kept + length diags' = length ms + length diags"
    by (simp add: kept diags')
  fix m assume m: "m \<in> set ms - set kept"
  then obtain c w where cw: "?lose m = Some (c, w)" by (auto simp: kept)
  note l = losing_claim_Some [OF cw]
  obtain ids where ids: "btm_get (candidates_for (sort_key lm_id ms)) (lm_stage m, c) = Some ids"
    "resolve_winner wg sv (family_scoped (sort_key lm_id ms)) c ids = Some w"
    using l by (auto simp: winner_get split: option.splits)
  from resolve_winner_candidate [OF ids(2)] candidates_get [OF ids(1), of w] l
  show "\<exists>c \<in> set (lm_claims m). \<exists>m' \<in> set ms.
      lm_stage m' = lm_stage m \<and> c \<in> set (lm_claims m') \<and> lm_id m' \<noteq> lm_id m" by auto
qed

theorem dedup_drops_are_explained_witness:
  "case dedup_same_claim_modules_typed [claim_module ''b'' [''seam-placer''], claim_module ''a'' [''seam-placer'']] [] None False
   of (kept, diags') \<Rightarrow> length kept + length diags' = 2 \<and> sorted (map lm_id kept)"
proof -
  let ?ms = "[claim_module ''b'' [''seam-placer''], claim_module ''a'' [''seam-placer'']]"
  obtain kept diags' where run: "dedup_same_claim_modules_typed ?ms [] None False = (kept, diags')" by fastforce
  from dedup_drops_are_explained [OF run] show ?thesis unfolding run by simp
qed

text \<open>the wall generator is the configured one.  When the preferred perimeter generator
  (classic under spiral vase or by default, arachne when selected) and some other module both
  claim \<open>perimeter-generator\<close> in a stage, only the preferred one survives there.\<close>

theorem dedup_selects_wall_generator:
  assumes "p \<in> set ms" and "lm_stage p = st" and "''perimeter-generator'' \<in> set (lm_claims p)"
    and "lm_id p = (if sv then CLASSIC_PERIMETERS_MODULE_ID else wall_generator_preferred_module_id wg)"
    and "m \<in> set (fst (dedup_same_claim_modules_typed ms diags wg sv))"
    and "lm_stage m = st" and "''perimeter-generator'' \<in> set (lm_claims m)"
  shows "lm_id m = lm_id p"
proof (rule ccontr)
  assume ne: "lm_id m \<noteq> lm_id p"
  let ?s = "sort_key lm_id ms" and ?c = "''perimeter-generator''"
  have plain: "?c \<notin> set FILL_CLAIM_IDS" "\<not> prefix ''support-family:'' ?c" "\<not> dedup_exempt scoped i ?c" for scoped i
    by (simp_all add: FILL_CLAIM_IDS_def dedup_exempt_def)
  have m: "m \<in> set ?s" and p: "p \<in> set ?s" using assms(1,5) by (simp_all add: kept_iff)
  obtain ids where ids: "btm_get (candidates_for ?s) (lm_stage m, ?c) = Some ids" "lm_id m \<in> set ids"
    using candidates_present [OF m assms(7) plain(1,2)] .
  have pid: "lm_id p \<in> set ids"
    using candidates_get [OF ids(1), of "lm_id p"] p assms(2,3,6) plain by auto
  have "length ids \<ge> 2" using ids(2) pid ne by (cases ids rule: pairs.cases; cases "tl ids") auto
  then have "resolve_winner wg sv (family_scoped ?s) ?c ids = Some (lm_id p)"
    using pid assms(4) by (simp add: resolve_winner_def Let_def)
  then have "btm_get (winner_for wg sv ?s) (lm_stage m, ?c) = Some (lm_id p)"
    using ids(1) by (simp add: winner_get)
  from kept_winner [OF assms(5,7) plain(3) this] ne show False by simp
qed

theorem dedup_selects_wall_generator_witness:
  "claim_module CLASSIC_PERIMETERS_MODULE_ID [''perimeter-generator''] \<notin>
     set (fst (dedup_same_claim_modules_typed
       [claim_module CLASSIC_PERIMETERS_MODULE_ID [''perimeter-generator''],
        claim_module ARACHNE_PERIMETERS_MODULE_ID [''perimeter-generator'']] [] (Some (CvString ''arachne'')) False))"
proof
  let ?a = "claim_module ARACHNE_PERIMETERS_MODULE_ID [''perimeter-generator'']"
  let ?c = "claim_module CLASSIC_PERIMETERS_MODULE_ID [''perimeter-generator'']"
  assume "?c \<in> set (fst (dedup_same_claim_modules_typed [?c, ?a] [] (Some (CvString ''arachne'')) False))"
  then have "lm_id ?c = lm_id ?a"
    by (intro dedup_selects_wall_generator [of ?a "[?c, ?a]" _ False "Some (CvString ''arachne'')"])
      (simp_all add: claim_module_def builder_new_def wall_generator_preferred_module_id_def)
  moreover have "lm_id ?c \<noteq> lm_id ?a" by code_simp
  ultimately show False by simp
qed


text \<open>support dispatch is exclusive per region: a module with support-family claims receives a
  region iff it claims the family that the region selects, which is always \<open>tree\<close> or
  \<open>traditional\<close>; a module without such claims receives every region.\<close>

theorem support_dispatch_by_family:
  "(module_claims_match_active_region claims r \<longleftrightarrow>
      (if list_ex (prefix ''support-family:'') claims
       then ''support-family:'' @ selected_family r \<in> set claims else True)) \<and>
   (selected_family r = ''tree'' \<or> selected_family r = ''traditional'')"
proof
  have "match_claims claims r f \<longleftrightarrow> ''support-family:'' @ selected_family r \<in> set claims \<or>
      (\<not> f \<and> \<not> list_ex (prefix ''support-family:'') claims)" for f
  proof (induction claims arbitrary: f)
    case (Cons c cs)
    show ?case
    proof (cases "strip_prefix ''support-family:'' c")
      case None
      then have "\<not> prefix ''support-family:'' c" "c \<noteq> ''support-family:'' @ selected_family r"
        using strip_prefix_Some [of "''support-family:''" c] strip_prefix_None [of "''support-family:''" c] by auto
      then show ?thesis using None Cons.IH [of f] by auto
    next
      case (Some family)
      then have c: "c = ''support-family:'' @ family" by (simp only: strip_prefix_Some)
      have "prefix ''support-family:'' c" unfolding c by (rule prefixI [OF refl])
      moreover have "c = ''support-family:'' @ selected_family r \<longleftrightarrow> family = selected_family r"
        unfolding c by (simp only: same_append_eq)
      ultimately show ?thesis using Some Cons.IH [of True] by auto
    qed
  qed simp
  then show "module_claims_match_active_region claims r \<longleftrightarrow>
      (if list_ex (prefix ''support-family:'') claims
       then ''support-family:'' @ selected_family r \<in> set claims else True)"
    by (auto simp: module_claims_match_active_region_def list_ex_iff)
  show "selected_family r = ''tree'' \<or> selected_family r = ''traditional''"
    by (simp add: selected_family_def select_support_family_def canonical_support_family_def split: option.split)
qed

text \<open>The canonical spellings of the support type parse back, and the family that a typed value
  selects is the tree family exactly for the tree variants.\<close>

theorem support_type_roundtrip:
  "from_canonical_str (as_canonical_str t) = Some t \<and>
   (from_canonical_str s = Some t \<longrightarrow> as_canonical_str t = s) \<and>
   canonical_support_family (family_claim t) = (if is_tree t then ''tree'' else ''traditional'')"
  by (cases t) (auto simp: from_canonical_str_def family_claim_def is_tree_def canonical_support_family_def)

theorem support_type_roundtrip_witness: "as_canonical_str TreeManual = ''tree(manual)''"
proof -
  have "from_canonical_str ''tree(manual)'' = Some TreeManual" by code_simp
  then show ?thesis using support_type_roundtrip [of TreeManual "''tree(manual)''"] by blast
qed

end
