(* ===== verification/RegionSplit.thy ===== *)
theory RegionSplit
  imports Manifest
begin

text \<open>
  Region splitting: \<^verbatim>\<open>crates/slicer-scheduler/src/region_split.rs\<close> (the aggregate of all
  \<^verbatim>\<open>[[region_split]]\<close> declarations and the canonical order of the semantics),
  \<^verbatim>\<open>crates/slicer-ir/src/region_split_registry.rs\<close> (the enumeration of variant chains), and
  the order on paint values from \<^verbatim>\<open>crates/slicer-ir/src/slice_ir.rs\<close>.
\<close>

section \<open>Paint values and their order\<close>

text \<open>A scalar is an \<^verbatim>\<open>f32\<close> given by its bit pattern: equality and
  \<^verbatim>\<open>total_cmp\<close> only look at the bits.\<close>

datatype paint_value = PvFlag bool | PvScalar u32 | PvToolIndex u32 | PvCustom string

fun discriminant :: "paint_value \<Rightarrow> nat" where
  "discriminant (PvFlag _) = 0"
| "discriminant (PvScalar _) = 1"
| "discriminant (PvToolIndex _) = 2"
| "discriminant (PvCustom _) = 3"

text \<open>The key that \<^verbatim>\<open>f32::total_cmp\<close> compares: a pattern with the sign bit set has
  its other bits flipped and is read as a negative number.\<close>

definition total_cmp_key :: "u32 \<Rightarrow> int" where
  "total_cmp_key b = (if uint b < 2 ^ 31 then uint b else 2 ^ 31 - 1 - uint b)"

fun paint_value_less :: "paint_value \<Rightarrow> paint_value \<Rightarrow> bool" where
  "paint_value_less (PvFlag a) (PvFlag b) = (a < b)"
| "paint_value_less (PvScalar a) (PvScalar b) = (total_cmp_key a < total_cmp_key b)"
| "paint_value_less (PvToolIndex a) (PvToolIndex b) = (a < b)"
| "paint_value_less (PvCustom a) (PvCustom b) = (a < b)"
| "paint_value_less a b = (discriminant a < discriminant b)"

lemma total_cmp_key_inj: "total_cmp_key a = total_cmp_key b \<Longrightarrow> a = b"
  by (auto simp: total_cmp_key_def word_uint_eq_iff split: if_splits) 
    (use uint_range_size [of a] uint_range_size [of b] in \<open>auto simp: word_size\<close>)

lemma paint_value_less_trans:
  "paint_value_less a b \<Longrightarrow> paint_value_less b c \<Longrightarrow> paint_value_less a c"
  by (cases a; cases b; cases c) auto

lemma paint_value_less_irrefl: "\<not> paint_value_less a a"
  by (cases a) auto

lemma paint_value_less_linear: "paint_value_less a b \<or> a = b \<or> paint_value_less b a"
  using total_cmp_key_inj by (cases a; cases b) (auto simp: not_less_iff_gr_or_eq)

instantiation paint_value :: linorder
begin

definition less_paint_value :: "paint_value \<Rightarrow> paint_value \<Rightarrow> bool" where
  "less_paint_value = paint_value_less"

definition less_eq_paint_value :: "paint_value \<Rightarrow> paint_value \<Rightarrow> bool" where
  "less_eq_paint_value a b = (paint_value_less a b \<or> a = b)"

instance
  by intro_classes
    (use paint_value_less_trans paint_value_less_irrefl paint_value_less_linear in
      \<open>unfold less_paint_value_def less_eq_paint_value_def, blast+\<close>)

end

section \<open>Aggregation\<close>

record aggregated_region_split_entry =
  ag_priority :: u32
  ag_value_type :: region_split_value_type
  ag_declaring_modules :: "module_id list"

type_synonym region_split_aggregate = "(string, aggregated_region_split_entry) btree_map"

fun debug_value_type :: "region_split_value_type \<Rightarrow> string" where
  "debug_value_type RsFlag = ''Flag''"
| "debug_value_type RsToolIndex = ''ToolIndex''"
| "debug_value_type RsCustomString = ''CustomString''"

definition quoted :: "string \<Rightarrow> string" where
  "quoted s = [CHR 34] @ s @ [CHR 34]"

definition conflict_diagnostic ::
  "loaded_module \<Rightarrow> region_split_declaration \<Rightarrow> aggregated_region_split_entry \<Rightarrow> load_diagnostic" where
  "conflict_diagnostic m d old =
     \<lparr>ld_level = LWarning, ld_path = lm_wasm_path m, ld_field = Some ''region_split'',
      ld_message = ''Conflicting region-split declaration for semantic '' @ quoted (rs_semantic d)
        @ '': module '' @ quoted (lm_id m) @ '' declares priority='' @ dec_nat (unat (rs_priority d))
        @ ''/value_type='' @ debug_value_type (rs_value_type d)
        @ '' but earlier declaration has priority='' @ dec_nat (unat (ag_priority old))
        @ ''/value_type='' @ debug_value_type (ag_value_type old) @ ''. Keeping first-seen entry.''\<rparr>"

definition add_declaring :: "module_id \<Rightarrow> module_id list \<Rightarrow> module_id list" where
  "add_declaring i ids = (if i \<in> set ids then ids else sort (ids @ [i]))"

definition aggregate_step :: "loaded_module \<times> region_split_declaration
    \<Rightarrow> region_split_aggregate \<times> load_diagnostic list \<Rightarrow> region_split_aggregate \<times> load_diagnostic list" where
  "aggregate_step = (\<lambda>(m, d) (agg, diags).
     case btm_get agg (rs_semantic d) of
       Some old \<Rightarrow>
         if ag_priority old = rs_priority d \<and> ag_value_type old = rs_value_type d
         then (btm_modify (rs_semantic d)
                 (\<lambda>e. e\<lparr>ag_declaring_modules := add_declaring (lm_id m) (ag_declaring_modules e)\<rparr>) agg, diags)
         else (agg, diags @ [conflict_diagnostic m d old])
     | None \<Rightarrow>
         (btm_insert (rs_semantic d)
            \<lparr>ag_priority = rs_priority d, ag_value_type = rs_value_type d, ag_declaring_modules = [lm_id m]\<rparr> agg,
          diags))"

fun join_comma :: "string list \<Rightarrow> string" where
  "join_comma [] = ''''"
| "join_comma [s] = s"
| "join_comma (s # ss) = s @ '', '' @ join_comma ss"

definition tie_diagnostic :: "region_split_aggregate \<Rightarrow> u32 \<times> string list \<Rightarrow> load_diagnostic list" where
  "tie_diagnostic agg = (\<lambda>(p, names).
     if length names < 2 then []
     else let semantics = sort names;
              detail = map (\<lambda>s. s @ '' (from ''
                @ join_comma (case btm_get agg s of None \<Rightarrow> [] | Some e \<Rightarrow> ag_declaring_modules e) @ '')'') semantics
          in [\<lparr>ld_level = LWarning, ld_path = '''', ld_field = Some ''region_split'',
               ld_message = ''Tied region-split priority '' @ dec_nat (unat p) @ '': '' @ join_comma detail
                 @ ''. Lex tiebreaker order: '' @ join_comma semantics @ ''.''\<rparr>])"

definition declarations :: "loaded_module list \<Rightarrow> (loaded_module \<times> region_split_declaration) list" where
  "declarations ms = [(m, d). m \<leftarrow> ms, d \<leftarrow> lm_region_splits m]"

definition aggregate_region_splits :: "loaded_module list \<Rightarrow> load_diagnostic list
    \<Rightarrow> region_split_aggregate \<times> load_diagnostic list" where
  "aggregate_region_splits ms diags =
     (let (agg, diags') = fold aggregate_step (declarations ms) ([], diags);
          by_priority = btm_group (map (\<lambda>(name, e). (ag_priority e, name)) agg)
      in (agg, diags' @ concat (map (tie_diagnostic agg) by_priority)))"

definition canonical_variant_chain_order :: "region_split_aggregate \<Rightarrow> string list" where
  "canonical_variant_chain_order agg = map snd (sort (map (\<lambda>(name, e). (ag_priority e, name)) agg))"

section \<open>Variant chains\<close>

type_synonym variant_chain = "(string \<times> paint_value) list"

text \<open>\<^verbatim>\<open>build\<close> with its index represented by the semantics not yet decided.\<close>

fun build_chains :: "(string \<rightharpoonup> paint_value list) \<Rightarrow> variant_chain \<Rightarrow> string list \<Rightarrow> variant_chain list" where
  "build_chains variants acc [] = [acc]"
| "build_chains variants acc (sem # rest) =
     build_chains variants acc rest
     @ (case variants sem of
          None \<Rightarrow> []
        | Some values \<Rightarrow> concat (map (\<lambda>v. build_chains variants (acc @ [(sem, v)]) rest) values))"

definition enumerate_canonical_chains :: "(string \<rightharpoonup> paint_value list) \<Rightarrow> string list \<Rightarrow> variant_chain list" where
  "enumerate_canonical_chains variants canonical_order = build_chains variants [] canonical_order"

section \<open>The aggregate is the union of the declarations\<close>

text \<open>The entry a semantic must have: priority and value type of its first declaration, and the
  sorted ids of the modules that declare it with this contract.\<close>

definition declared_entry :: "(loaded_module \<times> region_split_declaration) list \<Rightarrow> string
    \<Rightarrow> aggregated_region_split_entry option" where
  "declared_entry evs sem =
     (case filter (\<lambda>(m, d). rs_semantic d = sem) evs of
        [] \<Rightarrow> None
      | (m0, d0) # _ \<Rightarrow> Some
          \<lparr>ag_priority = rs_priority d0, ag_value_type = rs_value_type d0,
           ag_declaring_modules = bts_collect (map (lm_id \<circ> fst)
             (filter (\<lambda>(m, d). rs_semantic d = sem \<and> rs_priority d = rs_priority d0
                \<and> rs_value_type d = rs_value_type d0) evs))\<rparr>)"

lemma bts_collect_snoc: "bts_collect (xs @ [x]) = add_declaring x (bts_collect xs)"
proof (rule sorted_distinct_set_unique)
  show "sorted (bts_collect (xs @ [x]))" "distinct (bts_collect (xs @ [x]))"
    by (simp_all add: bts_collect_def)
  show "sorted (add_declaring x (bts_collect xs))" "distinct (add_declaring x (bts_collect xs))"
    by (simp_all add: bts_collect_def add_declaring_def)
  show "set (bts_collect (xs @ [x])) = set (add_declaring x (bts_collect xs))"
    by (auto simp: add_declaring_def)
qed

lemma bts_collect_single: "bts_collect [x] = [x]"
  by (simp add: bts_collect_def)

lemma declared_entry_snoc_other:
  "rs_semantic d \<noteq> sem \<Longrightarrow> declared_entry (evs @ [(m, d)]) sem = declared_entry evs sem"
  by (simp add: declared_entry_def split: list.split)

lemma declared_entry_snoc_new:
  "declared_entry evs (rs_semantic d) = None \<Longrightarrow>
   declared_entry (evs @ [(m, d)]) (rs_semantic d) = Some
     \<lparr>ag_priority = rs_priority d, ag_value_type = rs_value_type d, ag_declaring_modules = [lm_id m]\<rparr>"
  by (auto simp: declared_entry_def filter_empty_conv bts_collect_single split: list.splits)
    (subst filter_False, auto simp: bts_collect_single)

lemma declared_entry_snoc_old:
  assumes "declared_entry evs (rs_semantic d) = Some old"
  shows "declared_entry (evs @ [(m, d)]) (rs_semantic d) = Some
    (if ag_priority old = rs_priority d \<and> ag_value_type old = rs_value_type d
     then old\<lparr>ag_declaring_modules := add_declaring (lm_id m) (ag_declaring_modules old)\<rparr> else old)"
proof -
  let ?f = "filter (\<lambda>(m, d'). rs_semantic d' = rs_semantic d) evs"
  obtain m0 d0 rest where f: "?f = (m0, d0) # rest"
    using assms by (auto simp: declared_entry_def split: list.splits)
  then have "filter (\<lambda>(m, d'). rs_semantic d' = rs_semantic d) (evs @ [(m, d)]) = (m0, d0) # (rest @ [(m, d)])"
    by simp
  then show ?thesis
    using assms f by (auto simp: declared_entry_def bts_collect_snoc)
qed

lemma aggregate_step_app:
  "aggregate_step (m, d) (agg, diags) =
     (case btm_get agg (rs_semantic d) of
       Some old \<Rightarrow>
         if ag_priority old = rs_priority d \<and> ag_value_type old = rs_value_type d
         then (btm_modify (rs_semantic d)
                 (\<lambda>e. e\<lparr>ag_declaring_modules := add_declaring (lm_id m) (ag_declaring_modules e)\<rparr>) agg, diags)
         else (agg, diags @ [conflict_diagnostic m d old])
     | None \<Rightarrow>
         (btm_insert (rs_semantic d)
            \<lparr>ag_priority = rs_priority d, ag_value_type = rs_value_type d, ag_declaring_modules = [lm_id m]\<rparr> agg,
          diags))"
  by (simp add: aggregate_step_def)

lemma aggregate_fold:
  "btm_wf (fst (fold aggregate_step evs ([], diags))) \<and>
   btm_get (fst (fold aggregate_step evs ([], diags))) sem = declared_entry evs sem"
proof (induction evs arbitrary: sem rule: rev_induct)
  case Nil
  then show ?case by (simp add: declared_entry_def)
next
  case (snoc e evs)
  obtain m d where e: "e = (m, d)" by (cases e)
  obtain agg ds where st: "fold aggregate_step evs ([], diags) = (agg, ds)" by (cases "fold aggregate_step evs ([], diags)")
  have IH: "btm_wf agg" "btm_get agg s = declared_entry evs s" for s
    using snoc.IH [of s] st by simp_all
  show ?case
  proof (cases "declared_entry evs (rs_semantic d)")
    case None
    then show ?thesis
      using IH declared_entry_snoc_new [OF None] declared_entry_snoc_other [of d sem evs m]
      by (auto simp: e st aggregate_step_app)
  next
    case (Some old)
    then show ?thesis
      using IH declared_entry_snoc_old [OF Some, of m] declared_entry_snoc_other [of d sem evs m]
      by (auto simp: e st aggregate_step_app btm_modify_get)
  qed
qed

lemma aggregate_get: "btm_get (fst (aggregate_region_splits ms diags)) sem = declared_entry (declarations ms) sem"
  and aggregate_wf: "btm_wf (fst (aggregate_region_splits ms diags))"
  using aggregate_fold [of "declarations ms" diags]
  by (simp_all add: aggregate_region_splits_def Let_def case_prod_beta)

lemma declared_entry_None:
  "declared_entry evs sem = None \<longleftrightarrow> (\<forall>(m, d) \<in> set evs. rs_semantic d \<noteq> sem)"
proof -
  have "declared_entry evs sem = None \<longleftrightarrow> filter (\<lambda>(m, d). rs_semantic d = sem) evs = []"
    by (auto simp: declared_entry_def split: list.split)
  then show ?thesis by (auto simp: filter_empty_conv)
qed

lemma aggregate_present:
  "btm_get (fst (aggregate_region_splits ms diags)) sem \<noteq> None \<longleftrightarrow>
     (\<exists>m \<in> set ms. \<exists>d \<in> set (lm_region_splits m). rs_semantic d = sem)"
  unfolding aggregate_get declared_entry_None declarations_def by auto

lemma declared_entry_member:
  assumes "declared_entry evs sem = Some e"
  shows "\<exists>(m, d) \<in> set evs. rs_semantic d = sem \<and> rs_priority d = ag_priority e"
proof -
  obtain m0 d0 rest where f: "filter (\<lambda>(m, d'). rs_semantic d' = sem) evs = (m0, d0) # rest"
    and p: "ag_priority e = rs_priority d0"
    using assms by (auto simp: declared_entry_def split: list.splits)
  from f have "(m0, d0) \<in> set evs" "rs_semantic d0 = sem"
    by (metis (mono_tags, lifting) Cons_eq_filterD case_prod_conv in_set_conv_decomp)+
  with p show ?thesis by force
qed

section \<open>Variant chains: what is enumerated\<close>

definition variant_values :: "(string \<rightharpoonup> paint_value list) \<Rightarrow> string \<Rightarrow> paint_value list" where
  "variant_values variants sem = (case variants sem of None \<Rightarrow> [] | Some vs \<Rightarrow> vs)"

lemma build_chains_Cons:
  "build_chains variants acc (sem # rest) =
     build_chains variants acc rest
     @ concat (map (\<lambda>v. build_chains variants (acc @ [(sem, v)]) rest) (variant_values variants sem))"
  by (simp add: variant_values_def split: option.split)

lemma build_chains_prefix: "build_chains variants acc sems = map ((@) acc) (build_chains variants [] sems)"
proof (induction sems arbitrary: acc)
  case Nil
  then show ?case by simp
next
  case (Cons sem rest)
  show ?case
    unfolding build_chains_Cons
    using Cons.IH [of acc] Cons.IH [of "acc @ [(sem, _)]"] Cons.IH [of "[(sem, _)]"]
    by (simp add: map_concat comp_def Cons.IH [of "acc @ [(sem, _)]"] Cons.IH [of "[(sem, _)]"])
qed

lemma build_chains_length:
  "length (build_chains variants acc sems) = (\<Prod>sem \<leftarrow> sems. 1 + length (variant_values variants sem))"
proof (induction sems arbitrary: acc)
  case (Cons sem rest)
  then show ?case
    by (simp add: build_chains_Cons length_concat comp_def sum_list_triv del: build_chains.simps)
qed simp

lemma subseq_Cons_right: "subseq xs (y # ys) \<longleftrightarrow> subseq xs ys \<or> (\<exists>zs. xs = y # zs \<and> subseq zs ys)"
  by (cases xs) (auto dest: subseq_Cons')

lemma build_chains_set:
  "c \<in> set (build_chains variants [] sems) \<longleftrightarrow>
     subseq (map fst c) sems \<and> (\<forall>(s, v) \<in> set c. v \<in> set (variant_values variants s))"
proof (induction sems arbitrary: c)
  case Nil
  then show ?case by (cases c) auto
next
  case (Cons sem rest)
  have "c \<in> set (build_chains variants [] (sem # rest)) \<longleftrightarrow>
      c \<in> set (build_chains variants [] rest) \<or>
      (\<exists>v \<in> set (variant_values variants sem). \<exists>c' \<in> set (build_chains variants [] rest). c = (sem, v) # c')"
    unfolding build_chains_Cons by (subst (2) build_chains_prefix) auto
  also have "\<dots> \<longleftrightarrow> subseq (map fst c) (sem # rest) \<and> (\<forall>(s, v) \<in> set c. v \<in> set (variant_values variants s))"
    unfolding subseq_Cons_right Bex_def Cons.IH by (cases c) auto
  finally show ?case .
qed

lemma build_chains_distinct:
  assumes "distinct sems" and "\<forall>s \<in> set sems. distinct (variant_values variants s)"
  shows "distinct (build_chains variants [] sems)"
  using assms
proof (induction sems)
  case (Cons sem rest)
  let ?cs = "build_chains variants [] rest"
  have no: "c \<noteq> (sem, v) # c'" if "c \<in> set ?cs" for c v c'
    using that Cons.prems(1) by (auto simp: build_chains_set elim: list_emb_set [where x = sem])
  have "build_chains variants [] (sem # rest) =
      ?cs @ concat (map (\<lambda>v. map ((#) (sem, v)) ?cs) (variant_values variants sem))"
  proof -
    have "(@) [(sem, v)] = (#) (sem, v)" for v :: paint_value by (rule ext) simp
    then show ?thesis unfolding build_chains_Cons by (subst (2) build_chains_prefix) simp
  qed
  moreover have "distinct (concat (map (\<lambda>v. map ((#) (sem, v)) ?cs) vs))" if "distinct vs" for vs
    using that Cons by (induction vs) (auto simp: distinct_map)
  ultimately show ?case using Cons no by auto
qed simp

lemma build_chains_hd: "\<exists>rest. build_chains variants acc sems = acc # rest"
  by (induction sems arbitrary: acc) (auto, metis append_Cons)

section \<open>The canonical order\<close>

definition core_rank :: "string \<Rightarrow> nat" where
  "core_rank sem = (if sem = ''material'' then 0 else if sem = ''fuzzy_skin'' then 1 else 2)"

lemma priority_ok_core_rank:
  assumes "priority_ok d" and "priority_ok d'" and "core_rank (rs_semantic d) < core_rank (rs_semantic d')"
  shows "rs_priority d < rs_priority d'"
  using assms by (auto simp: priority_ok_def core_rank_def split: if_splits elim!: order.strict_trans2 [rotated])

lemma aggregate_priority:
  assumes "\<forall>m \<in> set ms. validate_region_splits (lm_region_splits m) path = Inr ()"
    and "(sem, e) \<in> set (fst (aggregate_region_splits ms diags))"
  shows "\<exists>d. priority_ok d \<and> rs_semantic d = sem \<and> rs_priority d = ag_priority e"
proof -
  have "declared_entry (declarations ms) sem = Some e"
    using assms(2) btm_get_Some_iff [OF aggregate_wf [of ms diags], of sem e] by (simp add: aggregate_get)
  then obtain m d where "m \<in> set ms" "d \<in> set (lm_region_splits m)" "rs_semantic d = sem" "rs_priority d = ag_priority e"
    using declared_entry_member [of "declarations ms" sem e] by (auto simp: declarations_def)
  then show ?thesis using assms(1) validate_region_splits_Inr by blast
qed

lemma canonical_entry:
  assumes "\<forall>m \<in> set ms. validate_region_splits (lm_region_splits m) path = Inr ()"
    and "x \<in> set (map (\<lambda>(name, e). (ag_priority e, name)) (fst (aggregate_region_splits ms diags)))"
  shows "\<exists>d. priority_ok d \<and> rs_semantic d = snd x \<and> rs_priority d = fst x"
proof -
  obtain y where y: "y \<in> set (fst (aggregate_region_splits ms diags))" "x = (ag_priority (snd y), fst y)"
    using assms(2) unfolding set_map by (elim imageE) (simp only: case_prod_beta)
  then have "(fst y, snd y) \<in> set (fst (aggregate_region_splits ms diags))" by simp
  from aggregate_priority [OF assms(1) this] show ?thesis unfolding y(2) fst_conv snd_conv .
qed

lemma sorted_pairs_position:
  assumes "sorted ps" and "i < length ps" and "j < length ps" and "fst (ps ! i) < fst (ps ! j)"
  shows "i < j"
proof (rule ccontr)
  assume "\<not> i < j"
  then have "ps ! j \<le> ps ! i" using assms(1,2) by (intro sorted_nth_mono) auto
  then show False using assms(4) by (cases "ps ! i"; cases "ps ! j") auto
qed

lemma canonical_order_mset: "mset (canonical_variant_chain_order agg) = mset (btm_keys agg)"
  unfolding canonical_variant_chain_order_def btm_keys_def mset_map mset_sort
  by (simp add: multiset.map_comp comp_def case_prod_beta)

lemma canonical_order_distinct:
  "distinct (canonical_variant_chain_order (fst (aggregate_region_splits ms diags)))"
  unfolding mset_eq_imp_distinct_iff [OF canonical_order_mset] by (rule btm_wf_distinct [OF aggregate_wf])

lemma canonical_order_set:
  "set (canonical_variant_chain_order (fst (aggregate_region_splits ms diags))) =
     {rs_semantic d | m d. m \<in> set ms \<and> d \<in> set (lm_region_splits m)}"
proof -
  have "set (canonical_variant_chain_order (fst (aggregate_region_splits ms diags))) =
      {sem. \<exists>m \<in> set ms. \<exists>d \<in> set (lm_region_splits m). rs_semantic d = sem}"
    unfolding mset_eq_setD [OF canonical_order_mset] btm_keys_set aggregate_present ..
  also have "\<dots> = {rs_semantic d | m d. m \<in> set ms \<and> d \<in> set (lm_region_splits m)}" by blast
  finally show ?thesis .
qed

lemma canonical_order_rank:
  assumes "\<forall>m \<in> set ms. validate_region_splits (lm_region_splits m) path = Inr ()"
  shows "\<forall>i < length (canonical_variant_chain_order (fst (aggregate_region_splits ms diags))).
    \<forall>j < length (canonical_variant_chain_order (fst (aggregate_region_splits ms diags))).
      core_rank (canonical_variant_chain_order (fst (aggregate_region_splits ms diags)) ! i)
        < core_rank (canonical_variant_chain_order (fst (aggregate_region_splits ms diags)) ! j) \<longrightarrow> i < j"
proof (intro allI impI)
  define ps where "ps = sort (map (\<lambda>(name, e). (ag_priority e, name)) (fst (aggregate_region_splits ms diags)))"
  have order: "canonical_variant_chain_order (fst (aggregate_region_splits ms diags)) = map snd ps"
    by (simp only: canonical_variant_chain_order_def ps_def)
  have sorted: "sorted ps" unfolding ps_def by (rule sorted_sort)
  have "set ps = set (map (\<lambda>(name, e). (ag_priority e, name)) (fst (aggregate_region_splits ms diags)))"
    unfolding ps_def by (rule set_sort)
  then have decl: "\<exists>d. priority_ok d \<and> rs_semantic d = snd (ps ! k) \<and> rs_priority d = fst (ps ! k)"
    if "k < length ps" for k
    using canonical_entry [OF assms, of "ps ! k" diags] nth_mem [OF that] by simp
  fix i j
  assume ij: "i < length (canonical_variant_chain_order (fst (aggregate_region_splits ms diags)))"
    "j < length (canonical_variant_chain_order (fst (aggregate_region_splits ms diags)))"
    "core_rank (canonical_variant_chain_order (fst (aggregate_region_splits ms diags)) ! i)
        < core_rank (canonical_variant_chain_order (fst (aggregate_region_splits ms diags)) ! j)"
  then have i: "i < length ps" and j: "j < length ps" and rank: "core_rank (snd (ps ! i)) < core_rank (snd (ps ! j))"
    unfolding order by simp_all
  obtain d where d: "priority_ok d" "rs_semantic d = snd (ps ! i)" "rs_priority d = fst (ps ! i)"
    using decl [OF i] by blast
  obtain d' where d': "priority_ok d'" "rs_semantic d' = snd (ps ! j)" "rs_priority d' = fst (ps ! j)"
    using decl [OF j] by blast
  have "fst (ps ! i) < fst (ps ! j)"
    using priority_ok_core_rank [OF d(1) d'(1)] rank unfolding d(2,3) d'(2,3) by blast
  then show "i < j" by (rule sorted_pairs_position [OF sorted i j])
qed

section \<open>Properties\<close>

text \<open>the aggregate holds exactly the declared semantics: a semantic is present iff some loaded
  module declares it, with the priority and value type of its first declaration and the sorted
  list of the modules that agree with it; nothing is seeded.\<close>

theorem aggregate_is_declared_union:
  "btm_get (fst (aggregate_region_splits ms diags)) sem = declared_entry (declarations ms) sem \<and>
   (btm_get (fst (aggregate_region_splits ms diags)) sem \<noteq> None \<longleftrightarrow>
      (\<exists>m \<in> set ms. \<exists>d \<in> set (lm_region_splits m). rs_semantic d = sem))"
  using aggregate_get aggregate_present by blast

text \<open>the canonical order lists every aggregated semantic once, and when every manifest passed
  its region-split check it puts \<open>material\<close> before \<open>fuzzy_skin\<close> and both before every
  community semantic.\<close>

theorem canonical_order_core_first:
  assumes "\<forall>m \<in> set ms. validate_region_splits (lm_region_splits m) path = Inr ()"
    and "order = canonical_variant_chain_order (fst (aggregate_region_splits ms diags))"
  shows "distinct order \<and> set order = {rs_semantic d | m d. m \<in> set ms \<and> d \<in> set (lm_region_splits m)} \<and>
    (\<forall>i < length order. \<forall>j < length order. core_rank (order ! i) < core_rank (order ! j) \<longrightarrow> i < j)"
  unfolding assms(2)
  using canonical_order_distinct canonical_order_set canonical_order_rank [OF assms(1)] by blast

theorem canonical_order_core_first_witness:
  "canonical_variant_chain_order (fst (aggregate_region_splits
     [(builder_new ''a'' \<lparr>major = 0, minor = 1, patch = 0\<rparr> ''Layer::Perimeters'' ''a.wasm'')
       \<lparr>lm_region_splits := [\<lparr>rs_semantic = ''fuzzy_skin'', rs_priority = 200, rs_value_type = RsFlag\<rparr>,
                             \<lparr>rs_semantic = ''material'', rs_priority = 100, rs_value_type = RsToolIndex\<rparr>]\<rparr>] []))
   = [''material'', ''fuzzy_skin''] \<and> distinct [''material'', ''fuzzy_skin'']"
proof -
  let ?m = "(builder_new ''a'' \<lparr>major = 0, minor = 1, patch = 0\<rparr> ''Layer::Perimeters'' ''a.wasm'')
       \<lparr>lm_region_splits := [\<lparr>rs_semantic = ''fuzzy_skin'', rs_priority = 200, rs_value_type = RsFlag\<rparr>,
                             \<lparr>rs_semantic = ''material'', rs_priority = 100, rs_value_type = RsToolIndex\<rparr>]\<rparr>"
  have run: "canonical_variant_chain_order (fst (aggregate_region_splits [?m] [])) = [''material'', ''fuzzy_skin'']"
    by code_simp
  have "\<forall>m \<in> set [?m]. validate_region_splits (lm_region_splits m) ''a.toml'' = Inr ()" by code_simp
  from canonical_order_core_first [OF this run [symmetric]] run show ?thesis by simp
qed

text \<open>the chain enumeration is complete and without repetition.  It starts with the empty
  chain, has \<open>\<Prod>(1 + K)\<close> elements where \<open>K\<close> counts the values of a semantic, and contains
  exactly the chains that pick, in canonical order, at most one of its values per semantic.\<close>

theorem enumerate_canonical_chains_correct:
  "(\<exists>rest. enumerate_canonical_chains variants order = [] # rest) \<and>
   length (enumerate_canonical_chains variants order) = (\<Prod>sem \<leftarrow> order. 1 + length (variant_values variants sem)) \<and>
   set (enumerate_canonical_chains variants order) =
     {c. subseq (map fst c) order \<and> (\<forall>(s, v) \<in> set c. v \<in> set (variant_values variants s))} \<and>
   (distinct order \<and> (\<forall>s \<in> set order. distinct (variant_values variants s)) \<longrightarrow>
      distinct (enumerate_canonical_chains variants order))"
  unfolding enumerate_canonical_chains_def
  using build_chains_hd [of variants "[]" order] build_chains_length [of variants "[]" order]
    build_chains_set [of _ variants order] build_chains_distinct [of order variants]
  by blast

theorem enumerate_canonical_chains_correct_witness:
  "distinct (enumerate_canonical_chains [''material'' \<mapsto> [PvToolIndex 0, PvToolIndex 1]] [''material'', ''fuzzy_skin''])"
  using enumerate_canonical_chains_correct
    [of "[''material'' \<mapsto> [PvToolIndex 0, PvToolIndex 1]]" "[''material'', ''fuzzy_skin'']"]
  by (simp add: variant_values_def)

end
