(* ===== verification/ExecutionPlan.thy ===== *)
theory ExecutionPlan
  imports ClaimDedup RegionSplit
begin

text \<open>
  The frozen execution plan: \<^verbatim>\<open>build_execution_plan\<close> and
  \<^verbatim>\<open>resolve_active_regions\<close> of \<^verbatim>\<open>crates/slicer-scheduler/src/execution_plan.rs\<close>
  with the layer and region types of \<^verbatim>\<open>crates/slicer-ir/src/slice_ir.rs\<close>.  The region plans
  are carried unchanged and only counted, so their type is a parameter; floating-point layer
  data are bit patterns.
\<close>

section \<open>Data\<close>

record global_layer =
  gl_index :: u32
  gl_z :: u32
  gl_active_regions :: "active_region list"
  gl_has_nonplanar :: bool
  gl_is_sync_layer :: bool
  gl_is_raft :: bool

record region_key =
  rk_global_layer_index :: u32
  rk_object_id :: string
  rk_region_id :: u64
  rk_variant_chain :: variant_chain

record compiled_module =
  cm_module_id :: module_id
  cm_ir_read_mask :: "string list"
  cm_ir_write_mask :: "string list"
  cm_config_view :: config_map
  cm_claims :: "string list"
  cm_requires_modules :: "module_id list"
  cm_region_split_semantics :: "string set"

record compiled_stage =
  cs_stage_id :: stage_id
  cs_modules :: "compiled_module list"

record sorted_stage_modules =
  ss_stage_id :: stage_id
  ss_module_ids :: "module_id list"

record execution_module_binding =
  mb_module :: loaded_module
  mb_config_view :: config_map

record 'p execution_plan_request =
  pq_sorted_stages :: "sorted_stage_modules list"
  pq_module_bindings :: "execution_module_binding list"
  pq_global_layers :: "global_layer list"
  pq_region_plans :: "(region_key \<times> 'p) list"

record 'p execution_plan =
  ep_prepass_stages :: "compiled_stage list"
  ep_per_layer_stages :: "compiled_stage list"
  ep_layer_finalization_stage :: "compiled_stage option"
  ep_postpass_stages :: "compiled_stage list"
  ep_global_layers :: "global_layer list"
  ep_region_plans :: "(region_key \<times> 'p) list"
  ep_module_region_index :: "(u32 \<times> module_id, active_region list) btree_map"
  ep_aggregated_region_split :: region_split_aggregate

datatype execution_plan_error =
    MissingModuleBinding stage_id module_id
  | PlanStageMismatch module_id stage_id stage_id
  | DuplicateModuleBinding module_id
  | LayerIndexBudgetExceeded u32 u32
  | RegionMapCapExceeded nat nat
  | UndeclaredConfigKey module_id string

definition MAX_LAYER_INDEX :: u32 where
  "MAX_LAYER_INDEX = 100000"

definition DEFAULT_REGION_MAP_CAP :: nat where
  "DEFAULT_REGION_MAP_CAP = 750000"

section \<open>Building\<close>

fun check_layer_budget :: "global_layer list \<Rightarrow> execution_plan_error + unit" where
  "check_layer_budget [] = Inr ()"
| "check_layer_budget (l # ls) =
     (if gl_index l \<ge> MAX_LAYER_INDEX then Inl (LayerIndexBudgetExceeded (gl_index l) MAX_LAYER_INDEX)
      else check_layer_budget ls)"

definition check_region_cap :: "nat \<Rightarrow> execution_plan_error + unit" where
  "check_region_cap n = (if n > DEFAULT_REGION_MAP_CAP then Inl (RegionMapCapExceeded n DEFAULT_REGION_MAP_CAP) else Inr ())"

definition key_allowed :: "loaded_module \<Rightarrow> string \<Rightarrow> bool" where
  "key_allowed m k \<longleftrightarrow>
     config_key_declared (lm_config_keys m) k \<or>
     (is_support_family_module m \<and> (k = SUPPORT_GENERATOR_CONFIG_KEY \<or> k = SUPPORT_FAMILY_CONFIG_KEY))"

type_synonym bindings = "(module_id, execution_module_binding) btree_map"

fun index_bindings :: "execution_module_binding list \<Rightarrow> bindings \<Rightarrow> execution_plan_error + bindings" where
  "index_bindings [] acc = Inr acc"
| "index_bindings (b # bs) acc =
     (case find (\<lambda>k. \<not> key_allowed (mb_module b) k) (btm_keys (mb_config_view b)) of
        Some k \<Rightarrow> Inl (UndeclaredConfigKey (lm_id (mb_module b)) k)
      | None \<Rightarrow>
          if btm_get acc (lm_id (mb_module b)) \<noteq> None then Inl (DuplicateModuleBinding (lm_id (mb_module b)))
          else index_bindings bs (btm_insert (lm_id (mb_module b)) b acc))"

definition compile_module :: "execution_module_binding \<Rightarrow> compiled_module" where
  "compile_module b =
     (let m = mb_module b
      in \<lparr>cm_module_id = lm_id m, cm_ir_read_mask = lm_ir_reads m, cm_ir_write_mask = lm_ir_writes m,
          cm_config_view = mb_config_view b, cm_claims = lm_claims m, cm_requires_modules = lm_requires_modules m,
          cm_region_split_semantics = lm_region_split_semantics m\<rparr>)"

fun compile_stage_modules :: "bindings \<Rightarrow> stage_id \<Rightarrow> module_id list \<Rightarrow> execution_plan_error + compiled_module list" where
  "compile_stage_modules bindings st [] = Inr []"
| "compile_stage_modules bindings st (i # ids) =
     (case btm_get bindings i of
        None \<Rightarrow> Inl (MissingModuleBinding st i)
      | Some b \<Rightarrow>
          if lm_stage (mb_module b) \<noteq> st then Inl (PlanStageMismatch (lm_id (mb_module b)) st (lm_stage (mb_module b)))
          else (case compile_stage_modules bindings st ids of
                  Inl e \<Rightarrow> Inl e | Inr ms \<Rightarrow> Inr (compile_module b # ms)))"

text \<open>The four buckets while the stages are placed.\<close>

record stage_buckets =
  sb_prepass :: "compiled_stage list"
  sb_per_layer :: "compiled_stage list"
  sb_finalization :: "compiled_stage option"
  sb_postpass :: "compiled_stage list"

definition place_stage :: "compiled_stage \<Rightarrow> stage_buckets \<Rightarrow> stage_buckets" where
  "place_stage cs b =
     (if prefix ''PrePass::'' (cs_stage_id cs) then b\<lparr>sb_prepass := sb_prepass b @ [cs]\<rparr>
      else if prefix ''Layer::'' (cs_stage_id cs) then b\<lparr>sb_per_layer := sb_per_layer b @ [cs]\<rparr>
      else if cs_stage_id cs = ''PostPass::LayerFinalization'' then b\<lparr>sb_finalization := Some cs\<rparr>
      else if prefix ''PostPass::'' (cs_stage_id cs) then b\<lparr>sb_postpass := sb_postpass b @ [cs]\<rparr>
      else b)"

fun place_stages :: "bindings \<Rightarrow> sorted_stage_modules list \<Rightarrow> stage_buckets \<Rightarrow> execution_plan_error + stage_buckets" where
  "place_stages bindings [] b = Inr b"
| "place_stages bindings (ss # sss) b =
     (case compile_stage_modules bindings (ss_stage_id ss) (ss_module_ids ss) of
        Inl e \<Rightarrow> Inl e
      | Inr ms \<Rightarrow>
          place_stages bindings sss
            (if ms = [] then b else place_stage \<lparr>cs_stage_id = ss_stage_id ss, cs_modules = ms\<rparr> b))"

definition PAINT_STAGE :: stage_id where
  "PAINT_STAGE = ''Layer::PaintRegionAnnotation''"

definition stages_after_paint :: "stage_id list" where
  "stages_after_paint =
     [''Layer::SlicePostProcess'', ''Layer::Perimeters'', ''Layer::PerimetersPostProcess'', ''Layer::Infill'',
      ''Layer::InfillPostProcess'', ''Layer::Support'', ''Layer::SupportPostProcess'', ''Layer::PathOptimization'']"

text \<open>\<^verbatim>\<open>position(..).unwrap_or(len)\<close> and \<^verbatim>\<open>insert\<close>: before the first later stage, or at
  the end.\<close>

definition insert_paint_stage :: "compiled_stage list \<Rightarrow> compiled_stage list" where
  "insert_paint_stage sts =
     (if list_ex (\<lambda>s. cs_stage_id s = PAINT_STAGE) sts then sts
      else let later = (\<lambda>s. cs_stage_id s \<in> set stages_after_paint)
           in takeWhile (\<lambda>s. \<not> later s) sts @ [\<lparr>cs_stage_id = PAINT_STAGE, cs_modules = []\<rparr>]
              @ dropWhile (\<lambda>s. \<not> later s) sts)"

definition index_events :: "bindings \<Rightarrow> sorted_stage_modules list \<Rightarrow> global_layer list
    \<Rightarrow> ((u32 \<times> module_id) \<times> active_region list) list" where
  "index_events bindings sss layers =
     concat (map (\<lambda>l. concat (map (\<lambda>ss.
       if prefix ''Layer::'' (ss_stage_id ss)
       then concat (map (\<lambda>i. case btm_get bindings i of
              None \<Rightarrow> []
            | Some b \<Rightarrow> [((gl_index l, i),
                filter (module_claims_match_active_region (lm_claims (mb_module b))) (gl_active_regions l))])
            (ss_module_ids ss))
       else []) sss)) layers)"

definition module_region_index :: "bindings \<Rightarrow> sorted_stage_modules list \<Rightarrow> global_layer list
    \<Rightarrow> (u32 \<times> module_id, active_region list) btree_map" where
  "module_region_index bindings sss layers =
     fold (\<lambda>(k, rs). btm_entry k [] (\<lambda>old. old @ rs)) (index_events bindings sss layers) []"

definition build_execution_plan :: "'p execution_plan_request \<Rightarrow> load_diagnostic list
    \<Rightarrow> execution_plan_error + ('p execution_plan \<times> load_diagnostic list)" where
  "build_execution_plan rq diags =
     (case check_layer_budget (pq_global_layers rq) of
        Inl e \<Rightarrow> Inl e
      | Inr _ \<Rightarrow>
     (case check_region_cap (length (pq_region_plans rq)) of
        Inl e \<Rightarrow> Inl e
      | Inr _ \<Rightarrow>
     (case index_bindings (pq_module_bindings rq) [] of
        Inl e \<Rightarrow> Inl e
      | Inr bindings \<Rightarrow>
     (case place_stages bindings (pq_sorted_stages rq)
             \<lparr>sb_prepass = [], sb_per_layer = [], sb_finalization = None, sb_postpass = []\<rparr> of
        Inl e \<Rightarrow> Inl e
      | Inr b \<Rightarrow>
          (let (agg, diags') = aggregate_region_splits (map mb_module (pq_module_bindings rq)) diags
           in Inr (\<lparr>ep_prepass_stages = sb_prepass b,
                    ep_per_layer_stages = insert_paint_stage (sb_per_layer b),
                    ep_layer_finalization_stage = sb_finalization b,
                    ep_postpass_stages = sb_postpass b,
                    ep_global_layers = pq_global_layers rq,
                    ep_region_plans = pq_region_plans rq,
                    ep_module_region_index = module_region_index bindings (pq_sorted_stages rq) (pq_global_layers rq),
                    ep_aggregated_region_split = agg\<rparr>, diags'))))))"

definition resolve_active_regions :: "'p execution_plan \<Rightarrow> global_layer \<Rightarrow> compiled_module \<Rightarrow> active_region list" where
  "resolve_active_regions plan layer m =
     (case btm_get (ep_module_region_index plan) (gl_index layer, cm_module_id m) of None \<Rightarrow> [] | Some rs \<Rightarrow> rs)"

section \<open>The checks\<close>

lemma check_layer_budget_Inr: "check_layer_budget ls = Inr u \<longleftrightarrow> (\<forall>l \<in> set ls. gl_index l < MAX_LAYER_INDEX)"
  by (induction ls) (auto simp: not_le)

lemma index_bindings_Inr:
  "index_bindings bs acc = Inr m \<longleftrightarrow>
     (\<forall>b \<in> set bs. \<forall>k \<in> set (btm_keys (mb_config_view b)). key_allowed (mb_module b) k) \<and>
     distinct (map (lm_id \<circ> mb_module) bs) \<and>
     (\<forall>b \<in> set bs. btm_get acc (lm_id (mb_module b)) = None) \<and>
     m = fold (\<lambda>b. btm_insert (lm_id (mb_module b)) b) bs acc"
proof (induction bs arbitrary: acc)
  case (Cons b bs)
  show ?case
  proof (cases "find (\<lambda>k. \<not> key_allowed (mb_module b) k) (btm_keys (mb_config_view b))")
    case None
    then have "\<forall>k \<in> set (btm_keys (mb_config_view b)). key_allowed (mb_module b) k"
      by (simp add: find_None_iff)
    then show ?thesis using None Cons.IH by (auto simp: image_iff)
  next
    case (Some k)
    then have "k \<in> set (btm_keys (mb_config_view b))" "\<not> key_allowed (mb_module b) k"
      by (auto simp: find_Some_iff in_set_conv_nth)
    then show ?thesis using Some by auto
  qed
qed auto

definition binding_of :: "execution_module_binding list \<Rightarrow> module_id \<Rightarrow> execution_module_binding option" where
  "binding_of bs i = map_of (map (\<lambda>b. (lm_id (mb_module b), b)) bs) i"

lemma fold_bindings_get:
  assumes "distinct (map (lm_id \<circ> mb_module) bs)"
  shows "btm_get (fold (\<lambda>b. btm_insert (lm_id (mb_module b)) b) bs []) i = binding_of bs i"
proof -
  have "fold (\<lambda>b. btm_insert (lm_id (mb_module b)) b) bs acc =
      fold (\<lambda>(k, v). btm_insert k v) (map (\<lambda>b. (lm_id (mb_module b), b)) bs) acc" for acc
    by (induction bs arbitrary: acc) auto
  then show ?thesis
    using assms btm_collect_get_distinct [of "map (\<lambda>b. (lm_id (mb_module b), b)) bs" i]
    by (simp add: btm_collect_def binding_of_def comp_def)
qed

lemma binding_of_mem: "binding_of bs i = Some b \<Longrightarrow> b \<in> set bs \<and> lm_id (mb_module b) = i"
  unfolding binding_of_def by (auto dest!: map_of_SomeD)

lemma compile_stage_modules_Inr:
  "compile_stage_modules bindings st ids = Inr ms \<longleftrightarrow>
     (\<forall>i \<in> set ids. \<exists>b. btm_get bindings i = Some b \<and> lm_stage (mb_module b) = st) \<and>
     ms = map (\<lambda>i. compile_module (the (btm_get bindings i))) ids"
proof (induction ids arbitrary: ms)
  case (Cons i ids)
  show ?case
    using Cons.IH [of "tl ms"]
    by (cases "btm_get bindings i"; cases ms) (auto split: sum.splits if_splits)
qed auto

definition stage_bound :: "bindings \<Rightarrow> sorted_stage_modules \<Rightarrow> bool" where
  "stage_bound bindings ss \<longleftrightarrow>
     (\<forall>i \<in> set (ss_module_ids ss). \<exists>b. btm_get bindings i = Some b \<and> lm_stage (mb_module b) = ss_stage_id ss)"

definition compiled :: "bindings \<Rightarrow> sorted_stage_modules \<Rightarrow> compiled_stage" where
  "compiled bindings ss =
     \<lparr>cs_stage_id = ss_stage_id ss, cs_modules = map (\<lambda>i. compile_module (the (btm_get bindings i))) (ss_module_ids ss)\<rparr>"

lemma place_stages_Inr:
  "place_stages bindings sss b = Inr b' \<longleftrightarrow>
     (\<forall>ss \<in> set sss. stage_bound bindings ss) \<and>
     b' = fold place_stage (map (compiled bindings) (filter (\<lambda>ss. ss_module_ids ss \<noteq> []) sss)) b"
proof (induction sss arbitrary: b)
  case (Cons ss sss)
  show ?case
  proof (cases "compile_stage_modules bindings (ss_stage_id ss) (ss_module_ids ss)")
    case (Inl e)
    then have "\<not> stage_bound bindings ss"
      using compile_stage_modules_Inr [of bindings "ss_stage_id ss" "ss_module_ids ss"]
      by (auto simp: stage_bound_def)
    then show ?thesis using Inl by simp
  next
    case (Inr ms)
    then have "stage_bound bindings ss" "ms = cs_modules (compiled bindings ss)"
      using compile_stage_modules_Inr [of bindings "ss_stage_id ss" "ss_module_ids ss" ms]
      by (auto simp: stage_bound_def compiled_def)
    then show ?thesis using Inr Cons.IH by (auto simp: compiled_def)
  qed
qed auto

lemma fold_place_prepass:
  "sb_prepass (fold place_stage css b) = sb_prepass b @ filter (\<lambda>cs. prefix ''PrePass::'' (cs_stage_id cs)) css"
  by (induction css arbitrary: b) (auto simp: place_stage_def)

lemma prefix_tier_disjoint:
  "prefix ''PrePass::'' s \<Longrightarrow> \<not> prefix ''Layer::'' s" "prefix ''PrePass::'' s \<Longrightarrow> \<not> prefix ''PostPass::'' s"
  "prefix ''Layer::'' s \<Longrightarrow> \<not> prefix ''PostPass::'' s"
  by (auto simp: prefix_def)

lemma fold_place_per_layer:
  "sb_per_layer (fold place_stage css b) = sb_per_layer b @ filter (\<lambda>cs. prefix ''Layer::'' (cs_stage_id cs)) css"
  by (induction css arbitrary: b) (auto simp: place_stage_def dest: prefix_tier_disjoint)

lemma fold_place_postpass:
  "sb_postpass (fold place_stage css b) = sb_postpass b @
     filter (\<lambda>cs. prefix ''PostPass::'' (cs_stage_id cs) \<and> cs_stage_id cs \<noteq> ''PostPass::LayerFinalization'') css"
  by (induction css arbitrary: b) (auto simp: place_stage_def dest: prefix_tier_disjoint)

lemma fold_place_finalization:
  "sb_finalization (fold place_stage css b) =
     (case filter (\<lambda>cs. cs_stage_id cs = ''PostPass::LayerFinalization'') css of
        [] \<Rightarrow> sb_finalization b | cs # rest \<Rightarrow> Some (last (cs # rest)))"
  by (induction css arbitrary: b) (auto simp: place_stage_def split: list.split)

text \<open>What a request must satisfy for a plan to exist.\<close>

definition plan_request_ok :: "'p execution_plan_request \<Rightarrow> bool" where
  "plan_request_ok rq \<longleftrightarrow>
     (\<forall>l \<in> set (pq_global_layers rq). gl_index l < MAX_LAYER_INDEX) \<and>
     length (pq_region_plans rq) \<le> DEFAULT_REGION_MAP_CAP \<and>
     distinct (map (lm_id \<circ> mb_module) (pq_module_bindings rq)) \<and>
     (\<forall>b \<in> set (pq_module_bindings rq). \<forall>k \<in> set (btm_keys (mb_config_view b)). key_allowed (mb_module b) k) \<and>
     (\<forall>ss \<in> set (pq_sorted_stages rq). \<forall>i \<in> set (ss_module_ids ss).
        \<exists>b. binding_of (pq_module_bindings rq) i = Some b \<and> lm_stage (mb_module b) = ss_stage_id ss)"

definition plan_bindings :: "'p execution_plan_request \<Rightarrow> bindings" where
  "plan_bindings rq = fold (\<lambda>b. btm_insert (lm_id (mb_module b)) b) (pq_module_bindings rq) []"

lemma index_bindings_plan:
  "index_bindings (pq_module_bindings rq) [] = Inr m \<longleftrightarrow>
     (\<forall>b \<in> set (pq_module_bindings rq). \<forall>k \<in> set (btm_keys (mb_config_view b)). key_allowed (mb_module b) k) \<and>
     distinct (map (lm_id \<circ> mb_module) (pq_module_bindings rq)) \<and> m = plan_bindings rq"
  by (simp add: index_bindings_Inr plan_bindings_def)

lemma build_execution_plan_Inr:
  "build_execution_plan rq diags = Inr (plan, diags') \<longleftrightarrow>
     plan_request_ok rq \<and>
     (let css = map (compiled (plan_bindings rq)) (filter (\<lambda>ss. ss_module_ids ss \<noteq> []) (pq_sorted_stages rq));
          b = fold place_stage css \<lparr>sb_prepass = [], sb_per_layer = [], sb_finalization = None, sb_postpass = []\<rparr>
      in plan = \<lparr>ep_prepass_stages = sb_prepass b, ep_per_layer_stages = insert_paint_stage (sb_per_layer b),
                 ep_layer_finalization_stage = sb_finalization b, ep_postpass_stages = sb_postpass b,
                 ep_global_layers = pq_global_layers rq, ep_region_plans = pq_region_plans rq,
                 ep_module_region_index = module_region_index (plan_bindings rq) (pq_sorted_stages rq) (pq_global_layers rq),
                 ep_aggregated_region_split = fst (aggregate_region_splits (map mb_module (pq_module_bindings rq)) diags)\<rparr> \<and>
         diags' = snd (aggregate_region_splits (map mb_module (pq_module_bindings rq)) diags))"
proof -
  have bound: "(\<forall>ss \<in> set sss. stage_bound (plan_bindings rq) ss) \<longleftrightarrow>
      (\<forall>ss \<in> set sss. \<forall>i \<in> set (ss_module_ids ss).
        \<exists>b. binding_of (pq_module_bindings rq) i = Some b \<and> lm_stage (mb_module b) = ss_stage_id ss)"
    if "distinct (map (lm_id \<circ> mb_module) (pq_module_bindings rq))" for sss
    by (simp only: stage_bound_def plan_bindings_def fold_bindings_get [OF that])
  have cap: "check_region_cap n = Inr u \<longleftrightarrow> n \<le> DEFAULT_REGION_MAP_CAP" for n u
    by (simp add: check_region_cap_def not_less)
  show ?thesis
  proof (cases "\<exists>m. index_bindings (pq_module_bindings rq) [] = Inr m")
    case False
    then have "\<not> plan_request_ok rq" using index_bindings_plan [of rq] by (auto simp: plan_request_ok_def)
    moreover obtain e where "index_bindings (pq_module_bindings rq) [] = Inl e"
      using False by (cases "index_bindings (pq_module_bindings rq) []") auto
    ultimately show ?thesis by (auto simp: build_execution_plan_def split: sum.splits)
  next
    case True
    then have ok: "\<forall>b \<in> set (pq_module_bindings rq). \<forall>k \<in> set (btm_keys (mb_config_view b)). key_allowed (mb_module b) k"
      and dist: "distinct (map (lm_id \<circ> mb_module) (pq_module_bindings rq))"
      and ib: "index_bindings (pq_module_bindings rq) [] = Inr (plan_bindings rq)"
      using index_bindings_plan [of rq] by auto
    have req: "plan_request_ok rq \<longleftrightarrow>
        check_layer_budget (pq_global_layers rq) = Inr () \<and> check_region_cap (length (pq_region_plans rq)) = Inr () \<and>
        (\<forall>ss \<in> set (pq_sorted_stages rq). stage_bound (plan_bindings rq) ss)"
      using ok dist bound [OF dist] by (simp add: plan_request_ok_def check_layer_budget_Inr cap)
    let ?b0 = "\<lparr>sb_prepass = [], sb_per_layer = [], sb_finalization = None, sb_postpass = []\<rparr>"
    note placed = place_stages_Inr [of "plan_bindings rq" "pq_sorted_stages rq" ?b0]
    show ?thesis
    proof (cases "place_stages (plan_bindings rq) (pq_sorted_stages rq) ?b0")
      case (Inl e)
      then have "\<not> (\<forall>ss \<in> set (pq_sorted_stages rq). stage_bound (plan_bindings rq) ss)" using placed by auto
      then show ?thesis unfolding req by (auto simp: build_execution_plan_def ib Inl split: sum.splits)
    next
      case (Inr b')
      then show ?thesis
        unfolding req using placed [of b']
        by (auto simp: build_execution_plan_def ib Let_def case_prod_beta split: sum.splits)
    qed
  qed
qed

section \<open>The region index\<close>

definition layer_module_ids :: "sorted_stage_modules list \<Rightarrow> module_id list" where
  "layer_module_ids sss = concat (map ss_module_ids (filter (\<lambda>ss. prefix ''Layer::'' (ss_stage_id ss)) sss))"

definition layer_event :: "bindings \<Rightarrow> global_layer \<Rightarrow> module_id \<Rightarrow> ((u32 \<times> module_id) \<times> active_region list) list" where
  "layer_event bindings l i =
     (case btm_get bindings i of
        None \<Rightarrow> []
      | Some b \<Rightarrow> [((gl_index l, i),
          filter (module_claims_match_active_region (lm_claims (mb_module b))) (gl_active_regions l))])"

lemma index_events_alt:
  "index_events bindings sss layers =
     concat (map (\<lambda>l. concat (map (layer_event bindings l) (layer_module_ids sss))) layers)"
proof -
  have "concat (map (\<lambda>ss. if prefix ''Layer::'' (ss_stage_id ss)
      then concat (map (layer_event bindings l) (ss_module_ids ss)) else []) sss) =
    concat (map (layer_event bindings l) (layer_module_ids sss))" for l
    by (induction sss) (auto simp: layer_module_ids_def)
  moreover have "index_events bindings sss layers = concat (map (\<lambda>l. concat (map (\<lambda>ss.
      if prefix ''Layer::'' (ss_stage_id ss) then concat (map (layer_event bindings l) (ss_module_ids ss)) else []) sss)) layers)"
    unfolding index_events_def layer_event_def [abs_def] ..
  ultimately show ?thesis by simp
qed

lemma fold_extend_get:
  "btm_get (fold (\<lambda>(k, rs). btm_entry k [] (\<lambda>old. old @ rs)) evs m) k =
     (if k \<in> fst ` set evs
      then Some ((case btm_get m k of None \<Rightarrow> [] | Some l \<Rightarrow> l) @ concat (map snd (filter (\<lambda>e. fst e = k) evs)))
      else btm_get m k)"
proof (induction evs arbitrary: m)
  case (Cons e evs)
  show ?case
    by (cases e) (auto simp: Cons.IH btm_entry_get filter_empty_conv image_iff split: option.split)
qed simp

lemma layer_event_filter:
  "filter (\<lambda>e. fst e = (k, i)) (concat (map (layer_event bindings l) ids)) =
     (if gl_index l = k then concat (replicate (count_list ids i) (layer_event bindings l i)) else [])"
  by (induction ids) (auto simp: layer_event_def split: option.split)

lemma index_filter_layers:
  assumes "distinct (map gl_index layers)" and "l \<in> set layers"
  shows "filter (\<lambda>e. fst e = (gl_index l, i)) (index_events bindings sss layers) =
    concat (replicate (count_list (layer_module_ids sss) i) (layer_event bindings l i))"
proof -
  have "filter (\<lambda>e. fst e = (gl_index l, i)) (concat (map (\<lambda>l. concat (map (layer_event bindings l) (layer_module_ids sss))) ls)) =
      (if l \<in> set ls then concat (replicate (count_list (layer_module_ids sss) i) (layer_event bindings l i)) else [])"
    if "distinct (map gl_index ls)" "\<forall>x \<in> set ls. gl_index x = gl_index l \<longrightarrow> x = l" for ls
    using that by (induction ls) (auto simp: layer_event_filter)
  moreover have "\<forall>x \<in> set layers. gl_index x = gl_index l \<longrightarrow> x = l"
    using assms by (auto simp: distinct_map inj_on_def)
  ultimately show ?thesis using assms by (simp add: index_events_alt)
qed

lemma place_stages_no_key: "place_stages bindings sss b \<noteq> Inl (UndeclaredConfigKey i k)"
proof -
  have "compile_stage_modules bindings st ids \<noteq> Inl (UndeclaredConfigKey i k)" for st ids
    by (induction ids) (auto split: option.splits sum.splits)
  then show ?thesis by (induction sss arbitrary: b) (auto split: sum.splits)
qed

lemma layer_stages_after_paint:
  "\<forall>s \<in> set STAGE_ORDER. prefix ''Layer::'' s \<and> s \<noteq> PAINT_STAGE \<longrightarrow>
     the (stage_index PAINT_STAGE) < the (stage_index s) \<and>
     (s \<noteq> ''Layer::AnchoredEvents'' \<longrightarrow> s \<in> set stages_after_paint)"
  by code_simp

lemma check_errors_no_key:
  "check_layer_budget ls \<noteq> Inl (UndeclaredConfigKey i k)" "check_region_cap n \<noteq> Inl (UndeclaredConfigKey i k)"
  by (induction ls) (auto simp: check_region_cap_def)

section \<open>Properties\<close>

text \<open>C35: a plan is built exactly for the requests that respect the layer and region budgets, bind
  every module once, expose only declared config keys, and list only bound modules in the stage
  they declare; in every other case an error is returned and no plan.\<close>

theorem build_execution_plan_succeeds_iff:
  "(\<exists>plan diags'. build_execution_plan rq diags = Inr (plan, diags')) \<longleftrightarrow> plan_request_ok rq"
  unfolding build_execution_plan_Inr Let_def by blast

text \<open>stages are routed by tier without reordering.  Every bucket of the plan is the list of
  the non-empty requested stages of that tier in request order, each compiled from its bindings;
  the per-layer bucket additionally contains the built-in paint annotation stage.\<close>

theorem plan_stages_by_tier:
  assumes "build_execution_plan rq diags = Inr (plan, diags')"
  shows "ep_prepass_stages plan = map (compiled (plan_bindings rq))
      (filter (\<lambda>ss. ss_module_ids ss \<noteq> [] \<and> prefix ''PrePass::'' (ss_stage_id ss)) (pq_sorted_stages rq)) \<and>
    ep_per_layer_stages plan = insert_paint_stage (map (compiled (plan_bindings rq))
      (filter (\<lambda>ss. ss_module_ids ss \<noteq> [] \<and> prefix ''Layer::'' (ss_stage_id ss)) (pq_sorted_stages rq))) \<and>
    ep_postpass_stages plan = map (compiled (plan_bindings rq))
      (filter (\<lambda>ss. ss_module_ids ss \<noteq> [] \<and> prefix ''PostPass::'' (ss_stage_id ss) \<and>
         ss_stage_id ss \<noteq> ''PostPass::LayerFinalization'') (pq_sorted_stages rq)) \<and>
    (ep_layer_finalization_stage plan = None \<longleftrightarrow>
      \<not> (\<exists>ss \<in> set (pq_sorted_stages rq). ss_module_ids ss \<noteq> [] \<and> ss_stage_id ss = ''PostPass::LayerFinalization''))"
proof -
  have id: "cs_stage_id (compiled bnd ss) = ss_stage_id ss" for bnd ss by (simp add: compiled_def)
  have f: "filter P (map (compiled bnd) (filter Q sss)) = map (compiled bnd) (filter (\<lambda>ss. Q ss \<and> P (compiled bnd ss)) sss)"
    for P Q bnd sss by (induction sss) auto
  have fin: "(case filter P xs of [] \<Rightarrow> None | c # r \<Rightarrow> Some (last (c # r))) = None \<longleftrightarrow> (\<forall>x \<in> set xs. \<not> P x)"
    for P and xs :: "compiled_stage list"
  proof -
    have "(case ys of [] \<Rightarrow> None | c # r \<Rightarrow> Some (last (c # r))) = None \<longleftrightarrow> ys = []" for ys :: "compiled_stage list"
      by (simp split: list.split)
    then show ?thesis by (simp only: filter_empty_conv)
  qed
  let ?css = "map (compiled (plan_bindings rq)) (filter (\<lambda>ss. ss_module_ids ss \<noteq> []) (pq_sorted_stages rq))"
  have "ep_layer_finalization_stage plan =
      (case filter (\<lambda>cs. cs_stage_id cs = ''PostPass::LayerFinalization'') ?css of [] \<Rightarrow> None | c # r \<Rightarrow> Some (last (c # r)))"
    using assms by (simp add: build_execution_plan_Inr Let_def fold_place_finalization cong: list.case_cong)
  then have "ep_layer_finalization_stage plan = None \<longleftrightarrow>
      (\<forall>cs \<in> set ?css. cs_stage_id cs \<noteq> ''PostPass::LayerFinalization'')"
    by (simp only: fin)
  also have "\<dots> \<longleftrightarrow> \<not> (\<exists>ss \<in> set (pq_sorted_stages rq). ss_module_ids ss \<noteq> [] \<and> ss_stage_id ss = ''PostPass::LayerFinalization'')"
    by (auto simp: id)
  finally show ?thesis
    using assms
    by (simp add: build_execution_plan_Inr Let_def fold_place_prepass fold_place_per_layer fold_place_postpass f id)
qed

definition infill_module :: loaded_module where
  "infill_module =
     (builder_new ''com.acme.fill'' \<lparr>major = 1, minor = 0, patch = 0\<rparr> ''Layer::Infill'' ''fill.wasm'')
       \<lparr>lm_config_keys := [''density'']\<rparr>"

definition sample_region :: active_region where
  "sample_region = \<lparr>ar_object_id = ''cube'', ar_region_id = 1, ar_extensions = [], ar_support_type = NormalAuto\<rparr>"

definition sample_layer :: global_layer where
  "sample_layer = \<lparr>gl_index = 7, gl_z = 0, gl_active_regions = [sample_region], gl_has_nonplanar = False,
     gl_is_sync_layer = False, gl_is_raft = False\<rparr>"

definition sample_plan_request :: "unit execution_plan_request" where
  "sample_plan_request =
     \<lparr>pq_sorted_stages = [\<lparr>ss_stage_id = ''Layer::Infill'', ss_module_ids = [''com.acme.fill'']\<rparr>],
      pq_module_bindings = [\<lparr>mb_module = infill_module,
        mb_config_view = bind_module_config_view infill_module [(''density'', CvInt 15)]\<rparr>],
      pq_global_layers = [sample_layer], pq_region_plans = []\<rparr>"

lemma sample_plan_exists: "\<exists>plan diags'. build_execution_plan sample_plan_request [] = Inr (plan, diags')"
proof -
  have "\<forall>b \<in> set (pq_module_bindings sample_plan_request).
      \<forall>k \<in> set (btm_keys (mb_config_view b)). key_allowed (mb_module b) k" by code_simp
  moreover have "\<forall>l \<in> set (pq_global_layers sample_plan_request). gl_index l < MAX_LAYER_INDEX" by code_simp
  moreover have "\<forall>ss \<in> set (pq_sorted_stages sample_plan_request). \<forall>i \<in> set (ss_module_ids ss).
      \<exists>b. binding_of (pq_module_bindings sample_plan_request) i = Some b \<and> lm_stage (mb_module b) = ss_stage_id ss"
    by (simp add: sample_plan_request_def binding_of_def infill_module_def builder_new_def)
  ultimately have "plan_request_ok sample_plan_request"
    by (simp add: plan_request_ok_def) (simp add: sample_plan_request_def)
  then show ?thesis unfolding build_execution_plan_Inr Let_def by blast
qed

theorem plan_stages_by_tier_witness:
  "\<exists>plan diags'. build_execution_plan sample_plan_request [] = Inr (plan, diags') \<and> ep_prepass_stages plan = [] \<and>
     map cs_stage_id (ep_per_layer_stages plan) = [''Layer::PaintRegionAnnotation'', ''Layer::Infill'']"
proof -
  obtain plan diags' where run: "build_execution_plan sample_plan_request [] = Inr (plan, diags')"
    using sample_plan_exists by blast
  let ?pick = "\<lambda>tier. map (compiled (plan_bindings sample_plan_request))
    (filter (\<lambda>ss. ss_module_ids ss \<noteq> [] \<and> prefix tier (ss_stage_id ss)) (pq_sorted_stages sample_plan_request))"
  note t = plan_stages_by_tier [OF run]
  have tiers: "ep_prepass_stages plan = ?pick ''PrePass::''" "ep_per_layer_stages plan = insert_paint_stage (?pick ''Layer::'')"
    by (rule conjunct1 [OF t], rule conjunct1 [OF conjunct2 [OF t]])
  have "?pick ''PrePass::'' = []" by (simp add: sample_plan_request_def)
  moreover have "map cs_stage_id (insert_paint_stage (?pick ''Layer::'')) = [''Layer::PaintRegionAnnotation'', ''Layer::Infill'']"
    by (simp add: sample_plan_request_def insert_paint_stage_def compiled_def PAINT_STAGE_def stages_after_paint_def)
  ultimately have "ep_prepass_stages plan = []"
    "map cs_stage_id (ep_per_layer_stages plan) = [''Layer::PaintRegionAnnotation'', ''Layer::Infill'']"
    by (simp_all only: tiers)
  with run show ?thesis by (intro exI conjI)
qed

text \<open>the region index answers a lookup with exactly the regions of the layer that the module
  may receive, in layer order, when the layer indices are distinct and the module is listed once
  among the per-layer stages.\<close>

theorem resolve_active_regions_correct:
  assumes "build_execution_plan rq diags = Inr (plan, diags')"
    and "distinct (map gl_index (pq_global_layers rq))" and "l \<in> set (pq_global_layers rq)"
    and "count_list (layer_module_ids (pq_sorted_stages rq)) i = 1"
    and "binding_of (pq_module_bindings rq) i = Some b"
  shows "resolve_active_regions plan l (compile_module b) =
    filter (module_claims_match_active_region (lm_claims (mb_module b))) (gl_active_regions l)"
proof -
  have ok: "plan_request_ok rq"
    and idx: "ep_module_region_index plan = module_region_index (plan_bindings rq) (pq_sorted_stages rq) (pq_global_layers rq)"
    using assms(1) by (simp_all add: build_execution_plan_Inr Let_def)
  have get: "btm_get (plan_bindings rq) i = Some b"
    using ok assms(5) by (simp add: plan_bindings_def plan_request_ok_def fold_bindings_get)
  have i: "cm_module_id (compile_module b) = i"
    using binding_of_mem [OF assms(5)] by (simp add: compile_module_def Let_def)
  let ?evs = "index_events (plan_bindings rq) (pq_sorted_stages rq) (pq_global_layers rq)"
  have f: "filter (\<lambda>e. fst e = (gl_index l, i)) ?evs = layer_event (plan_bindings rq) l i"
    using index_filter_layers [OF assms(2,3), of i] assms(4) by simp
  then have "(gl_index l, i) \<in> fst ` set ?evs"
    using filter_empty_conv [of "\<lambda>e. fst e = (gl_index l, i)" ?evs] by (force simp: layer_event_def get)
  then have "btm_get (ep_module_region_index plan) (gl_index l, i) = Some (concat (map snd (layer_event (plan_bindings rq) l i)))"
    unfolding idx module_region_index_def fold_extend_get f by simp
  then show ?thesis by (simp add: resolve_active_regions_def i layer_event_def get)
qed

theorem resolve_active_regions_correct_witness:
  "\<exists>plan diags'. build_execution_plan sample_plan_request [] = Inr (plan, diags') \<and>
     resolve_active_regions plan sample_layer (compile_module (hd (pq_module_bindings sample_plan_request))) = [sample_region]"
proof -
  obtain plan diags' where run: "build_execution_plan sample_plan_request [] = Inr (plan, diags')"
    using sample_plan_exists by blast
  have "resolve_active_regions plan sample_layer (compile_module (hd (pq_module_bindings sample_plan_request))) =
      filter (module_claims_match_active_region (lm_claims infill_module)) (gl_active_regions sample_layer)"
    using resolve_active_regions_correct [OF run, of sample_layer "''com.acme.fill''" "hd (pq_module_bindings sample_plan_request)"]
    by (simp add: sample_plan_request_def layer_module_ids_def binding_of_def infill_module_def builder_new_def)
  also have "\<dots> = [sample_region]" by code_simp
  finally show ?thesis using run by blast
qed

text \<open>Views bound by \<open>bind_module_config_view\<close> pass the declared-read guard: a request whose
  bindings all come from it is never rejected for an undeclared config key.\<close>

theorem bound_views_never_undeclared:
  assumes "\<forall>b \<in> set (pq_module_bindings rq). mb_config_view b = bind_module_config_view (mb_module b) rendered"
  shows "build_execution_plan rq diags \<noteq> Inl (UndeclaredConfigKey i k)"
proof -
  have allowed: "key_allowed (mb_module b) k" if "b \<in> set (pq_module_bindings rq)" "k \<in> set (btm_keys (mb_config_view b))" for b k
    using bound_view_declared [of "mb_module b" rendered k] assms that
    by (simp add: key_allowed_def btm_get_None_iff)
  have "index_bindings bs acc \<noteq> Inl (UndeclaredConfigKey i k)" if "set bs \<subseteq> set (pq_module_bindings rq)" for bs acc
    using that
  proof (induction bs arbitrary: acc)
    case (Cons b bs)
    then have "find (\<lambda>k. \<not> key_allowed (mb_module b) k) (btm_keys (mb_config_view b)) = None"
      using allowed by (simp add: find_None_iff)
    then show ?case using Cons by simp
  qed simp
  from this [of "pq_module_bindings rq" "[]"] show ?thesis
    using place_stages_no_key check_errors_no_key
    by (fastforce simp: build_execution_plan_def Let_def case_prod_beta split: sum.splits)
qed

theorem bound_views_never_undeclared_witness:
  "build_execution_plan sample_plan_request [] \<noteq> Inl (UndeclaredConfigKey ''com.acme.fill'' ''density'')"
  by (rule bound_views_never_undeclared [where rendered = "[(''density'', CvInt 15)]"]) (simp add: sample_plan_request_def)

text \<open>the paint annotation stage always appears in the per-layer bucket; when it has to be
  inserted into stages in canonical order, the result is again in canonical order unless the
  first of them is \<open>Layer::AnchoredEvents\<close>.\<close>

theorem paint_stage_inserted_in_order:
  assumes "sorted_wrt (<) (map (the \<circ> stage_index \<circ> cs_stage_id) sts)"
    and "\<forall>s \<in> set sts. is_known_stage (cs_stage_id s) \<and> prefix ''Layer::'' (cs_stage_id s)"
    and "sts \<noteq> [] \<Longrightarrow> cs_stage_id (hd sts) \<noteq> ''Layer::AnchoredEvents''"
  shows "PAINT_STAGE \<in> cs_stage_id ` set (insert_paint_stage sts) \<and>
    sorted_wrt (<) (map (the \<circ> stage_index \<circ> cs_stage_id) (insert_paint_stage sts))"
proof (cases "list_ex (\<lambda>s. cs_stage_id s = PAINT_STAGE) sts")
  case True
  then show ?thesis using assms(1) by (force simp: insert_paint_stage_def list_ex_iff)
next
  case False
  have later: "the (stage_index PAINT_STAGE) < the (stage_index (cs_stage_id s)) \<and>
      (cs_stage_id s \<noteq> ''Layer::AnchoredEvents'' \<longrightarrow> cs_stage_id s \<in> set stages_after_paint)" if "s \<in> set sts" for s
    using that False assms(2) layer_stages_after_paint by (auto simp: list_ex_iff is_known_stage_def)
  have "insert_paint_stage sts = \<lparr>cs_stage_id = PAINT_STAGE, cs_modules = []\<rparr> # sts"
  proof (cases sts)
    case (Cons s rest)
    then have "cs_stage_id s \<in> set stages_after_paint" using later [of s] assms(3) by simp
    then show ?thesis using False by (simp add: insert_paint_stage_def Cons)
  qed (simp add: insert_paint_stage_def)
  then show ?thesis using assms(1) later by simp
qed

theorem paint_stage_inserted_in_order_witness:
  "sorted_wrt (<) (map (the \<circ> stage_index \<circ> cs_stage_id)
     (insert_paint_stage [\<lparr>cs_stage_id = ''Layer::Perimeters'', cs_modules = []\<rparr>,
                          \<lparr>cs_stage_id = ''Layer::AnchoredEvents'', cs_modules = []\<rparr>]))"
  by (rule paint_stage_inserted_in_order [THEN conjunct2]) code_simp+


end
