(* ===== verification/Blackboard.thy ===== *)
theory Blackboard
  imports ExecutionPlan
begin

text \<open>
  The shared state of a slice: \<^verbatim>\<open>Blackboard\<close> and its commit operations in
  \<^verbatim>\<open>crates/slicer-runtime/src/blackboard.rs\<close>, with the error types of
  \<^verbatim>\<open>crates/slicer-ir/src/stage_io.rs\<close> and the plan types of
  \<^verbatim>\<open>crates/slicer-ir/src/slice_ir.rs\<close>.  The blackboard stores most intermediate results
  without looking into them; those payloads share one type parameter.  An operation returns its
  result and the state after it, so that an error leaves a visible state.  The locale
  \<open>write_once_slot\<close> is the contract of a slot that is committed at most once; it is interpreted
  for every such slot of the blackboard and, in the next theory, of the layer arena.
\<close>

section \<open>Errors\<close>

datatype blackboard_prepass_slot =
    SlotSurfaceClassification
  | SlotLayerPlan
  | SlotSeamPlan
  | SlotSupportPlan
  | SlotRegionMap
  | SlotSliceIR
  | SlotSupportGeometry
  | SlotSupportAnalysis

type_synonym support_identity = "32 word \<times> string \<times> u64 \<times> variant_chain"

datatype blackboard_error =
    DuplicatePrepassCommit blackboard_prepass_slot
  | DuplicateSeamPlanEntry region_key
  | DuplicateSupportPlanEntry support_identity
  | MissingRequiredPrepass blackboard_prepass_slot
  | DuplicateLayerCommit nat
  | LayerSlotOutOfRange nat nat
  | IncompleteLayerDrain "nat list"
  | LayerOutputsAlreadyDrained

datatype layer_selection_index_commit_error = LayerSelectionIndexCommitError

section \<open>Plans that commits inspect\<close>

record 'x seam_plan_entry =
  sme_region_key :: region_key
  sme_payload :: 'x

record 'x seam_plan =
  smp_schema_version :: semver
  smp_entries :: "'x seam_plan_entry list"

record 'x support_plan_entry =
  spe_global_layer_index :: "32 word"
  spe_object_id :: string
  spe_region_id :: u64
  spe_variant_chain :: variant_chain
  spe_payload :: 'x

record raft_plan =
  rp_raft_layers :: u32
  rp_first_layer_density :: u32
  rp_base_raft_layers :: u32
  rp_interface_raft_layers :: u32

record 'x support_plan =
  spp_schema_version :: semver
  spp_entries :: "'x support_plan_entry list"
  spp_raft_plan :: "raft_plan option"

fun first_duplicate :: "'a list \<Rightarrow> 'a list \<Rightarrow> 'a option" where
  "first_duplicate seen [] = None"
| "first_duplicate seen (x # xs) = (if x \<in> set seen then Some x else first_duplicate (x # seen) xs)"

definition duplicate_region_key :: "'x seam_plan \<Rightarrow> region_key option" where
  "duplicate_region_key p = first_duplicate [] (map sme_region_key (smp_entries p))"

definition support_entry_identity :: "'x support_plan_entry \<Rightarrow> support_identity" where
  "support_entry_identity e =
     (spe_global_layer_index e, spe_object_id e, spe_region_id e, spe_variant_chain e)"

definition duplicate_region_identity :: "'x support_plan \<Rightarrow> support_identity option" where
  "duplicate_region_identity p = first_duplicate [] (map support_entry_identity (spp_entries p))"

definition raft_key :: "raft_plan \<Rightarrow> u32 \<times> u32 \<times> u32 \<times> u32" where
  "raft_key p = (rp_raft_layers p, rp_first_layer_density p, rp_base_raft_layers p, rp_interface_raft_layers p)"

definition raft_plan_min :: "raft_plan \<Rightarrow> raft_plan \<Rightarrow> raft_plan" where
  "raft_plan_min a b = (if raft_key a \<le> raft_key b then a else b)"

section \<open>The blackboard\<close>

record 'x blackboard =
  bb_mesh_ir :: 'x
  bb_surface_classification :: "'x option"
  bb_layer_plan :: "'x option"
  bb_seam_plan :: "'x seam_plan option"
  bb_support_plan :: "'x support_plan option"
  bb_region_map :: "'x option"
  bb_slice_ir :: "'x option"
  bb_layer_selection_index :: "'x option"
  bb_support_geometry :: "'x option"
  bb_support_analysis :: "'x option"
  bb_layer_outputs :: "'x option list option"

definition blackboard_new :: "'x \<Rightarrow> nat \<Rightarrow> 'x blackboard" where
  "blackboard_new mesh layer_count =
     \<lparr>bb_mesh_ir = mesh, bb_surface_classification = None, bb_layer_plan = None, bb_seam_plan = None,
      bb_support_plan = None, bb_region_map = None, bb_slice_ir = None, bb_layer_selection_index = None,
      bb_support_geometry = None, bb_support_analysis = None,
      bb_layer_outputs = Some (replicate layer_count None)\<rparr>"

text \<open>\<^verbatim>\<open>commit_prepass\<close> on a slot given by its value and its update.\<close>

definition commit_prepass :: "'a option \<Rightarrow> ('a option \<Rightarrow> 's) \<Rightarrow> 's \<Rightarrow> 'a \<Rightarrow> blackboard_prepass_slot
    \<Rightarrow> (blackboard_error + unit) \<times> 's" where
  "commit_prepass slot set_slot s ir name =
     (if slot \<noteq> None then (Inl (DuplicatePrepassCommit name), s) else (Inr (), set_slot (Some ir)))"

definition commit_surface_classification :: "'x \<Rightarrow> 'x blackboard \<Rightarrow> (blackboard_error + unit) \<times> 'x blackboard" where
  "commit_surface_classification ir b =
     commit_prepass (bb_surface_classification b) (\<lambda>v. b\<lparr>bb_surface_classification := v\<rparr>) b ir SlotSurfaceClassification"

definition commit_layer_plan :: "'x \<Rightarrow> 'x blackboard \<Rightarrow> (blackboard_error + unit) \<times> 'x blackboard" where
  "commit_layer_plan ir b = commit_prepass (bb_layer_plan b) (\<lambda>v. b\<lparr>bb_layer_plan := v\<rparr>) b ir SlotLayerPlan"

definition commit_region_map :: "'x \<Rightarrow> 'x blackboard \<Rightarrow> (blackboard_error + unit) \<times> 'x blackboard" where
  "commit_region_map ir b = commit_prepass (bb_region_map b) (\<lambda>v. b\<lparr>bb_region_map := v\<rparr>) b ir SlotRegionMap"

definition commit_slice_ir :: "'x \<Rightarrow> 'x blackboard \<Rightarrow> (blackboard_error + unit) \<times> 'x blackboard" where
  "commit_slice_ir ir b = commit_prepass (bb_slice_ir b) (\<lambda>v. b\<lparr>bb_slice_ir := v\<rparr>) b ir SlotSliceIR"

definition commit_support_geometry :: "'x \<Rightarrow> 'x blackboard \<Rightarrow> (blackboard_error + unit) \<times> 'x blackboard" where
  "commit_support_geometry ir b =
     commit_prepass (bb_support_geometry b) (\<lambda>v. b\<lparr>bb_support_geometry := v\<rparr>) b ir SlotSupportGeometry"

definition commit_support_analysis :: "'x \<Rightarrow> 'x blackboard \<Rightarrow> (blackboard_error + unit) \<times> 'x blackboard" where
  "commit_support_analysis ir b =
     commit_prepass (bb_support_analysis b) (\<lambda>v. b\<lparr>bb_support_analysis := v\<rparr>) b ir SlotSupportAnalysis"

definition commit_layer_selection_index ::
  "'x \<Rightarrow> 'x blackboard \<Rightarrow> (layer_selection_index_commit_error + unit) \<times> 'x blackboard" where
  "commit_layer_selection_index idx b =
     (if bb_layer_selection_index b \<noteq> None then (Inl LayerSelectionIndexCommitError, b)
      else (Inr (), b\<lparr>bb_layer_selection_index := Some idx\<rparr>))"

definition replace_surface_classification :: "'x \<Rightarrow> 'x blackboard \<Rightarrow> (blackboard_error + unit) \<times> 'x blackboard" where
  "replace_surface_classification ir b =
     (if bb_surface_classification b = None then (Inl (MissingRequiredPrepass SlotSurfaceClassification), b)
      else (Inr (), b\<lparr>bb_surface_classification := Some ir\<rparr>))"

definition replace_layer_plan :: "'x \<Rightarrow> 'x blackboard \<Rightarrow> (blackboard_error + unit) \<times> 'x blackboard" where
  "replace_layer_plan ir b =
     (if bb_layer_plan b = None then (Inl (MissingRequiredPrepass SlotLayerPlan), b)
      else (Inr (), b\<lparr>bb_layer_plan := Some ir\<rparr>))"

text \<open>The \<^verbatim>\<open>debug_assert!\<close> panics (\<open>None\<close>) only in builds with debug assertions.\<close>

definition replace_slice_ir :: "bool \<Rightarrow> 'x \<Rightarrow> 'x blackboard \<Rightarrow> ((blackboard_error + unit) \<times> 'x blackboard) option" where
  "replace_slice_ir debug_assertions ir b =
     (if bb_slice_ir b = None then Some (Inl (MissingRequiredPrepass SlotSliceIR), b)
      else if debug_assertions \<and>
        \<not> (case bb_layer_outputs b of None \<Rightarrow> False | Some v \<Rightarrow> list_all (\<lambda>s. s = None) v) then None
      else Some (Inr (), b\<lparr>bb_slice_ir := Some ir\<rparr>))"

definition commit_seam_plan :: "'x seam_plan \<Rightarrow> 'x blackboard \<Rightarrow> (blackboard_error + unit) \<times> 'x blackboard" where
  "commit_seam_plan ir b =
     (case duplicate_region_key ir of
        Some k \<Rightarrow> (Inl (DuplicateSeamPlanEntry k), b)
      | None \<Rightarrow> commit_prepass (bb_seam_plan b) (\<lambda>v. b\<lparr>bb_seam_plan := v\<rparr>) b ir SlotSeamPlan)"

definition merge_raft :: "raft_plan option \<Rightarrow> raft_plan option \<Rightarrow> raft_plan option" where
  "merge_raft current incoming =
     (case (current, incoming) of
        (None, None) \<Rightarrow> None
      | (Some c, None) \<Rightarrow> Some c
      | (None, Some i) \<Rightarrow> Some i
      | (Some c, Some i) \<Rightarrow> Some (raft_plan_min c i))"

definition commit_support_plan :: "'x support_plan \<Rightarrow> 'x blackboard \<Rightarrow> (blackboard_error + unit) \<times> 'x blackboard" where
  "commit_support_plan ir b =
     (case bb_support_plan b of
        None \<Rightarrow>
          (case duplicate_region_identity ir of
             Some i \<Rightarrow> (Inl (DuplicateSupportPlanEntry i), b)
           | None \<Rightarrow> (Inr (), b\<lparr>bb_support_plan := Some ir\<rparr>))
      | Some existing \<Rightarrow>
          if spp_schema_version existing \<noteq> spp_schema_version ir
          then (Inl (DuplicatePrepassCommit SlotSupportPlan), b)
          else let merged = existing\<lparr>spp_entries := spp_entries existing @ spp_entries ir\<rparr>
               in (case duplicate_region_identity merged of
                     Some i \<Rightarrow> (Inl (DuplicateSupportPlanEntry i), b)
                   | None \<Rightarrow> (Inr (), b\<lparr>bb_support_plan :=
                       Some (merged\<lparr>spp_raft_plan := merge_raft (spp_raft_plan merged) (spp_raft_plan ir)\<rparr>)\<rparr>)))"

section \<open>Layer outputs\<close>

definition commit_layer_output :: "nat \<Rightarrow> 'x \<Rightarrow> 'x blackboard \<Rightarrow> (blackboard_error + unit) \<times> 'x blackboard" where
  "commit_layer_output layer_index ir b =
     (case bb_layer_outputs b of
        None \<Rightarrow> (Inl LayerOutputsAlreadyDrained, b)
      | Some outs \<Rightarrow>
          if layer_index \<ge> length outs then (Inl (LayerSlotOutOfRange layer_index (length outs)), b)
          else if outs ! layer_index \<noteq> None then (Inl (DuplicateLayerCommit layer_index), b)
          else (Inr (), b\<lparr>bb_layer_outputs := Some (outs[layer_index := Some ir])\<rparr>))"

text \<open>\<^verbatim>\<open>take\<close> empties the field; on missing layers the outputs are put back.  The
  \<^verbatim>\<open>unreachable!\<close> arm is a panic (\<open>None\<close>).\<close>

definition drain_layer_outputs :: "'x blackboard \<Rightarrow> ((blackboard_error + 'x list) \<times> 'x blackboard) option" where
  "drain_layer_outputs b =
     (let taken = b\<lparr>bb_layer_outputs := None\<rparr>
      in case bb_layer_outputs b of
           None \<Rightarrow> Some (Inl LayerOutputsAlreadyDrained, taken)
         | Some outs \<Rightarrow>
             (let missing = filter (\<lambda>i. outs ! i = None) [0 ..< length outs]
              in if missing \<noteq> []
                 then Some (Inl (IncompleteLayerDrain missing), taken\<lparr>bb_layer_outputs := Some outs\<rparr>)
                 else if list_all (\<lambda>s. s \<noteq> None) outs
                 then Some (Inr (map the outs), taken)
                 else None))"

section \<open>Slots that are written once\<close>

definition commit_all :: "('a \<Rightarrow> 'b \<Rightarrow> 'r \<times> 'b) \<Rightarrow> 'a list \<Rightarrow> 'b \<Rightarrow> 'b" where
  "commit_all commit xs b = fold (\<lambda>x b. snd (commit x b)) xs b"

locale write_once_slot =
  fixes get :: "'b \<Rightarrow> 'a option"
    and commit :: "'a \<Rightarrow> 'b \<Rightarrow> ('e + unit) \<times> 'b"
    and err :: 'e
  assumes commit_empty: "get b = None \<Longrightarrow> fst (commit x b) = Inr () \<and> get (snd (commit x b)) = Some x"
    and commit_full: "get b \<noteq> None \<Longrightarrow> commit x b = (Inl err, b)"
begin

lemma commit_ok_iff: "fst (commit x b) = Inr () \<longleftrightarrow> get b = None"
  using commit_empty commit_full by (cases "get b") auto

lemma first_writer_wins:
  "get (commit_all commit xs b) =
     (case get b of Some v \<Rightarrow> Some v | None \<Rightarrow> (case xs of [] \<Rightarrow> None | x # _ \<Rightarrow> Some x))"
proof (induction xs arbitrary: b)
  case (Cons x xs)
  have "commit_all commit (x # xs) b = commit_all commit xs (snd (commit x b))" by (simp add: commit_all_def)
  then show ?case
    using Cons.IH [of "snd (commit x b)"] commit_empty [of b x] commit_full [of b x]
    by (cases "get b") auto
qed (simp add: commit_all_def split: option.split)

lemma full_is_stable: "get b \<noteq> None \<Longrightarrow> commit_all commit xs b = b"
  by (induction xs) (auto simp: commit_all_def commit_full)

end

lemmas commit_defs =
  commit_prepass_def commit_surface_classification_def commit_layer_plan_def commit_region_map_def
  commit_slice_ir_def commit_support_geometry_def commit_support_analysis_def
  commit_layer_selection_index_def

interpretation surface_slot: write_once_slot bb_surface_classification commit_surface_classification
    "DuplicatePrepassCommit SlotSurfaceClassification"
  by unfold_locales (auto simp: commit_defs)

interpretation layer_plan_slot: write_once_slot bb_layer_plan commit_layer_plan "DuplicatePrepassCommit SlotLayerPlan"
  by unfold_locales (auto simp: commit_defs)

interpretation region_map_slot: write_once_slot bb_region_map commit_region_map "DuplicatePrepassCommit SlotRegionMap"
  by unfold_locales (auto simp: commit_defs)

interpretation slice_ir_slot: write_once_slot bb_slice_ir commit_slice_ir "DuplicatePrepassCommit SlotSliceIR"
  by unfold_locales (auto simp: commit_defs)

interpretation support_geometry_slot: write_once_slot bb_support_geometry commit_support_geometry
    "DuplicatePrepassCommit SlotSupportGeometry"
  by unfold_locales (auto simp: commit_defs)

interpretation support_analysis_slot: write_once_slot bb_support_analysis commit_support_analysis
    "DuplicatePrepassCommit SlotSupportAnalysis"
  by unfold_locales (auto simp: commit_defs)

interpretation selection_index_slot: write_once_slot bb_layer_selection_index commit_layer_selection_index
    LayerSelectionIndexCommitError
  by unfold_locales (auto simp: commit_defs)

section \<open>Helpers\<close>

lemma first_duplicate_None: "first_duplicate seen xs = None \<longleftrightarrow> distinct xs \<and> set seen \<inter> set xs = {}"
  by (induction seen xs rule: first_duplicate.induct) auto

lemma first_duplicate_Some: "first_duplicate seen xs = Some x \<Longrightarrow> x \<in> set xs"
  by (induction seen xs rule: first_duplicate.induct) (auto split: if_splits)

lemma raft_key_inj: "raft_key a = raft_key b \<Longrightarrow> a = b"
  by (simp add: raft_key_def)

lemma raft_plan_min_commute: "raft_plan_min a b = raft_plan_min b a"
  using raft_key_inj [of a b] by (auto simp: raft_plan_min_def)

lemma merge_raft_commute: "merge_raft a b = merge_raft b a"
  by (auto simp: merge_raft_def raft_plan_min_commute split: option.split)

definition commit_layers :: "(nat \<times> 'x) list \<Rightarrow> 'x blackboard \<Rightarrow> 'x blackboard" where
  "commit_layers evs b = fold (\<lambda>(i, ir) b. snd (commit_layer_output i ir b)) evs b"

lemma commit_layer_output_fresh:
  assumes "bb_layer_outputs b = Some outs" and "i < length outs" and "outs ! i = None"
  shows "commit_layer_output i ir b = (Inr (), b\<lparr>bb_layer_outputs := Some (outs[i := Some ir])\<rparr>)"
  using assms by (simp add: commit_layer_output_def)

lemma commit_layers_outputs:
  assumes "bb_layer_outputs b = Some outs" and "distinct (map fst evs)"
    and "\<forall>e \<in> set evs. fst e < length outs \<and> outs ! fst e = None"
  shows "commit_layers evs b =
    b\<lparr>bb_layer_outputs := Some (map (\<lambda>i. case map_of evs i of Some x \<Rightarrow> Some x | None \<Rightarrow> outs ! i) [0 ..< length outs])\<rparr>"
  using assms
proof (induction evs arbitrary: b outs)
  case Nil
  then show ?case by (simp add: commit_layers_def map_nth)
next
  case (Cons e evs)
  obtain i ir where e: "e = (i, ir)" by (cases e)
  let ?outs = "outs[i := Some ir]"
  have step: "snd (commit_layer_output i ir b) = b\<lparr>bb_layer_outputs := Some ?outs\<rparr>"
    using Cons.prems by (subst commit_layer_output_fresh [of b outs]) (simp_all add: e)
  have rest: "\<forall>e \<in> set evs. fst e < length ?outs \<and> ?outs ! fst e = None"
    using Cons.prems(2,3) by (force simp: e nth_list_update)
  have "commit_layers (e # evs) b = commit_layers evs (b\<lparr>bb_layer_outputs := Some ?outs\<rparr>)"
    by (simp add: commit_layers_def e step)
  also have "\<dots> = b\<lparr>bb_layer_outputs := Some (map (\<lambda>i. case map_of evs i of Some x \<Rightarrow> Some x | None \<Rightarrow> ?outs ! i) [0 ..< length ?outs])\<rparr>"
    using Cons.IH [of "b\<lparr>bb_layer_outputs := Some ?outs\<rparr>" ?outs] rest Cons.prems(2) by simp
  also have "map (\<lambda>i. case map_of evs i of Some x \<Rightarrow> Some x | None \<Rightarrow> ?outs ! i) [0 ..< length ?outs] =
      map (\<lambda>i. case map_of (e # evs) i of Some x \<Rightarrow> Some x | None \<Rightarrow> outs ! i) [0 ..< length outs]"
  proof (intro map_cong)
    fix j assume j: "j \<in> set [0 ..< length outs]"
    have "map_of evs i = None" using Cons.prems(2) by (simp add: e map_of_eq_None_iff)
    then show "(case map_of evs j of Some x \<Rightarrow> Some x | None \<Rightarrow> ?outs ! j) =
        (case map_of (e # evs) j of Some x \<Rightarrow> Some x | None \<Rightarrow> outs ! j)"
      using j by (auto simp: e nth_list_update split: option.split)
  qed simp
  finally show ?case .
qed

lemma all_indices: "(\<forall>i < length outs. outs ! i \<noteq> None) \<longleftrightarrow> list_all (\<lambda>s. s \<noteq> None) outs"
  by (simp add: list_all_length)

lemma drain_cases:
  "drain_layer_outputs b =
     (case bb_layer_outputs b of
        None \<Rightarrow> Some (Inl LayerOutputsAlreadyDrained, b)
      | Some outs \<Rightarrow>
          if list_all (\<lambda>s. s \<noteq> None) outs then Some (Inr (map the outs), b\<lparr>bb_layer_outputs := None\<rparr>)
          else Some (Inl (IncompleteLayerDrain (filter (\<lambda>i. outs ! i = None) [0 ..< length outs])), b))"
proof (cases "bb_layer_outputs b")
  case None
  then have "b\<lparr>bb_layer_outputs := None\<rparr> = b" by simp
  then show ?thesis using None by (simp add: drain_layer_outputs_def)
next
  case (Some outs)
  then have "b\<lparr>bb_layer_outputs := Some outs\<rparr> = b" by simp
  moreover have "filter (\<lambda>i. outs ! i = None) [0 ..< length outs] = [] \<longleftrightarrow> list_all (\<lambda>s. s \<noteq> None) outs"
    by (auto simp: filter_empty_conv list_all_length)
  ultimately show ?thesis using Some by (simp add: drain_layer_outputs_def Let_def)
qed

section \<open>Properties\<close>

text \<open>prepass results are written once.  Whatever sequence of commits is attempted on a slot,
  the slot holds the value it had, or else the first value committed; later commits change
  nothing.\<close>

theorem prepass_first_writer_wins:
  "bb_surface_classification (commit_all commit_surface_classification xs b) =
     (case bb_surface_classification b of Some v \<Rightarrow> Some v | None \<Rightarrow> (case xs of [] \<Rightarrow> None | x # _ \<Rightarrow> Some x)) \<and>
   bb_layer_plan (commit_all commit_layer_plan xs b) =
     (case bb_layer_plan b of Some v \<Rightarrow> Some v | None \<Rightarrow> (case xs of [] \<Rightarrow> None | x # _ \<Rightarrow> Some x)) \<and>
   bb_region_map (commit_all commit_region_map xs b) =
     (case bb_region_map b of Some v \<Rightarrow> Some v | None \<Rightarrow> (case xs of [] \<Rightarrow> None | x # _ \<Rightarrow> Some x)) \<and>
   bb_slice_ir (commit_all commit_slice_ir xs b) =
     (case bb_slice_ir b of Some v \<Rightarrow> Some v | None \<Rightarrow> (case xs of [] \<Rightarrow> None | x # _ \<Rightarrow> Some x)) \<and>
   bb_support_geometry (commit_all commit_support_geometry xs b) =
     (case bb_support_geometry b of Some v \<Rightarrow> Some v | None \<Rightarrow> (case xs of [] \<Rightarrow> None | x # _ \<Rightarrow> Some x)) \<and>
   bb_support_analysis (commit_all commit_support_analysis xs b) =
     (case bb_support_analysis b of Some v \<Rightarrow> Some v | None \<Rightarrow> (case xs of [] \<Rightarrow> None | x # _ \<Rightarrow> Some x)) \<and>
   bb_layer_selection_index (commit_all commit_layer_selection_index xs b) =
     (case bb_layer_selection_index b of Some v \<Rightarrow> Some v | None \<Rightarrow> (case xs of [] \<Rightarrow> None | x # _ \<Rightarrow> Some x))"
  by (intro conjI surface_slot.first_writer_wins layer_plan_slot.first_writer_wins region_map_slot.first_writer_wins
      slice_ir_slot.first_writer_wins support_geometry_slot.first_writer_wins support_analysis_slot.first_writer_wins
      selection_index_slot.first_writer_wins)

text \<open>C4: the layer outputs do not depend on the order in which workers finish.  When every layer
  is committed exactly once, in any order, draining returns the outputs in layer order.\<close>

theorem layer_outputs_any_order:
  assumes "distinct (map fst evs)" and "set (map fst evs) = {..< n}"
  shows "drain_layer_outputs (commit_layers evs (blackboard_new mesh n)) =
    Some (Inr (map (\<lambda>i. the (map_of evs i)) [0 ..< n]), (blackboard_new mesh n)\<lparr>bb_layer_outputs := None\<rparr>)"
proof -
  let ?b = "blackboard_new mesh n"
  let ?outs = "map (\<lambda>i. case map_of evs i of Some x \<Rightarrow> Some x | None \<Rightarrow> replicate n None ! i) [0 ..< n]"
  have in_range: "fst e < n" if "e \<in> set evs" for e
    using assms(2) that by (metis image_eqI lessThan_iff set_map)
  then have fresh: "\<forall>e \<in> set evs. fst e < length (replicate n None) \<and> replicate n None ! fst e = None"
    by simp
  have committed: "commit_layers evs ?b = ?b\<lparr>bb_layer_outputs := Some ?outs\<rparr>"
    using commit_layers_outputs [OF _ assms(1) fresh, of ?b] by (simp add: blackboard_new_def)
  have some: "\<exists>x. map_of evs i = Some x" if "i < n" for i
    using that assms(2) by (metis lessThan_iff map_of_eq_None_iff not_None_eq set_map)
  have "list_all (\<lambda>s. s \<noteq> None) ?outs" "map the ?outs = map (\<lambda>i. the (map_of evs i)) [0 ..< n]"
    using some by (auto simp: list_all_iff split: option.split)
  then show ?thesis by (simp add: committed drain_cases)
qed

theorem layer_outputs_any_order_witness:
  "drain_layer_outputs (commit_layers [(2, ''c''), (0, ''a''), (1, ''b'')] (blackboard_new ''mesh'' 3)) =
     Some (Inr [''a'', ''b'', ''c''], (blackboard_new ''mesh'' 3)\<lparr>bb_layer_outputs := None\<rparr>)"
proof -
  have "set (map fst [(2::nat, ''c''), (0, ''a''), (1, ''b'')]) = {..< 3}" by auto
  then show ?thesis
    using layer_outputs_any_order [of "[(2, ''c''), (0, ''a''), (1, ''b'')]" 3 "''mesh''"]
    by (simp add: upt_conv_Cons)
qed

text \<open>draining never panics and is all or nothing.  A failed drain leaves the blackboard as it
  was; a successful one returns exactly the committed outputs, and afterwards every drain and every
  commit is refused as drained.\<close>

theorem drain_all_or_nothing:
  "\<exists>r b'. drain_layer_outputs b = Some (r, b') \<and>
     (case r of
        Inl e \<Rightarrow> b' = b \<and> (bb_layer_outputs b = None \<or> (\<exists>outs. bb_layer_outputs b = Some outs \<and> None \<in> set outs))
      | Inr irs \<Rightarrow> bb_layer_outputs b = Some (map Some irs) \<and> b' = b\<lparr>bb_layer_outputs := None\<rparr> \<and>
          drain_layer_outputs b' = Some (Inl LayerOutputsAlreadyDrained, b') \<and>
          (\<forall>i ir. commit_layer_output i ir b' = (Inl LayerOutputsAlreadyDrained, b')))"
proof (cases "bb_layer_outputs b")
  case None
  then show ?thesis by (simp add: drain_cases)
next
  case (Some outs)
  show ?thesis
  proof (cases "list_all (\<lambda>s. s \<noteq> None) outs")
    case True
    then have "map Some (map the outs) = outs" by (induction outs) auto
    then show ?thesis using Some True by (simp add: drain_cases commit_layer_output_def)
  next
    case False
    then have "None \<in> set outs" by (auto simp: list_all_iff)
    then show ?thesis using Some False by (simp add: drain_cases)
  qed
qed

section \<open>Merging support plans\<close>

definition support_identities_distinct :: "'x blackboard \<Rightarrow> bool" where
  "support_identities_distinct b =
     (case bb_support_plan b of None \<Rightarrow> True
      | Some p \<Rightarrow> distinct (map support_entry_identity (spp_entries p)))"

lemma duplicate_region_identity_None:
  "duplicate_region_identity p = None \<longleftrightarrow> distinct (map support_entry_identity (spp_entries p))"
  by (simp add: duplicate_region_identity_def first_duplicate_None)

lemma commit_support_plan_keeps_distinct:
  "support_identities_distinct b \<Longrightarrow> support_identities_distinct (snd (commit_support_plan ir b))"
  by (auto simp: support_identities_distinct_def commit_support_plan_def Let_def duplicate_region_identity_None
      split: option.splits)

lemma commit_all_support_keeps_distinct:
  "support_identities_distinct b \<Longrightarrow> support_identities_distinct (commit_all commit_support_plan ps b)"
  by (induction ps arbitrary: b) (simp_all add: commit_all_def commit_support_plan_keeps_distinct)

lemma raft_key_less_eq: "raft_plan_min a b = a \<longleftrightarrow> raft_key a \<le> raft_key b"
  using raft_key_inj [of a b] by (auto simp: raft_plan_min_def)

lemma raft_plan_min_assoc: "raft_plan_min (raft_plan_min a b) c = raft_plan_min a (raft_plan_min b c)"
proof -
  have "(if k (if k a \<le> k b then a else b) \<le> k c then (if k a \<le> k b then a else b) else c) =
      (if k a \<le> k (if k b \<le> k c then b else c) then a else (if k b \<le> k c then b else c))"
    for k :: "raft_plan \<Rightarrow> 'k::linorder"
    by (auto split: if_splits)
  from this [of raft_key] show ?thesis unfolding raft_plan_min_def .
qed

lemma merge_raft_assoc: "merge_raft (merge_raft a b) c = merge_raft a (merge_raft b c)"
  by (auto simp: merge_raft_def raft_plan_min_assoc split: option.split)

lemma merge_raft_fold_perm:
  assumes "mset ps = mset qs"
  shows "fold (\<lambda>p r. merge_raft r (spp_raft_plan p)) ps r = fold (\<lambda>p r. merge_raft r (spp_raft_plan p)) qs r"
proof (rule fold_multiset_equiv [THEN fun_cong])
  show "(\<lambda>r. merge_raft r (spp_raft_plan x)) \<circ> (\<lambda>r. merge_raft r (spp_raft_plan y)) =
      (\<lambda>r. merge_raft r (spp_raft_plan y)) \<circ> (\<lambda>r. merge_raft r (spp_raft_plan x))" for x y
    by (rule ext) (simp add: merge_raft_assoc merge_raft_commute [of "spp_raft_plan x"])
qed (use assms in simp)

text \<open>What a series of compatible support plans leaves behind.\<close>

lemma commit_all_support_plans:
  assumes "bb_support_plan b = Some cur"
    and "\<forall>p \<in> set ps. spp_schema_version p = spp_schema_version cur"
    and "distinct (map support_entry_identity (spp_entries cur @ concat (map spp_entries ps)))"
  shows "bb_support_plan (commit_all commit_support_plan ps b) =
    Some (cur\<lparr>spp_entries := spp_entries cur @ concat (map spp_entries ps),
              spp_raft_plan := fold (\<lambda>p r. merge_raft r (spp_raft_plan p)) ps (spp_raft_plan cur)\<rparr>)"
  using assms
proof (induction ps arbitrary: b cur)
  case (Cons p ps)
  let ?new = "cur\<lparr>spp_entries := spp_entries cur @ spp_entries p, spp_raft_plan := merge_raft (spp_raft_plan cur) (spp_raft_plan p)\<rparr>"
  let ?ids = "\<lambda>es. map support_entry_identity es"
  have ids: "distinct (?ids (spp_entries cur @ spp_entries p) @ ?ids (concat (map spp_entries ps)))"
    using Cons.prems(3) by (simp only: map_append append_assoc list.map concat.simps)
  then have "distinct (?ids (spp_entries cur @ spp_entries p))" by (rule distinct_append [THEN iffD1, THEN conjunct1])
  then have "duplicate_region_identity (cur\<lparr>spp_entries := spp_entries cur @ spp_entries p\<rparr>) = None"
    by (simp add: duplicate_region_identity_None del: map_append distinct_append)
  moreover have "spp_schema_version cur = spp_schema_version p" using Cons.prems(2) by (metis list.set_intros(1))
  ultimately have step: "snd (commit_support_plan p b) = b\<lparr>bb_support_plan := Some ?new\<rparr>"
    using Cons.prems(1) by (simp add: commit_support_plan_def)
  have "commit_all commit_support_plan (p # ps) b = commit_all commit_support_plan ps (b\<lparr>bb_support_plan := Some ?new\<rparr>)"
    by (simp add: commit_all_def step)
  moreover have same: "\<forall>q \<in> set ps. spp_schema_version q = spp_schema_version ?new"
    using Cons.prems(2) by simp
  ultimately show ?case
    using Cons.IH [of "b\<lparr>bb_support_plan := Some ?new\<rparr>" ?new, OF _ same] ids
    by (simp del: distinct_append)
qed (simp add: commit_all_def)

lemma merge_raft_None [simp]: "merge_raft None r = r"
  by (simp add: merge_raft_def split: option.split)

lemma commit_all_support_plans_empty:
  assumes "bb_support_plan b = None" and "ps \<noteq> []" and "\<forall>p \<in> set ps. spp_schema_version p = sv"
    and "distinct (map support_entry_identity (concat (map spp_entries ps)))"
  shows "\<exists>p. bb_support_plan (commit_all commit_support_plan ps b) = Some p \<and> spp_schema_version p = sv \<and>
    spp_entries p = concat (map spp_entries ps) \<and>
    spp_raft_plan p = fold (\<lambda>p r. merge_raft r (spp_raft_plan p)) ps None"
proof -
  obtain q qs where ps: "ps = q # qs" using assms(2) by (cases ps) auto
  have "duplicate_region_identity q = None"
    using assms(4) by (simp add: ps duplicate_region_identity_None distinct_append)
  then have "snd (commit_support_plan q b) = b\<lparr>bb_support_plan := Some q\<rparr>"
    using assms(1) by (simp add: commit_support_plan_def)
  then have "commit_all commit_support_plan ps b = commit_all commit_support_plan qs (b\<lparr>bb_support_plan := Some q\<rparr>)"
    by (simp add: commit_all_def ps)
  then show ?thesis
    using commit_all_support_plans [of "b\<lparr>bb_support_plan := Some q\<rparr>" q qs] assms(3,4) by (simp add: ps)
qed

text \<open>whatever support plans are committed, the stored plan never has two entries for the same
  layer, object, region and variant chain.\<close>

theorem support_plan_identities_stay_distinct:
  "support_identities_distinct (commit_all commit_support_plan ps (blackboard_new mesh n))"
  by (rule commit_all_support_keeps_distinct) (simp add: support_identities_distinct_def blackboard_new_def)

text \<open>support plans of several modules merge independently of their order.  When the plans
  carry one schema version and no identity occurs twice, committing them in any order keeps every
  entry and chooses the same raft plan.\<close>

theorem support_plans_merge_any_order:
  assumes "ps \<noteq> []" and "\<forall>p \<in> set ps. spp_schema_version p = sv"
    and "distinct (map support_entry_identity (concat (map spp_entries ps)))"
    and "mset qs = mset ps"
  shows "\<exists>p q. bb_support_plan (commit_all commit_support_plan ps (blackboard_new mesh n)) = Some p \<and>
    bb_support_plan (commit_all commit_support_plan qs (blackboard_new mesh n)) = Some q \<and>
    spp_entries p = concat (map spp_entries ps) \<and> mset (spp_entries q) = mset (spp_entries p) \<and>
    spp_raft_plan q = spp_raft_plan p \<and> spp_schema_version q = spp_schema_version p"
proof -
  have entries: "mset (concat (map spp_entries qs)) = mset (concat (map spp_entries ps))"
    using assms(4) by (simp add: mset_concat mset_map flip: sum_mset_sum_list)
  have ids: "distinct (map support_entry_identity (concat (map spp_entries qs)))"
    using assms(3) entries by (metis mset_eq_imp_distinct_iff mset_map)
  have "set qs = set ps" using assms(4) by (rule mset_eq_setD)
  then have "qs \<noteq> []" "\<forall>p \<in> set qs. spp_schema_version p = sv" using assms(1,2) by auto
  from commit_all_support_plans_empty [OF _ this ids, of "blackboard_new mesh n"]
    commit_all_support_plans_empty [OF _ assms(1-3), of "blackboard_new mesh n"]
  show ?thesis using entries merge_raft_fold_perm [OF assms(4), of None] by (auto simp: blackboard_new_def)
qed

definition sample_support_plan :: "string \<Rightarrow> u32 \<Rightarrow> string support_plan" where
  "sample_support_plan object layers =
     \<lparr>spp_schema_version = \<lparr>major = 1, minor = 0, patch = 0\<rparr>,
      spp_entries = [\<lparr>spe_global_layer_index = 0, spe_object_id = object, spe_region_id = 7, spe_variant_chain = [],
        spe_payload = object\<rparr>],
      spp_raft_plan = Some \<lparr>rp_raft_layers = layers, rp_first_layer_density = 0, rp_base_raft_layers = 1,
        rp_interface_raft_layers = 1\<rparr>\<rparr>"

theorem support_plans_merge_any_order_witness:
  "\<exists>p q. bb_support_plan (commit_all commit_support_plan [sample_support_plan ''a'' 3, sample_support_plan ''b'' 2]
       (blackboard_new ''mesh'' 1)) = Some p \<and>
    bb_support_plan (commit_all commit_support_plan [sample_support_plan ''b'' 2, sample_support_plan ''a'' 3]
       (blackboard_new ''mesh'' 1)) = Some q \<and>
    map spe_object_id (spp_entries p) = [''a'', ''b''] \<and> mset (spp_entries q) = mset (spp_entries p) \<and>
    spp_raft_plan q = spp_raft_plan p"
  using support_plans_merge_any_order [of "[sample_support_plan ''a'' 3, sample_support_plan ''b'' 2]"
      "\<lparr>major = 1, minor = 0, patch = 0\<rparr>" "[sample_support_plan ''b'' 2, sample_support_plan ''a'' 3]" "''mesh''" 1]
  by (auto simp: sample_support_plan_def support_entry_identity_def)

end
