(* ===== verification/LayerArena.thy ===== *)
theory LayerArena
  imports Blackboard
begin

text \<open>
  The working state of one layer: \<^verbatim>\<open>LayerArena\<close> in
  \<^verbatim>\<open>crates/slicer-runtime/src/blackboard.rs\<close>.  The arena hands intermediate results from stage
  to stage of one layer.  Region preparation, which is geometry, is the pair of arguments
  \<open>prep\<close> and \<open>prep_src\<close>.  The commands of a layer worker are the values of \<open>arena_op\<close> and one run
  of the worker is a path of the step relation \<open>arena_step\<close>; the invariant says that prepared
  regions always belong to the staged slice.
\<close>

section \<open>The arena\<close>

datatype layer_arena_slot = ArenaSlice | ArenaPerimeter | ArenaInfill | ArenaSupport

datatype layer_arena_error = SlotAlreadyOccupied layer_arena_slot

record support_routing_diagnostic =
  srd_family_id :: string
  srd_body_id :: string
  srd_demand_id :: string
  srd_reason :: string

record ('x, 'r) layer_arena =
  la_slice :: "'x option"
  la_prepared_regions :: "'r option"
  la_prepared_perimeter_source_regions :: "'r option"
  la_perimeter :: "'x option"
  la_infill :: "'x option"
  la_support :: "'x option"
  la_support_routing_diagnostics :: "support_routing_diagnostic list"
  la_layer_collection :: "'x option"
  la_anchored_event_collections :: "'x list option"
  la_deferred_tool_changes :: "'x list"
  la_deferred_annotations :: "'x list"
  la_deferred_z_hops :: "'x list"
  la_deferred_retracts :: "'x list"
  la_deferred_travel_moves :: "'x list"

definition layer_arena_new :: "('x, 'r) layer_arena" where
  "layer_arena_new =
     \<lparr>la_slice = None, la_prepared_regions = None, la_prepared_perimeter_source_regions = None,
      la_perimeter = None, la_infill = None, la_support = None, la_support_routing_diagnostics = [],
      la_layer_collection = None, la_anchored_event_collections = None, la_deferred_tool_changes = [],
      la_deferred_annotations = [], la_deferred_z_hops = [], la_deferred_retracts = [],
      la_deferred_travel_moves = []\<rparr>"

definition set_arena_slot :: "'a option \<Rightarrow> ('a option \<Rightarrow> 's) \<Rightarrow> 's \<Rightarrow> 'a \<Rightarrow> layer_arena_slot
    \<Rightarrow> (layer_arena_error + unit) \<times> 's" where
  "set_arena_slot slot set_slot s ir name =
     (if slot \<noteq> None then (Inl (SlotAlreadyOccupied name), s) else (Inr (), set_slot (Some ir)))"

definition set_slice :: "'x \<Rightarrow> ('x, 'r) layer_arena \<Rightarrow> (layer_arena_error + unit) \<times> ('x, 'r) layer_arena" where
  "set_slice ir a =
     (case set_arena_slot (la_slice a) (\<lambda>v. a\<lparr>la_slice := v\<rparr>) a ir ArenaSlice of
        (Inl e, a') \<Rightarrow> (Inl e, a')
      | (Inr _, a') \<Rightarrow>
          (Inr (), a'\<lparr>la_prepared_regions := None, la_prepared_perimeter_source_regions := None\<rparr>))"

definition take_slice :: "('x, 'r) layer_arena \<Rightarrow> 'x option \<times> ('x, 'r) layer_arena" where
  "take_slice a =
     (la_slice a, a\<lparr>la_prepared_regions := None, la_prepared_perimeter_source_regions := None, la_slice := None\<rparr>)"

definition ensure_prepared_regions ::
  "('x \<Rightarrow> 'c option \<Rightarrow> 'r) \<Rightarrow> 'c option \<Rightarrow> ('x, 'r) layer_arena \<Rightarrow> 'r option \<times> ('x, 'r) layer_arena" where
  "ensure_prepared_regions prep classification a =
     (if la_prepared_regions a = None
      then (case la_slice a of
              None \<Rightarrow> (None, a)
            | Some s \<Rightarrow> (let a' = a\<lparr>la_prepared_regions := Some (prep s classification)\<rparr>
                         in (la_prepared_regions a', a')))
      else (la_prepared_regions a, a))"

definition ensure_prepared_perimeter_source_regions ::
  "('x \<Rightarrow> 'c option \<Rightarrow> 'r) \<Rightarrow> 'c option \<Rightarrow> ('x, 'r) layer_arena \<Rightarrow> 'r option \<times> ('x, 'r) layer_arena" where
  "ensure_prepared_perimeter_source_regions prep_src classification a =
     (if la_prepared_perimeter_source_regions a = None
      then (case la_slice a of
              None \<Rightarrow> (None, a)
            | Some s \<Rightarrow> (let a' = a\<lparr>la_prepared_perimeter_source_regions := Some (prep_src s classification)\<rparr>
                         in (la_prepared_perimeter_source_regions a', a')))
      else (la_prepared_perimeter_source_regions a, a))"

definition set_perimeter :: "'x \<Rightarrow> ('x, 'r) layer_arena \<Rightarrow> (layer_arena_error + unit) \<times> ('x, 'r) layer_arena" where
  "set_perimeter ir a = set_arena_slot (la_perimeter a) (\<lambda>v. a\<lparr>la_perimeter := v\<rparr>) a ir ArenaPerimeter"

definition take_perimeter :: "('x, 'r) layer_arena \<Rightarrow> 'x option \<times> ('x, 'r) layer_arena" where
  "take_perimeter a = (la_perimeter a, a\<lparr>la_perimeter := None\<rparr>)"

definition set_infill :: "'x \<Rightarrow> ('x, 'r) layer_arena \<Rightarrow> (layer_arena_error + unit) \<times> ('x, 'r) layer_arena" where
  "set_infill ir a = set_arena_slot (la_infill a) (\<lambda>v. a\<lparr>la_infill := v\<rparr>) a ir ArenaInfill"

definition take_infill :: "('x, 'r) layer_arena \<Rightarrow> 'x option \<times> ('x, 'r) layer_arena" where
  "take_infill a = (la_infill a, a\<lparr>la_infill := None\<rparr>)"

definition set_support :: "'x \<Rightarrow> ('x, 'r) layer_arena \<Rightarrow> (layer_arena_error + unit) \<times> ('x, 'r) layer_arena" where
  "set_support ir a = set_arena_slot (la_support a) (\<lambda>v. a\<lparr>la_support := v\<rparr>) a ir ArenaSupport"

definition take_support :: "('x, 'r) layer_arena \<Rightarrow> 'x option \<times> ('x, 'r) layer_arena" where
  "take_support a = (la_support a, a\<lparr>la_support := None\<rparr>)"

definition push_support_routing_diagnostic ::
  "support_routing_diagnostic \<Rightarrow> ('x, 'r) layer_arena \<Rightarrow> ('x, 'r) layer_arena" where
  "push_support_routing_diagnostic d a =
     a\<lparr>la_support_routing_diagnostics := la_support_routing_diagnostics a @ [d]\<rparr>"

definition set_layer_collection :: "'x \<Rightarrow> ('x, 'r) layer_arena \<Rightarrow> ('x, 'r) layer_arena" where
  "set_layer_collection ir a = a\<lparr>la_layer_collection := Some ir\<rparr>"

definition take_layer_collection :: "('x, 'r) layer_arena \<Rightarrow> 'x option \<times> ('x, 'r) layer_arena" where
  "take_layer_collection a = (la_layer_collection a, a\<lparr>la_layer_collection := None\<rparr>)"

definition set_anchored_event_collections :: "'x list \<Rightarrow> ('x, 'r) layer_arena \<Rightarrow> ('x, 'r) layer_arena" where
  "set_anchored_event_collections cs a = a\<lparr>la_anchored_event_collections := Some cs\<rparr>"

definition take_anchored_event_collections :: "('x, 'r) layer_arena \<Rightarrow> 'x list option \<times> ('x, 'r) layer_arena" where
  "take_anchored_event_collections a =
     (la_anchored_event_collections a, a\<lparr>la_anchored_event_collections := None\<rparr>)"

section \<open>Deferred queues\<close>

definition push_deferred_tool_change :: "'x \<Rightarrow> ('x, 'r) layer_arena \<Rightarrow> ('x, 'r) layer_arena" where
  "push_deferred_tool_change x a = a\<lparr>la_deferred_tool_changes := la_deferred_tool_changes a @ [x]\<rparr>"

definition take_deferred_tool_changes :: "('x, 'r) layer_arena \<Rightarrow> 'x list \<times> ('x, 'r) layer_arena" where
  "take_deferred_tool_changes a = (la_deferred_tool_changes a, a\<lparr>la_deferred_tool_changes := []\<rparr>)"

definition push_deferred_annotation :: "'x \<Rightarrow> ('x, 'r) layer_arena \<Rightarrow> ('x, 'r) layer_arena" where
  "push_deferred_annotation x a = a\<lparr>la_deferred_annotations := la_deferred_annotations a @ [x]\<rparr>"

definition take_deferred_annotations :: "('x, 'r) layer_arena \<Rightarrow> 'x list \<times> ('x, 'r) layer_arena" where
  "take_deferred_annotations a = (la_deferred_annotations a, a\<lparr>la_deferred_annotations := []\<rparr>)"

definition push_deferred_z_hop :: "'x \<Rightarrow> ('x, 'r) layer_arena \<Rightarrow> ('x, 'r) layer_arena" where
  "push_deferred_z_hop x a = a\<lparr>la_deferred_z_hops := la_deferred_z_hops a @ [x]\<rparr>"

definition take_deferred_z_hops :: "('x, 'r) layer_arena \<Rightarrow> 'x list \<times> ('x, 'r) layer_arena" where
  "take_deferred_z_hops a = (la_deferred_z_hops a, a\<lparr>la_deferred_z_hops := []\<rparr>)"

definition push_deferred_retract :: "'x \<Rightarrow> ('x, 'r) layer_arena \<Rightarrow> ('x, 'r) layer_arena" where
  "push_deferred_retract x a = a\<lparr>la_deferred_retracts := la_deferred_retracts a @ [x]\<rparr>"

definition take_deferred_retracts :: "('x, 'r) layer_arena \<Rightarrow> 'x list \<times> ('x, 'r) layer_arena" where
  "take_deferred_retracts a = (la_deferred_retracts a, a\<lparr>la_deferred_retracts := []\<rparr>)"

definition push_deferred_travel_move :: "'x \<Rightarrow> ('x, 'r) layer_arena \<Rightarrow> ('x, 'r) layer_arena" where
  "push_deferred_travel_move x a = a\<lparr>la_deferred_travel_moves := la_deferred_travel_moves a @ [x]\<rparr>"

definition take_deferred_travel_moves :: "('x, 'r) layer_arena \<Rightarrow> 'x list \<times> ('x, 'r) layer_arena" where
  "take_deferred_travel_moves a = (la_deferred_travel_moves a, a\<lparr>la_deferred_travel_moves := []\<rparr>)"

definition arena_reset :: "('x, 'r) layer_arena \<Rightarrow> ('x, 'r) layer_arena" where
  "arena_reset a =
     a\<lparr>la_slice := None, la_prepared_regions := None, la_prepared_perimeter_source_regions := None,
       la_perimeter := None, la_infill := None, la_support := None, la_layer_collection := None,
       la_deferred_tool_changes := [], la_deferred_annotations := [], la_deferred_z_hops := [],
       la_deferred_retracts := [], la_deferred_travel_moves := []\<rparr>"

section \<open>Runs of a layer worker\<close>

datatype ('x, 'c) arena_op =
    OpSetSlice 'x
  | OpTakeSlice
  | OpEnsurePrepared "'c option"
  | OpEnsurePreparedSource "'c option"
  | OpSetPerimeter 'x
  | OpTakePerimeter
  | OpSetInfill 'x
  | OpTakeInfill
  | OpSetSupport 'x
  | OpTakeSupport
  | OpPushDiagnostic support_routing_diagnostic
  | OpSetLayerCollection 'x
  | OpTakeLayerCollection
  | OpSetAnchored "'x list"
  | OpTakeAnchored
  | OpPushToolChange 'x
  | OpTakeToolChanges
  | OpPushAnnotation 'x
  | OpTakeAnnotations
  | OpPushZHop 'x
  | OpTakeZHops
  | OpPushRetract 'x
  | OpTakeRetracts
  | OpPushTravelMove 'x
  | OpTakeTravelMoves
  | OpReset

fun arena_exec :: "('x \<Rightarrow> 'c option \<Rightarrow> 'r) \<Rightarrow> ('x \<Rightarrow> 'c option \<Rightarrow> 'r) \<Rightarrow> ('x, 'c) arena_op
    \<Rightarrow> ('x, 'r) layer_arena \<Rightarrow> ('x, 'r) layer_arena" where
  "arena_exec prep prep_src (OpSetSlice x) a = snd (set_slice x a)"
| "arena_exec prep prep_src OpTakeSlice a = snd (take_slice a)"
| "arena_exec prep prep_src (OpEnsurePrepared c) a = snd (ensure_prepared_regions prep c a)"
| "arena_exec prep prep_src (OpEnsurePreparedSource c) a = snd (ensure_prepared_perimeter_source_regions prep_src c a)"
| "arena_exec prep prep_src (OpSetPerimeter x) a = snd (set_perimeter x a)"
| "arena_exec prep prep_src OpTakePerimeter a = snd (take_perimeter a)"
| "arena_exec prep prep_src (OpSetInfill x) a = snd (set_infill x a)"
| "arena_exec prep prep_src OpTakeInfill a = snd (take_infill a)"
| "arena_exec prep prep_src (OpSetSupport x) a = snd (set_support x a)"
| "arena_exec prep prep_src OpTakeSupport a = snd (take_support a)"
| "arena_exec prep prep_src (OpPushDiagnostic d) a = push_support_routing_diagnostic d a"
| "arena_exec prep prep_src (OpSetLayerCollection x) a = set_layer_collection x a"
| "arena_exec prep prep_src OpTakeLayerCollection a = snd (take_layer_collection a)"
| "arena_exec prep prep_src (OpSetAnchored cs) a = set_anchored_event_collections cs a"
| "arena_exec prep prep_src OpTakeAnchored a = snd (take_anchored_event_collections a)"
| "arena_exec prep prep_src (OpPushToolChange x) a = push_deferred_tool_change x a"
| "arena_exec prep prep_src OpTakeToolChanges a = snd (take_deferred_tool_changes a)"
| "arena_exec prep prep_src (OpPushAnnotation x) a = push_deferred_annotation x a"
| "arena_exec prep prep_src OpTakeAnnotations a = snd (take_deferred_annotations a)"
| "arena_exec prep prep_src (OpPushZHop x) a = push_deferred_z_hop x a"
| "arena_exec prep prep_src OpTakeZHops a = snd (take_deferred_z_hops a)"
| "arena_exec prep prep_src (OpPushRetract x) a = push_deferred_retract x a"
| "arena_exec prep prep_src OpTakeRetracts a = snd (take_deferred_retracts a)"
| "arena_exec prep prep_src (OpPushTravelMove x) a = push_deferred_travel_move x a"
| "arena_exec prep prep_src OpTakeTravelMoves a = snd (take_deferred_travel_moves a)"
| "arena_exec prep prep_src OpReset a = arena_reset a"

inductive arena_reachable :: "('x \<Rightarrow> 'c option \<Rightarrow> 'r) \<Rightarrow> ('x \<Rightarrow> 'c option \<Rightarrow> 'r) \<Rightarrow> ('x, 'r) layer_arena \<Rightarrow> bool"
  for prep prep_src where
  arena_start: "arena_reachable prep prep_src layer_arena_new"
| arena_step: "arena_reachable prep prep_src a \<Longrightarrow> arena_reachable prep prep_src (arena_exec prep prep_src op a)"

text \<open>Prepared regions come from the staged slice, under some surface classification.\<close>

definition prepared_from_slice :: "('x \<Rightarrow> 'c option \<Rightarrow> 'r) \<Rightarrow> 'x option \<Rightarrow> 'r option \<Rightarrow> bool" where
  "prepared_from_slice prep staged prepared =
     (case prepared of None \<Rightarrow> True | Some r \<Rightarrow> (case staged of None \<Rightarrow> False | Some s \<Rightarrow> r \<in> range (prep s)))"

definition arena_coherent :: "('x \<Rightarrow> 'c option \<Rightarrow> 'r) \<Rightarrow> ('x \<Rightarrow> 'c option \<Rightarrow> 'r) \<Rightarrow> ('x, 'r) layer_arena \<Rightarrow> bool" where
  "arena_coherent prep prep_src a \<longleftrightarrow>
     prepared_from_slice prep (la_slice a) (la_prepared_regions a) \<and>
     prepared_from_slice prep_src (la_slice a) (la_prepared_perimeter_source_regions a)"

lemmas arena_take_defs =
  take_slice_def take_perimeter_def take_infill_def take_support_def take_layer_collection_def
  take_anchored_event_collections_def take_deferred_tool_changes_def take_deferred_annotations_def
  take_deferred_z_hops_def take_deferred_retracts_def take_deferred_travel_moves_def

lemmas arena_set_defs =
  set_arena_slot_def set_slice_def set_perimeter_def set_infill_def set_support_def
  push_support_routing_diagnostic_def set_layer_collection_def set_anchored_event_collections_def
  push_deferred_tool_change_def push_deferred_annotation_def push_deferred_z_hop_def
  push_deferred_retract_def push_deferred_travel_move_def arena_reset_def

lemmas arena_ensure_defs =
  ensure_prepared_regions_def ensure_prepared_perimeter_source_regions_def

lemma prepared_from_slice_None [simp]: "prepared_from_slice prep s None"
  by (simp add: prepared_from_slice_def)

lemma prepared_from_slice_prep [simp]: "prepared_from_slice prep (Some s) (Some (prep s c))"
  by (simp add: prepared_from_slice_def)

lemma arena_exec_keeps_coherent:
  "arena_coherent prep prep_src a \<Longrightarrow> arena_coherent prep prep_src (arena_exec prep prep_src op a)"
  unfolding arena_coherent_def
  by (cases op, cases "la_slice a") (auto simp add: arena_take_defs arena_set_defs arena_ensure_defs split: option.split)

lemma arena_reachable_coherent: "arena_reachable prep prep_src a \<Longrightarrow> arena_coherent prep prep_src a"
  by (induction rule: arena_reachable.induct)
    (simp_all add: arena_exec_keeps_coherent, simp add: arena_coherent_def prepared_from_slice_def layer_arena_new_def)

interpretation arena_slice_slot: write_once_slot la_slice set_slice "SlotAlreadyOccupied ArenaSlice"
  by unfold_locales (auto simp: arena_set_defs)

interpretation arena_perimeter_slot: write_once_slot la_perimeter set_perimeter "SlotAlreadyOccupied ArenaPerimeter"
  by unfold_locales (auto simp: arena_set_defs)

interpretation arena_infill_slot: write_once_slot la_infill set_infill "SlotAlreadyOccupied ArenaInfill"
  by unfold_locales (auto simp: arena_set_defs)

interpretation arena_support_slot: write_once_slot la_support set_support "SlotAlreadyOccupied ArenaSupport"
  by unfold_locales (auto simp: arena_set_defs)

section \<open>Queues that collect until taken\<close>

locale deferred_queue =
  fixes items :: "'s \<Rightarrow> 'a list"
    and push :: "'a \<Rightarrow> 's \<Rightarrow> 's"
    and take :: "'s \<Rightarrow> 'a list \<times> 's"
  assumes items_push: "items (push x s) = items s @ [x]"
    and take_result: "fst (take s) = items s"
    and take_clears: "items (snd (take s)) = []"
begin

lemma items_pushes: "items (fold push xs s) = items s @ xs"
  by (induction xs arbitrary: s) (simp_all add: items_push)

lemma take_after_pushes: "fst (take (fold push xs s)) = items s @ xs"
  by (simp add: take_result items_pushes)

lemma take_batches: "fst (take (fold push ys (snd (take (fold push xs s))))) = ys"
  by (simp add: take_after_pushes take_clears)

end

interpretation tool_change_queue: deferred_queue la_deferred_tool_changes push_deferred_tool_change
    take_deferred_tool_changes
  by unfold_locales (simp_all add: arena_set_defs arena_take_defs)

interpretation annotation_queue: deferred_queue la_deferred_annotations push_deferred_annotation
    take_deferred_annotations
  by unfold_locales (simp_all add: arena_set_defs arena_take_defs)

interpretation z_hop_queue: deferred_queue la_deferred_z_hops push_deferred_z_hop take_deferred_z_hops
  by unfold_locales (simp_all add: arena_set_defs arena_take_defs)

interpretation retract_queue: deferred_queue la_deferred_retracts push_deferred_retract take_deferred_retracts
  by unfold_locales (simp_all add: arena_set_defs arena_take_defs)

interpretation travel_queue: deferred_queue la_deferred_travel_moves push_deferred_travel_move
    take_deferred_travel_moves
  by unfold_locales (simp_all add: arena_set_defs arena_take_defs)

section \<open>Properties\<close>

lemma ensure_prepared_cases:
  "ensure_prepared_regions prep c a =
     (case (la_prepared_regions a, la_slice a) of
        (Some r, _) \<Rightarrow> (Some r, a)
      | (None, None) \<Rightarrow> (None, a)
      | (None, Some s) \<Rightarrow> (Some (prep s c), a\<lparr>la_prepared_regions := Some (prep s c)\<rparr>))"
  "ensure_prepared_perimeter_source_regions prep c a =
     (case (la_prepared_perimeter_source_regions a, la_slice a) of
        (Some r, _) \<Rightarrow> (Some r, a)
      | (None, None) \<Rightarrow> (None, a)
      | (None, Some s) \<Rightarrow> (Some (prep s c), a\<lparr>la_prepared_perimeter_source_regions := Some (prep s c)\<rparr>))"
  by (simp_all add: arena_ensure_defs split: option.split)

text \<open>C36: the prepared regions handed to a stage always belong to the slice that is staged.  In
  every state a layer worker can reach, asking for prepared regions gives nothing exactly when no
  slice is staged, and otherwise a preparation of the staged slice and never of an earlier one;
  likewise for the perimeter source regions.\<close>

theorem prepared_regions_belong_to_slice:
  assumes "arena_reachable prep prep_src a"
  shows "(case la_slice a of
      None \<Rightarrow> fst (ensure_prepared_regions prep c a) = None \<and>
        fst (ensure_prepared_perimeter_source_regions prep_src c a) = None
    | Some s \<Rightarrow> (\<exists>c1 c2. fst (ensure_prepared_regions prep c a) = Some (prep s c1) \<and>
        fst (ensure_prepared_perimeter_source_regions prep_src c a) = Some (prep_src s c2)))"
  using arena_reachable_coherent [OF assms]
  by (auto simp: arena_coherent_def prepared_from_slice_def ensure_prepared_cases split: option.splits)

theorem prepared_regions_belong_to_slice_witness:
  "fst (ensure_prepared_regions (\<lambda>s c. s @ ''!'') (None :: unit option)
      (snd (set_slice ''two'' (snd (take_slice (snd (ensure_prepared_regions (\<lambda>s c. s @ ''!'') (None :: unit option)
        (snd (set_slice ''one'' layer_arena_new))))))))) = Some ''two!''"
proof -
  let ?p = "\<lambda>s (c :: unit option). s @ ''!''"
  let ?x = "\<lambda>op. arena_exec ?p ?p (op :: (string, unit) arena_op)"
  let ?a = "?x (OpSetSlice ''two'') (?x OpTakeSlice (?x (OpEnsurePrepared None) (?x (OpSetSlice ''one'') layer_arena_new)))"
  have "arena_reachable ?p ?p ?a" by (intro arena_step arena_start)
  from prepared_regions_belong_to_slice [OF this, of None]
  show ?thesis by (simp add: arena_set_defs arena_take_defs arena_ensure_defs layer_arena_new_def)
qed

text \<open>A staged result is never overwritten.  Whatever sequence of results is offered to the
  slice, perimeter, infill or support slot, the slot keeps the one it had or else the first one
  offered; once the result is taken, the next one offered is accepted.\<close>

theorem arena_slots_never_overwritten:
  "la_slice (commit_all set_slice xs a) =
     (case la_slice a of Some v \<Rightarrow> Some v | None \<Rightarrow> (case xs of [] \<Rightarrow> None | x # _ \<Rightarrow> Some x)) \<and>
   la_perimeter (commit_all set_perimeter xs a) =
     (case la_perimeter a of Some v \<Rightarrow> Some v | None \<Rightarrow> (case xs of [] \<Rightarrow> None | x # _ \<Rightarrow> Some x)) \<and>
   la_infill (commit_all set_infill xs a) =
     (case la_infill a of Some v \<Rightarrow> Some v | None \<Rightarrow> (case xs of [] \<Rightarrow> None | x # _ \<Rightarrow> Some x)) \<and>
   la_support (commit_all set_support xs a) =
     (case la_support a of Some v \<Rightarrow> Some v | None \<Rightarrow> (case xs of [] \<Rightarrow> None | x # _ \<Rightarrow> Some x)) \<and>
   fst (set_slice x (snd (take_slice a))) = Inr () \<and> fst (set_perimeter x (snd (take_perimeter a))) = Inr () \<and>
   fst (set_infill x (snd (take_infill a))) = Inr () \<and> fst (set_support x (snd (take_support a))) = Inr ()"
  by (simp add: arena_slice_slot.first_writer_wins arena_perimeter_slot.first_writer_wins
      arena_infill_slot.first_writer_wins arena_support_slot.first_writer_wins
      arena_slice_slot.commit_ok_iff arena_perimeter_slot.commit_ok_iff
      arena_infill_slot.commit_ok_iff arena_support_slot.commit_ok_iff arena_take_defs)

text \<open>the deferred queues deliver every pushed item once, in order.  After pushing a batch on
  a queue, taking returns what was queued before followed by the batch, and a second batch pushed
  after that is taken alone.\<close>

theorem deferred_queues_deliver_once:
  "fst (take_deferred_tool_changes (fold push_deferred_tool_change xs a)) = la_deferred_tool_changes a @ xs \<and>
   fst (take_deferred_tool_changes (fold push_deferred_tool_change ys
     (snd (take_deferred_tool_changes (fold push_deferred_tool_change xs a))))) = ys \<and>
   fst (take_deferred_annotations (fold push_deferred_annotation xs a)) = la_deferred_annotations a @ xs \<and>
   fst (take_deferred_annotations (fold push_deferred_annotation ys
     (snd (take_deferred_annotations (fold push_deferred_annotation xs a))))) = ys \<and>
   fst (take_deferred_z_hops (fold push_deferred_z_hop xs a)) = la_deferred_z_hops a @ xs \<and>
   fst (take_deferred_z_hops (fold push_deferred_z_hop ys
     (snd (take_deferred_z_hops (fold push_deferred_z_hop xs a))))) = ys \<and>
   fst (take_deferred_retracts (fold push_deferred_retract xs a)) = la_deferred_retracts a @ xs \<and>
   fst (take_deferred_retracts (fold push_deferred_retract ys
     (snd (take_deferred_retracts (fold push_deferred_retract xs a))))) = ys \<and>
   fst (take_deferred_travel_moves (fold push_deferred_travel_move xs a)) = la_deferred_travel_moves a @ xs \<and>
   fst (take_deferred_travel_moves (fold push_deferred_travel_move ys
     (snd (take_deferred_travel_moves (fold push_deferred_travel_move xs a))))) = ys"
  by (intro conjI tool_change_queue.take_after_pushes tool_change_queue.take_batches
      annotation_queue.take_after_pushes annotation_queue.take_batches
      z_hop_queue.take_after_pushes z_hop_queue.take_batches
      retract_queue.take_after_pushes retract_queue.take_batches
      travel_queue.take_after_pushes travel_queue.take_batches)

text \<open>resetting an arena gives a fresh arena except for two fields: the anchored event
  collections and the support routing diagnostics of the layer survive the reset.\<close>

theorem arena_reset_leaves_two_fields:
  "arena_reset a = layer_arena_new\<lparr>la_anchored_event_collections := la_anchored_event_collections a,
     la_support_routing_diagnostics := la_support_routing_diagnostics a\<rparr> \<and>
   (\<exists>b :: (string, string) layer_arena. arena_reachable (\<lambda>s c. s) (\<lambda>s (c :: unit option). s) b \<and>
      arena_reset b \<noteq> layer_arena_new)"
proof
  let ?b = "arena_exec (\<lambda>s c. s) (\<lambda>s (c :: unit option). s) (OpSetAnchored [''e'']) layer_arena_new"
  have "arena_reachable (\<lambda>s c. s) (\<lambda>s (c :: unit option). s) ?b" by (intro arena_step arena_start)
  moreover have "la_anchored_event_collections (arena_reset ?b) = Some [''e'']"
    by (simp add: arena_set_defs layer_arena_new_def)
  then have "arena_reset ?b \<noteq> layer_arena_new" by (auto simp: layer_arena_new_def)
  ultimately show "\<exists>b :: (string, string) layer_arena.
      arena_reachable (\<lambda>s c. s) (\<lambda>s (c :: unit option). s) b \<and> arena_reset b \<noteq> layer_arena_new" by blast
qed (cases a, simp add: arena_reset_def layer_arena_new_def)

end
