(* ===== verification/InstancePool.thy ===== *)
theory InstancePool
  imports Prelude
begin

text \<open>
  The pool of WASM instances of one module: \<^verbatim>\<open>crates/slicer-wasm-host/src/pool.rs\<close>.
  Planning a pool is a function of the manifest; using it is concurrent.  Every acquire and release
  runs under the pool's mutex, so a step of the relation \<open>pool_step\<close> is one such critical section
  of one client: taking the first free slot, going to sleep on the condition variable because no
  slot is free, or releasing a slot and waking one sleeper.  The condition variable may also wake a
  sleeper for no reason.
\<close>

section \<open>Planning\<close>

datatype instance_pool_mode = PoolParallel | PoolSerialized

record wasm_artifact_metadata =
  uses_shared_memory :: bool

datatype instance_pool_error = SharedMemoryRejected module_id stage_id

record slot_availability_state =
  in_use :: "bool list"

record wasm_instance_pool =
  wp_mode :: instance_pool_mode
  wp_size :: nat
  wp_slots :: slot_availability_state

definition slots_new :: "nat \<Rightarrow> slot_availability_state" where
  "slots_new n = \<lparr>in_use = replicate n False\<rparr>"

definition pool_placeholder :: wasm_instance_pool where
  "pool_placeholder = \<lparr>wp_mode = PoolSerialized, wp_size = 1, wp_slots = slots_new 1\<rparr>"

definition build_wasm_instance_pool ::
  "module_id \<Rightarrow> stage_id \<Rightarrow> bool \<Rightarrow> nat \<Rightarrow> wasm_artifact_metadata \<Rightarrow> instance_pool_error + wasm_instance_pool" where
  "build_wasm_instance_pool module_id stage layer_parallel_safe host_parallelism artifact =
     (let is_finalization = (stage = ''PostPass::LayerFinalization'')
      in if layer_parallel_safe \<and> uses_shared_memory artifact then Inl (SharedMemoryRejected module_id stage)
         else let (mode, slot_count) =
                    (if \<not> is_finalization \<and> layer_parallel_safe then (PoolParallel, max host_parallelism 1)
                     else (PoolSerialized, 1))
              in Inr \<lparr>wp_mode = mode, wp_size = slot_count, wp_slots = slots_new slot_count\<rparr>)"

section \<open>Slots\<close>

definition take_first_available :: "slot_availability_state \<Rightarrow> (nat \<times> slot_availability_state) option" where
  "take_first_available s =
     (case find (\<lambda>i. \<not> in_use s ! i) [0 ..< length (in_use s)] of
        None \<Rightarrow> None
      | Some i \<Rightarrow> Some (i, s\<lparr>in_use := (in_use s)[i := True]\<rparr>))"

definition make_available :: "nat \<Rightarrow> slot_availability_state \<Rightarrow> slot_availability_state" where
  "make_available i s = (if i < length (in_use s) then s\<lparr>in_use := (in_use s)[i := False]\<rparr> else s)"

section \<open>Clients\<close>

text \<open>A client is outside the pool, asleep on the condition variable, woken and about to look
  again, or the owner of a lease for a slot.\<close>

datatype client_status = Outside | Asleep | Woken | Holding nat

record pool_state =
  ps_slots :: slot_availability_state
  ps_clients :: "client_status list"

definition pool_start :: "wasm_instance_pool \<Rightarrow> nat \<Rightarrow> pool_state" where
  "pool_start pool n = \<lparr>ps_slots = wp_slots pool, ps_clients = replicate n Outside\<rparr>"

definition wake :: "nat \<Rightarrow> client_status list \<Rightarrow> client_status list" where
  "wake w cs = cs[w := Woken]"

inductive pool_step :: "pool_state \<Rightarrow> pool_state \<Rightarrow> bool" where
  step_take: "c < length (ps_clients s) \<Longrightarrow> ps_clients s ! c \<in> {Outside, Woken} \<Longrightarrow>
     take_first_available (ps_slots s) = Some (i, slots') \<Longrightarrow>
     pool_step s \<lparr>ps_slots = slots', ps_clients = (ps_clients s)[c := Holding i]\<rparr>"
| step_sleep: "c < length (ps_clients s) \<Longrightarrow> ps_clients s ! c \<in> {Outside, Woken} \<Longrightarrow>
     take_first_available (ps_slots s) = None \<Longrightarrow>
     pool_step s (s\<lparr>ps_clients := (ps_clients s)[c := Asleep]\<rparr>)"
| step_release_quiet: "c < length (ps_clients s) \<Longrightarrow> ps_clients s ! c = Holding i \<Longrightarrow>
     Asleep \<notin> set (ps_clients s) \<Longrightarrow>
     pool_step s \<lparr>ps_slots = make_available i (ps_slots s), ps_clients = (ps_clients s)[c := Outside]\<rparr>"
| step_release_notify: "c < length (ps_clients s) \<Longrightarrow> ps_clients s ! c = Holding i \<Longrightarrow>
     w < length (ps_clients s) \<Longrightarrow> ps_clients s ! w = Asleep \<Longrightarrow>
     pool_step s \<lparr>ps_slots = make_available i (ps_slots s), ps_clients = wake w ((ps_clients s)[c := Outside])\<rparr>"
| step_spurious: "w < length (ps_clients s) \<Longrightarrow> ps_clients s ! w = Asleep \<Longrightarrow>
     pool_step s (s\<lparr>ps_clients := wake w (ps_clients s)\<rparr>)"

definition pool_reachable :: "wasm_instance_pool \<Rightarrow> nat \<Rightarrow> pool_state \<Rightarrow> bool" where
  "pool_reachable pool n s \<longleftrightarrow> pool_step\<^sup>*\<^sup>* (pool_start pool n) s"

section \<open>Counting\<close>

definition held_slots :: "client_status list \<Rightarrow> nat list" where
  "held_slots cs = concat (map (\<lambda>s. case s of Holding i \<Rightarrow> [i] | _ \<Rightarrow> []) cs)"

definition used_slots :: "bool list \<Rightarrow> nat set" where
  "used_slots u = {i. i < length u \<and> u ! i}"

definition free_slots :: "bool list \<Rightarrow> nat" where
  "free_slots u = length (filter Not u)"

definition clients_in :: "client_status \<Rightarrow> client_status list \<Rightarrow> nat" where
  "clients_in st cs = count_list cs st"

text \<open>The slots in use are exactly the held ones, each held once, and while somebody sleeps there
  are at least as many woken clients as free slots.\<close>

definition pool_inv :: "pool_state \<Rightarrow> bool" where
  "pool_inv s \<longleftrightarrow>
     mset (held_slots (ps_clients s)) = mset_set (used_slots (in_use (ps_slots s))) \<and>
     (Asleep \<in> set (ps_clients s) \<longrightarrow> free_slots (in_use (ps_slots s)) \<le> clients_in Woken (ps_clients s))"

lemma held_update:
  assumes "c < length cs"
  shows "mset (held_slots (cs[c := s])) + mset (case cs ! c of Holding i \<Rightarrow> [i] | _ \<Rightarrow> []) =
    mset (held_slots cs) + mset (case s of Holding i \<Rightarrow> [i] | _ \<Rightarrow> [])"
  using assms
proof (induction cs arbitrary: c)
  case (Cons x cs)
  then show ?case
    by (cases c) (auto simp: held_slots_def ac_simps)
qed simp

lemma clients_update:
  assumes "c < length cs"
  shows "clients_in st (cs[c := s]) + (if cs ! c = st then 1 else 0) = clients_in st cs + (if s = st then 1 else 0)"
  using assms
proof (induction cs arbitrary: c)
  case (Cons x cs)
  then show ?case by (cases c) (fastforce simp: clients_in_def)+
qed simp

lemma free_update:
  assumes "i < length u"
  shows "free_slots (u[i := b]) + (if u ! i then 0 else 1) = free_slots u + (if b then 0 else 1)"
  using assms
proof (induction u arbitrary: i)
  case (Cons x u)
  then show ?case by (cases i) (fastforce simp: free_slots_def)+
qed simp

lemma used_update:
  "i < length u \<Longrightarrow> used_slots (u[i := True]) = insert i (used_slots u)"
  "used_slots (u[i := False]) = used_slots u - {i}"
  by (auto simp: used_slots_def nth_list_update split: if_splits)
    (cases "i < length u"; auto simp: nth_list_update list_update_beyond split: if_splits)+

lemma finite_used [simp]: "finite (used_slots u)"
  by (simp add: used_slots_def)

lemma take_first_available_Some:
  assumes "take_first_available s = Some (i, s')"
  shows "i < length (in_use s) \<and> \<not> in_use s ! i \<and> s' = s\<lparr>in_use := (in_use s)[i := True]\<rparr> \<and>
    (\<forall>j < i. in_use s ! j)"
proof -
  have "find (\<lambda>i. \<not> in_use s ! i) [0 ..< length (in_use s)] = Some i"
    and s': "s' = s\<lparr>in_use := (in_use s)[i := True]\<rparr>"
    using assms by (auto simp: take_first_available_def split: option.splits)
  then show ?thesis by (auto simp: find_Some_iff)
qed

lemma take_first_available_None:
  "take_first_available s = None \<longleftrightarrow> (\<forall>i < length (in_use s). in_use s ! i)"
proof -
  have "take_first_available s = None \<longleftrightarrow> find (\<lambda>i. \<not> in_use s ! i) [0 ..< length (in_use s)] = None"
    by (simp add: take_first_available_def split: option.split)
  then show ?thesis by (auto simp: find_None_iff)
qed

lemma free_slots_0: "free_slots u = 0 \<longleftrightarrow> (\<forall>i < length u. u ! i)"
  by (auto simp: free_slots_def filter_empty_conv all_set_conv_all_nth)

section \<open>The invariant\<close>

lemma pool_inv_start: "wp_slots pool = slots_new k \<Longrightarrow> pool_inv (pool_start pool n)"
proof -
  assume "wp_slots pool = slots_new k"
  moreover have "used_slots (replicate k False) = {}" by (auto simp: used_slots_def)
  ultimately show ?thesis by (auto simp: pool_inv_def pool_start_def slots_new_def held_slots_def)
qed

lemma pool_inv_take:
  assumes inv: "pool_inv s" and c: "c < length (ps_clients s)" "ps_clients s ! c \<in> {Outside, Woken}"
    and t: "take_first_available (ps_slots s) = Some (i, slots')"
  shows "pool_inv \<lparr>ps_slots = slots', ps_clients = (ps_clients s)[c := Holding i]\<rparr>"
proof -
  note t' = take_first_available_Some [OF t]
  let ?cs = "ps_clients s" and ?u = "in_use (ps_slots s)"
  have "mset (held_slots (?cs[c := Holding i])) = add_mset i (mset (held_slots ?cs))"
    using held_update [OF c(1), of "Holding i"] c(2) by auto
  moreover have "i \<notin> used_slots ?u" using t' by (simp add: used_slots_def)
  then have "mset_set (used_slots (?u[i := True])) = add_mset i (mset_set (used_slots ?u))"
    using t' by (simp add: used_update)
  moreover have "free_slots (?u[i := True]) \<le> clients_in Woken (?cs[c := Holding i])"
    if "Asleep \<in> set (?cs[c := Holding i])"
  proof -
    have "Asleep \<in> set ?cs" using that set_update_subset_insert [of ?cs c "Holding i"] by auto
    then have "free_slots ?u \<le> clients_in Woken ?cs" using inv by (simp add: pool_inv_def)
    moreover have "free_slots (?u[i := True]) + 1 = free_slots ?u" using free_update [of i ?u True] t' by simp
    ultimately show ?thesis using clients_update [OF c(1), of Woken "Holding i"] by (auto split: if_splits)
  qed
  ultimately show ?thesis using inv t' by (simp add: pool_inv_def)
qed

lemma pool_inv_sleep:
  assumes inv: "pool_inv s" and c: "c < length (ps_clients s)" "ps_clients s ! c \<in> {Outside, Woken}"
    and t: "take_first_available (ps_slots s) = None"
  shows "pool_inv (s\<lparr>ps_clients := (ps_clients s)[c := Asleep]\<rparr>)"
proof -
  have "mset (held_slots ((ps_clients s)[c := Asleep])) = mset (held_slots (ps_clients s))"
    using held_update [OF c(1), of Asleep] c(2) by auto
  moreover have "free_slots (in_use (ps_slots s)) = 0" using t by (simp add: take_first_available_None free_slots_0)
  ultimately show ?thesis using inv by (simp add: pool_inv_def)
qed

lemma held_release:
  assumes inv: "pool_inv s" and c: "c < length (ps_clients s)" "ps_clients s ! c = Holding i"
  shows "i < length (in_use (ps_slots s)) \<and> in_use (ps_slots s) ! i \<and>
    mset (held_slots ((ps_clients s)[c := Outside])) = mset_set (used_slots (in_use (make_available i (ps_slots s))))"
proof -
  have u: "add_mset i (mset (held_slots ((ps_clients s)[c := Outside]))) = mset (held_slots (ps_clients s))"
    using held_update [OF c(1), of Outside] c(2) by simp
  then have "i \<in># mset (held_slots (ps_clients s))" by (metis union_single_eq_member)
  then have "i \<in># mset_set (used_slots (in_use (ps_slots s)))" using inv by (simp only: pool_inv_def)
  then have i: "i \<in> used_slots (in_use (ps_slots s))" by simp
  then have "mset_set (used_slots (in_use (ps_slots s)) - {i}) = mset_set (used_slots (in_use (ps_slots s))) - {#i#}"
    by (simp add: mset_set_Diff)
  moreover have "mset (held_slots (ps_clients s)) = mset_set (used_slots (in_use (ps_slots s)))"
    using inv by (simp only: pool_inv_def)
  ultimately have "mset (held_slots ((ps_clients s)[c := Outside])) = mset_set (used_slots (in_use (ps_slots s)) - {i})"
    using u by (metis add_mset_remove_trivial)
  moreover have "i < length (in_use (ps_slots s)) \<and> in_use (ps_slots s) ! i" using i by (simp add: used_slots_def)
  ultimately show ?thesis by (simp add: make_available_def used_update)
qed

lemma free_release:
  "i < length (in_use s) \<Longrightarrow> in_use s ! i \<Longrightarrow> free_slots (in_use (make_available i s)) = free_slots (in_use s) + 1"
  using free_update [of i "in_use s" False] by (simp add: make_available_def)

lemma pool_inv_release_quiet:
  assumes inv: "pool_inv s" and c: "c < length (ps_clients s)" "ps_clients s ! c = Holding i"
    and quiet: "Asleep \<notin> set (ps_clients s)"
  shows "pool_inv \<lparr>ps_slots = make_available i (ps_slots s), ps_clients = (ps_clients s)[c := Outside]\<rparr>"
proof -
  have "Asleep \<notin> set ((ps_clients s)[c := Outside])"
    using quiet set_update_subset_insert [of "ps_clients s" c Outside] by auto
  then show ?thesis using held_release [OF inv c] by (simp add: pool_inv_def)
qed

lemma held_wake: "w < length cs \<Longrightarrow> cs ! w = Asleep \<Longrightarrow> mset (held_slots (wake w cs)) = mset (held_slots cs)"
  using held_update [of w cs Woken] by (simp add: wake_def)

lemma woken_wake: "w < length cs \<Longrightarrow> cs ! w = Asleep \<Longrightarrow> clients_in Woken (wake w cs) = clients_in Woken cs + 1"
  using clients_update [of w cs Woken Woken] by (simp add: wake_def)

lemma asleep_wake: "Asleep \<in> set (wake w cs) \<Longrightarrow> Asleep \<in> set cs"
  using set_update_subset_insert [of cs w Woken] by (auto simp: wake_def)

lemma pool_inv_release_notify:
  assumes inv: "pool_inv s" and c: "c < length (ps_clients s)" "ps_clients s ! c = Holding i"
    and w: "w < length (ps_clients s)" "ps_clients s ! w = Asleep"
  shows "pool_inv \<lparr>ps_slots = make_available i (ps_slots s), ps_clients = wake w ((ps_clients s)[c := Outside])\<rparr>"
proof -
  let ?cs = "(ps_clients s)[c := Outside]"
  have w': "w < length ?cs" "?cs ! w = Asleep" using w c by (auto simp: nth_list_update)
  have "Asleep \<in> set (ps_clients s)" using w by (metis nth_mem)
  then have "free_slots (in_use (ps_slots s)) \<le> clients_in Woken (ps_clients s)" using inv by (simp add: pool_inv_def)
  moreover have "clients_in Woken ?cs = clients_in Woken (ps_clients s)"
    using clients_update [OF c(1), of Woken Outside] c(2) by simp
  ultimately show ?thesis
    using held_release [OF inv c] held_wake [OF w'] woken_wake [OF w'] free_release [of i "ps_slots s"]
    by (simp add: pool_inv_def)
qed

lemma pool_inv_spurious:
  assumes inv: "pool_inv s" and w: "w < length (ps_clients s)" "ps_clients s ! w = Asleep"
  shows "pool_inv (s\<lparr>ps_clients := wake w (ps_clients s)\<rparr>)"
  using inv held_wake [OF w] woken_wake [OF w] asleep_wake [of w "ps_clients s"] by (auto simp: pool_inv_def)

lemma pool_inv_step: "pool_step s s' \<Longrightarrow> pool_inv s \<Longrightarrow> pool_inv s'"
  by (erule pool_step.cases)
    (blast intro: pool_inv_take pool_inv_sleep pool_inv_release_quiet pool_inv_release_notify pool_inv_spurious)+

lemma slots_length_step: "pool_step s s' \<Longrightarrow> length (in_use (ps_slots s')) = length (in_use (ps_slots s))"
  by (induction rule: pool_step.induct) (auto simp: make_available_def dest: take_first_available_Some)

lemma pool_reachable_inv:
  assumes "wp_slots pool = slots_new k" and "pool_reachable pool n s"
  shows "pool_inv s \<and> length (in_use (ps_slots s)) = k"
  using assms(2) unfolding pool_reachable_def
proof (induction rule: rtranclp_induct)
  case base
  then show ?case using pool_inv_start [OF assms(1)] assms(1) by (simp add: pool_start_def slots_new_def)
next
  case (step s s')
  then show ?case by (metis pool_inv_step slots_length_step)
qed

section \<open>Properties\<close>

lemma build_pool_Inr:
  assumes "build_wasm_instance_pool i st safe par art = Inr pool"
  shows "wp_slots pool = slots_new (wp_size pool) \<and> 1 \<le> wp_size pool \<and> wp_size pool \<le> max par 1 \<and>
    (wp_mode pool = PoolSerialized \<longrightarrow> wp_size pool = 1) \<and>
    (wp_mode pool = PoolParallel \<longleftrightarrow> safe \<and> st \<noteq> ''PostPass::LayerFinalization'')"
  using assms by (auto simp: build_wasm_instance_pool_def Let_def split: if_splits)

lemma held_slots_exclusive:
  assumes "pool_inv s"
  shows "distinct (held_slots (ps_clients s)) \<and> set (held_slots (ps_clients s)) = used_slots (in_use (ps_slots s))"
proof -
  let ?u = "used_slots (in_use (ps_slots s))"
  have "mset (held_slots (ps_clients s)) = mset_set ?u" using assms by (simp only: pool_inv_def)
  also have "mset_set ?u = mset (sorted_list_of_set ?u)"
    using mset_set_set [OF distinct_sorted_list_of_set, of ?u] by (simp only: set_sorted_list_of_set [OF finite_used])
  finally have m: "mset (held_slots (ps_clients s)) = mset (sorted_list_of_set ?u)" .
  then have "distinct (held_slots (ps_clients s))"
    using mset_eq_imp_distinct_iff [OF m] distinct_sorted_list_of_set by blast
  moreover have "set (held_slots (ps_clients s)) = ?u" using mset_eq_setD [OF m] by simp
  ultimately show ?thesis by blast
qed

lemma held_slots_mem: "i \<in> set (held_slots cs) \<longleftrightarrow> Holding i \<in> set cs"
  by (induction cs) (auto simp: held_slots_def split: client_status.splits)

lemma held_slots_nth:
  assumes "c < length cs" "d < length cs" "cs ! c = Holding i" "cs ! d = Holding i" "distinct (held_slots cs)"
  shows "c = d"
  using assms
proof (induction cs arbitrary: c d)
  case (Cons x cs)
  have split: "held_slots (x # cs) = (case x of Holding i \<Rightarrow> [i] | _ \<Rightarrow> []) @ held_slots cs"
    by (simp add: held_slots_def)
  have mem: "i \<in> set (held_slots cs)" if "k < length cs" "cs ! k = Holding i" for k
    using that nth_mem [of k cs] by (simp add: held_slots_mem)
  have dist: "distinct (held_slots cs)" using Cons.prems(5) by (simp add: split)
  have x: "i \<notin> set (held_slots cs)" if "x = Holding i" using Cons.prems(5) [unfolded split] that by simp
  show ?case
  proof (cases "c = 0 \<or> d = 0")
    case True
    then show ?thesis using Cons.prems(1-4) x mem by (cases c; cases d) simp_all
  next
    case False
    then show ?thesis using Cons.prems(1-4) Cons.IH [of "c - 1" "d - 1"] dist by (cases c; cases d) simp_all
  qed
qed simp

lemma card_held:
  assumes "pool_inv s"
  shows "length (held_slots (ps_clients s)) \<le> length (in_use (ps_slots s))"
proof -
  have "length (held_slots (ps_clients s)) = card (used_slots (in_use (ps_slots s)))"
    using held_slots_exclusive [OF assms] distinct_card by metis
  also have "\<dots> \<le> card {..< length (in_use (ps_slots s))}"
    by (rule card_mono) (auto simp: used_slots_def)
  finally show ?thesis by simp
qed

text \<open>C5: an instance is never shared.  However acquires, releases and wake-ups interleave, two
  clients never hold a lease on the same slot, every leased slot exists, and no more leases are out
  than the pool has slots: one for a serialized pool, which is what every module gets that is not
  parallel-safe or runs in layer finalization.\<close>

theorem pool_leases_exclusive:
  assumes "build_wasm_instance_pool i st safe par art = Inr pool" and "pool_reachable pool n s"
  shows "(\<forall>c < length (ps_clients s). \<forall>d < length (ps_clients s). \<forall>k.
      ps_clients s ! c = Holding k \<and> ps_clients s ! d = Holding k \<longrightarrow> c = d) \<and>
    (\<forall>c < length (ps_clients s). \<forall>k. ps_clients s ! c = Holding k \<longrightarrow> k < wp_size pool) \<and>
    length (held_slots (ps_clients s)) \<le> wp_size pool \<and>
    (\<not> safe \<or> st = ''PostPass::LayerFinalization'' \<longrightarrow> wp_size pool = 1)"
proof (intro conjI allI impI)
  note p = build_pool_Inr [OF assms(1)]
  have inv: "pool_inv s" and len: "length (in_use (ps_slots s)) = wp_size pool"
    using pool_reachable_inv [OF _ assms(2)] p by blast+
  note ex = held_slots_exclusive [OF inv]
  show "c = d" if "c < length (ps_clients s)" "d < length (ps_clients s)"
    "ps_clients s ! c = Holding k \<and> ps_clients s ! d = Holding k" for c d k
    using held_slots_nth [OF that(1,2)] that(3) ex by blast
  show "k < wp_size pool" if "c < length (ps_clients s)" "ps_clients s ! c = Holding k" for c k
  proof -
    have "k \<in> set (held_slots (ps_clients s))" using that nth_mem [OF that(1)] by (simp add: held_slots_mem)
    then show ?thesis using ex len by (simp add: used_slots_def)
  qed
  show "length (held_slots (ps_clients s)) \<le> wp_size pool" using card_held [OF inv] len by simp
  show "wp_size pool = 1" if "\<not> safe \<or> st = ''PostPass::LayerFinalization''"
    using p that by (cases "wp_mode pool") auto
qed

theorem pool_leases_exclusive_witness:
  "\<exists>pool s. build_wasm_instance_pool ''m'' ''Layer::Infill'' True 2 \<lparr>uses_shared_memory = False\<rparr> = Inr pool \<and>
     pool_reachable pool 3 s \<and> ps_clients s = [Outside, Holding 0, Outside] \<and> length (held_slots (ps_clients s)) \<le> 2"
proof -
  let ?pool = "\<lparr>wp_mode = PoolParallel, wp_size = 2, wp_slots = slots_new 2\<rparr>"
  let ?s = "\<lparr>ps_slots = \<lparr>in_use = [True, False]\<rparr>, ps_clients = [Outside, Holding 0, Outside]\<rparr>"
  have b: "build_wasm_instance_pool ''m'' ''Layer::Infill'' True 2 \<lparr>uses_shared_memory = False\<rparr> = Inr ?pool"
    by (simp add: build_wasm_instance_pool_def flip: numeral_2_eq_2)
  have "take_first_available \<lparr>in_use = [False, False]\<rparr> = Some (0, \<lparr>in_use = [True, False]\<rparr>)" by code_simp
  then have "pool_step (pool_start ?pool 3) ?s"
    using step_take [of 1 "pool_start ?pool 3" 0 "\<lparr>in_use = [True, False]\<rparr>"]
    by (simp add: pool_start_def slots_new_def numeral_eq_Suc)
  then have r: "pool_reachable ?pool 3 ?s" by (simp add: pool_reachable_def)
  from pool_leases_exclusive [OF b r] b r show ?thesis by auto
qed

text \<open>C33: no wake-up is lost.  Whenever a client sleeps on the condition variable, either a slot is
  free and a woken client is on its way to it, or every slot is leased and its holder can release
  it, so a sleeper never waits in a state in which nobody else can move.\<close>

theorem pool_no_lost_wakeup:
  assumes "build_wasm_instance_pool i st safe par art = Inr pool" and "pool_reachable pool n s"
    and "c < length (ps_clients s)" and "ps_clients s ! c = Asleep"
  shows "(if \<exists>k < wp_size pool. \<not> in_use (ps_slots s) ! k
          then \<exists>d < length (ps_clients s). ps_clients s ! d = Woken \<and>
            (\<exists>k slots'. take_first_available (ps_slots s) = Some (k, slots') \<and>
              pool_step s \<lparr>ps_slots = slots', ps_clients = (ps_clients s)[d := Holding k]\<rparr>)
          else \<exists>d < length (ps_clients s). \<exists>k < wp_size pool. ps_clients s ! d = Holding k \<and>
              pool_step s \<lparr>ps_slots = make_available k (ps_slots s), ps_clients = wake c ((ps_clients s)[d := Outside])\<rparr>)"
proof -
  note p = build_pool_Inr [OF assms(1)]
  have inv: "pool_inv s" and len: "length (in_use (ps_slots s)) = wp_size pool"
    using pool_reachable_inv [OF _ assms(2)] p by blast+
  have asleep: "Asleep \<in> set (ps_clients s)" using assms(3,4) by (metis nth_mem)
  show ?thesis
  proof (cases "\<exists>k < wp_size pool. \<not> in_use (ps_slots s) ! k")
    case True
    then have "free_slots (in_use (ps_slots s)) \<noteq> 0" using free_slots_0 len by metis
    then have "clients_in Woken (ps_clients s) \<noteq> 0" using inv asleep by (simp add: pool_inv_def)
    then have "Woken \<in> set (ps_clients s)" by (metis clients_in_def count_list_0_iff)
    then obtain d where d: "d < length (ps_clients s)" "ps_clients s ! d = Woken" by (metis in_set_conv_nth)
    obtain k slots' where "take_first_available (ps_slots s) = Some (k, slots')"
      using True take_first_available_None [of "ps_slots s"] len by (cases "take_first_available (ps_slots s)") auto
    then show ?thesis using True d step_take [of d s k slots'] by auto
  next
    case False
    then have "0 \<in> used_slots (in_use (ps_slots s))" using p len by (simp add: used_slots_def)
    then have "0 \<in> set (held_slots (ps_clients s))" using held_slots_exclusive [OF inv] by simp
    then have "Holding 0 \<in> set (ps_clients s)" by (simp only: held_slots_mem)
    then obtain d where d: "d < length (ps_clients s)" "ps_clients s ! d = Holding 0"
      by (auto simp: in_set_conv_nth)
    then have "\<exists>d < length (ps_clients s). \<exists>k < wp_size pool. ps_clients s ! d = Holding k \<and>
        pool_step s \<lparr>ps_slots = make_available k (ps_slots s), ps_clients = wake c ((ps_clients s)[d := Outside])\<rparr>"
      using p step_release_notify [OF d assms(3,4)] by (metis less_eq_Suc_le One_nat_def)
    then show ?thesis by (simp only: False if_False)
  qed
qed

theorem pool_no_lost_wakeup_witness:
  "\<exists>pool s. build_wasm_instance_pool ''m'' ''PostPass::LayerFinalization'' False 4 \<lparr>uses_shared_memory = False\<rparr> = Inr pool \<and>
     pool_reachable pool 2 s \<and> ps_clients s = [Holding 0, Asleep] \<and>
     pool_step s \<lparr>ps_slots = make_available 0 (ps_slots s), ps_clients = [Outside, Woken]\<rparr>"
proof -
  let ?pool = "\<lparr>wp_mode = PoolSerialized, wp_size = 1, wp_slots = slots_new 1\<rparr>"
  let ?s0 = "pool_start ?pool 2"
  let ?s1 = "\<lparr>ps_slots = \<lparr>in_use = [True]\<rparr>, ps_clients = [Holding 0, Outside]\<rparr>"
  let ?s2 = "\<lparr>ps_slots = \<lparr>in_use = [True]\<rparr>, ps_clients = [Holding 0, Asleep]\<rparr>"
  have b: "build_wasm_instance_pool ''m'' ''PostPass::LayerFinalization'' False 4 \<lparr>uses_shared_memory = False\<rparr> = Inr ?pool"
    by (simp add: build_wasm_instance_pool_def)
  have "take_first_available \<lparr>in_use = [False]\<rparr> = Some (0, \<lparr>in_use = [True]\<rparr>)" by code_simp
  then have "pool_step ?s0 ?s1"
    using step_take [of 0 ?s0 0 "\<lparr>in_use = [True]\<rparr>"] by (simp add: pool_start_def slots_new_def numeral_eq_Suc)
  moreover have "take_first_available \<lparr>in_use = [True]\<rparr> = None" by code_simp
  then have "pool_step ?s1 ?s2" using step_sleep [of 1 ?s1] by simp
  ultimately have r: "pool_reachable ?pool 2 ?s2"
    unfolding pool_reachable_def by (meson converse_rtranclp_into_rtranclp rtranclp.rtrancl_refl)
  have "\<exists>d < length (ps_clients ?s2). \<exists>k < wp_size ?pool. ps_clients ?s2 ! d = Holding k \<and>
      pool_step ?s2 \<lparr>ps_slots = make_available k (ps_slots ?s2), ps_clients = wake 1 ((ps_clients ?s2)[d := Outside])\<rparr>"
    using pool_no_lost_wakeup [OF b r, of 1] by simp
  then have "pool_step ?s2 \<lparr>ps_slots = make_available 0 (ps_slots ?s2), ps_clients = [Outside, Woken]\<rparr>"
    by (auto simp: wake_def less_Suc_eq numeral_eq_Suc)
  then show ?thesis using b r by auto
qed

end
