(* ===== verification/LiveLoad.thy ===== *)
theory LiveLoad
  imports ExecutionPlan InstancePool
begin

text \<open>
  The composition root: \<^verbatim>\<open>crates/slicer-wasm-host/src/execution_plan_live.rs\<close> loads the
  modules, removes claim losers, orders every stage, plans an instance pool per module and binds
  what the execution plan is built from; \<^verbatim>\<open>crates/slicer-runtime/src/run.rs\<close> validates the
  result and decides whether the slice may start.  The outside world is the record \<open>live_env\<close>:
  file access and manifest parsing, the typed config ingestion, and the WASM compiler.
\<close>

section \<open>Loading\<close>

datatype 'e live_module_load_error =
    LiveLoad load_error
  | LiveRegistry 'e
  | LiveConfigIngestion 'e
  | LiveLayerRangeIngestion 'e
  | LiveSupportFamilyPairing support_family_pairing_error
  | LiveDag scheduler_error
  | LiveCycle stage_id "module_id list"
  | LiveInstancePool instance_pool_error
  | LiveComponent module_id string
  | LiveNativeEntry module_id stage_id

text \<open>What loading reads of the ingested config: the selector values and the values of the global
  scope, when there is one.\<close>

record typed_config =
  tc_selector_values :: "string \<rightharpoonup> config_value"
  tc_global :: "(string \<rightharpoonup> config_value) option"

record ('e, 'b, 'w) live_env =
  le_discover :: "string \<Rightarrow> load_error + string list"
  le_ingest :: "string \<Rightarrow> load_error + ingested"
  le_ingest_text :: "string \<Rightarrow> string \<Rightarrow> load_error + ingested"
  le_ingest_config :: "loaded_module list \<Rightarrow> 'e live_module_load_error + typed_config"
  le_read_wasm :: "string \<Rightarrow> string + 'b"
  le_compile :: "'b \<Rightarrow> string + 'w"

record ('n, 'w) live_module_binding =
  lb_module :: loaded_module
  lb_instance_pool :: wasm_instance_pool
  lb_wasm_component :: "'w option"
  lb_native_entry :: "'n option"

record ('n, 'w) live_module_load_output =
  lo_bindings :: "('n, 'w) live_module_binding list"
  lo_sorted_stages :: "sorted_stage_modules list"
  lo_diagnostics :: "load_diagnostic list"

definition spiral_vase_of :: "typed_config \<Rightarrow> bool" where
  "spiral_vase_of tc =
     (case tc_global tc of
        None \<Rightarrow> False
      | Some values \<Rightarrow> (case values ''spiral_vase'' of Some (CvBool b) \<Rightarrow> b | _ \<Rightarrow> False))"

fun sort_stages :: "stage_id list \<Rightarrow> producer list
    \<Rightarrow> ('e live_module_load_error + sorted_stage_modules list) option" where
  "sort_stages [] ps = Some (Inr [])"
| "sort_stages (st # sts) ps =
     (let nodes = build_intra_stage_dag st ps
      in if nodes = [] then sort_stages sts ps
         else case topological_sort nodes of
                None \<Rightarrow> None
              | Some (Inl unsorted) \<Rightarrow> Some (Inl (LiveCycle st unsorted))
              | Some (Inr ids) \<Rightarrow>
                  (case sort_stages sts ps of
                     None \<Rightarrow> None
                   | Some (Inl e) \<Rightarrow> Some (Inl e)
                   | Some (Inr sss) \<Rightarrow> Some (Inr (\<lparr>ss_stage_id = st, ss_module_ids = ids\<rparr> # sss))))"

definition compile_module_component ::
  "('e, 'b, 'w) live_env \<Rightarrow> loaded_module \<Rightarrow> 'e live_module_load_error + 'w" where
  "compile_module_component env m =
     (if lm_placeholder_wasm m then Inl (LiveComponent (lm_id m) ''placeholder .wasm binary'')
      else case le_read_wasm env (lm_wasm_path m) of
             Inl cause \<Rightarrow> Inl (LiveComponent (lm_id m) (''failed to read .wasm: '' @ cause))
           | Inr bytes \<Rightarrow>
               (case le_compile env bytes of
                  Inl cause \<Rightarrow> Inl (LiveComponent (lm_id m) (''failed to compile component: '' @ cause))
                | Inr component \<Rightarrow> Inr component))"

definition native_entry_of :: "(module_id \<times> 'n) list \<Rightarrow> loaded_module \<Rightarrow> 'n option" where
  "native_entry_of native_entries m =
     (if lm_provenance m = Integrated
      then map_option snd (find (\<lambda>e. fst e = lm_id m) native_entries) else None)"

definition bind_live_module :: "('e, 'b, 'w) live_env \<Rightarrow> nat \<Rightarrow> (module_id \<times> 'n) list \<Rightarrow> loaded_module
    \<Rightarrow> 'e live_module_load_error + ('n, 'w) live_module_binding" where
  "bind_live_module env host_parallelism native_entries m =
     (case build_wasm_instance_pool (lm_id m) (lm_stage m) (lm_layer_parallel_safe m) host_parallelism
             \<lparr>uses_shared_memory = False\<rparr> of
        Inl e \<Rightarrow> Inl (LiveInstancePool e)
      | Inr pool \<Rightarrow>
          (let native_entry = native_entry_of native_entries m
           in if lm_provenance m = Integrated \<and> native_entry = None then Inl (LiveNativeEntry (lm_id m) (lm_stage m))
              else if lm_provenance m = Integrated
              then Inr \<lparr>lb_module = m, lb_instance_pool = pool, lb_wasm_component = None, lb_native_entry = native_entry\<rparr>
              else (case compile_module_component env m of
                      Inl e \<Rightarrow> Inl e
                    | Inr component \<Rightarrow>
                        Inr \<lparr>lb_module = m, lb_instance_pool = pool, lb_wasm_component = Some component,
                             lb_native_entry = native_entry\<rparr>)))"

fun bind_live_modules :: "('e, 'b, 'w) live_env \<Rightarrow> nat \<Rightarrow> (module_id \<times> 'n) list \<Rightarrow> loaded_module list
    \<Rightarrow> 'e live_module_load_error + ('n, 'w) live_module_binding list" where
  "bind_live_modules env par entries [] = Inr []"
| "bind_live_modules env par entries (m # ms) =
     (case bind_live_module env par entries m of
        Inl e \<Rightarrow> Inl e
      | Inr b \<Rightarrow> (case bind_live_modules env par entries ms of Inl e \<Rightarrow> Inl e | Inr bs \<Rightarrow> Inr (b # bs)))"

definition load_live_modules_for_plan_manifest_first ::
  "('e, 'b, 'w) live_env \<Rightarrow> string list \<Rightarrow> nat \<Rightarrow> integrated_module_registration list \<Rightarrow> (module_id \<times> 'n) list
    \<Rightarrow> ('e live_module_load_error + ('n, 'w) live_module_load_output \<times> typed_config) option" where
  "load_live_modules_for_plan_manifest_first env roots host_parallelism integrated native_entries =
     (case load_modules_from_roots_with_integrated (le_discover env) (le_ingest env) (le_ingest_text env) roots integrated of
        Inl e \<Rightarrow> Some (Inl (LiveLoad e))
      | Inr report \<Rightarrow>
     (case le_ingest_config env (lr_modules report) of
        Inl e \<Rightarrow> Some (Inl e)
      | Inr tc \<Rightarrow>
     (case validate_support_family_pairing (lr_modules report) of
        Inl e \<Rightarrow> Some (Inl (LiveSupportFamilyPairing e))
      | Inr _ \<Rightarrow>
          (let (kept, diags) = dedup_same_claim_modules_typed (lr_modules report) (lr_diagnostics report)
                 (tc_selector_values tc ''wall_generator'') (spiral_vase_of tc)
           in case sort_stages STAGE_ORDER (map producer_of_module kept) of
                None \<Rightarrow> None
              | Some (Inl e) \<Rightarrow> Some (Inl e)
              | Some (Inr sss) \<Rightarrow>
                  (case bind_live_modules env host_parallelism native_entries kept of
                     Inl e \<Rightarrow> Some (Inl e)
                   | Inr bindings \<Rightarrow>
                       Some (Inr (\<lparr>lo_bindings = bindings, lo_sorted_stages = sss, lo_diagnostics = diags\<rparr>, tc)))))))"

definition build_live_execution_plan :: "sorted_stage_modules list \<Rightarrow> ('n, 'w) live_module_binding list \<Rightarrow> config_map
    \<Rightarrow> global_layer list \<Rightarrow> (region_key \<times> 'p) list \<Rightarrow> load_diagnostic list
    \<Rightarrow> execution_plan_error + ('p execution_plan \<times> load_diagnostic list)" where
  "build_live_execution_plan sorted_stages modules rendered layers regions diags =
     build_execution_plan
       \<lparr>pq_sorted_stages = sorted_stages,
        pq_module_bindings = map (\<lambda>b. \<lparr>mb_module = lb_module b,
          mb_config_view = bind_module_config_view (lb_module b) rendered\<rparr>) modules,
        pq_global_layers = layers, pq_region_plans = regions\<rparr> diags"

section \<open>The startup gate\<close>

definition live_validation_request :: "producer list \<Rightarrow> semver \<Rightarrow> semver \<Rightarrow> ('n, 'w) live_module_load_output
    \<Rightarrow> dag_validation_request" where
  "live_validation_request builtins ir_version host_version out =
     (let modules = map lb_module (lo_bindings out);
          producers = builtins @ map producer_of_module modules
      in \<lparr>rq_modules = modules,
          rq_stage_dags = map (\<lambda>ss. \<lparr>sd_stage = ss_stage_id ss,
            sd_nodes = build_intra_stage_dag (ss_stage_id ss) producers\<rparr>) (lo_sorted_stages out),
          rq_host_ir_schema_version = ir_version,
          rq_host_version = host_version,
          rq_claim_holders = [\<lparr>ch_claim = c, ch_module_id = lm_id m, ch_scope = ScopeGlobal\<rparr>.
            m \<leftarrow> modules, c \<leftarrow> lm_claims m],
          rq_access_audits = []\<rparr>)"

definition version_errors :: "dag_validation_report \<Rightarrow> dag_validation_diagnostic list" where
  "version_errors report =
     filter (\<lambda>d. dd_pass d = IrVersionCompatibility \<or> dd_pass d = HostVersionCompatibility) (dr_errors report)"

text \<open>The slice is refused (\<open>Inl\<close>) on version errors only; every other error is printed as an
  advisory.\<close>

definition startup_gate :: "producer list \<Rightarrow> semver \<Rightarrow> semver \<Rightarrow> ('n, 'w) live_module_load_output
    \<Rightarrow> (dag_validation_diagnostic list + dag_validation_diagnostic list) option" where
  "startup_gate builtins ir_version host_version out =
     (case validate_startup_dag (live_validation_request builtins ir_version host_version out) of
        None \<Rightarrow> None
      | Some report \<Rightarrow>
          Some (if version_errors report \<noteq> [] then Inl (version_errors report)
                else Inr (filter (\<lambda>d. \<not> (dd_pass d = IrVersionCompatibility \<or> dd_pass d = HostVersionCompatibility))
                            (dr_errors report))))"

section \<open>The sorted stages\<close>

lemma stage_dag_ids_distinct: "distinct (node_ids (build_intra_stage_dag st ps))"
  using build_intra_stage_dag_ids_sorted [of st ps] by (simp add: strict_sorted_iff)

lemma topological_sort_total: "distinct (node_ids nodes) \<Longrightarrow> \<exists>r. topological_sort nodes = Some r"
  by (metis topo_run)

lemma sort_stages_total: "\<exists>r. sort_stages sts ps = Some r"
proof (induction sts)
  case (Cons st sts)
  obtain r where "topological_sort (build_intra_stage_dag st ps) = Some r"
    using topological_sort_total [OF stage_dag_ids_distinct] by blast
  then show ?case using Cons by (auto simp: Let_def split: sum.split)
qed simp

lemma sort_stages_Inr:
  assumes "sort_stages sts ps = Some (Inr sss)"
  shows "map ss_stage_id sss = filter (\<lambda>st. build_intra_stage_dag st ps \<noteq> []) sts"
    and "\<And>ss. ss \<in> set sss \<Longrightarrow> topological_sort (build_intra_stage_dag (ss_stage_id ss) ps) = Some (Inr (ss_module_ids ss))"
  using assms
proof (induction sts arbitrary: sss)
  case (Cons st sts)
  {
    case 1
    then show ?case using Cons.IH(1) by (auto simp: Let_def split: if_splits option.splits sum.splits)
  next
    case 2
    then show ?case using Cons.IH(2) by (auto simp: Let_def split: if_splits option.splits sum.splits)
  }
qed simp_all

definition ordered_in :: "'a list \<Rightarrow> 'a \<Rightarrow> 'a \<Rightarrow> bool" where
  "ordered_in xs u v \<longleftrightarrow> (\<exists>i j. i < j \<and> j < length xs \<and> xs ! i = u \<and> xs ! j = v)"

lemma sorted_stage_order:
  assumes "topological_sort (build_intra_stage_dag st ps) = Some (Inr ids)"
  shows "distinct ids" and "set ids = pr_id ` {p \<in> set ps. pr_stage p = st}"
    and "stage_depends st ps u v r \<Longrightarrow> ordered_in ids u v"
proof -
  have topo: "topo_order (build_intra_stage_dag st ps) ids"
    by (rule topological_sort_order [OF stage_dag_ids_distinct assms])
  show "distinct ids" using topo by (simp add: topo_order_def)
  show ids: "set ids = pr_id ` {p \<in> set ps. pr_stage p = st}"
    using topo build_intra_stage_dag_ids_set [of st ps] by (simp add: topo_order_def)
  assume dep: "stage_depends st ps u v r"
  then have edge: "dag_edge (build_intra_stage_dag st ps) u v" using dag_edge_iff by blast
  have "u \<in> set ids" "v \<in> set ids" using dep unfolding ids stage_depends_def by blast+
  then obtain i j where "i < length ids" "ids ! i = u" "j < length ids" "ids ! j = v" by (metis in_set_conv_nth)
  moreover from this have "i < j" using topo edge unfolding topo_order_def by blast
  ultimately show "ordered_in ids u v" unfolding ordered_in_def by blast
qed

section \<open>The loaded modules\<close>

lemma bind_live_module_module: "bind_live_module env par entries m = Inr b \<Longrightarrow> lb_module b = m"
  by (auto simp: bind_live_module_def Let_def split: sum.splits if_splits)

lemma bind_live_modules_modules: "bind_live_modules env par entries ms = Inr bs \<Longrightarrow> map lb_module bs = ms"
  by (induction ms arbitrary: bs) (auto split: sum.splits dest: bind_live_module_module)

lemma dedup_keeps_distinct:
  assumes "distinct (map lm_id ms)"
  shows "distinct (map lm_id (fst (dedup_same_claim_modules_typed ms diags wg sv)))"
proof -
  have "mset (map lm_id (sort_key lm_id ms)) = mset (map lm_id ms)" by simp
  then have "distinct (map lm_id (sort_key lm_id ms))" using assms mset_eq_imp_distinct_iff by blast
  then show ?thesis by (simp add: dedup_result distinct_map_filter)
qed

lemma live_load_Inr:
  assumes "load_live_modules_for_plan_manifest_first env roots par integrated entries = Some (Inr (out, tc))"
  shows "distinct (map (lm_id \<circ> lb_module) (lo_bindings out))"
    and "sort_stages STAGE_ORDER (map (producer_of_module \<circ> lb_module) (lo_bindings out)) =
      Some (Inr (lo_sorted_stages out) :: 'e live_module_load_error + _)"
proof -
  from assms obtain report kept diags where
    load: "load_modules_from_roots_with_integrated (le_discover env) (le_ingest env) (le_ingest_text env) roots integrated = Inr report"
    and kept: "(kept, diags) = dedup_same_claim_modules_typed (lr_modules report) (lr_diagnostics report)
      (tc_selector_values tc ''wall_generator'') (spiral_vase_of tc)"
    and sorted: "sort_stages STAGE_ORDER (map producer_of_module kept) = Some (Inr (lo_sorted_stages out) :: 'a live_module_load_error + _)"
    and bound: "bind_live_modules env par entries kept = Inr (lo_bindings out)"
    unfolding load_live_modules_for_plan_manifest_first_def
    by (auto simp: Let_def split: sum.splits option.splits prod.splits)
  note modules = bind_live_modules_modules [OF bound]
  have "distinct (map lm_id kept)"
    using dedup_keeps_distinct [OF load_modules_distinct_ids [OF load]] kept by (metis fst_conv)
  then show "distinct (map (lm_id \<circ> lb_module) (lo_bindings out))" by (simp flip: modules)
  have "sort_stages sts ps = Some (Inr sss :: 'a live_module_load_error + _) \<Longrightarrow>
      sort_stages sts ps = Some (Inr sss :: 'e live_module_load_error + _)" for sts ps sss
    by (induction sts arbitrary: sss) (auto simp: Let_def split: if_splits option.splits sum.splits)
  from this [OF sorted] show "sort_stages STAGE_ORDER (map (producer_of_module \<circ> lb_module) (lo_bindings out)) =
      Some (Inr (lo_sorted_stages out) :: 'e live_module_load_error + _)"
    by (simp flip: modules)
qed

section \<open>From loading to the plan\<close>

definition plan_stages :: "'p execution_plan \<Rightarrow> compiled_stage list" where
  "plan_stages plan =
     ep_prepass_stages plan @ ep_per_layer_stages plan @
     (case ep_layer_finalization_stage plan of None \<Rightarrow> [] | Some s \<Rightarrow> [s]) @ ep_postpass_stages plan"

definition stage_module_ids :: "compiled_stage \<Rightarrow> module_id list" where
  "stage_module_ids cs = map cm_module_id (cs_modules cs)"

abbreviation live_request :: "sorted_stage_modules list \<Rightarrow> ('n, 'w) live_module_binding list \<Rightarrow> config_map
    \<Rightarrow> global_layer list \<Rightarrow> (region_key \<times> 'p) list \<Rightarrow> 'p execution_plan_request" where
  "live_request sss bs rendered layers regions \<equiv>
     \<lparr>pq_sorted_stages = sss,
      pq_module_bindings = map (\<lambda>b. \<lparr>mb_module = lb_module b,
        mb_config_view = bind_module_config_view (lb_module b) rendered\<rparr>) bs,
      pq_global_layers = layers, pq_region_plans = regions\<rparr>"

lemma live_binding_of:
  assumes "distinct (map (lm_id \<circ> lb_module) bs)" and "b \<in> set bs"
  shows "binding_of (pq_module_bindings (live_request sss bs rendered layers regions)) (lm_id (lb_module b)) =
    Some \<lparr>mb_module = lb_module b, mb_config_view = bind_module_config_view (lb_module b) rendered\<rparr>"
proof -
  let ?f = "\<lambda>b. \<lparr>mb_module = lb_module b, mb_config_view = bind_module_config_view (lb_module b) rendered\<rparr>"
  have "distinct (map fst (map (\<lambda>b. (lm_id (mb_module b), b)) (map ?f bs)))"
    using assms(1) by (simp add: comp_def)
  moreover have "(lm_id (lb_module b), ?f b) \<in> set (map (\<lambda>b. (lm_id (mb_module b), b)) (map ?f bs))"
    using assms(2) by force
  ultimately show ?thesis unfolding binding_of_def by (simp add: map_of_eq_Some_iff)
qed

lemma sorted_stage_binding:
  assumes load: "load_live_modules_for_plan_manifest_first env roots par integrated entries = Some (Inr (out, tc))"
    and ss: "ss \<in> set (lo_sorted_stages out)" and i: "i \<in> set (ss_module_ids ss)"
  obtains b where "b \<in> set (lo_bindings out)" "lm_id (lb_module b) = i" "lm_stage (lb_module b) = ss_stage_id ss"
proof -
  have "topological_sort (build_intra_stage_dag (ss_stage_id ss) (map (producer_of_module \<circ> lb_module) (lo_bindings out)))
      = Some (Inr (ss_module_ids ss))"
    by (rule sort_stages_Inr(2) [OF live_load_Inr(2) [OF load] ss])
  from sorted_stage_order(2) [OF this] i that show ?thesis by (auto simp: producer_of_module_def)
qed

lemma live_request_ok:
  assumes load: "load_live_modules_for_plan_manifest_first env roots par integrated entries = Some (Inr (out, tc))"
    and "\<forall>l \<in> set layers. gl_index l < MAX_LAYER_INDEX" and "length regions \<le> DEFAULT_REGION_MAP_CAP"
  shows "plan_request_ok (live_request (lo_sorted_stages out) (lo_bindings out) rendered layers regions)"
  unfolding plan_request_ok_def
proof (intro conjI ballI)
  note dist = live_load_Inr(1) [OF load]
  let ?rq = "live_request (lo_sorted_stages out) (lo_bindings out) rendered layers regions"
  show "distinct (map (lm_id \<circ> mb_module) (pq_module_bindings ?rq))" using dist by (simp add: comp_def)
  show "key_allowed (mb_module b) k"
    if "b \<in> set (pq_module_bindings ?rq)" "k \<in> set (btm_keys (mb_config_view b))" for b k
  proof -
    have "mb_config_view b = bind_module_config_view (mb_module b) rendered" using that(1) by auto
    then have "btm_get (bind_module_config_view (mb_module b) rendered) k \<noteq> None"
      using that(2) by (simp add: btm_get_None_iff)
    from bound_view_declared [OF this] show ?thesis by (simp only: key_allowed_def)
  qed
  show "\<exists>b. binding_of (pq_module_bindings ?rq) i = Some b \<and> lm_stage (mb_module b) = ss_stage_id ss"
    if "ss \<in> set (pq_sorted_stages ?rq)" "i \<in> set (ss_module_ids ss)" for ss i
  proof -
    have ss: "ss \<in> set (lo_sorted_stages out)" using that(1) by simp
    note i = that(2)
    obtain b where b: "b \<in> set (lo_bindings out)" "lm_id (lb_module b) = i" "lm_stage (lb_module b) = ss_stage_id ss"
      using sorted_stage_binding [OF load ss i] .
    show ?thesis using live_binding_of [OF dist b(1)] b(2,3) by simp
  qed
qed (use assms(2,3) in simp_all)

text \<open>The stages of a plan are the compiled requested stages, and possibly an empty paint
  stage.\<close>

lemma insert_paint_stage_set:
  "set (insert_paint_stage sts) \<subseteq> set sts \<union>
     (if list_ex (\<lambda>s. cs_stage_id s = PAINT_STAGE) sts then {} else {\<lparr>cs_stage_id = PAINT_STAGE, cs_modules = []\<rparr>})"
proof (cases "list_ex (\<lambda>s. cs_stage_id s = PAINT_STAGE) sts")
  case False
  have "set (takeWhile P sts @ [x] @ dropWhile P sts) \<subseteq> set sts \<union> {x}" for P and x :: compiled_stage
    by (auto dest: set_takeWhileD set_dropWhileD)
  then show ?thesis by (simp only: insert_paint_stage_def False if_False Let_def)
qed (simp add: insert_paint_stage_def)

definition requested_stages :: "'p execution_plan_request \<Rightarrow> compiled_stage list" where
  "requested_stages rq =
     map (compiled (plan_bindings rq)) (filter (\<lambda>ss. ss_module_ids ss \<noteq> []) (pq_sorted_stages rq))"

lemma plan_buckets:
  assumes "build_execution_plan rq diags = Inr (plan, diags')"
  shows "ep_prepass_stages plan = filter (\<lambda>cs. prefix ''PrePass::'' (cs_stage_id cs)) (requested_stages rq)"
    and "ep_per_layer_stages plan =
      insert_paint_stage (filter (\<lambda>cs. prefix ''Layer::'' (cs_stage_id cs)) (requested_stages rq))"
    and "ep_layer_finalization_stage plan =
      (case filter (\<lambda>cs. cs_stage_id cs = ''PostPass::LayerFinalization'') (requested_stages rq) of
         [] \<Rightarrow> None | c # r \<Rightarrow> Some (last (c # r)))"
    and "ep_postpass_stages plan = filter (\<lambda>cs. prefix ''PostPass::'' (cs_stage_id cs) \<and>
      cs_stage_id cs \<noteq> ''PostPass::LayerFinalization'') (requested_stages rq)"
  using assms [unfolded build_execution_plan_Inr Let_def, folded requested_stages_def]
  by (simp_all add: fold_place_prepass fold_place_per_layer fold_place_postpass fold_place_finalization
      cong: list.case_cong)

lemma last_of_filter:
  "set (case (case filter P xs of [] \<Rightarrow> None | c # r \<Rightarrow> Some (last (c # r))) of None \<Rightarrow> [] | Some s \<Rightarrow> [s]) \<subseteq> set xs"
proof (cases "filter P xs")
  case (Cons c r)
  have "last (c # r) \<in> set (filter P xs)" unfolding Cons by (rule last_in_set) simp
  then have "last (c # r) \<in> set xs" by (rule subsetD [OF filter_is_subset])
  then show ?thesis unfolding Cons list.case option.case by (simp del: last.simps)
next
  case Nil
  show ?thesis unfolding Nil list.case option.case by simp
qed

lemma plan_stages_compiled:
  assumes "build_execution_plan rq diags = Inr (plan, diags')" and "cs \<in> set (plan_stages plan)"
  shows "(\<exists>ss \<in> set (pq_sorted_stages rq). ss_module_ids ss \<noteq> [] \<and> cs = compiled (plan_bindings rq) ss) \<or>
    (cs = \<lparr>cs_stage_id = PAINT_STAGE, cs_modules = []\<rparr> \<and>
     (\<forall>ss \<in> set (pq_sorted_stages rq). ss_module_ids ss \<noteq> [] \<longrightarrow> ss_stage_id ss \<noteq> PAINT_STAGE))"
proof -
  let ?css = "requested_stages rq"
  let ?lay = "filter (\<lambda>cs. prefix ''Layer::'' (cs_stage_id cs)) ?css"
  have sub: "set (filter P ?css) \<subseteq> set ?css" for P by (rule filter_is_subset)
  have "cs \<in> set ?css \<or> cs \<in> set (insert_paint_stage ?lay)"
    using assms(2) sub last_of_filter [of _ ?css]
    unfolding plan_stages_def set_append plan_buckets [OF assms(1)] by blast
  with insert_paint_stage_set [of ?lay] sub
  consider "cs \<in> set ?css" | "cs = \<lparr>cs_stage_id = PAINT_STAGE, cs_modules = []\<rparr>"
      "\<not> list_ex (\<lambda>s. cs_stage_id s = PAINT_STAGE) ?lay"
    by (cases "list_ex (\<lambda>s. cs_stage_id s = PAINT_STAGE) ?lay") (simp_all only: if_True if_False, blast+)
  then show ?thesis
  proof cases
    case 1
    then show ?thesis by (auto simp: requested_stages_def)
  next
    case 2
    have "prefix ''Layer::'' PAINT_STAGE" by code_simp
    then have "prefix ''Layer::'' (ss_stage_id ss)" if "ss_stage_id ss = PAINT_STAGE" for ss using that by simp
    then show ?thesis using 2 by (fastforce simp: list_ex_iff requested_stages_def compiled_def)
  qed
qed

lemma build_execution_plan_ok: "plan_request_ok rq \<Longrightarrow> \<exists>plan diags'. build_execution_plan rq diags = Inr (plan, diags')"
  by (simp add: build_execution_plan_Inr Let_def)

lemma live_compiled_ids:
  assumes load: "load_live_modules_for_plan_manifest_first env roots par integrated entries = Some (Inr (out, tc))"
    and ss: "ss \<in> set (lo_sorted_stages out)"
  shows "stage_module_ids (compiled (plan_bindings (live_request (lo_sorted_stages out) (lo_bindings out) rendered layers regions)) ss)
    = ss_module_ids ss"
proof -
  let ?rq = "live_request (lo_sorted_stages out) (lo_bindings out) rendered layers regions"
  note dist = live_load_Inr(1) [OF load]
  have d: "distinct (map (lm_id \<circ> mb_module) (pq_module_bindings ?rq))" using dist by (simp add: comp_def)
  have "cm_module_id (compile_module (the (btm_get (plan_bindings ?rq) i))) = i" if i: "i \<in> set (ss_module_ids ss)" for i
  proof -
    obtain b where b: "b \<in> set (lo_bindings out)" "lm_id (lb_module b) = i"
      using sorted_stage_binding [OF load ss i] .
    have "btm_get (plan_bindings ?rq) i = binding_of (pq_module_bindings ?rq) i"
      unfolding plan_bindings_def by (rule fold_bindings_get [OF d])
    then show ?thesis using live_binding_of [OF dist b(1)] b(2) by (simp add: compile_module_def Let_def)
  qed
  then show ?thesis by (simp add: stage_module_ids_def compiled_def map_idI)
qed

lemma live_plan_stage_ids:
  assumes load: "load_live_modules_for_plan_manifest_first env roots par integrated entries = Some (Inr (out, tc))"
    and plan: "build_execution_plan (live_request (lo_sorted_stages out) (lo_bindings out) rendered layers regions) diags
      = Inr (plan, diags')"
    and cs: "cs \<in> set (plan_stages plan)"
  shows "distinct (stage_module_ids cs) \<and>
    set (stage_module_ids cs) = (lm_id \<circ> lb_module) ` {b \<in> set (lo_bindings out). lm_stage (lb_module b) = cs_stage_id cs} \<and>
    (\<forall>u v r. stage_depends (cs_stage_id cs) (map (producer_of_module \<circ> lb_module) (lo_bindings out)) u v r \<longrightarrow>
       ordered_in (stage_module_ids cs) u v)"
proof -
  let ?ps = "map (producer_of_module \<circ> lb_module) (lo_bindings out)"
  note sorted = live_load_Inr(2) [OF load]
  have ids: "pr_id ` {p \<in> set ?ps. pr_stage p = st} = (lm_id \<circ> lb_module) ` {b \<in> set (lo_bindings out). lm_stage (lb_module b) = st}" for st
    by (force simp: producer_of_module_def)
  from plan_stages_compiled [OF plan cs] show ?thesis
  proof (elim disjE conjE bexE)
    fix ss assume ss: "ss \<in> set (pq_sorted_stages (live_request (lo_sorted_stages out) (lo_bindings out) rendered layers regions))"
      and c: "cs = compiled (plan_bindings (live_request (lo_sorted_stages out) (lo_bindings out) rendered layers regions)) ss"
    have ss': "ss \<in> set (lo_sorted_stages out)" using ss by simp
    have top: "topological_sort (build_intra_stage_dag (ss_stage_id ss) ?ps) = Some (Inr (ss_module_ids ss))"
      by (rule sort_stages_Inr(2) [OF sorted ss'])
    have st: "cs_stage_id cs = ss_stage_id ss" by (simp add: c compiled_def)
    have "stage_module_ids cs = ss_module_ids ss" unfolding c by (rule live_compiled_ids [OF load ss'])
    then show ?thesis
      using sorted_stage_order [OF top] unfolding st ids [symmetric] by auto
  next
    assume c: "cs = \<lparr>cs_stage_id = PAINT_STAGE, cs_modules = []\<rparr>"
      and none: "\<forall>ss \<in> set (pq_sorted_stages (live_request (lo_sorted_stages out) (lo_bindings out) rendered layers regions)).
        ss_module_ids ss \<noteq> [] \<longrightarrow> ss_stage_id ss \<noteq> PAINT_STAGE"
    have empty: "{p \<in> set ?ps. pr_stage p = PAINT_STAGE} = {}"
    proof (rule ccontr)
      assume ne: "{p \<in> set ?ps. pr_stage p = PAINT_STAGE} \<noteq> {}"
      then have "set (node_ids (build_intra_stage_dag PAINT_STAGE ?ps)) \<noteq> {}"
        unfolding build_intra_stage_dag_ids_set by simp
      then have "build_intra_stage_dag PAINT_STAGE ?ps \<noteq> []" by auto
      moreover have "PAINT_STAGE \<in> set STAGE_ORDER" by code_simp
      ultimately have "PAINT_STAGE \<in> set (map ss_stage_id (lo_sorted_stages out))"
        unfolding sort_stages_Inr(1) [OF sorted] by simp
      then obtain ss where ss: "ss \<in> set (lo_sorted_stages out)" "ss_stage_id ss = PAINT_STAGE" by auto
      then have "set (ss_module_ids ss) \<noteq> {}"
        using sorted_stage_order(2) [OF sort_stages_Inr(2) [OF sorted ss(1)]] ne by (simp add: ss(2))
      then show False using none ss by auto
    qed
    then have "\<not> stage_depends PAINT_STAGE ?ps u v r" for u v r unfolding stage_depends_def by blast
    then show ?thesis unfolding ids [symmetric] c using empty by (simp add: stage_module_ids_def)
  qed
qed

text \<open>C1: what is loaded can be run.  When loading succeeds and the layer and region budgets hold,
  the execution plan is built (no missing or duplicate binding, no stage mismatch, no undeclared
  config key is possible), every stage of the plan runs exactly the loaded modules of that stage,
  each once, and it runs them in an order that respects every dependency between them: a writer
  before its readers, a required module before the one that requires it.\<close>

theorem live_plan_runs_what_was_loaded:
  assumes "load_live_modules_for_plan_manifest_first env roots par integrated entries = Some (Inr (out, tc))"
    and "\<forall>l \<in> set layers. gl_index l < MAX_LAYER_INDEX" and "length regions \<le> DEFAULT_REGION_MAP_CAP"
  shows "\<exists>plan diags'.
    build_live_execution_plan (lo_sorted_stages out) (lo_bindings out) rendered layers regions diags = Inr (plan, diags') \<and>
    (\<forall>cs \<in> set (plan_stages plan).
       distinct (stage_module_ids cs) \<and>
       set (stage_module_ids cs) = (lm_id \<circ> lb_module) ` {b \<in> set (lo_bindings out). lm_stage (lb_module b) = cs_stage_id cs} \<and>
       (\<forall>u v r. stage_depends (cs_stage_id cs) (map (producer_of_module \<circ> lb_module) (lo_bindings out)) u v r \<longrightarrow>
          ordered_in (stage_module_ids cs) u v))"
proof -
  have "plan_request_ok (live_request (lo_sorted_stages out) (lo_bindings out) rendered layers regions)"
    by (rule live_request_ok [OF assms])
  then obtain plan diags' where plan: "build_execution_plan
      (live_request (lo_sorted_stages out) (lo_bindings out) rendered layers regions) diags = Inr (plan, diags')"
    using build_execution_plan_ok by blast
  show ?thesis
    unfolding build_live_execution_plan_def plan
    using live_plan_stage_ids [OF assms(1) plan] by blast
qed

section \<open>What the startup gate lets through\<close>

lemma version_errors_push [report_simps]:
  "version_errors (push_errors pass ds report) = version_errors report @
     (if pass = IrVersionCompatibility \<or> pass = HostVersionCompatibility
      then map (\<lambda>d. \<lparr>dd_pass = pass, dd_level = LError, dd_detail = d\<rparr>) ds else [])"
  by (auto simp: version_errors_def push_errors_errors filter_empty_conv filter_id_conv)

lemma version_errors_warn [report_simps]: "version_errors (push_warnings pass ds report) = version_errors report"
  by (simp add: version_errors_def push_warnings_errors)

lemma version_errors_cycles: "validate_cycles sds report = Some report' \<Longrightarrow> version_errors report' = version_errors report"
proof (induction sds arbitrary: report)
  case (Cons sd sds)
  have "version_errors (push_error CycleDetection e report) = version_errors report" for e
    by (simp add: version_errors_def push_error_def)
  then show ?case using Cons.prems Cons.IH by (auto split: option.splits sum.splits)
qed simp

lemma version_errors_startup:
  assumes "validate_startup_dag rq = Some report"
  shows "version_errors report =
    map (\<lambda>d. \<lparr>dd_pass = IrVersionCompatibility, dd_level = LError, dd_detail = d\<rparr>) (ir_version_errors rq) @
    map (\<lambda>d. \<lparr>dd_pass = HostVersionCompatibility, dd_level = LError, dd_detail = d\<rparr>) (host_version_errors rq)"
proof -
  have "version_errors empty_report = []" by (simp add: version_errors_def empty_report_def)
  then show ?thesis
    using assms
    by (auto simp: validate_startup_dag_def Let_def pass_defs report_simps split: option.splits
        dest!: version_errors_cycles)
qed

lemma version_errors_none:
  "ir_version_errors rq = [] \<and> host_version_errors rq = [] \<longleftrightarrow>
     (\<forall>m \<in> set (rq_modules rq). \<not> semver_lt (rq_host_ir_schema_version rq) (lm_min_ir_schema m) \<and>
        semver_lt (rq_host_ir_schema_version rq) (lm_max_ir_schema m) \<and>
        \<not> semver_lt (rq_host_version rq) (lm_min_host_version m))"
  unfolding ir_version_errors_def host_version_errors_def comprehension_Nil by blast

definition versions_fit :: "semver \<Rightarrow> semver \<Rightarrow> loaded_module \<Rightarrow> bool" where
  "versions_fit ir_version host_version m \<longleftrightarrow>
     \<not> semver_lt ir_version (lm_min_ir_schema m) \<and> semver_lt ir_version (lm_max_ir_schema m) \<and>
     \<not> semver_lt host_version (lm_min_host_version m)"

text \<open>C37: the startup gate never panics, and it refuses a slice exactly when some loaded module's
  declared version range excludes this host; every other validation error only becomes an advisory,
  and none of them is dropped.\<close>

theorem startup_gate_blocks_on_versions_only:
  "\<exists>report. validate_startup_dag (live_validation_request builtins ir host out) = Some report \<and>
     (if list_all (versions_fit ir host) (map lb_module (lo_bindings out))
      then startup_gate builtins ir host out = Some (Inr (dr_errors report))
      else \<exists>e es. startup_gate builtins ir host out = Some (Inl (e # es)))"
proof -
  let ?rq = "live_validation_request builtins ir host out"
  have "\<forall>sd \<in> set (rq_stage_dags ?rq). distinct (node_ids (sd_nodes sd))"
    using stage_dag_ids_distinct by (auto simp: live_validation_request_def Let_def)
  then have "\<exists>report. validate_startup_dag ?rq = Some report"
    unfolding validate_startup_dag_def Let_def using validate_cycles_total
    by (metis (no_types, lifting) option.case(2))
  then obtain report where r: "validate_startup_dag ?rq = Some report" by blast
  have rq: "rq_modules ?rq = map lb_module (lo_bindings out)" "rq_host_ir_schema_version ?rq = ir" "rq_host_version ?rq = host"
    by (simp_all add: live_validation_request_def Let_def)
  have fit: "version_errors report = [] \<longleftrightarrow> list_all (versions_fit ir host) (map lb_module (lo_bindings out))"
    using version_errors_none [of ?rq]
    unfolding version_errors_startup [OF r] rq list_all_iff versions_fit_def by simp
  show ?thesis
  proof (cases "version_errors report = []")
    case True
    then have "filter (\<lambda>d. \<not> (dd_pass d = IrVersionCompatibility \<or> dd_pass d = HostVersionCompatibility)) (dr_errors report)
        = dr_errors report"
      unfolding version_errors_def filter_empty_conv filter_id_conv by blast
    moreover have "list_all (versions_fit ir host) (map lb_module (lo_bindings out))" using True fit by blast
    ultimately show ?thesis using r True by (simp add: startup_gate_def)
  next
    case False
    then obtain e es where "version_errors report = e # es" by (cases "version_errors report") auto
    moreover have "\<not> list_all (versions_fit ir host) (map lb_module (lo_bindings out))" using False fit by blast
    ultimately show ?thesis using r by (simp add: startup_gate_def)
  qed
qed

section \<open>A concrete load\<close>

definition sample_live_module :: "module_id \<Rightarrow> string list \<Rightarrow> string list \<Rightarrow> loaded_module" where
  "sample_live_module i reads writes =
     (builder_new i \<lparr>major = 1, minor = 0, patch = 0\<rparr> ''Layer::Infill'' (i @ ''.wasm''))
       \<lparr>lm_ir_reads := reads, lm_ir_writes := writes\<rparr>"

definition sample_live_env :: "(unit, string, string) live_env" where
  "sample_live_env =
     \<lparr>le_discover = (\<lambda>root. Inr [''a.toml'', ''z.toml'']),
      le_ingest = (\<lambda>p. Inr (if p = ''a.toml'' then sample_live_module ''a'' [''InfillIR''] []
                             else sample_live_module ''z'' [] [''InfillIR''], [])),
      le_ingest_text = (\<lambda>toml origin. Inr (sample_live_module ''unused'' [] [], [])),
      le_ingest_config = (\<lambda>ms. Inr \<lparr>tc_selector_values = Map.empty, tc_global = None\<rparr>),
      le_read_wasm = (\<lambda>p. Inr p), le_compile = (\<lambda>b. Inr b)\<rparr>"

lemma sample_live_load:
  "case load_live_modules_for_plan_manifest_first sample_live_env [''mods''] 4 [] ([] :: (module_id \<times> unit) list) of
     Some (Inr (out, tc)) \<Rightarrow>
       map lb_module (lo_bindings out) = [sample_live_module ''a'' [''InfillIR''] [], sample_live_module ''z'' [] [''InfillIR'']]
   | _ \<Rightarrow> False"
  by code_simp

theorem live_plan_runs_what_was_loaded_witness:
  "\<exists>out plan diags'.
     map lb_module (lo_bindings (out :: (unit, string) live_module_load_output)) =
       [sample_live_module ''a'' [''InfillIR''] [], sample_live_module ''z'' [] [''InfillIR'']] \<and>
     build_live_execution_plan (lo_sorted_stages out) (lo_bindings out) [] [] ([] :: (region_key \<times> unit) list) [] = Inr (plan, diags') \<and>
     (\<forall>cs \<in> set (plan_stages plan). cs_stage_id cs = ''Layer::Infill'' \<longrightarrow> ordered_in (stage_module_ids cs) ''z'' ''a'')"
proof -
  let ?a = "sample_live_module ''a'' [''InfillIR''] []" and ?z = "sample_live_module ''z'' [] [''InfillIR'']"
  obtain out tc where
    load: "load_live_modules_for_plan_manifest_first sample_live_env [''mods''] 4 [] ([] :: (module_id \<times> unit) list) = Some (Inr (out, tc))"
    and ms: "map lb_module (lo_bindings out) = [?a, ?z]"
    using sample_live_load by (auto split: option.splits sum.splits)
  have "map (producer_of_module \<circ> lb_module) (lo_bindings out) = map producer_of_module (map lb_module (lo_bindings out))"
    by simp
  then have ps: "map (producer_of_module \<circ> lb_module) (lo_bindings out) = [producer_of_module ?a, producer_of_module ?z]"
    unfolding ms by simp
  have dep: "stage_depends ''Layer::Infill'' [producer_of_module ?a, producer_of_module ?z] ''z'' ''a'' (IrWriteRead ''InfillIR'')"
    by (simp add: stage_depends_def producer_of_module_def sample_live_module_def builder_new_def)
  from live_plan_runs_what_was_loaded [OF load, of "[]" "[] :: (region_key \<times> unit) list" "[]" "[]"]
  obtain plan diags' where
    p: "build_live_execution_plan (lo_sorted_stages out) (lo_bindings out) [] [] ([] :: (region_key \<times> unit) list) [] = Inr (plan, diags')"
    and s: "\<forall>cs \<in> set (plan_stages plan). \<forall>u v r.
      stage_depends (cs_stage_id cs) [producer_of_module ?a, producer_of_module ?z] u v r \<longrightarrow> ordered_in (stage_module_ids cs) u v"
    unfolding ps by auto
  have order: "\<forall>cs \<in> set (plan_stages plan). cs_stage_id cs = ''Layer::Infill'' \<longrightarrow> ordered_in (stage_module_ids cs) ''z'' ''a''"
  proof (intro ballI impI)
    fix cs assume cs: "cs \<in> set (plan_stages plan)" "cs_stage_id cs = ''Layer::Infill''"
    show "ordered_in (stage_module_ids cs) ''z'' ''a''"
      using s [rule_format, OF cs(1)] dep unfolding cs(2) .
  qed
  show ?thesis by (intro exI conjI) (rule ms, rule p, rule order)
qed

end
