(* ===== verification/Floats.thy ===== *)
theory Floats
  imports Manifest
begin

text \<open>
  Rust's binary floating-point numbers and the text operations of the standard library the config
  crates use.  An \<^verbatim>\<open>f64\<close> is its 64-bit pattern, an \<^verbatim>\<open>f32\<close> its 32-bit
  pattern; arithmetic is exact rational arithmetic followed by one rounding to nearest, ties to even,
  as IEEE 754 prescribes.  Not-a-number results are the canonical quiet pattern.
\<close>

section \<open>Binary formats\<close>

text \<open>A format is given by its number \<open>mb\<close> of stored mantissa bits and its number \<open>eb\<close> of exponent
  bits; a bit pattern is a non-negative integer.\<close>

function ilog2 :: "int \<Rightarrow> int" where
  "ilog2 n = (if n < 2 then 0 else 1 + ilog2 (n div 2))"
  by pat_completeness auto

termination
  by (relation "measure nat") auto

declare ilog2.simps [simp del]

text \<open>The exponent \<open>e\<close> with \<open>2\<^sup>e \<le> n / d < 2\<^sup>e\<^sup>+\<^sup>1\<close>.\<close>

definition quotient_log2 :: "int \<Rightarrow> int \<Rightarrow> int" where
  "quotient_log2 n d =
     (let k = ilog2 n - ilog2 d
      in if n * 2 ^ nat (- k) < d * 2 ^ nat k then k - 1 else k)"

definition div_half_even :: "int \<Rightarrow> int \<Rightarrow> int" where
  "div_half_even n d =
     (let q = n div d; r = n mod d
      in if 2 * r < d \<or> (2 * r = d \<and> even q) then q else q + 1)"

text \<open>Rounding the positive quotient \<open>n / d\<close> to a format: the significand carries its leading bit
  into the exponent field, and a result past the largest finite number is the infinity.\<close>

definition fp_round :: "nat \<Rightarrow> nat \<Rightarrow> int \<Rightarrow> int \<Rightarrow> int" where
  "fp_round mb eb n d =
     (if n = 0 then 0
      else let emin = 2 - 2 ^ (eb - 1);
               e = max emin (quotient_log2 n d);
               q = e - int mb;
               m = div_half_even (n * 2 ^ nat (- q)) (d * 2 ^ nat q)
           in min ((e - emin) * 2 ^ mb + m) ((2 ^ eb - 1) * 2 ^ mb))"

definition fp_magnitude :: "nat \<Rightarrow> nat \<Rightarrow> int \<Rightarrow> int" where
  "fp_magnitude mb eb b = b mod 2 ^ (mb + eb)"

definition fp_neg :: "nat \<Rightarrow> nat \<Rightarrow> int \<Rightarrow> bool" where
  "fp_neg mb eb b \<longleftrightarrow> 2 ^ (mb + eb) \<le> b"

definition fp_with_sign :: "nat \<Rightarrow> nat \<Rightarrow> bool \<Rightarrow> int \<Rightarrow> int" where
  "fp_with_sign mb eb neg m = (if neg then 2 ^ (mb + eb) + m else m)"

definition fp_inf :: "nat \<Rightarrow> nat \<Rightarrow> int" where
  "fp_inf mb eb = (2 ^ eb - 1) * 2 ^ mb"

text \<open>The exact value of a finite pattern's magnitude as numerator and denominator.\<close>

definition fp_fraction :: "nat \<Rightarrow> nat \<Rightarrow> int \<Rightarrow> int \<times> int" where
  "fp_fraction mb eb m =
     (let f = m div 2 ^ mb; s = m mod 2 ^ mb;
          sig = (if f = 0 then s else 2 ^ mb + s);
          q = max 1 f - (2 ^ (eb - 1) - 1) - int mb
      in (sig * 2 ^ nat q, 2 ^ nat (- q)))"

section \<open>f64\<close>

definition f64_magnitude :: "u64 \<Rightarrow> int" where
  "f64_magnitude x = fp_magnitude 52 11 (uint x)"

definition f64_neg :: "u64 \<Rightarrow> bool" where
  "f64_neg x \<longleftrightarrow> fp_neg 52 11 (uint x)"

definition f64_is_nan :: "u64 \<Rightarrow> bool" where
  "f64_is_nan x \<longleftrightarrow> fp_inf 52 11 < f64_magnitude x"

definition f64_is_finite :: "u64 \<Rightarrow> bool" where
  "f64_is_finite x \<longleftrightarrow> f64_magnitude x < fp_inf 52 11"

definition f64_NAN :: u64 where
  "f64_NAN = 0x7FF8000000000000"

definition f64_make :: "bool \<Rightarrow> int \<Rightarrow> u64" where
  "f64_make neg m = of_int (fp_with_sign 52 11 neg m)"

text \<open>Comparison of non-NaN patterns is comparison of these integers; both zeros are 0.\<close>

definition f64_key :: "u64 \<Rightarrow> int" where
  "f64_key x = (if f64_neg x then - f64_magnitude x else f64_magnitude x)"

definition f64_lt :: "u64 \<Rightarrow> u64 \<Rightarrow> bool" where
  "f64_lt x y \<longleftrightarrow> \<not> f64_is_nan x \<and> \<not> f64_is_nan y \<and> f64_key x < f64_key y"

definition f64_le :: "u64 \<Rightarrow> u64 \<Rightarrow> bool" where
  "f64_le x y \<longleftrightarrow> \<not> f64_is_nan x \<and> \<not> f64_is_nan y \<and> f64_key x \<le> f64_key y"

definition f64_eq :: "u64 \<Rightarrow> u64 \<Rightarrow> bool" where
  "f64_eq x y \<longleftrightarrow> \<not> f64_is_nan x \<and> \<not> f64_is_nan y \<and> f64_key x = f64_key y"

text \<open>\<^verbatim>\<open>f64::max\<close> and \<^verbatim>\<open>f64::min\<close> ignore a NaN operand; of two equal operands
  (zeros of either sign) the first is returned.\<close>

definition f64_max :: "u64 \<Rightarrow> u64 \<Rightarrow> u64" where
  "f64_max x y = (if f64_is_nan x then y else if f64_lt x y then y else x)"

definition f64_min :: "u64 \<Rightarrow> u64 \<Rightarrow> u64" where
  "f64_min x y = (if f64_is_nan x then y else if f64_lt y x then y else x)"

text \<open>\<^verbatim>\<open>f64::total_cmp\<close> compares these integers.\<close>

definition f64_total_key :: "u64 \<Rightarrow> int" where
  "f64_total_key x = (if f64_neg x then - f64_magnitude x - 1 else f64_magnitude x)"

definition f64_negate :: "u64 \<Rightarrow> u64" where
  "f64_negate x = f64_make (\<not> f64_neg x) (f64_magnitude x)"

definition f64_fraction :: "u64 \<Rightarrow> int \<times> int" where
  "f64_fraction x =
     (let (n, d) = fp_fraction 52 11 (f64_magnitude x)
      in (if f64_neg x then - n else n, d))"

text \<open>Rounding of an exact result; \<open>zneg\<close> is the sign of an exact zero.\<close>

definition f64_of_fraction :: "bool \<Rightarrow> int \<Rightarrow> int \<Rightarrow> u64" where
  "f64_of_fraction zneg n d =
     f64_make (if n = 0 then zneg else n < 0) (fp_round 52 11 \<bar>n\<bar> d)"

definition f64_add :: "u64 \<Rightarrow> u64 \<Rightarrow> u64" where
  "f64_add x y =
     (if f64_is_nan x \<or> f64_is_nan y then f64_NAN
      else if \<not> f64_is_finite x
           then (if \<not> f64_is_finite y \<and> f64_neg x \<noteq> f64_neg y then f64_NAN else x)
      else if \<not> f64_is_finite y then y
      else let (nx, dx) = f64_fraction x; (ny, dy) = f64_fraction y
           in f64_of_fraction (f64_neg x \<and> f64_neg y) (nx * dy + ny * dx) (dx * dy))"

definition f64_sub :: "u64 \<Rightarrow> u64 \<Rightarrow> u64" where
  "f64_sub x y = f64_add x (f64_negate y)"

definition f64_mul :: "u64 \<Rightarrow> u64 \<Rightarrow> u64" where
  "f64_mul x y =
     (let neg = (f64_neg x \<noteq> f64_neg y)
      in if f64_is_nan x \<or> f64_is_nan y then f64_NAN
         else if \<not> f64_is_finite x
              then (if f64_magnitude y = 0 then f64_NAN else f64_make neg (fp_inf 52 11))
         else if \<not> f64_is_finite y
              then (if f64_magnitude x = 0 then f64_NAN else f64_make neg (fp_inf 52 11))
         else let (nx, dx) = f64_fraction x; (ny, dy) = f64_fraction y
              in f64_of_fraction neg (nx * ny) (dx * dy))"

definition f64_div :: "u64 \<Rightarrow> u64 \<Rightarrow> u64" where
  "f64_div x y =
     (let neg = (f64_neg x \<noteq> f64_neg y)
      in if f64_is_nan x \<or> f64_is_nan y then f64_NAN
         else if \<not> f64_is_finite x
              then (if f64_is_finite y then f64_make neg (fp_inf 52 11) else f64_NAN)
         else if \<not> f64_is_finite y then f64_make neg 0
         else if f64_magnitude y = 0
              then (if f64_magnitude x = 0 then f64_NAN else f64_make neg (fp_inf 52 11))
         else let (nx, dx) = f64_fraction x; (ny, dy) = f64_fraction y
              in f64_make neg (fp_round 52 11 (\<bar>nx\<bar> * dy) (dx * \<bar>ny\<bar>)))"

text \<open>\<^verbatim>\<open>as f64\<close> from a signed integer, \<^verbatim>\<open>as i64\<close> back (saturating, NaN to 0), and
  the test \<^verbatim>\<open>fract() == 0.0\<close> on a finite number.\<close>

definition f64_of_int :: "int \<Rightarrow> u64" where
  "f64_of_int i = f64_of_fraction False i 1"

definition f64_of_i64 :: "u64 \<Rightarrow> u64" where
  "f64_of_i64 i = f64_of_int (sint i)"

definition f64_to_i64 :: "u64 \<Rightarrow> u64" where
  "f64_to_i64 x =
     (if f64_is_nan x then 0
      else let (n, d) = fp_fraction 52 11 (f64_magnitude x);
               t = (if f64_neg x then - (n div d) else n div d)
           in of_int (max (- (2 ^ 63)) (min (2 ^ 63 - 1) t)))"

definition f64_is_integral :: "u64 \<Rightarrow> bool" where
  "f64_is_integral x \<longleftrightarrow> (let (n, d) = fp_fraction 52 11 (f64_magnitude x) in d dvd n)"

section \<open>f32\<close>

definition f32_of_f64 :: "u64 \<Rightarrow> u32" where
  "f32_of_f64 x =
     of_int (if f64_is_nan x then 0x7FC00000
             else fp_with_sign 23 8 (f64_neg x)
               (if f64_is_finite x
                then (let (n, d) = fp_fraction 52 11 (f64_magnitude x) in fp_round 23 8 n d)
                else fp_inf 23 8))"

definition f64_of_f32 :: "u32 \<Rightarrow> u64" where
  "f64_of_f32 x =
     (let m = fp_magnitude 23 8 (uint x); neg = fp_neg 23 8 (uint x)
      in if fp_inf 23 8 < m then f64_NAN
         else f64_make neg (if m = fp_inf 23 8 then fp_inf 52 11
                else (let (n, d) = fp_fraction 23 8 m in fp_round 52 11 n d)))"

definition f32_is_finite :: "u32 \<Rightarrow> bool" where
  "f32_is_finite x \<longleftrightarrow> fp_magnitude 23 8 (uint x) < fp_inf 23 8"

definition f32_of_i64 :: "u64 \<Rightarrow> u32" where
  "f32_of_i64 i =
     of_int (fp_with_sign 23 8 (sint i < 0) (fp_round 23 8 \<bar>sint i\<bar> 1))"

section \<open>Text\<close>

text \<open>The UTF-8 encodings of the characters with the Unicode property \<^verbatim>\<open>White_Space\<close>;
  \<^verbatim>\<open>str::trim\<close> removes them from both ends.\<close>

definition bytes :: "nat list \<Rightarrow> string" where
  "bytes = map char_of"

definition WHITE_SPACE :: "string list" where
  "WHITE_SPACE =
     map (\<lambda>b. bytes [b]) [9, 10, 11, 12, 13, 32] @
     map (\<lambda>b. bytes [0xC2, b]) [0x85, 0xA0] @
     [bytes [0xE1, 0x9A, 0x80]] @
     map (\<lambda>b. bytes [0xE2, 0x80, b])
       [0x80, 0x81, 0x82, 0x83, 0x84, 0x85, 0x86, 0x87, 0x88, 0x89, 0x8A, 0xA8, 0xA9, 0xAF] @
     [bytes [0xE2, 0x81, 0x9F], bytes [0xE3, 0x80, 0x80]]"

lemma white_space_nonempty: "w \<in> set WHITE_SPACE \<Longrightarrow> 0 < length w"
  by (auto simp: WHITE_SPACE_def bytes_def)

lemma find_Some_white_space: "find P WHITE_SPACE = Some w \<Longrightarrow> P w \<and> 0 < length w"
  using white_space_nonempty [of w] nth_mem [of _ WHITE_SPACE] by (auto simp only: find_Some_iff)

definition leading_space :: "string \<Rightarrow> string option" where
  "leading_space s = find (\<lambda>w. prefix w s) WHITE_SPACE"

definition trailing_space :: "string \<Rightarrow> string option" where
  "trailing_space s = find (\<lambda>w. suffix w s) WHITE_SPACE"

lemma leading_space_shorter: "leading_space s = Some w \<Longrightarrow> length s - length w < length s"
  using find_Some_white_space [of "\<lambda>w. prefix w s" w] prefix_length_le [of w s]
  by (simp add: leading_space_def del: length_greater_0_conv)

lemma trailing_space_shorter: "trailing_space s = Some w \<Longrightarrow> length s - length w < length s"
  using find_Some_white_space [of "\<lambda>w. suffix w s" w] suffix_length_le [of w s]
  by (simp add: trailing_space_def del: length_greater_0_conv)

function trim_start :: "string \<Rightarrow> string" where
  "trim_start s = (case leading_space s of None \<Rightarrow> s | Some w \<Rightarrow> trim_start (drop (length w) s))"
  by pat_completeness auto

termination
  by (relation "measure length") (auto dest: leading_space_shorter)

function trim_end :: "string \<Rightarrow> string" where
  "trim_end s =
     (case trailing_space s of None \<Rightarrow> s | Some w \<Rightarrow> trim_end (take (length s - length w) s))"
  by pat_completeness auto

termination
  by (relation "measure length") (auto dest: trailing_space_shorter)

declare trim_start.simps [simp del] trim_end.simps [simp del]

definition trim :: "string \<Rightarrow> string" where
  "trim s = trim_end (trim_start s)"

definition ascii_lower :: "char \<Rightarrow> char" where
  "ascii_lower c = (let n = (of_char c :: nat) in if 65 \<le> n \<and> n \<le> 90 then char_of (n + 32) else c)"

definition eq_ignore_ascii_case :: "string \<Rightarrow> string \<Rightarrow> bool" where
  "eq_ignore_ascii_case s t \<longleftrightarrow> map ascii_lower s = map ascii_lower t"

definition strip_suffix_char :: "char \<Rightarrow> string \<Rightarrow> string option" where
  "strip_suffix_char c s = (if s \<noteq> [] \<and> last s = c then Some (butlast s) else None)"

text \<open>\<^verbatim>\<open>str::rsplit_once(c)\<close> and \<^verbatim>\<open>str::split_once(c)\<close>.\<close>

definition split_once :: "char \<Rightarrow> string \<Rightarrow> (string \<times> string) option" where
  "split_once c s =
     (case dropWhile (\<lambda>x. x \<noteq> c) s of [] \<Rightarrow> None | _ # r \<Rightarrow> Some (takeWhile (\<lambda>x. x \<noteq> c) s, r))"

definition rsplit_once :: "char \<Rightarrow> string \<Rightarrow> (string \<times> string) option" where
  "rsplit_once c s = map_option (\<lambda>(a, b). (rev b, rev a)) (split_once c (rev s))"

text \<open>\<^verbatim>\<open>parse::<i64>\<close>: an optional sign, at least one digit, and no overflow.\<close>

definition split_sign :: "string \<Rightarrow> bool \<times> string" where
  "split_sign s = (if prefix ''-'' s then (True, tl s) else if prefix ''+'' s then (False, tl s) else (False, s))"

definition parse_i64 :: "string \<Rightarrow> u64 option" where
  "parse_i64 s =
     (let (neg, body) = split_sign s
      in if body = [] then None
         else case parse_digits 0 body of
                None \<Rightarrow> None
              | Some n \<Rightarrow> let i = (if neg then - int n else int n)
                          in if - (2 ^ 63) \<le> i \<and> i < 2 ^ 63 then Some (of_int i) else None)"

text \<open>\<^verbatim>\<open>parse::<f64>\<close>: an optional sign, then \<^verbatim>\<open>inf\<close>, \<^verbatim>\<open>infinity\<close>,
  \<^verbatim>\<open>nan\<close> in any case, or digits with an optional point and an optional exponent, rounded once.\<close>

definition is_digit_char :: "char \<Rightarrow> bool" where
  "is_digit_char c \<longleftrightarrow> digit_value c \<noteq> None"

definition parse_exponent :: "string \<Rightarrow> int option" where
  "parse_exponent s =
     (case s of
        [] \<Rightarrow> Some 0
      | c # r \<Rightarrow>
          if ascii_lower c \<noteq> CHR ''e'' then None
          else let (neg, body) = split_sign r
               in if body = [] then None
                  else map_option (\<lambda>n. if neg then - int n else int n) (parse_digits 0 body))"

definition parse_decimal :: "string \<Rightarrow> (int \<times> int) option" where
  "parse_decimal s =
     (let ip = takeWhile is_digit_char s;
          r = dropWhile is_digit_char s;
          fp = (if prefix ''.'' r then takeWhile is_digit_char (tl r) else []);
          r' = (if prefix ''.'' r then dropWhile is_digit_char (tl r) else r)
      in if ip = [] \<and> fp = [] then None
         else case (parse_digits 0 (ip @ fp), parse_exponent r') of
                (Some m, Some e) \<Rightarrow> Some (int m, e - int (length fp))
              | _ \<Rightarrow> None)"

definition parse_float :: "nat \<Rightarrow> nat \<Rightarrow> int \<Rightarrow> string \<Rightarrow> int option" where
  "parse_float mb eb nan s =
     (let (neg, body) = split_sign s; low = map ascii_lower body
      in if low = ''nan'' then Some nan
         else if low = ''inf'' \<or> low = ''infinity'' then Some (fp_with_sign mb eb neg (fp_inf mb eb))
         else map_option (\<lambda>(m, e). fp_with_sign mb eb neg (fp_round mb eb (m * 10 ^ nat e) (10 ^ nat (- e))))
                (parse_decimal body))"

definition parse_f64 :: "string \<Rightarrow> u64 option" where
  "parse_f64 s = map_option of_int (parse_float 52 11 (uint f64_NAN) s)"

definition parse_f32 :: "string \<Rightarrow> u32 option" where
  "parse_f32 s = map_option of_int (parse_float 23 8 0x7FC00000 s)"

text \<open>\<^verbatim>\<open>to_string\<close> of a signed integer.\<close>

definition show_i64 :: "u64 \<Rightarrow> string" where
  "show_i64 i = (if sint i < 0 then CHR ''-'' # dec_nat (nat (- sint i)) else dec_nat (nat (sint i)))"

section \<open>Laws of comparison\<close>

lemma f64_le_refl: "\<not> f64_is_nan x \<Longrightarrow> f64_le x x"
  by (simp add: f64_le_def)

lemma f64_le_trans: "f64_le x y \<Longrightarrow> f64_le y z \<Longrightarrow> f64_le x z"
  by (auto simp: f64_le_def)

lemma f64_le_lt_trans: "f64_le x y \<Longrightarrow> f64_lt y z \<Longrightarrow> f64_lt x z"
  by (auto simp: f64_le_def f64_lt_def)

lemma f64_lt_le_trans: "f64_lt x y \<Longrightarrow> f64_le y z \<Longrightarrow> f64_lt x z"
  by (auto simp: f64_le_def f64_lt_def)

lemma f64_lt_imp_le: "f64_lt x y \<Longrightarrow> f64_le x y"
  by (auto simp: f64_le_def f64_lt_def)

lemma f64_lt_irrefl [simp]: "\<not> f64_lt x x"
  by (simp add: f64_lt_def)

lemma f64_not_lt: "\<not> f64_is_nan x \<Longrightarrow> \<not> f64_is_nan y \<Longrightarrow> \<not> f64_lt x y \<longleftrightarrow> f64_le y x"
  by (auto simp: f64_le_def f64_lt_def)

lemma f64_not_le: "\<not> f64_is_nan x \<Longrightarrow> \<not> f64_is_nan y \<Longrightarrow> \<not> f64_le x y \<longleftrightarrow> f64_lt y x"
  by (auto simp: f64_le_def f64_lt_def)

lemma f64_finite_not_nan: "f64_is_finite x \<Longrightarrow> \<not> f64_is_nan x"
  by (simp add: f64_is_finite_def f64_is_nan_def)

lemma f64_max_cases: "f64_max x y = x \<or> f64_max x y = y"
  by (simp add: f64_max_def)

lemma f64_min_cases: "f64_min x y = x \<or> f64_min x y = y"
  by (simp add: f64_min_def)

lemma f64_max_upper:
  assumes "\<not> f64_is_nan x" and "\<not> f64_is_nan y"
  shows "f64_le x (f64_max x y)" and "f64_le y (f64_max x y)"
  using assms by (auto simp: f64_max_def f64_le_def f64_lt_def)

lemma f64_min_lower:
  assumes "\<not> f64_is_nan x" and "\<not> f64_is_nan y"
  shows "f64_le (f64_min x y) x" and "f64_le (f64_min x y) y"
  using assms by (auto simp: f64_min_def f64_le_def f64_lt_def)

lemma f64_max_nan: "f64_is_nan (f64_max x y) \<longleftrightarrow> f64_is_nan x \<and> f64_is_nan y"
  by (auto simp: f64_max_def f64_lt_def)

lemma f64_min_nan: "f64_is_nan (f64_min x y) \<longleftrightarrow> f64_is_nan x \<and> f64_is_nan y"
  by (auto simp: f64_min_def f64_lt_def)

end
