(* ===== verification/ConfigRegistry.thy ===== *)
theory ConfigRegistry
  imports Config Floats
begin

text \<open>
  The schema registry of \<^verbatim>\<open>crates/slicer-config/src/lib.rs\<close>: the declaration channels of
  the host and of the loaded modules, their reconciliation into one entry per key by
  \<^verbatim>\<open>assemble_registry\<close> with its warnings and load errors, the base-key walk, and the
  per-scope admission sets.  The declaration records are those of
  \<^verbatim>\<open>crates/slicer-ir/src/config_schema.rs\<close> and
  \<^verbatim>\<open>crates/slicer-ir/src/resolved_config.rs\<close>.
\<close>

section \<open>Declarations\<close>

record config_field_entry =
  cf_type :: string
  cf_default :: "string option"
  cf_min :: "u64 option"
  cf_max :: "u64 option"
  cf_display :: "string option"
  cf_description :: "string option"
  cf_group :: "string option"
  cf_unit :: "string option"
  cf_advanced :: bool
  cf_values :: "string list option"
  cf_tags :: "string list"
  cf_selector :: bool
  cf_base_key :: "string option"
  cf_denied_scopes :: "string list"
  cf_omit :: bool

record host_key_meta =
  hm_display :: "string option"
  hm_group :: "string option"
  hm_unit :: "string option"
  hm_description :: "string option"
  hm_min :: "u64 option"
  hm_max :: "u64 option"
  hm_values :: "string list"
  hm_wire_type :: "string option"
  hm_advanced :: bool
  hm_omit :: bool

definition HOST_KEY_META_NONE :: host_key_meta where
  "HOST_KEY_META_NONE =
     \<lparr>hm_display = None, hm_group = None, hm_unit = None, hm_description = None, hm_min = None,
      hm_max = None, hm_values = [], hm_wire_type = None, hm_advanced = False, hm_omit = False\<rparr>"

record host_config_key =
  hk_key :: string
  hk_type :: string
  hk_scope :: string
  hk_default :: "string option"
  hk_meta :: host_key_meta
  hk_denied_scopes :: "string list"

record host_runtime_key =
  rk_key :: string
  rk_type :: string
  rk_scope :: string
  rk_default :: "string option"
  rk_meta :: host_key_meta
  rk_selector :: bool
  rk_denied_scopes :: "string list"

record host_channels =
  hc_host_keys :: "host_config_key list"
  hc_speed_keys :: "host_config_key list"
  hc_runtime_keys :: "host_runtime_key list"

record module_declaration =
  md_id :: module_id
  md_schema :: "(string, config_field_entry) btree_map"
  md_exclusive_group :: "string option"

record module_key_meta =
  mm_display :: "string option"
  mm_description :: "string option"
  mm_group :: "string option"
  mm_unit :: "string option"
  mm_tags :: "string list"
  mm_advanced :: bool

definition module_key_meta_from_field :: "config_field_entry \<Rightarrow> module_key_meta" where
  "module_key_meta_from_field f =
     \<lparr>mm_display = cf_display f, mm_description = cf_description f, mm_group = cf_group f,
      mm_unit = cf_unit f, mm_tags = cf_tags f, mm_advanced = cf_advanced f\<rparr>"

record key_declaration =
  de_provenance :: string
  de_module_id :: "string option"
  de_exclusive_group :: "string option"
  de_type :: string
  de_default :: "string option"
  de_min :: "u64 option"
  de_max :: "u64 option"
  de_values :: "string list option"
  de_denied_scopes :: "string list"
  de_selector :: bool
  de_omit :: bool
  de_base_key :: "string option"
  de_host_meta :: "host_key_meta option"
  de_module_meta :: "module_key_meta option"
  de_is_host :: bool

definition declaration_from_host_parts ::
    "string \<Rightarrow> string \<Rightarrow> string option \<Rightarrow> bool \<Rightarrow> host_key_meta \<Rightarrow> string list \<Rightarrow> key_declaration" where
  "declaration_from_host_parts provenance field_type dflt selector meta denied =
     (let ft = (case hm_wire_type meta of None \<Rightarrow> field_type | Some w \<Rightarrow> w)
      in \<lparr>de_provenance = provenance, de_module_id = None, de_exclusive_group = None,
          de_type = ft, de_default = dflt, de_min = hm_min meta, de_max = hm_max meta,
          de_values = (if ft = ''enum'' \<or> hm_values meta \<noteq> [] then Some (hm_values meta) else None),
          de_denied_scopes = denied, de_selector = selector, de_omit = hm_omit meta,
          de_base_key = None, de_host_meta = Some meta, de_module_meta = None, de_is_host = True\<rparr>)"

definition HOST_PROVENANCE :: string where "HOST_PROVENANCE = ''host''"

definition SPEED_PROVENANCE :: string where "SPEED_PROVENANCE = ''speed''"

definition RUNTIME_PROVENANCE :: string where "RUNTIME_PROVENANCE = ''runtime''"

definition host_declaration :: "host_config_key \<Rightarrow> string \<Rightarrow> key_declaration" where
  "host_declaration row provenance =
     declaration_from_host_parts provenance (hk_type row) (hk_default row) False (hk_meta row)
       (hk_denied_scopes row)"

definition runtime_declaration :: "host_runtime_key \<Rightarrow> key_declaration" where
  "runtime_declaration row =
     declaration_from_host_parts RUNTIME_PROVENANCE (rk_type row) (rk_default row) (rk_selector row)
       (rk_meta row) (rk_denied_scopes row)"

definition declare_field :: "module_declaration \<Rightarrow> config_field_entry \<Rightarrow> key_declaration" where
  "declare_field m f =
     \<lparr>de_provenance = md_id m, de_module_id = Some (md_id m), de_exclusive_group = md_exclusive_group m,
      de_type = cf_type f, de_default = cf_default f, de_min = cf_min f, de_max = cf_max f,
      de_values = cf_values f, de_denied_scopes = cf_denied_scopes f, de_selector = cf_selector f,
      de_omit = cf_omit f, de_base_key = cf_base_key f, de_host_meta = None,
      de_module_meta = Some (module_key_meta_from_field f), de_is_host = False\<rparr>"

section \<open>Entries, warnings and errors\<close>

record registry_entry =
  re_key :: string
  re_type :: string
  re_default :: "string option"
  re_min :: "u64 option"
  re_max :: "u64 option"
  re_values :: "string list option"
  re_denied_scopes :: "string list"
  re_selector :: bool
  re_omit :: bool
  re_base_key :: "string option"
  re_host_meta :: "host_key_meta option"
  re_module_meta :: "module_key_meta option"
  re_provenance :: "string list"

type_synonym registry = "(string, registry_entry) btree_map"

datatype registry_warning =
    ClaimExclusiveDivergence string string string string string
  | ClaimExclusiveBoundsDivergence string string "u64 option" "u64 option" string "u64 option" "u64 option"
  | BoundsIntersection string "u64 option" "u64 option" "string list"
  | ModuleDefaultForHostKey string string

datatype registry_load_error =
    TypeDisagreement string "string list"
  | EnumDomainDisagreement string "string list"
  | SelectorStatablePerRegion string
  | BaseKeyMissing string string
  | BaseKeyNotPercentCompatible string string
  | BaseKeyCycle string string
  | UnknownDeniedScope string string

definition ALLOWED_DENIED_SCOPES :: "string list" where
  "ALLOWED_DENIED_SCOPES =
     [''global'', ''object'', ''layer_range'', ''modifier'', ''paint_semantic'', ''tool'']"

definition PER_REGION_SCOPES :: "string list" where
  "PER_REGION_SCOPES = [''object'', ''layer_range'', ''modifier'', ''paint_semantic'', ''tool'']"

section \<open>Validation of one key's declarations\<close>

definition sorted_provenance :: "key_declaration list \<Rightarrow> string list" where
  "sorted_provenance ds = bts_collect (map de_provenance ds)"

definition validate_denied_scopes :: "string \<Rightarrow> key_declaration list \<Rightarrow> registry_load_error + unit" where
  "validate_denied_scopes key ds =
     (case find (\<lambda>s. s \<notin> set ALLOWED_DENIED_SCOPES) (concat (map de_denied_scopes ds)) of
        Some s \<Rightarrow> Inl (UnknownDeniedScope key s)
      | None \<Rightarrow> Inr ())"

definition validate_selectors :: "string \<Rightarrow> key_declaration list \<Rightarrow> registry_load_error + unit" where
  "validate_selectors key ds =
     (if list_ex (\<lambda>d. de_selector d \<and> list_ex (\<lambda>s. s \<notin> set (de_denied_scopes d)) PER_REGION_SCOPES) ds
      then Inl (SelectorStatablePerRegion key) else Inr ())"

definition effective_bound :: "u64 option list \<Rightarrow> bool \<Rightarrow> u64 option" where
  "effective_bound values maximum =
     fold (\<lambda>v current. case v of
             None \<Rightarrow> current
           | Some x \<Rightarrow> Some (case current of None \<Rightarrow> x
               | Some p \<Rightarrow> if maximum then f64_max p x else f64_min p x)) values None"

definition find_map_option :: "('a \<Rightarrow> 'b option) \<Rightarrow> 'a list \<Rightarrow> 'b option" where
  "find_map_option f xs = (case find (\<lambda>x. f x \<noteq> None) xs of None \<Rightarrow> None | Some x \<Rightarrow> f x)"

definition host_then_modules :: "(key_declaration \<Rightarrow> 'a option) \<Rightarrow> key_declaration list \<Rightarrow> key_declaration list \<Rightarrow> 'a option" where
  "host_then_modules f ds modules =
     (case Option.bind (find de_is_host ds) f of
        Some v \<Rightarrow> Some v
      | None \<Rightarrow> find_map_option f modules)"

definition selected_base_key :: "key_declaration list \<Rightarrow> key_declaration list \<Rightarrow> string option" where
  "selected_base_key = host_then_modules de_base_key"

definition selected_values :: "key_declaration list \<Rightarrow> key_declaration list \<Rightarrow> string list option" where
  "selected_values = host_then_modules de_values"

definition declared_by :: "key_declaration \<Rightarrow> string" where
  "declared_by d = (case de_module_id d of None \<Rightarrow> de_provenance d | Some m \<Rightarrow> m)"

text \<open>Comparison of two \<^verbatim>\<open>Option<f64>\<close>: a NaN bound differs from itself.\<close>

fun bound_eq :: "u64 option \<Rightarrow> u64 option \<Rightarrow> bool" where
  "bound_eq None None = True"
| "bound_eq (Some x) (Some y) = f64_eq x y"
| "bound_eq _ _ = False"

definition exclusive_pair_warnings :: "string \<Rightarrow> key_declaration \<Rightarrow> key_declaration \<Rightarrow> registry_warning list" where
  "exclusive_pair_warnings key first second =
     (if de_exclusive_group first = None \<or> de_exclusive_group first \<noteq> de_exclusive_group second then []
      else (case (de_default first, de_default second) of
              (Some v1, Some v2) \<Rightarrow>
                if v1 \<noteq> v2
                then [ClaimExclusiveDivergence key (declared_by first) v1 (declared_by second) v2] else []
            | _ \<Rightarrow> []) @
           (if \<not> bound_eq (de_min first) (de_min second) \<or> \<not> bound_eq (de_max first) (de_max second)
            then [ClaimExclusiveBoundsDivergence key (declared_by first) (de_min first) (de_max first)
                    (declared_by second) (de_min second) (de_max second)]
            else []))"

fun claim_exclusive_warnings :: "string \<Rightarrow> key_declaration list \<Rightarrow> registry_warning list" where
  "claim_exclusive_warnings key [] = []"
| "claim_exclusive_warnings key (first # rest) =
     concat (map (exclusive_pair_warnings key first) rest) @ claim_exclusive_warnings key rest"

section \<open>Reconciliation\<close>

definition reconciled_entry :: "string \<Rightarrow> key_declaration \<Rightarrow> key_declaration list \<Rightarrow> registry_entry" where
  "reconciled_entry key first ds =
     (let modules = filter (\<lambda>d. \<not> de_is_host d) ds; host = find de_is_host ds
      in \<lparr>re_key = key, re_type = de_type first,
          re_default = (case host of
              Some d \<Rightarrow> de_default d
            | None \<Rightarrow> (case modules of [] \<Rightarrow> None | m # _ \<Rightarrow> de_default m)),
          re_min = effective_bound (map de_min ds) True,
          re_max = effective_bound (map de_max ds) False,
          re_values = selected_values ds modules,
          re_denied_scopes =
            filter (\<lambda>s. list_ex (\<lambda>d. s \<in> set (de_denied_scopes d)) ds) ALLOWED_DENIED_SCOPES,
          re_selector = list_ex de_selector ds,
          re_omit = list_ex de_omit ds,
          re_base_key = selected_base_key ds modules,
          re_host_meta = Option.bind host de_host_meta,
          re_module_meta = (case modules of [] \<Rightarrow> None | m # _ \<Rightarrow> de_module_meta m),
          re_provenance = sorted_provenance ds\<rparr>)"

definition reconcile_warnings :: "string \<Rightarrow> key_declaration list \<Rightarrow> registry_warning list" where
  "reconcile_warnings key ds =
     (let modules = filter (\<lambda>d. \<not> de_is_host d) ds
      in (if 1 < length (filter (\<lambda>d. de_min d \<noteq> None \<or> de_max d \<noteq> None) ds)
          then [BoundsIntersection key (effective_bound (map de_min ds) True)
                  (effective_bound (map de_max ds) False) (sorted_provenance ds)]
          else []) @
         (if find de_is_host ds \<noteq> None
          then map (\<lambda>m. ModuleDefaultForHostKey key (declared_by m))
                 (filter (\<lambda>m. de_default m \<noteq> None) modules)
          else []) @
         claim_exclusive_warnings key modules)"

text \<open>The body of the loop over the grouped declarations: \<open>None\<close> is the \<^verbatim>\<open>continue\<close> on an
  empty group.\<close>

definition reconcile_key ::
    "string \<Rightarrow> key_declaration list \<Rightarrow> registry_load_error + (registry_entry \<times> registry_warning list) option" where
  "reconcile_key key ds =
     (case validate_denied_scopes key ds of
        Inl e \<Rightarrow> Inl e
      | Inr _ \<Rightarrow>
     (case validate_selectors key ds of
        Inl e \<Rightarrow> Inl e
      | Inr _ \<Rightarrow>
     (case ds of
        [] \<Rightarrow> Inr None
      | first # _ \<Rightarrow>
          if list_ex (\<lambda>d. de_type d \<noteq> de_type first) ds
          then Inl (TypeDisagreement key (sorted_provenance ds))
          else if de_type first = ''enum'' \<and> list_ex (\<lambda>d. de_values d \<noteq> de_values first) ds
          then Inl (EnumDomainDisagreement key (sorted_provenance ds))
          else Inr (Some (reconciled_entry key first ds, reconcile_warnings key ds)))))"

fun reconcile_all ::
    "(string \<times> key_declaration list) list \<Rightarrow> registry \<Rightarrow> registry_warning list
      \<Rightarrow> registry_load_error + registry \<times> registry_warning list" where
  "reconcile_all [] entries warnings = Inr (entries, warnings)"
| "reconcile_all ((key, ds) # rest) entries warnings =
     (case reconcile_key key ds of
        Inl e \<Rightarrow> Inl e
      | Inr None \<Rightarrow> reconcile_all rest entries warnings
      | Inr (Some (entry, ws)) \<Rightarrow> reconcile_all rest (btm_insert key entry entries) (warnings @ ws))"

section \<open>Base keys\<close>

definition base_of :: "registry \<Rightarrow> string \<Rightarrow> string option" where
  "base_of entries key = Option.bind (btm_get entries key) re_base_key"

fun check_base_declared :: "registry \<Rightarrow> (string \<times> registry_entry) list \<Rightarrow> registry_load_error + unit" where
  "check_base_declared entries [] = Inr ()"
| "check_base_declared entries ((key, entry) # rest) =
     (case re_base_key entry of
        None \<Rightarrow> check_base_declared entries rest
      | Some base \<Rightarrow>
          (case btm_get entries base of
             None \<Rightarrow> Inl (BaseKeyMissing key base)
           | Some be \<Rightarrow>
               if re_type be \<noteq> ''float'' \<and> re_type be \<noteq> ''float_or_percent''
               then Inl (BaseKeyNotPercentCompatible key base)
               else check_base_declared entries rest))"

text \<open>The inner loop of the cycle check: \<open>True\<close> is the return with a cycle, \<open>False\<close> the break.  Every
  iteration adds a registry key to \<open>visited\<close>.\<close>

lemma fresh_visit_decreases:
  assumes "current \<notin> set visited" and "base_of entries current = Some next"
  shows "card (set (btm_keys entries) - set (current # visited)) < card (set (btm_keys entries) - set visited)"
proof (rule psubset_card_mono)
  have "current \<in> set (btm_keys entries)"
    using assms(2) btm_get_None_iff [of entries current] by (auto simp: base_of_def split: bind_splits)
  with assms(1) show "set (btm_keys entries) - set (current # visited) \<subset> set (btm_keys entries) - set visited"
    by auto
qed simp

function base_walk_cycles :: "registry \<Rightarrow> string list \<Rightarrow> string \<Rightarrow> bool" where
  "base_walk_cycles entries visited current =
     (if current \<in> set visited then True
      else case base_of entries current of
             None \<Rightarrow> False
           | Some next \<Rightarrow> base_walk_cycles entries (current # visited) next)"
  by pat_completeness auto

termination
  by (relation "measure (\<lambda>(entries, visited, _). card (set (btm_keys entries) - set visited))")
    (auto simp only: wf_measure in_measure split_conv intro: fresh_visit_decreases)

declare base_walk_cycles.simps [simp del]

fun check_base_cycles :: "registry \<Rightarrow> (string \<times> registry_entry) list \<Rightarrow> registry_load_error + unit" where
  "check_base_cycles entries [] = Inr ()"
| "check_base_cycles entries ((key, entry) # rest) =
     (case re_base_key entry of
        None \<Rightarrow> check_base_cycles entries rest
      | Some base \<Rightarrow>
          if base_walk_cycles entries [key] base then Inl (BaseKeyCycle key base)
          else check_base_cycles entries rest)"

definition validate_base_keys :: "registry \<Rightarrow> registry_load_error + unit" where
  "validate_base_keys entries =
     (case check_base_declared entries entries of
        Inl e \<Rightarrow> Inl e
      | Inr _ \<Rightarrow> check_base_cycles entries entries)"

section \<open>Assembly\<close>

text \<open>Every \<^verbatim>\<open>add_declaration\<close> call in program order; grouping them is the loop of
  \<^verbatim>\<open>entry(key).or_default().push(declaration)\<close>.\<close>

definition module_declarations :: "module_declaration list \<Rightarrow> (string \<times> key_declaration) list" where
  "module_declarations sorted_modules =
     concat (map (\<lambda>m. map (\<lambda>(key, field). (key, declare_field m field)) (md_schema m)) sorted_modules)"

definition all_declarations :: "module_declaration list \<Rightarrow> host_channels \<Rightarrow> (string \<times> key_declaration) list" where
  "all_declarations modules host =
     map (\<lambda>row. (hk_key row, host_declaration row HOST_PROVENANCE)) (hc_host_keys host) @
     map (\<lambda>row. (hk_key row, host_declaration row SPEED_PROVENANCE)) (hc_speed_keys host) @
     map (\<lambda>row. (rk_key row, runtime_declaration row)) (hc_runtime_keys host) @
     module_declarations (sort_key md_id modules)"

definition assemble_registry ::
    "module_declaration list \<Rightarrow> host_channels \<Rightarrow> registry_load_error + registry \<times> registry_warning list" where
  "assemble_registry modules host =
     (case reconcile_all (btm_group (all_declarations modules host)) [] [] of
        Inl e \<Rightarrow> Inl e
      | Inr (entries, warnings) \<Rightarrow>
          (case validate_base_keys entries of
             Inl e \<Rightarrow> Inl e
           | Inr _ \<Rightarrow> Inr (entries, warnings)))"

section \<open>Scopes and admission\<close>

datatype config_scope =
    Global
  | Object string
  | LayerRange string u32
  | Modifier string string
  | PaintSemantic string
  | Tool u32

definition scope_denial_label :: "config_scope \<Rightarrow> string" where
  "scope_denial_label scope =
     (case scope of
        Global \<Rightarrow> ''global''
      | Object _ \<Rightarrow> ''object''
      | LayerRange _ _ \<Rightarrow> ''layer_range''
      | Modifier _ _ \<Rightarrow> ''modifier''
      | PaintSemantic _ \<Rightarrow> ''paint_semantic''
      | Tool _ \<Rightarrow> ''tool'')"

definition admission_set :: "registry \<Rightarrow> config_scope \<Rightarrow> string list" where
  "admission_set entries scope =
     bts_collect (map re_key
       (filter (\<lambda>e. scope_denial_label scope \<notin> set (re_denied_scopes e)) (map snd entries)))"

section \<open>Laws of the base-key walk\<close>

definition base_rel :: "registry \<Rightarrow> (string \<times> string) set" where
  "base_rel entries = {(k, b). base_of entries k = Some b}"

lemma base_rel_iff [simp]: "(k, b) \<in> base_rel entries \<longleftrightarrow> base_of entries k = Some b"
  by (simp add: base_rel_def)

lemma base_rel_succ:
  assumes "base_of entries c = Some n" and "(c, x) \<in> (base_rel entries)\<^sup>+"
  shows "(n, x) \<in> (base_rel entries)\<^sup>*"
  using tranclD [OF assms(2)] assms(1) by auto

lemma base_rel_no_succ: "base_of entries c = None \<Longrightarrow> (c, x) \<in> (base_rel entries)\<^sup>* \<Longrightarrow> x = c"
  by (erule converse_rtranclE) auto

lemma walk_without_cycle:
  "\<not> base_walk_cycles entries visited c \<Longrightarrow> (c, x) \<in> (base_rel entries)\<^sup>* \<Longrightarrow>
     x \<notin> set visited \<and> (x, x) \<notin> (base_rel entries)\<^sup>+"
proof (induction entries visited c arbitrary: x rule: base_walk_cycles.induct)
  case (1 entries visited c)
  have fresh: "c \<notin> set visited" using "1.prems"(1) by (subst (asm) base_walk_cycles.simps) (auto split: if_splits)
  show ?case
  proof (cases "base_of entries c")
    case None
    then have "x = c" using "1.prems"(2) by (rule base_rel_no_succ)
    moreover have "(c, c) \<notin> (base_rel entries)\<^sup>+" using None by (auto dest: tranclD)
    ultimately show ?thesis using fresh by simp
  next
    case (Some n)
    have "\<not> base_walk_cycles entries (c # visited) n"
      using "1.prems"(1) Some fresh by (subst (asm) base_walk_cycles.simps) simp
    note IH = "1.IH" [OF fresh Some this]
    show ?thesis
    proof (cases "x = c")
      case True
      then show ?thesis using fresh IH [of c] base_rel_succ [OF Some] by auto
    next
      case False
      then have "(c, x) \<in> (base_rel entries)\<^sup>+" using "1.prems"(2) by (simp add: rtrancl_eq_or_trancl)
      then show ?thesis using IH [of x] base_rel_succ [OF Some] by auto
    qed
  qed
qed

lemma walk_with_cycle:
  "base_walk_cycles entries visited c \<Longrightarrow>
     \<exists>x. (c, x) \<in> (base_rel entries)\<^sup>* \<and> (x \<in> set visited \<or> (x, x) \<in> (base_rel entries)\<^sup>+)"
proof (induction entries visited c rule: base_walk_cycles.induct)
  case (1 entries visited c)
  show ?case
  proof (cases "c \<in> set visited")
    case False
    then obtain n where n: "base_of entries c = Some n" and w: "base_walk_cycles entries (c # visited) n"
      using "1.prems" by (subst (asm) base_walk_cycles.simps) (auto split: option.splits)
    then obtain x where x: "(n, x) \<in> (base_rel entries)\<^sup>*" "x \<in> set (c # visited) \<or> (x, x) \<in> (base_rel entries)\<^sup>+"
      using "1.IH" [OF False n w] by blast
    have cx: "(c, x) \<in> (base_rel entries)\<^sup>+" using n x(1) by (auto intro: rtrancl_into_trancl2)
    show ?thesis using x(2) cx by (cases "x = c") (auto intro: trancl_into_rtrancl)
  qed blast
qed

lemma walk_decides_cycle:
  assumes "base_of entries key = Some base"
  shows "base_walk_cycles entries [key] base \<longleftrightarrow>
    (\<exists>x. (key, x) \<in> (base_rel entries)\<^sup>* \<and> (x, x) \<in> (base_rel entries)\<^sup>+)"
proof
  assume "base_walk_cycles entries [key] base"
  then obtain x where x: "(base, x) \<in> (base_rel entries)\<^sup>*" "x = key \<or> (x, x) \<in> (base_rel entries)\<^sup>+"
    using walk_with_cycle [of entries "[key]" base] by auto
  have kx: "(key, x) \<in> (base_rel entries)\<^sup>+" using assms x(1) by (auto intro: rtrancl_into_trancl2)
  then show "\<exists>x. (key, x) \<in> (base_rel entries)\<^sup>* \<and> (x, x) \<in> (base_rel entries)\<^sup>+"
    using x(2) by (auto intro: trancl_into_rtrancl)
next
  assume "\<exists>x. (key, x) \<in> (base_rel entries)\<^sup>* \<and> (x, x) \<in> (base_rel entries)\<^sup>+"
  then obtain x where x: "(key, x) \<in> (base_rel entries)\<^sup>*" "(x, x) \<in> (base_rel entries)\<^sup>+" by blast
  then have "(key, x) \<in> (base_rel entries)\<^sup>+" by (rule rtrancl_trancl_trancl)
  then have "(base, x) \<in> (base_rel entries)\<^sup>*" by (rule base_rel_succ [OF assms])
  then show "base_walk_cycles entries [key] base" using walk_without_cycle x(2) by blast
qed

lemma check_base_declared_iff:
  "check_base_declared entries es = Inr () \<longleftrightarrow>
     (\<forall>(k, e) \<in> set es. \<forall>b. re_base_key e = Some b \<longrightarrow>
        (\<exists>be. btm_get entries b = Some be \<and> re_type be \<in> {''float'', ''float_or_percent''}))"
  by (induction entries es rule: check_base_declared.induct) (auto split: option.splits if_splits)

lemma check_base_cycles_iff:
  "check_base_cycles entries es = Inr () \<longleftrightarrow>
     (\<forall>(k, e) \<in> set es. \<forall>b. re_base_key e = Some b \<longrightarrow> \<not> base_walk_cycles entries [k] b)"
  by (induction entries es rule: check_base_cycles.induct) (auto split: option.splits if_splits)

lemma base_of_iff:
  "btm_wf entries \<Longrightarrow> base_of entries k = Some b \<longleftrightarrow> (\<exists>e. (k, e) \<in> set entries \<and> re_base_key e = Some b)"
  by (auto simp: base_of_def btm_get_Some_iff bind_eq_Some_conv)

lemma no_walk_cycles_iff:
  assumes "btm_wf entries"
  shows "check_base_cycles entries entries = Inr () \<longleftrightarrow> acyclic (base_rel entries)"
proof -
  have "check_base_cycles entries entries = Inr () \<longleftrightarrow>
      (\<forall>k b. base_of entries k = Some b \<longrightarrow> \<not> base_walk_cycles entries [k] b)"
    unfolding check_base_cycles_iff base_of_iff [OF assms] by blast
  also have "\<dots> \<longleftrightarrow> (\<forall>k b x. base_of entries k = Some b \<longrightarrow> (k, x) \<in> (base_rel entries)\<^sup>*
      \<longrightarrow> (x, x) \<notin> (base_rel entries)\<^sup>+)"
    using walk_decides_cycle by blast
  also have "\<dots> \<longleftrightarrow> acyclic (base_rel entries)"
    unfolding acyclic_def by (metis base_rel_iff rtrancl.rtrancl_refl tranclD)
  finally show ?thesis .
qed

lemma validate_base_keys_iff:
  assumes "btm_wf entries"
  shows "validate_base_keys entries = Inr () \<longleftrightarrow>
    (\<forall>k b. base_of entries k = Some b \<longrightarrow>
       (\<exists>be. btm_get entries b = Some be \<and> re_type be \<in> {''float'', ''float_or_percent''})) \<and>
    acyclic (base_rel entries)"
proof -
  have "check_base_declared entries entries = Inr () \<longleftrightarrow> (\<forall>k b. base_of entries k = Some b \<longrightarrow>
       (\<exists>be. btm_get entries b = Some be \<and> re_type be \<in> {''float'', ''float_or_percent''}))"
    unfolding check_base_declared_iff base_of_iff [OF assms] by blast
  then show ?thesis
    unfolding validate_base_keys_def no_walk_cycles_iff [OF assms, symmetric]
    by (cases "check_base_declared entries entries") auto
qed

section \<open>Laws of reconciliation\<close>

definition declarations_of :: "module_declaration list \<Rightarrow> host_channels \<Rightarrow> string \<Rightarrow> key_declaration list" where
  "declarations_of modules host key =
     map snd (filter (\<lambda>e. fst e = key) (all_declarations modules host))"

lemma group_of_declarations:
  "btm_get (btm_group (all_declarations modules host)) key =
     (if declarations_of modules host key = [] then None else Some (declarations_of modules host key))"
  by (auto simp: btm_group_get declarations_of_def filter_empty_conv image_iff)

lemma reconcile_all_Inr:
  "reconcile_all gs es ws = Inr (es', ws') \<Longrightarrow> distinct (map fst gs) \<Longrightarrow> btm_wf es \<Longrightarrow>
     btm_wf es' \<and> (\<forall>(k, ds) \<in> set gs. \<exists>r. reconcile_key k ds = Inr r) \<and>
     (\<forall>k. btm_get es' k = (case map_of gs k of
        None \<Rightarrow> btm_get es k
      | Some ds \<Rightarrow> (case reconcile_key k ds of Inr (Some (e, _)) \<Rightarrow> Some e | _ \<Rightarrow> btm_get es k)))"
proof (induction gs es ws rule: reconcile_all.induct)
  case (2 key ds rest es ws)
  have fresh: "map_of rest key = None" and dist: "distinct (map fst rest)"
    using "2.prems"(2) by (simp_all add: map_of_eq_None_iff)
  show ?case
  proof (cases "reconcile_key key ds")
    case (Inr r)
    show ?thesis
    proof (cases r)
      case None
      then show ?thesis using "2.IH"(1) [OF Inr None] "2.prems" Inr dist fresh by (auto split: option.splits)
    next
      case (Some p)
      obtain e w where p: "p = (e, w)" by (cases p)
      have run: "reconcile_all rest (btm_insert key e es) (ws @ w) = Inr (es', ws')"
        using "2.prems"(1) Inr Some p by simp
      have IH: "btm_wf es' \<and> (\<forall>(k, ds) \<in> set rest. \<exists>r. reconcile_key k ds = Inr r) \<and>
        (\<forall>k. btm_get es' k = (case map_of rest k of
           None \<Rightarrow> btm_get (btm_insert key e es) k
         | Some ds \<Rightarrow> (case reconcile_key k ds of Inr (Some (e', _)) \<Rightarrow> Some e'
             | _ \<Rightarrow> btm_get (btm_insert key e es) k)))"
        using "2.IH"(2) [OF Inr Some p [symmetric] run dist] "2.prems"(3) by simp
      show ?thesis
      proof (intro conjI allI)
        fix k
        show "btm_get es' k = (case map_of ((key, ds) # rest) k of
            None \<Rightarrow> btm_get es k
          | Some ds \<Rightarrow> (case reconcile_key k ds of Inr (Some (e, _)) \<Rightarrow> Some e | _ \<Rightarrow> btm_get es k))"
        proof (cases "k = key")
          case True
          then show ?thesis using IH fresh Inr Some p by simp
        next
          case False
          then have same: "btm_get (btm_insert key e es) k = btm_get es k" by simp
          show ?thesis
            using spec [OF conjunct2 [OF conjunct2 [OF IH]], of k] False unfolding same by simp
        qed
      qed (use IH Inr in auto)
    qed
  qed (use "2.prems" in simp)
qed simp

lemma reconcile_all_total:
  "(\<forall>(k, ds) \<in> set gs. \<exists>r. reconcile_key k ds = Inr r) \<Longrightarrow> \<exists>r. reconcile_all gs es ws = Inr r"
  by (induction gs es ws rule: reconcile_all.induct) (auto split: sum.splits option.splits)

text \<open>The agreement one key's declarations must reach.\<close>

definition declarations_agree :: "key_declaration list \<Rightarrow> bool" where
  "declarations_agree ds \<longleftrightarrow>
     list_all (\<lambda>d. set (de_denied_scopes d) \<subseteq> set ALLOWED_DENIED_SCOPES) ds \<and>
     list_all (\<lambda>d. de_selector d \<longrightarrow> set PER_REGION_SCOPES \<subseteq> set (de_denied_scopes d)) ds \<and>
     list_all (\<lambda>d. de_type d = de_type (hd ds)) ds \<and>
     (de_type (hd ds) = ''enum'' \<longrightarrow> list_all (\<lambda>d. de_values d = de_values (hd ds)) ds)"

lemma validate_denied_scopes_iff:
  "validate_denied_scopes key ds = Inr () \<longleftrightarrow>
     list_all (\<lambda>d. set (de_denied_scopes d) \<subseteq> set ALLOWED_DENIED_SCOPES) ds"
proof -
  have "find (\<lambda>s. s \<notin> set ALLOWED_DENIED_SCOPES) (concat (map de_denied_scopes ds)) = None \<longleftrightarrow>
      list_all (\<lambda>d. set (de_denied_scopes d) \<subseteq> set ALLOWED_DENIED_SCOPES) ds"
    by (auto simp: find_None_iff list_all_iff)
  then show ?thesis
    unfolding validate_denied_scopes_def
    by (cases "find (\<lambda>s. s \<notin> set ALLOWED_DENIED_SCOPES) (concat (map de_denied_scopes ds))") auto
qed

lemma validate_selectors_iff:
  "validate_selectors key ds = Inr () \<longleftrightarrow>
     list_all (\<lambda>d. de_selector d \<longrightarrow> set PER_REGION_SCOPES \<subseteq> set (de_denied_scopes d)) ds"
  by (auto simp: validate_selectors_def list_ex_iff list_all_iff)

lemma reconcile_key_iff:
  assumes "ds \<noteq> []"
  shows "(\<exists>r. reconcile_key key ds = Inr r) \<longleftrightarrow> declarations_agree ds"
    and "declarations_agree ds \<Longrightarrow>
      reconcile_key key ds = Inr (Some (reconciled_entry key (hd ds) ds, reconcile_warnings key ds))"
proof -
  have D: "(case validate_denied_scopes key ds of Inl e \<Rightarrow> Inl e | Inr _ \<Rightarrow> f) =
      (if list_all (\<lambda>d. set (de_denied_scopes d) \<subseteq> set ALLOWED_DENIED_SCOPES) ds then f
       else Inl (projl (validate_denied_scopes key ds)))" for f :: "registry_load_error + 'x"
    using validate_denied_scopes_iff [of key ds] by (cases "validate_denied_scopes key ds") auto
  have S: "(case validate_selectors key ds of Inl e \<Rightarrow> Inl e | Inr _ \<Rightarrow> f) =
      (if list_all (\<lambda>d. de_selector d \<longrightarrow> set PER_REGION_SCOPES \<subseteq> set (de_denied_scopes d)) ds then f
       else Inl (projl (validate_selectors key ds)))" for f :: "registry_load_error + 'x"
    using validate_selectors_iff [of key ds] by (cases "validate_selectors key ds") auto
  obtain d rest where ds: "ds = d # rest" using assms by (cases ds) auto
  have T: "list_ex (\<lambda>x. de_type x \<noteq> de_type d) ds \<longleftrightarrow> \<not> list_all (\<lambda>x. de_type x = de_type d) ds"
    and V: "list_ex (\<lambda>x. de_values x \<noteq> de_values d) ds \<longleftrightarrow> \<not> list_all (\<lambda>x. de_values x = de_values d) ds"
    by (auto simp: list_ex_iff list_all_iff)
  have eq: "reconcile_key key ds =
      (if list_all (\<lambda>d. set (de_denied_scopes d) \<subseteq> set ALLOWED_DENIED_SCOPES) ds
       then if list_all (\<lambda>d. de_selector d \<longrightarrow> set PER_REGION_SCOPES \<subseteq> set (de_denied_scopes d)) ds
            then if \<not> list_all (\<lambda>x. de_type x = de_type d) ds
                 then Inl (TypeDisagreement key (sorted_provenance ds))
                 else if de_type d = ''enum'' \<and> \<not> list_all (\<lambda>x. de_values x = de_values d) ds
                 then Inl (EnumDomainDisagreement key (sorted_provenance ds))
                 else Inr (Some (reconciled_entry key d ds, reconcile_warnings key ds))
            else Inl (projl (validate_selectors key ds))
       else Inl (projl (validate_denied_scopes key ds)))"
    unfolding reconcile_key_def D S T [symmetric] V [symmetric] by (simp only: ds list.case)
  have hd: "hd ds = d" by (simp add: ds)
  show "(\<exists>r. reconcile_key key ds = Inr r) \<longleftrightarrow> declarations_agree ds"
    unfolding eq declarations_agree_def hd by (auto split: if_splits)
  show "declarations_agree ds \<Longrightarrow>
      reconcile_key key ds = Inr (Some (reconciled_entry key (hd ds) ds, reconcile_warnings key ds))"
    unfolding eq declarations_agree_def hd by (auto split: if_splits)
qed

lemma reconciled:
  assumes run: "reconcile_all (btm_group (all_declarations modules host)) [] [] = Inr (reg, ws)"
  shows reconciled_wf: "btm_wf reg"
    and reconciled_agree: "\<And>key. declarations_of modules host key \<noteq> [] \<Longrightarrow>
      declarations_agree (declarations_of modules host key)"
    and reconciled_get: "\<And>key. btm_get reg key =
      (let ds = declarations_of modules host key
       in if ds = [] then None else Some (reconciled_entry key (hd ds) ds))"
proof -
  let ?gs = "btm_group (all_declarations modules host)"
  have dist: "distinct (map fst ?gs)" using btm_wf_distinct [of ?gs] by (simp add: btm_keys_def)
  note R = reconcile_all_Inr [OF run dist btm_wf_Nil]
  show "btm_wf reg" using R by blast
  have group: "map_of ?gs key = (let ds = declarations_of modules host key in if ds = [] then None else Some ds)" for key
    using group_of_declarations [of modules host key] by (simp add: btm_get_def Let_def)
  show agree: "declarations_agree (declarations_of modules host key)"
    if ne: "declarations_of modules host key \<noteq> []" for key
  proof -
    have "(key, declarations_of modules host key) \<in> set ?gs"
      using group [of key] ne by (simp add: map_of_SomeD)
    then have "\<exists>r. reconcile_key key (declarations_of modules host key) = Inr r" using R by blast
    then show ?thesis using reconcile_key_iff(1) [OF ne] by blast
  qed
  show "btm_get reg key =
      (let ds = declarations_of modules host key
       in if ds = [] then None else Some (reconciled_entry key (hd ds) ds))" for key
  proof (cases "declarations_of modules host key = []")
    case True
    then show ?thesis
      using spec [OF conjunct2 [OF conjunct2 [OF R]], of key] by (simp add: group)
  next
    case False
    show ?thesis
      using spec [OF conjunct2 [OF conjunct2 [OF R]], of key] False
      by (simp add: group Let_def reconcile_key_iff(2) [OF False agree [OF False]])
  qed
qed

lemma agreeing_reconcile:
  assumes "\<And>key. declarations_of modules host key \<noteq> [] \<Longrightarrow> declarations_agree (declarations_of modules host key)"
  shows "\<exists>reg ws. reconcile_all (btm_group (all_declarations modules host)) [] [] = Inr (reg, ws)"
proof -
  have "\<exists>r. reconcile_key k ds = Inr r" if "(k, ds) \<in> set (btm_group (all_declarations modules host))" for k ds
  proof -
    have "btm_get (btm_group (all_declarations modules host)) k = Some ds"
      using that by (simp add: btm_get_Some_iff)
    then have "ds = declarations_of modules host k" and ne: "ds \<noteq> []"
      by (auto simp: group_of_declarations split: if_splits)
    then show ?thesis using assms [of k] reconcile_key_iff(1) [OF ne] by simp
  qed
  then have "\<exists>r. reconcile_all (btm_group (all_declarations modules host)) [] [] = Inr r"
    by (intro reconcile_all_total) auto
  then show ?thesis by auto
qed

lemma assembled:
  assumes "assemble_registry modules host = Inr (reg, ws)"
  shows assembled_run: "reconcile_all (btm_group (all_declarations modules host)) [] [] = Inr (reg, ws)"
    and assembled_bases: "validate_base_keys reg = Inr ()"
  using assms by (auto simp: assemble_registry_def split: sum.splits prod.splits)

lemmas assembled_wf = reconciled_wf [OF assembled_run]
lemmas assembled_agree = reconciled_agree [OF assembled_run]
lemmas assembled_get = reconciled_get [OF assembled_run]

text \<open>The base key the declarations of a key select: that of the host's declaration when the host
  declares one, otherwise the first among the modules in id order.\<close>

definition declared_base :: "module_declaration list \<Rightarrow> host_channels \<Rightarrow> string \<Rightarrow> string option" where
  "declared_base modules host key =
     (let ds = declarations_of modules host key in selected_base_key ds (filter (\<lambda>d. \<not> de_is_host d) ds))"

lemma reconciled_base_of:
  assumes "reconcile_all (btm_group (all_declarations modules host)) [] [] = Inr (reg, ws)"
  shows "base_of reg key = declared_base modules host key"
proof (cases "declarations_of modules host key = []")
  case True
  then show ?thesis
    by (simp add: base_of_def reconciled_get [OF assms] declared_base_def selected_base_key_def
        host_then_modules_def find_map_option_def)
next
  case False
  then show ?thesis
    by (simp add: base_of_def reconciled_get [OF assms] declared_base_def reconciled_entry_def Let_def)
qed

subsection \<open>Bounds\<close>

definition within_bounds :: "u64 option \<Rightarrow> u64 option \<Rightarrow> u64 \<Rightarrow> bool" where
  "within_bounds lo hi v \<longleftrightarrow>
     (case lo of None \<Rightarrow> True | Some l \<Rightarrow> f64_le l v) \<and> (case hi of None \<Rightarrow> True | Some h \<Rightarrow> f64_le v h)"

definition bound_is_number :: "u64 option \<Rightarrow> bool" where
  "bound_is_number b \<longleftrightarrow> (case b of None \<Rightarrow> True | Some x \<Rightarrow> \<not> f64_is_nan x)"

definition bound_step :: "bool \<Rightarrow> u64 option \<Rightarrow> u64 option \<Rightarrow> u64 option" where
  "bound_step maximum v current =
     (case v of
        None \<Rightarrow> current
      | Some x \<Rightarrow> Some (case current of None \<Rightarrow> x
          | Some p \<Rightarrow> if maximum then f64_max p x else f64_min p x))"

lemma effective_bound_fold: "effective_bound bs maximum = fold (bound_step maximum) bs None"
  by (simp add: effective_bound_def bound_step_def [abs_def])

lemma lower_step:
  assumes "bound_is_number c" and "bound_is_number b"
  shows "within_bounds (bound_step True b c) None v \<longleftrightarrow> within_bounds c None v \<and> within_bounds b None v"
    and "bound_is_number (bound_step True b c)"
  using assms f64_max_upper [of "the c" "the b"] f64_max_cases [of "the c" "the b"]
  by (auto simp: bound_step_def within_bounds_def bound_is_number_def f64_max_nan
      intro: f64_le_trans split: option.splits)

lemma upper_step:
  assumes "bound_is_number c" and "bound_is_number b"
  shows "within_bounds None (bound_step False b c) v \<longleftrightarrow> within_bounds None c v \<and> within_bounds None b v"
    and "bound_is_number (bound_step False b c)"
  using assms f64_min_lower [of "the c" "the b"] f64_min_cases [of "the c" "the b"]
  by (auto simp: bound_step_def within_bounds_def bound_is_number_def f64_min_nan
      intro: f64_le_trans split: option.splits)

lemma effective_min_iff:
  assumes "list_all bound_is_number bs" and "bound_is_number c"
  shows "within_bounds (fold (bound_step True) bs c) None v \<longleftrightarrow>
    within_bounds c None v \<and> list_all (\<lambda>b. within_bounds b None v) bs"
  using assms by (induction bs arbitrary: c) (auto simp: lower_step)

lemma effective_max_iff:
  assumes "list_all bound_is_number bs" and "bound_is_number c"
  shows "within_bounds None (fold (bound_step False) bs c) v \<longleftrightarrow>
    within_bounds None c v \<and> list_all (\<lambda>b. within_bounds None b v) bs"
  using assms by (induction bs arbitrary: c) (auto simp: upper_step)

lemma within_bounds_split: "within_bounds lo hi v \<longleftrightarrow> within_bounds lo None v \<and> within_bounds None hi v"
  by (simp add: within_bounds_def)

lemma effective_bounds_iff:
  assumes "list_all (\<lambda>d. bound_is_number (de_min d) \<and> bound_is_number (de_max d)) ds"
  shows "within_bounds (effective_bound (map de_min ds) True) (effective_bound (map de_max ds) False) v \<longleftrightarrow>
    list_all (\<lambda>d. within_bounds (de_min d) (de_max d) v) ds"
proof -
  have n: "list_all bound_is_number (map de_min ds)" "list_all bound_is_number (map de_max ds)" "bound_is_number None"
    using assms by (auto simp: list_all_iff bound_is_number_def)
  have none: "within_bounds None None v" by (simp add: within_bounds_def)
  have "within_bounds (effective_bound (map de_min ds) True) None v \<longleftrightarrow>
      list_all (\<lambda>d. within_bounds (de_min d) None v) ds"
    unfolding effective_bound_fold effective_min_iff [OF n(1,3)] by (simp add: none list_all_iff)
  moreover have "within_bounds None (effective_bound (map de_max ds) False) v \<longleftrightarrow>
      list_all (\<lambda>d. within_bounds None (de_max d) v) ds"
    unfolding effective_bound_fold effective_max_iff [OF n(2,3)] by (simp add: none list_all_iff)
  ultimately have "within_bounds (effective_bound (map de_min ds) True) (effective_bound (map de_max ds) False) v \<longleftrightarrow>
      list_all (\<lambda>d. within_bounds (de_min d) None v) ds \<and> list_all (\<lambda>d. within_bounds None (de_max d) v) ds"
    using within_bounds_split [of "effective_bound (map de_min ds) True" "effective_bound (map de_max ds) False" v]
    by simp
  also have "\<dots> \<longleftrightarrow> list_all (\<lambda>d. within_bounds (de_min d) (de_max d) v) ds"
    by (auto simp: list_all_iff within_bounds_def)
  finally show ?thesis .
qed

subsection \<open>Admission\<close>

lemma admission_set_iff:
  assumes "btm_wf reg" and "\<And>k e. btm_get reg k = Some e \<Longrightarrow> re_key e = k"
  shows "key \<in> set (admission_set reg scope) \<longleftrightarrow>
    (\<exists>e. btm_get reg key = Some e \<and> scope_denial_label scope \<notin> set (re_denied_scopes e))"
proof -
  have "key \<in> set (admission_set reg scope) \<longleftrightarrow>
      (\<exists>k e. (k, e) \<in> set reg \<and> scope_denial_label scope \<notin> set (re_denied_scopes e) \<and> re_key e = key)"
    by (simp add: admission_set_def image_iff Bex_def) (metis prod.collapse snd_conv)
  also have "\<dots> \<longleftrightarrow> (\<exists>k e. btm_get reg k = Some e \<and> scope_denial_label scope \<notin> set (re_denied_scopes e) \<and> re_key e = key)"
    unfolding btm_get_Some_iff [OF assms(1)] ..
  also have "\<dots> \<longleftrightarrow> (\<exists>e. btm_get reg key = Some e \<and> scope_denial_label scope \<notin> set (re_denied_scopes e))"
    using assms(2) by auto
  finally show ?thesis .
qed

lemma reconciled_key [simp]: "re_key (reconciled_entry key d ds) = key"
  by (simp add: reconciled_entry_def Let_def)

lemma assembled_key:
  assumes "assemble_registry modules host = Inr (reg, ws)" and "btm_get reg k = Some e"
  shows "re_key e = k"
  using assembled_get [OF assms(1), of k] assms(2) by (auto simp: Let_def split: if_splits)

lemma scope_label_allowed: "scope_denial_label scope \<in> set ALLOWED_DENIED_SCOPES"
  by (cases scope) (simp_all add: scope_denial_label_def ALLOWED_DENIED_SCOPES_def)

lemma scope_label_per_region: "scope \<noteq> Global \<Longrightarrow> scope_denial_label scope \<in> set PER_REGION_SCOPES"
  by (cases scope) (simp_all add: scope_denial_label_def PER_REGION_SCOPES_def)

lemma assembled_admission:
  assumes "assemble_registry modules host = Inr (reg, ws)"
  shows "key \<in> set (admission_set reg scope) \<longleftrightarrow>
    declarations_of modules host key \<noteq> [] \<and>
    list_all (\<lambda>d. scope_denial_label scope \<notin> set (de_denied_scopes d)) (declarations_of modules host key)"
proof -
  have "key \<in> set (admission_set reg scope) \<longleftrightarrow>
      (\<exists>e. btm_get reg key = Some e \<and> scope_denial_label scope \<notin> set (re_denied_scopes e))"
    by (rule admission_set_iff [OF assembled_wf [OF assms] assembled_key [OF assms]])
  then show ?thesis
    unfolding assembled_get [OF assms] Let_def using scope_label_allowed [of scope]
    by (auto simp: reconciled_entry_def Let_def list_ex_iff list_all_iff)
qed

section \<open>Properties\<close>

text \<open>C27: assembly does not depend on the order in which the modules are listed: with distinct module
  ids, any permutation gives the same registry with the same warnings, or the same error.\<close>

theorem assembly_order_independent:
  assumes "mset modules = mset modules'" and "distinct (map md_id modules)"
  shows "assemble_registry modules host = assemble_registry modules' host"
proof -
  have "distinct (map md_id modules')"
    using assms by (metis mset_eq_imp_distinct_iff mset_map)
  moreover have "set modules = set modules'" using assms(1) by (rule mset_eq_setD)
  ultimately have "sort_key md_id modules = sort_key md_id modules'"
    using assms(2) by (intro map_sorted_distinct_set_unique [where f = md_id])
      (auto simp: distinct_map inj_on_def sorted_sort_key)
  then show ?thesis by (simp add: assemble_registry_def all_declarations_def)
qed

definition no_host_channels :: host_channels where
  "no_host_channels = \<lparr>hc_host_keys = [], hc_speed_keys = [], hc_runtime_keys = []\<rparr>"

definition sample_field :: config_field_entry where
  "sample_field =
     \<lparr>cf_type = ''float'', cf_default = Some ''1'', cf_min = Some 0, cf_max = None, cf_display = None,
      cf_description = None, cf_group = None, cf_unit = None, cf_advanced = False, cf_values = None,
      cf_tags = [], cf_selector = False, cf_base_key = None, cf_denied_scopes = [''tool''],
      cf_omit = False\<rparr>"

definition sample_module :: "string \<Rightarrow> config_field_entry \<Rightarrow> module_declaration" where
  "sample_module i f = \<lparr>md_id = i, md_schema = [(''k'', f)], md_exclusive_group = None\<rparr>"

theorem assembly_order_independent_witness:
  "assemble_registry [sample_module ''b'' sample_field, sample_module ''a'' sample_field] no_host_channels =
   assemble_registry [sample_module ''a'' sample_field, sample_module ''b'' sample_field] no_host_channels"
  by (rule assembly_order_independent) (simp_all add: sample_module_def)

text \<open>in an assembled registry a key is statable at a scope exactly when some channel declares it
  and no declarer denies the scope; a selector key is never statable below the global scope.\<close>

theorem admission_is_union_of_denials:
  assumes "assemble_registry modules host = Inr (reg, ws)"
  shows "(key \<in> set (admission_set reg scope) \<longleftrightarrow>
      declarations_of modules host key \<noteq> [] \<and>
      list_all (\<lambda>d. scope_denial_label scope \<notin> set (de_denied_scopes d)) (declarations_of modules host key)) \<and>
    (if scope \<noteq> Global \<and> (\<exists>e. btm_get reg key = Some e \<and> re_selector e)
     then key \<notin> set (admission_set reg scope) else True)"
proof -
  have "key \<notin> set (admission_set reg scope)"
    if "scope \<noteq> Global" and e: "btm_get reg key = Some e" "re_selector e" for e
  proof -
    let ?ds = "declarations_of modules host key"
    have ne: "?ds \<noteq> []" and ent: "e = reconciled_entry key (hd ?ds) ?ds"
      using assembled_get [OF assms, of key] e(1) by (auto simp: Let_def split: if_splits)
    then obtain d where d: "d \<in> set ?ds" "de_selector d"
      using e(2) by (auto simp: reconciled_entry_def Let_def list_ex_iff)
    then have "set PER_REGION_SCOPES \<subseteq> set (de_denied_scopes d)"
      using assembled_agree [OF assms ne] by (auto simp: declarations_agree_def list_all_iff)
    then show ?thesis
      using scope_label_per_region [OF that(1)] d(1)
      by (auto simp: assembled_admission [OF assms] list_all_iff)
  qed
  then show ?thesis using assembled_admission [OF assms] by auto
qed

definition sample_registry :: "registry \<times> registry_warning list" where
  "sample_registry = projr (assemble_registry [sample_module ''a'' sample_field] no_host_channels)"

lemma sample_registry_assembled:
  "assemble_registry [sample_module ''a'' sample_field] no_host_channels = Inr (fst sample_registry, snd sample_registry)"
  unfolding sample_registry_def by code_simp

theorem admission_is_union_of_denials_witness:
  "''k'' \<in> set (admission_set (fst sample_registry) Global) \<and>
   ''k'' \<notin> set (admission_set (fst sample_registry) (Tool 1))"
proof -
  have "declarations_of [sample_module ''a'' sample_field] no_host_channels ''k'' =
      [declare_field (sample_module ''a'' sample_field) sample_field]"
    by code_simp
  then show ?thesis
    using admission_is_union_of_denials [OF sample_registry_assembled, of "''k''" Global]
      admission_is_union_of_denials [OF sample_registry_assembled, of "''k''" "Tool 1"]
    by (simp add: declare_field_def sample_field_def scope_denial_label_def)
qed

text \<open>C28: the bounds of an assembled entry are the intersection of its declarers' bounds: where no
  declared bound is a NaN, a number lies within the entry's bounds exactly when it lies within the
  bounds of every declaration of the key.\<close>

theorem effective_bounds_are_intersection:
  assumes "assemble_registry modules host = Inr (reg, ws)"
    and "btm_get reg key = Some e"
    and "list_all (\<lambda>d. bound_is_number (de_min d) \<and> bound_is_number (de_max d)) (declarations_of modules host key)"
  shows "within_bounds (re_min e) (re_max e) v \<longleftrightarrow>
    list_all (\<lambda>d. within_bounds (de_min d) (de_max d) v) (declarations_of modules host key)"
proof -
  have "e = reconciled_entry key (hd (declarations_of modules host key)) (declarations_of modules host key)"
    using assembled_get [OF assms(1), of key] assms(2) by (auto simp: Let_def split: if_splits)
  then show ?thesis
    using effective_bounds_iff [OF assms(3), of v] by (simp add: reconciled_entry_def Let_def)
qed

theorem effective_bounds_are_intersection_witness:
  "\<not> within_bounds (Some 0) None 0xBFF0000000000000 \<and>
   (case btm_get (fst sample_registry) ''k'' of
      None \<Rightarrow> False | Some e \<Rightarrow> \<not> within_bounds (re_min e) (re_max e) 0xBFF0000000000000)"
proof -
  let ?ds = "declarations_of [sample_module ''a'' sample_field] no_host_channels ''k''"
  have ds: "?ds = [declare_field (sample_module ''a'' sample_field) sample_field]"
    by code_simp
  have nums: "list_all (\<lambda>d. bound_is_number (de_min d) \<and> bound_is_number (de_max d)) ?ds"
    unfolding ds by code_simp
  have out: "\<not> within_bounds (Some 0) None 0xBFF0000000000000" by code_simp
  obtain e where e: "btm_get (fst sample_registry) ''k'' = Some e"
    using assembled_get [OF sample_registry_assembled, of "''k''"] by (simp add: ds Let_def)
  have "\<not> within_bounds (re_min e) (re_max e) 0xBFF0000000000000"
    unfolding effective_bounds_are_intersection [OF sample_registry_assembled e nums] ds
    using out by (simp add: declare_field_def sample_field_def)
  then show ?thesis using out e by simp
qed

text \<open>C26: assembly succeeds exactly when every key's declarations agree (known scopes, selectors denied
  at every per-region scope, one type, one enum domain), every selected base key is declared with an
  absolute numeric type, and the base-key relation has no cycle.\<close>

theorem registry_assembles_iff:
  "(\<exists>r. assemble_registry modules host = Inr r) \<longleftrightarrow>
     (\<forall>key. if declarations_of modules host key = [] then True
        else declarations_agree (declarations_of modules host key)) \<and>
     {b. \<exists>key. declared_base modules host key = Some b} \<subseteq>
       {b. declarations_of modules host b \<noteq> [] \<and>
           de_type (hd (declarations_of modules host b)) \<in> {''float'', ''float_or_percent''}} \<and>
     acyclic {(key, b). declared_base modules host key = Some b}"
    (is "?L \<longleftrightarrow> ?A \<and> ?B \<and> ?C")
proof (cases "\<exists>reg ws. reconcile_all (btm_group (all_declarations modules host)) [] [] = Inr (reg, ws)")
  case False
  then have "\<not> ?L" using assembled_run by fastforce
  moreover have "\<not> ?A" using False agreeing_reconcile [of modules host] by metis
  ultimately show ?thesis by blast
next
  case True
  then obtain reg ws where run: "reconcile_all (btm_group (all_declarations modules host)) [] [] = Inr (reg, ws)"
    by blast
  have A: ?A using reconciled_agree [OF run] by simp
  have rel: "base_rel reg = {(key, b). declared_base modules host key = Some b}"
    by (simp add: base_rel_def reconciled_base_of [OF run])
  have present: "(\<exists>be. btm_get reg b = Some be \<and> re_type be \<in> {''float'', ''float_or_percent''}) \<longleftrightarrow>
      declarations_of modules host b \<noteq> [] \<and>
      de_type (hd (declarations_of modules host b)) \<in> {''float'', ''float_or_percent''}" for b
    by (auto simp: reconciled_get [OF run] reconciled_entry_def Let_def)
  have "?L \<longleftrightarrow> validate_base_keys reg = Inr ()"
    unfolding assemble_registry_def run by (auto split: sum.split)
  also have "\<dots> \<longleftrightarrow> ?B \<and> ?C"
    unfolding validate_base_keys_iff [OF reconciled_wf [OF run]] present rel reconciled_base_of [OF run] by blast
  finally show ?thesis using A by blast
qed

end
