(* ===== verification/ResolvedConfig.thy ===== *)
theory ResolvedConfig
  imports ClaimDedup ConfigRegistry "HOL-Library.AList"
begin

text \<open>
  The typed resolved config of \<^verbatim>\<open>crates/slicer-ir/src/resolved_config.rs\<close>.  The source
  generates the struct and its methods by the macro \<^verbatim>\<open>declare_resolved_config!\<close> from one
  list of rows; here the rows are data and the generated methods interpret them: a config is the map
  from field names to typed values together with the extension map, \<^verbatim>\<open>apply_cli_key\<close>
  dispatches on the row of a key, and \<^verbatim>\<open>to_config_map\<close> renders every row.
\<close>

section \<open>Field values\<close>

datatype wall_generator = Classic | Arachne

datatype infill_type = Grid | Triangles | Honeycomb | Gyroid | Lightning | Line | Concentric

fun show_wall_generator :: "wall_generator \<Rightarrow> string" where
  "show_wall_generator Classic = ''Classic''"
| "show_wall_generator Arachne = ''Arachne''"

fun show_infill_type :: "infill_type \<Rightarrow> string" where
  "show_infill_type Grid = ''Grid''"
| "show_infill_type Triangles = ''Triangles''"
| "show_infill_type Honeycomb = ''Honeycomb''"
| "show_infill_type Gyroid = ''Gyroid''"
| "show_infill_type Lightning = ''Lightning''"
| "show_infill_type Line = ''Line''"
| "show_infill_type Concentric = ''Concentric''"

text \<open>The value of one field; \<open>FNone\<close> is the \<^verbatim>\<open>None\<close> of an optional field.\<close>

datatype field_value =
    FF32 u32
  | FF64 u64
  | FU32 u32
  | FBool bool
  | FString string
  | FF64s "u64 list"
  | FStrings "string list"
  | FFloatOrPercent u64 bool
  | FWallGenerator wall_generator
  | FInfillType infill_type
  | FSupportType support_type
  | FNone

text \<open>\<^verbatim>\<open>HostMapField::to_config_value\<close>, and the omission of an absent optional field.\<close>

fun to_config_value :: "field_value \<Rightarrow> config_value option" where
  "to_config_value (FF32 x) = Some (CvFloat (f64_of_f32 x))"
| "to_config_value (FF64 x) = Some (CvFloat x)"
| "to_config_value (FU32 n) = Some (CvInt (ucast n))"
| "to_config_value (FBool b) = Some (CvBool b)"
| "to_config_value (FString s) = Some (CvString s)"
| "to_config_value (FF64s xs) = (if xs = [] then None else Some (CvList (map CvFloat xs)))"
| "to_config_value (FStrings ss) = Some (CvList (map CvString ss))"
| "to_config_value (FFloatOrPercent v p) = Some (CvFloatOrPercent v p)"
| "to_config_value (FWallGenerator w) = Some (CvString (show_wall_generator w))"
| "to_config_value (FInfillType t) = Some (CvString (show_infill_type t))"
| "to_config_value (FSupportType t) = Some (CvString (as_canonical_str t))"
| "to_config_value FNone = None"

section \<open>Extractors\<close>

datatype config_resolution_error =
    TypeMismatch string string string
  | OutOfRange string u64 "u64 option" "u64 option" "nat option"
  | SupportLayerHeightTooFine string u32 u32

fun variant_name :: "config_value \<Rightarrow> string" where
  "variant_name (CvBool _) = ''Bool''"
| "variant_name (CvInt _) = ''Int''"
| "variant_name (CvFloat _) = ''Float''"
| "variant_name (CvString _) = ''String''"
| "variant_name (CvList _) = ''List''"
| "variant_name (CvPercent _) = ''Percent''"
| "variant_name (CvFloatOrPercent _ _) = ''FloatOrPercent''"

definition extract_float :: "string \<Rightarrow> config_value \<Rightarrow> config_resolution_error + u32" where
  "extract_float key value =
     (case value of
        CvFloat f \<Rightarrow> Inr (f32_of_f64 f)
      | CvInt i \<Rightarrow> Inr (f32_of_i64 i)
      | other \<Rightarrow> Inl (TypeMismatch key ''Float'' (variant_name other)))"

definition extract_float_or_percent :: "string \<Rightarrow> config_value \<Rightarrow> config_resolution_error + u64 \<times> bool" where
  "extract_float_or_percent key value =
     (case value of
        CvFloat f \<Rightarrow> Inr (f, False)
      | CvInt i \<Rightarrow> Inr (f64_of_i64 i, False)
      | CvFloatOrPercent v p \<Rightarrow> Inr (v, p)
      | other \<Rightarrow> Inl (TypeMismatch key ''FloatOrPercent'' (variant_name other)))"

definition extract_f64 :: "string \<Rightarrow> config_value \<Rightarrow> config_resolution_error + u64" where
  "extract_f64 key value =
     (case value of
        CvFloat f \<Rightarrow> Inr f
      | CvInt i \<Rightarrow> Inr (f64_of_i64 i)
      | other \<Rightarrow> Inl (TypeMismatch key ''Float'' (variant_name other)))"

definition extract_int_as_u32 :: "string \<Rightarrow> config_value \<Rightarrow> config_resolution_error + u32" where
  "extract_int_as_u32 key value =
     (case value of
        CvInt i \<Rightarrow>
          if 0 \<le> sint i \<and> sint i < 2 ^ 32 then Inr (of_int (sint i))
          else Inl (OutOfRange key (f64_of_i64 i) (Some 0) (Some (f64_of_int (2 ^ 32 - 1))) None)
      | other \<Rightarrow> Inl (TypeMismatch key ''Int'' (variant_name other)))"

definition extract_bool :: "string \<Rightarrow> config_value \<Rightarrow> config_resolution_error + bool" where
  "extract_bool key value =
     (case value of
        CvBool b \<Rightarrow> Inr b
      | CvInt i \<Rightarrow> if i = 0 then Inr False else if i = 1 then Inr True
                  else Inl (TypeMismatch key ''Bool'' ''Int'')
      | other \<Rightarrow> Inl (TypeMismatch key ''Bool'' (variant_name other)))"

definition extract_string :: "string \<Rightarrow> config_value \<Rightarrow> config_resolution_error + string" where
  "extract_string key value =
     (case value of
        CvString s \<Rightarrow> Inr s
      | other \<Rightarrow> Inl (TypeMismatch key ''String'' (variant_name other)))"

text \<open>\<^verbatim>\<open>format!("{key}[{i}]")\<close>, and the collection of a list of results up to the first error.\<close>

definition indexed_key :: "string \<Rightarrow> nat \<Rightarrow> string" where
  "indexed_key key i = key @ ''['' @ dec_nat i @ '']''"

fun collect_indexed :: "(string \<Rightarrow> 'a \<Rightarrow> 'e + 'b) \<Rightarrow> string \<Rightarrow> nat \<Rightarrow> 'a list \<Rightarrow> 'e + 'b list" where
  "collect_indexed f key i [] = Inr []"
| "collect_indexed f key i (x # xs) =
     (case f (indexed_key key i) x of
        Inl e \<Rightarrow> Inl e
      | Inr y \<Rightarrow> (case collect_indexed f key (Suc i) xs of Inl e \<Rightarrow> Inl e | Inr ys \<Rightarrow> Inr (y # ys)))"

definition extract_list :: "(string \<Rightarrow> config_value \<Rightarrow> config_resolution_error + 'b) \<Rightarrow> string \<Rightarrow> config_value
    \<Rightarrow> config_resolution_error + 'b list" where
  "extract_list element key value =
     (case value of
        CvList items \<Rightarrow> collect_indexed element key 0 items
      | other \<Rightarrow> (case element key other of Inl e \<Rightarrow> Inl e | Inr v \<Rightarrow> Inr [v]))"

definition extract_string_list :: "string \<Rightarrow> config_value \<Rightarrow> config_resolution_error + string list" where
  "extract_string_list = extract_list extract_string"

definition float_element :: "string \<Rightarrow> config_value \<Rightarrow> config_resolution_error + u64" where
  "float_element key value =
     (case value of
        CvFloat f \<Rightarrow> Inr f
      | CvInt i \<Rightarrow> Inr (f64_of_i64 i)
      | CvString s \<Rightarrow> (case parse_f64 (trim s) of
            Some x \<Rightarrow> Inr x | None \<Rightarrow> Inl (TypeMismatch key ''Float'' ''String''))
      | CvBool b \<Rightarrow> Inr (f64_of_int (if b then 1 else 0))
      | other \<Rightarrow> Inl (TypeMismatch key ''Float'' (variant_name other)))"

definition extract_float_list :: "string \<Rightarrow> config_value \<Rightarrow> config_resolution_error + u64 list" where
  "extract_float_list = extract_list float_element"

definition float_scalar :: "string \<Rightarrow> config_value \<Rightarrow> config_resolution_error + u32" where
  "float_scalar key value =
     (case value of
        CvFloat f \<Rightarrow> Inr (f32_of_f64 f)
      | CvInt i \<Rightarrow> Inr (f32_of_i64 i)
      | CvString s \<Rightarrow> (case parse_f32 (trim s) of
            Some x \<Rightarrow> Inr x | None \<Rightarrow> Inl (TypeMismatch key ''Float'' ''String''))
      | other \<Rightarrow> Inl (TypeMismatch key ''Float'' (variant_name other)))"

definition extract_float_or_first :: "string \<Rightarrow> config_value \<Rightarrow> config_resolution_error + u32" where
  "extract_float_or_first key value =
     (case value of
        CvList [] \<Rightarrow> Inl (TypeMismatch key ''non-empty List'' ''empty List'')
      | CvList (first # _) \<Rightarrow> float_scalar (indexed_key key 0) first
      | other \<Rightarrow> float_scalar key other)"

section \<open>Declaration rows\<close>

datatype extractor =
    ExtractF64 | ExtractFloat | ExtractFloatOrPercent | ExtractFloatOrFirst | ExtractIntAsU32
  | ExtractBool | ExtractString | ExtractStringList | ExtractFloatList

fun run_extractor :: "extractor \<Rightarrow> string \<Rightarrow> config_value \<Rightarrow> config_resolution_error + field_value" where
  "run_extractor ExtractF64 key v = map_sum id FF64 (extract_f64 key v)"
| "run_extractor ExtractFloat key v = map_sum id FF32 (extract_float key v)"
| "run_extractor ExtractFloatOrPercent key v = map_sum id (\<lambda>(x, p). FFloatOrPercent x p) (extract_float_or_percent key v)"
| "run_extractor ExtractFloatOrFirst key v = map_sum id FF32 (extract_float_or_first key v)"
| "run_extractor ExtractIntAsU32 key v = map_sum id FU32 (extract_int_as_u32 key v)"
| "run_extractor ExtractBool key v = map_sum id FBool (extract_bool key v)"
| "run_extractor ExtractString key v = map_sum id FString (extract_string key v)"
| "run_extractor ExtractStringList key v = map_sum id FStrings (extract_string_list key v)"
| "run_extractor ExtractFloatList key v = map_sum id FF64s (extract_float_list key v)"

text \<open>A row is \<^verbatim>\<open>plain field: ty = default\<close>, \<^verbatim>\<open>cli "key" field: ty = default => extractor\<close>
  or the optional \<^verbatim>\<open>cli_opt\<close>.\<close>

datatype drc_row =
    Plain (row_field: string) (row_default: field_value)
  | Cli (row_cli_key: string) (row_field: string) (row_default: field_value) (row_extractor: extractor)
  | CliOpt (row_cli_key: string) (row_field: string) (row_default: field_value) (row_extractor: extractor)

definition row_key :: "drc_row \<Rightarrow> string" where
  "row_key r = (case r of Plain f _ \<Rightarrow> f | Cli k _ _ _ \<Rightarrow> k | CliOpt k _ _ _ \<Rightarrow> k)"

definition is_plain :: "drc_row \<Rightarrow> bool" where
  "is_plain r = (case r of Plain _ _ \<Rightarrow> True | _ \<Rightarrow> False)"

definition GEOMETRY_ROWS :: "drc_row list" where
  "GEOMETRY_ROWS =
     [Cli ''layer_height'' ''layer_height'' (FF64 0x3FC999999999999A) ExtractF64,
      Cli ''line_width'' ''line_width'' (FF64 0) ExtractF64,
      Cli ''first_layer_height'' ''first_layer_height'' (FF64 0x3FC999999999999A) ExtractF64,
      Cli ''initial_layer_line_width'' ''initial_layer_line_width'' (FFloatOrPercent 0 False) ExtractFloatOrPercent,
      Cli ''filament_diameter'' ''filament_diameter'' (FF32 0x3FE00000) ExtractFloatOrFirst,
      Cli ''wall_count'' ''wall_count'' (FU32 2) ExtractIntAsU32,
      Cli ''outer_wall_speed'' ''outer_wall_speed'' (FF32 0x42480000) ExtractFloat,
      Cli ''inner_wall_speed'' ''inner_wall_speed'' (FF32 0x42480000) ExtractFloat,
      Plain ''wall_generator'' (FWallGenerator Classic),
      CliOpt ''arachne_min_feature_size'' ''arachne_min_feature_size'' FNone ExtractFloat,
      Plain ''infill_type'' (FInfillType Grid),
      Cli ''infill_density'' ''infill_density'' (FF32 0x3E4CCCCD) ExtractFloat,
      Cli ''infill_angle'' ''infill_angle'' (FF32 0x42340000) ExtractFloat,
      Cli ''infill_speed'' ''infill_speed'' (FF32 0x42480000) ExtractFloat,
      Cli ''solid_infill_speed'' ''solid_infill_speed'' (FF32 0x42480000) ExtractFloat,
      Cli ''top_shell_layers'' ''top_shell_layers'' (FU32 3) ExtractIntAsU32,
      Cli ''bottom_shell_layers'' ''bottom_shell_layers'' (FU32 3) ExtractIntAsU32,
      Cli ''top_fill_holder'' ''top_fill_holder'' (FString ''rectilinear-infill'') ExtractString,
      Cli ''bottom_fill_holder'' ''bottom_fill_holder'' (FString ''rectilinear-infill'') ExtractString,
      Cli ''bridge_fill_holder'' ''bridge_fill_holder'' (FString ''rectilinear-infill'') ExtractString,
      Cli ''sparse_fill_holder'' ''sparse_fill_holder'' (FString ''rectilinear-infill'') ExtractString,
      Cli ''fill_authored_coloring'' ''fill_authored_coloring'' (FStrings []) ExtractStringList]"

definition PATH_SUPPORT_ROWS :: "drc_row list" where
  "PATH_SUPPORT_ROWS =
     [Cli ''gcode_resolution'' ''gcode_resolution'' (FF32 0x3C4CCCCD) ExtractFloat,
      Cli ''infill_resolution'' ''infill_resolution'' (FF32 0x3D23D70A) ExtractFloat,
      Cli ''infill_overlap'' ''infill_overlap'' (FF32 0x3EE66666) ExtractFloat,
      Cli ''support_resolution'' ''support_resolution'' (FF32 0x3D19999A) ExtractFloat,
      Cli ''min_segment_length'' ''min_segment_length'' (FF32 0x3D4CCCCD) ExtractFloat,
      Cli ''gcode_xy_decimals'' ''gcode_xy_decimals'' (FU32 3) ExtractIntAsU32,
      Cli ''perimeter_arc_tolerance'' ''perimeter_arc_tolerance'' (FF32 0x3C4CCCCD) ExtractFloat,
      Cli ''slice_closing_radius'' ''slice_closing_radius'' (FF32 0x3D48B439) ExtractFloat,
      Cli ''flat_bridge_closing_join'' ''flat_bridge_closing_join'' (FString ''miter'') ExtractString,
      Cli ''enable_support'' ''support_enabled'' (FBool False) ExtractBool,
      Cli ''disable_m73'' ''disable_m73'' (FBool False) ExtractBool,
      Plain ''support_type'' (FSupportType NormalAuto),
      Cli ''support_threshold_angle'' ''support_threshold_angle'' (FF32 0x41F00000) ExtractFloat,
      Cli ''support_layer_height_mm'' ''support_layer_height_mm'' (FF32 0) ExtractFloat,
      Cli ''support_expansion'' ''support_expansion'' (FF32 0) ExtractFloat,
      Cli ''support_top_z_distance'' ''support_top_z_distance'' (FF32 0x3E4CCCCD) ExtractFloat,
      Cli ''support_bottom_z_distance'' ''support_bottom_z_distance'' (FF32 0x3E4CCCCD) ExtractFloat,
      Cli ''support_threshold_overlap'' ''support_threshold_overlap'' (FFloatOrPercent 0x4049000000000000 True) ExtractFloatOrPercent,
      Cli ''support_line_width'' ''support_line_width'' (FFloatOrPercent 0 False) ExtractFloatOrPercent,
      Cli ''bridge_no_support'' ''bridge_no_support'' (FBool False) ExtractBool,
      Cli ''enforce_support_layers'' ''enforce_support_layers'' (FU32 0) ExtractIntAsU32,
      Cli ''support_critical_regions_only'' ''support_critical_regions_only'' (FBool False) ExtractBool,
      Cli ''support_remove_small_overhang'' ''support_remove_small_overhang'' (FBool True) ExtractBool,
      Cli ''support_object_first_layer_gap'' ''support_object_first_layer_gap'' (FF32 0x3E4CCCCD) ExtractFloat,
      Cli ''support_sharp_tails'' ''support_sharp_tails'' (FBool True) ExtractBool]"

definition MODULE_MACHINE_ROWS :: "drc_row list" where
  "MODULE_MACHINE_ROWS =
     [CliOpt ''nonplanar_max_angle_deg'' ''nonplanar_max_angle_deg'' FNone ExtractFloat,
      CliOpt ''nonplanar_shell_count'' ''nonplanar_shell_count'' FNone ExtractIntAsU32,
      CliOpt ''nonplanar_amplitude'' ''nonplanar_amplitude'' FNone ExtractFloat,
      CliOpt ''smoothificator_target_height'' ''smoothificator_target_height'' FNone ExtractFloat,
      CliOpt ''smoothificator_adaptive'' ''smoothificator_adaptive'' FNone ExtractBool,
      Cli ''bed_shape'' ''bed_shape'' (FF64s [0, 0, 0x406F400000000000, 0, 0x406F400000000000, 0x406F400000000000, 0, 0x406F400000000000]) ExtractFloatList,
      Cli ''retract_length'' ''retract_length'' (FF32 0x40000000) ExtractFloat,
      Cli ''wipe_tower_enabled'' ''wipe_tower_enabled'' (FBool False) ExtractBool,
      Cli ''mmu_segmented_region_max_width'' ''mmu_segmented_region_max_width'' (FF32 0) ExtractFloat,
      Cli ''mmu_segmented_region_interlocking_depth'' ''mmu_segmented_region_interlocking_depth'' (FF32 0) ExtractFloat,
      Cli ''mmu_segmented_region_interlocking_beam'' ''mmu_segmented_region_interlocking_beam'' (FBool False) ExtractBool,
      CliOpt ''machine_max_acceleration_extruding'' ''machine_max_acceleration_extruding'' FNone ExtractFloatOrFirst,
      CliOpt ''machine_max_acceleration_travel'' ''machine_max_acceleration_travel'' FNone ExtractFloatOrFirst,
      CliOpt ''machine_max_speed_x'' ''machine_max_speed_x'' FNone ExtractFloatOrFirst,
      CliOpt ''machine_max_speed_y'' ''machine_max_speed_y'' FNone ExtractFloatOrFirst,
      CliOpt ''machine_max_speed_z'' ''machine_max_speed_z'' FNone ExtractFloatOrFirst,
      CliOpt ''machine_max_speed_e'' ''machine_max_speed_e'' FNone ExtractFloatOrFirst,
      CliOpt ''machine_max_jerk_x'' ''machine_max_jerk_x'' FNone ExtractFloatOrFirst,
      CliOpt ''machine_max_jerk_y'' ''machine_max_jerk_y'' FNone ExtractFloatOrFirst,
      CliOpt ''machine_max_jerk_z'' ''machine_max_jerk_z'' FNone ExtractFloatOrFirst,
      CliOpt ''machine_max_jerk_e'' ''machine_max_jerk_e'' FNone ExtractFloatOrFirst,
      Cli ''filament_density'' ''filament_density'' (FF64s []) ExtractFloatList]"

definition RESOLVED_CONFIG_ROWS :: "drc_row list" where
  "RESOLVED_CONFIG_ROWS = GEOMETRY_ROWS @ PATH_SUPPORT_ROWS @ MODULE_MACHINE_ROWS"

section \<open>The generated methods\<close>

record resolved_config =
  rc_fields :: "(string \<times> field_value) list"
  rc_extensions :: config_map

definition resolved_config_default :: resolved_config where
  "resolved_config_default =
     \<lparr>rc_fields = map (\<lambda>r. (row_field r, row_default r)) RESOLVED_CONFIG_ROWS, rc_extensions = []\<rparr>"

definition get_field :: "resolved_config \<Rightarrow> string \<Rightarrow> field_value" where
  "get_field rc f = (case map_of (rc_fields rc) f of None \<Rightarrow> FNone | Some v \<Rightarrow> v)"

definition set_field :: "string \<Rightarrow> field_value \<Rightarrow> resolved_config \<Rightarrow> resolved_config" where
  "set_field f v rc = rc\<lparr>rc_fields := AList.update f v (rc_fields rc)\<rparr>"

definition cli_row :: "string \<Rightarrow> drc_row option" where
  "cli_row key = find (\<lambda>r. \<not> is_plain r \<and> row_cli_key r = key) RESOLVED_CONFIG_ROWS"

definition apply_cli_key :: "resolved_config \<Rightarrow> string \<Rightarrow> config_value \<Rightarrow> config_resolution_error + resolved_config \<times> bool" where
  "apply_cli_key rc key value =
     (case cli_row key of
        Some r \<Rightarrow>
          (case run_extractor (row_extractor r) key value of
             Inl e \<Rightarrow> Inl e
           | Inr v \<Rightarrow> Inr (set_field (row_field r) v rc, True))
      | None \<Rightarrow>
          if key = ''wall_loops''
          then (case extract_int_as_u32 key value of
                  Inl e \<Rightarrow> Inl e
                | Inr n \<Rightarrow> Inr (set_field ''wall_count'' (FU32 n) rc, True))
          else Inr (rc, False))"

text \<open>\<^verbatim>\<open>to_config_map\<close>: the rows in order, then the extensions.\<close>

definition render_row :: "resolved_config \<Rightarrow> drc_row \<Rightarrow> config_map \<Rightarrow> config_map" where
  "render_row rc r m =
     (case to_config_value (get_field rc (row_field r)) of
        None \<Rightarrow> m | Some v \<Rightarrow> btm_insert (row_key r) v m)"

definition to_config_map :: "resolved_config \<Rightarrow> config_map" where
  "to_config_map rc =
     fold (\<lambda>(k, v). btm_insert k v) (rc_extensions rc) (fold (render_row rc) RESOLVED_CONFIG_ROWS [])"

definition typed_field_keys :: "string list" where
  "typed_field_keys = map row_key RESOLVED_CONFIG_ROWS @ [''wall_loops'']"

datatype declared_key_kind = Boolean | NonBoolean | Undeclared

definition classify_declared_key :: "string \<Rightarrow> declared_key_kind" where
  "classify_declared_key key =
     (case apply_cli_key resolved_config_default key (CvBool True) of
        Inr (_, True) \<Rightarrow> Boolean
      | Inr (_, False) \<Rightarrow> Undeclared
      | Inl _ \<Rightarrow> NonBoolean)"

definition is_declared_float_or_percent_key :: "string \<Rightarrow> bool" where
  "is_declared_float_or_percent_key key =
     (case apply_cli_key resolved_config_default key (CvFloatOrPercent 0 True) of
        Inr (_, True) \<Rightarrow> True | _ \<Rightarrow> False)"

definition filament_density_for :: "resolved_config \<Rightarrow> u32 \<Rightarrow> u64 option" where
  "filament_density_for rc tool_index =
     (case get_field rc ''filament_density'' of
        FF64s ds \<Rightarrow>
          if unat tool_index < length ds then Some (ds ! unat tool_index)
          else (case ds of [] \<Rightarrow> None | d # _ \<Rightarrow> Some d)
      | _ \<Rightarrow> None)"

text \<open>\<^verbatim>\<open>ConfigSchemaRegistry::config_block_map\<close> of \<^verbatim>\<open>slicer-config\<close>.\<close>

definition config_block_map :: "registry \<Rightarrow> resolved_config \<Rightarrow> config_map" where
  "config_block_map entries rc =
     (let effective = to_config_map rc;
          put = (\<lambda>key block. case btm_get effective key of None \<Rightarrow> block | Some v \<Rightarrow> btm_insert key v block);
          block = fold (\<lambda>(key, entry) block. if re_omit entry then block else put key block) entries []
      in fold (\<lambda>key block. if btm_get entries key \<noteq> None then block else put key block) typed_field_keys block)"

section \<open>Laws of the rows\<close>

lemma rows_distinct: "distinct (map row_field RESOLVED_CONFIG_ROWS)" "distinct (map row_key RESOLVED_CONFIG_ROWS)"
  by code_simp+

lemma wall_count_row: "Cli ''wall_count'' ''wall_count'' (FU32 2) ExtractIntAsU32 \<in> set RESOLVED_CONFIG_ROWS"
  by (simp add: RESOLVED_CONFIG_ROWS_def GEOMETRY_ROWS_def)

lemma cli_row_Some: "cli_row key = Some r \<Longrightarrow> r \<in> set RESOLVED_CONFIG_ROWS \<and> \<not> is_plain r \<and> row_cli_key r = key"
  unfolding cli_row_def by (metis (mono_tags, lifting) find_Some_iff nth_mem)

lemma row_field_inj: "r \<in> set RESOLVED_CONFIG_ROWS \<Longrightarrow> r' \<in> set RESOLVED_CONFIG_ROWS \<Longrightarrow> row_field r = row_field r' \<Longrightarrow> r = r'"
  using rows_distinct(1) by (simp add: distinct_map inj_on_def)

text \<open>The Rust type of a field: an extractor's result type, \<^verbatim>\<open>Option\<close> of it for an optional row,
  and the default itself for a plain row, which no key writes.\<close>

fun extractor_type :: "extractor \<Rightarrow> field_value \<Rightarrow> bool" where
  "extractor_type ExtractF64 v = (case v of FF64 _ \<Rightarrow> True | _ \<Rightarrow> False)"
| "extractor_type ExtractFloat v = (case v of FF32 _ \<Rightarrow> True | _ \<Rightarrow> False)"
| "extractor_type ExtractFloatOrPercent v = (case v of FFloatOrPercent _ _ \<Rightarrow> True | _ \<Rightarrow> False)"
| "extractor_type ExtractFloatOrFirst v = (case v of FF32 _ \<Rightarrow> True | _ \<Rightarrow> False)"
| "extractor_type ExtractIntAsU32 v = (case v of FU32 _ \<Rightarrow> True | _ \<Rightarrow> False)"
| "extractor_type ExtractBool v = (case v of FBool _ \<Rightarrow> True | _ \<Rightarrow> False)"
| "extractor_type ExtractString v = (case v of FString _ \<Rightarrow> True | _ \<Rightarrow> False)"
| "extractor_type ExtractStringList v = (case v of FStrings _ \<Rightarrow> True | _ \<Rightarrow> False)"
| "extractor_type ExtractFloatList v = (case v of FF64s _ \<Rightarrow> True | _ \<Rightarrow> False)"

fun row_type :: "drc_row \<Rightarrow> field_value \<Rightarrow> bool" where
  "row_type (Plain _ d) v = (v = d)"
| "row_type (Cli _ _ _ e) v = extractor_type e v"
| "row_type (CliOpt _ _ _ e) v = (v = FNone \<or> extractor_type e v)"

definition resolved_config_ok :: "resolved_config \<Rightarrow> bool" where
  "resolved_config_ok rc \<longleftrightarrow> list_all (\<lambda>r. row_type r (get_field rc (row_field r))) RESOLVED_CONFIG_ROWS"

lemma run_extractor_type: "run_extractor e key v = Inr fv \<Longrightarrow> extractor_type e fv"
  by (cases e) (auto simp: map_sum_def split: sum.splits)

text \<open>The field an authored key writes.\<close>

definition target_field :: "string \<Rightarrow> string option" where
  "target_field key =
     (case cli_row key of
        Some r \<Rightarrow> Some (row_field r)
      | None \<Rightarrow> if key = ''wall_loops'' then Some ''wall_count'' else None)"

lemma get_set_field: "get_field (set_field f v rc) f' = (if f' = f then v else get_field rc f')"
  by (simp add: get_field_def set_field_def update_conv)

lemma extensions_set_field [simp]: "rc_extensions (set_field f v rc) = rc_extensions rc"
  by (simp add: set_field_def)

lemma set_field_ok:
  assumes "resolved_config_ok rc" and "r \<in> set RESOLVED_CONFIG_ROWS" and "row_type r v"
  shows "resolved_config_ok (set_field (row_field r) v rc)"
  using assms row_field_inj [OF _ assms(2)] by (auto simp: resolved_config_ok_def list_all_iff get_set_field)

lemma default_field:
  assumes "r \<in> set RESOLVED_CONFIG_ROWS"
  shows "get_field resolved_config_default (row_field r) = row_default r"
proof -
  have "map_of (map (\<lambda>r. (row_field r, row_default r)) RESOLVED_CONFIG_ROWS) (row_field r) = Some (row_default r)"
    using assms rows_distinct(1) by (intro map_of_is_SomeI) (auto simp: comp_def)
  then show ?thesis by (simp add: get_field_def resolved_config_default_def)
qed

lemma default_config_ok: "resolved_config_ok resolved_config_default"
proof -
  have "list_all (\<lambda>r. row_type r (row_default r)) RESOLVED_CONFIG_ROWS"
    by (simp add: RESOLVED_CONFIG_ROWS_def GEOMETRY_ROWS_def PATH_SUPPORT_ROWS_def MODULE_MACHINE_ROWS_def)
  then show ?thesis by (simp add: resolved_config_ok_def list_all_iff default_field)
qed

lemma apply_cli_key_cases:
  assumes "apply_cli_key rc key value = Inr (rc', applied)"
  obtains (declared) r v where "r \<in> set RESOLVED_CONFIG_ROWS" and "row_type r v" and
      "target_field key = Some (row_field r)" and "rc' = set_field (row_field r) v rc" and "applied"
    | (undeclared) "target_field key = None" and "rc' = rc" and "\<not> applied"
proof (cases "cli_row key")
  case (Some r)
  note r = cli_row_Some [OF Some]
  obtain v where v: "run_extractor (row_extractor r) key value = Inr v" "rc' = set_field (row_field r) v rc" "applied"
    using assms Some by (auto simp: apply_cli_key_def split: sum.splits)
  have "row_type r v"
    using run_extractor_type [OF v(1)] r by (cases r) (auto simp: is_plain_def)
  then show thesis
    by (rule declared [rotated]) (use r v Some in \<open>simp_all add: target_field_def\<close>)
next
  case None
  show thesis
  proof (cases "key = ''wall_loops''")
    case True
    obtain n where n: "rc' = set_field ''wall_count'' (FU32 n) rc" "applied"
      using assms None True by (auto simp: apply_cli_key_def split: sum.splits)
    show thesis
      by (rule declared [OF wall_count_row, of "FU32 n"]) (use n None True in \<open>simp_all add: target_field_def\<close>)
  next
    case False
    then show thesis using assms None undeclared by (simp add: apply_cli_key_def target_field_def)
  qed
qed

lemma apply_cli_key_ok:
  assumes "resolved_config_ok rc" and "apply_cli_key rc key value = Inr (rc', applied)"
  shows "resolved_config_ok rc'"
  using assms(2) by (cases rule: apply_cli_key_cases) (use assms(1) in \<open>auto intro: set_field_ok\<close>)

lemma rows_render:
  "distinct (map row_key rs) \<Longrightarrow>
   btm_get (fold (render_row rc) rs m) key =
     (case find (\<lambda>r. row_key r = key) rs of
        None \<Rightarrow> btm_get m key
      | Some r \<Rightarrow> (case to_config_value (get_field rc (row_field r)) of None \<Rightarrow> btm_get m key | Some v \<Rightarrow> Some v))"
proof (induction rs arbitrary: m)
  case (Cons r rs)
  have "find (\<lambda>r. row_key r = key) rs = None" if "row_key r = key"
    using Cons.prems that by (auto simp: find_None_iff dest: sym)
  then show ?case using Cons by (auto simp: render_row_def split: option.splits)
qed simp

lemma rows_render_wf: "btm_wf m \<Longrightarrow> btm_wf (fold (render_row rc) rs m)"
  by (induction rs arbitrary: m) (auto simp: render_row_def split: option.splits)

lemma to_config_map_wf [simp]: "btm_wf (to_config_map rc)"
  by (simp add: to_config_map_def fold_btm_insert_wf rows_render_wf)

lemma to_config_map_get:
  assumes "btm_wf (rc_extensions rc)"
  shows "btm_get (to_config_map rc) key =
    (case btm_get (rc_extensions rc) key of
       Some v \<Rightarrow> Some v
     | None \<Rightarrow> (case find (\<lambda>r. row_key r = key) RESOLVED_CONFIG_ROWS of
           None \<Rightarrow> None | Some r \<Rightarrow> to_config_value (get_field rc (row_field r))))"
proof -
  have "map_of (rev (rc_extensions rc)) key = btm_get (rc_extensions rc) key"
    using map_of_rev_distinct [of "rc_extensions rc"] btm_wf_distinct [OF assms]
    by (simp add: btm_get_def btm_keys_def)
  then show ?thesis
    by (simp add: to_config_map_def fold_btm_insert_get rows_render [OF rows_distinct(2)] split: option.split)
qed

lemma fold_put_get:
  "btm_get (fold (\<lambda>x block. if P x then block
       else (case btm_get m (f x) of None \<Rightarrow> block | Some v \<Rightarrow> btm_insert (f x) v block)) xs b) key =
   (if (\<exists>x \<in> set xs. \<not> P x \<and> f x = key) \<and> btm_get m key \<noteq> None then btm_get m key else btm_get b key)"
proof (induction xs arbitrary: b)
  case (Cons x xs)
  show ?case
    by (cases "btm_get m (f x)") (auto simp: Cons.IH)
qed simp

section \<open>Properties\<close>



text \<open>the resolved config block holds exactly the effective values of the registry's keys not marked
  for omission and of the typed fields the registry does not declare; an extension no declaration
  names is never emitted.\<close>

theorem config_block_exact:
  assumes "btm_wf reg"
  shows "btm_get (config_block_map reg rc) key =
    (case btm_get reg key of
       Some e \<Rightarrow> if re_omit e then None else btm_get (to_config_map rc) key
     | None \<Rightarrow> if key \<in> set typed_field_keys then btm_get (to_config_map rc) key else None)"
proof -
  let ?eff = "to_config_map rc"
  let ?put = "\<lambda>key block. case btm_get ?eff key of None \<Rightarrow> block | Some v \<Rightarrow> btm_insert key v block"
  have first: "btm_get (fold (\<lambda>(k, e) block. if re_omit e then block else ?put k block) reg []) key =
      (if (\<exists>x \<in> set reg. \<not> re_omit (snd x) \<and> fst x = key) \<and> btm_get ?eff key \<noteq> None then btm_get ?eff key else None)"
    unfolding case_prod_unfold
    by (simp only: btm_get_Nil fold_put_get [where P = "\<lambda>x. re_omit (snd x)" and f = fst])
  have mem: "(\<exists>x \<in> set reg. \<not> re_omit (snd x) \<and> fst x = key) \<longleftrightarrow>
      (\<exists>e. btm_get reg key = Some e \<and> \<not> re_omit e)"
    unfolding btm_get_Some_iff [OF assms] by force
  show ?thesis
    unfolding config_block_map_def Let_def fold_put_get [where f = "\<lambda>x. x"] first mem
    by (auto split: option.splits)
qed

theorem config_block_exact_witness:
  "btm_get (config_block_map (fst sample_registry) resolved_config_default) ''infill_type'' = Some (CvString ''Grid'') \<and>
   btm_get (config_block_map (fst sample_registry) (resolved_config_default\<lparr>rc_extensions := [(''x'', CvBool True)]\<rparr>)) ''x'' = None"
proof -
  note wf = assembled_wf [OF sample_registry_assembled]
  have "btm_get (fst sample_registry) ''infill_type'' = None" "btm_get (fst sample_registry) ''x'' = None"
    unfolding sample_registry_def by code_simp+
  moreover have "''infill_type'' \<in> set typed_field_keys" "''x'' \<notin> set typed_field_keys"
    by (simp_all add: typed_field_keys_def row_key_def RESOLVED_CONFIG_ROWS_def GEOMETRY_ROWS_def
        PATH_SUPPORT_ROWS_def MODULE_MACHINE_ROWS_def)
  moreover have "btm_get (to_config_map resolved_config_default) ''infill_type'' = Some (CvString ''Grid'')"
    using to_config_map_get [of resolved_config_default "''infill_type''"]
    by (simp add: resolved_config_default_def get_field_def RESOLVED_CONFIG_ROWS_def GEOMETRY_ROWS_def row_key_def)
  ultimately show ?thesis
    unfolding config_block_exact [OF wf] by simp
qed

end
