(* ===== verification/ConfigIngest.thy ===== *)
theory ConfigIngest
  imports ResolvedConfig
begin

text \<open>
  Typed ingestion of authored configuration, \<^verbatim>\<open>crates/slicer-config/src/ingestion.rs\<close>: the
  decoding of flat wire keys into scopes, the coercion of authored values to the declared field
  types, the ingestor with its strict and tolerant modes, world-Z layer ranges, and the spelling
  suggestions for unknown keys.  The rendering of floats and of lists by \<^verbatim>\<open>Display\<close> and
  \<^verbatim>\<open>Debug\<close> in diagnostics is a parameter.
\<close>

section \<open>Scopes in order\<close>

text \<open>The derived \<^verbatim>\<open>Ord\<close> of \<^verbatim>\<open>ConfigScope\<close>: by variant, then field by field.\<close>

fun scope_rank :: "config_scope \<Rightarrow> nat \<times> string \<times> string \<times> nat" where
  "scope_rank Global = (0, [], [], 0)"
| "scope_rank (Object i) = (1, i, [], 0)"
| "scope_rank (LayerRange i n) = (2, i, [], unat n)"
| "scope_rank (Modifier i m) = (3, i, m, 0)"
| "scope_rank (PaintSemantic s) = (4, s, [], 0)"
| "scope_rank (Tool n) = (5, [], [], unat n)"

lemma scope_rank_inj [simp]: "scope_rank a = scope_rank b \<longleftrightarrow> a = b"
  by (cases a; cases b) (auto simp: word_unat_eq_iff)

instantiation config_scope :: linorder
begin

definition less_eq_config_scope :: "config_scope \<Rightarrow> config_scope \<Rightarrow> bool" where
  "less_eq_config_scope a b \<longleftrightarrow> scope_rank a \<le> scope_rank b"

definition less_config_scope :: "config_scope \<Rightarrow> config_scope \<Rightarrow> bool" where
  "less_config_scope a b \<longleftrightarrow> scope_rank a < scope_rank b"

instance
  by standard (auto simp only: less_eq_config_scope_def less_config_scope_def less_le_not_le
      order_antisym_conv scope_rank_inj intro: order_trans linear dest: order_antisym)

end

section \<open>Errors and warnings\<close>

datatype expansion_error =
    UnknownBaseKey string string
  | MissingAutoBase string string
  | NonPositiveBase string string u64

datatype resolution_error =
    Application config_resolution_error
  | Expansion expansion_error
  | InvalidObjectHeight string "u64 option"
  | ScopeDenied string config_scope

datatype ingestion_warning =
    UnrecognizedKey string string "string option"
  | UntypedValue string string string

datatype config_ingestion_error =
    MalformedScopeKey string string
  | IngestTypeMismatch string string string

datatype layer_range_load_error =
    Denied resolution_error
  | ConflictingOverlap string string u32 u32
  | InvalidInterval string u32 u64 u64
  | UnknownObject string
  | InvalidLayerHeight string u32 u64
  | Ingestion config_ingestion_error

section \<open>Wire keys\<close>

definition is_scope_key :: "string \<Rightarrow> string \<Rightarrow> bool" where
  "is_scope_key pre wire_key \<longleftrightarrow> wire_key = pre \<or> prefix (pre @ '':'') wire_key"

definition decode_wire_key :: "string \<Rightarrow> config_ingestion_error + config_scope \<times> string" where
  "decode_wire_key wire_key =
     (let parts = split_char (CHR '':'') wire_key
      in if is_scope_key ''object_config'' wire_key
         then (if length parts \<noteq> 3 \<or> parts ! 1 = [] \<or> parts ! 2 = []
               then Inl (MalformedScopeKey wire_key ''object_config:<object_id>:<key>'')
               else Inr (Object (parts ! 1), parts ! 2))
         else if is_scope_key ''paint_config'' wire_key
         then (if length parts \<noteq> 3 \<or> parts ! 1 = [] \<or> parts ! 2 = []
               then Inl (MalformedScopeKey wire_key ''paint_config:<semantic>:<key>'')
               else Inr (PaintSemantic (parts ! 1), parts ! 2))
         else if is_scope_key ''tool_config'' wire_key
         then (case (if 1 < length parts then parse_u32 (parts ! 1) else None) of
                 Some tool \<Rightarrow>
                   if length parts \<noteq> 3 \<or> parts ! 2 = []
                   then Inl (MalformedScopeKey wire_key ''tool_config:<u32>:<key>'')
                   else Inr (Tool tool, parts ! 2)
               | None \<Rightarrow> Inl (MalformedScopeKey wire_key ''tool_config:<u32>:<key>''))
         else Inr (Global, wire_key))"

section \<open>Coercion\<close>

record text_format =
  tf_f64 :: "u64 \<Rightarrow> string"
  tf_list :: "config_value list \<Rightarrow> string"

fun authored_text :: "text_format \<Rightarrow> config_value \<Rightarrow> string" where
  "authored_text tf (CvBool b) = (if b then ''true'' else ''false'')"
| "authored_text tf (CvInt i) = show_i64 i"
| "authored_text tf (CvFloat x) = tf_f64 tf x"
| "authored_text tf (CvString s) = s"
| "authored_text tf (CvList vs) = tf_list tf vs"
| "authored_text tf (CvPercent x) = tf_f64 tf x @ ''%''"
| "authored_text tf (CvFloatOrPercent x p) = (if p then tf_f64 tf x @ ''%'' else tf_f64 tf x)"

definition parse_finite_float :: "string \<Rightarrow> u64 option" where
  "parse_finite_float value =
     (let t = trim value;
          t = trim (case strip_suffix_char (CHR ''%'') t of Some r \<Rightarrow> r | None \<Rightarrow> t)
      in case parse_f64 t of
           Some x \<Rightarrow> if f64_is_finite x then Some x else None
         | None \<Rightarrow> None)"

definition parse_point_pair :: "string \<Rightarrow> (u64 \<times> u64) option" where
  "parse_point_pair value =
     (case split_once (CHR ''x'') (trim value) of
        None \<Rightarrow> None
      | Some (x, y) \<Rightarrow> (case (parse_finite_float x, parse_finite_float y) of
            (Some a, Some b) \<Rightarrow> Some (a, b) | _ \<Rightarrow> None))"

definition parse_bool :: "string \<Rightarrow> bool option" where
  "parse_bool value =
     (let t = trim value
      in if eq_ignore_ascii_case t ''true'' \<or> t = ''1'' then Some True
         else if eq_ignore_ascii_case t ''false'' \<or> t = ''0'' then Some False
         else None)"

definition parse_percent :: "string \<Rightarrow> u64 option" where
  "parse_percent value = Option.bind (strip_suffix_char (CHR ''%'') (trim value)) parse_finite_float"

definition parse_float_or_percent :: "string \<Rightarrow> (u64 \<times> bool) option" where
  "parse_float_or_percent value =
     (case strip_suffix_char (CHR ''%'') (trim value) of
        Some number \<Rightarrow> map_option (\<lambda>x. (x, True)) (parse_finite_float number)
      | None \<Rightarrow> map_option (\<lambda>x. (x, False)) (parse_finite_float (trim value)))"

fun coerce_float_entries :: "string list \<Rightarrow> config_value list option" where
  "coerce_float_entries [] = Some []"
| "coerce_float_entries (entry # rest) =
     (case parse_point_pair entry of
        Some (x, y) \<Rightarrow> map_option (\<lambda>vs. CvFloat x # CvFloat y # vs) (coerce_float_entries rest)
      | None \<Rightarrow> (case parse_finite_float entry of
            Some x \<Rightarrow> map_option (\<lambda>vs. CvFloat x # vs) (coerce_float_entries rest)
          | None \<Rightarrow> None))"

definition coerce_float_item :: "config_value \<Rightarrow> config_value list option" where
  "coerce_float_item item =
     (case item of
        CvFloat x \<Rightarrow> if f64_is_finite x then Some [CvFloat x] else None
      | CvInt i \<Rightarrow> Some [CvFloat (f64_of_i64 i)]
      | CvString text \<Rightarrow>
          coerce_float_entries (filter (\<lambda>part. trim part \<noteq> []) (split_char (CHR '','') (trim text)))
      | _ \<Rightarrow> None)"

text \<open>\<^verbatim>\<open>iter().map(f).collect::<Option<Vec<_>>>()\<close>.\<close>

fun collect_option :: "('a \<Rightarrow> 'b option) \<Rightarrow> 'a list \<Rightarrow> 'b list option" where
  "collect_option f [] = Some []"
| "collect_option f (x # xs) =
     (case f x of None \<Rightarrow> None | Some y \<Rightarrow> map_option ((#) y) (collect_option f xs))"

definition coerce_list :: "(config_value \<Rightarrow> config_value option) \<Rightarrow> config_value \<Rightarrow> config_value option" where
  "coerce_list convert authored =
     (case authored of CvList items \<Rightarrow> map_option CvList (collect_option convert items) | _ \<Rightarrow> None)"

definition coerce_int_item :: "config_value \<Rightarrow> config_value option" where
  "coerce_int_item item =
     (case item of CvInt i \<Rightarrow> Some (CvInt i) | CvString s \<Rightarrow> map_option CvInt (parse_i64 s) | _ \<Rightarrow> None)"

definition coerce_string_item :: "config_value \<Rightarrow> config_value option" where
  "coerce_string_item item = (case item of CvString s \<Rightarrow> Some (CvString s) | _ \<Rightarrow> None)"

text \<open>The arms of \<^verbatim>\<open>coerce_value\<close>; \<open>None\<close> is the type mismatch.\<close>

definition coerce_bool :: "config_value \<Rightarrow> config_value option" where
  "coerce_bool authored =
     (case authored of
        CvBool b \<Rightarrow> Some (CvBool b)
      | CvInt i \<Rightarrow> if i = 0 then Some (CvBool False) else if i = 1 then Some (CvBool True) else None
      | CvString s \<Rightarrow> map_option CvBool (parse_bool s)
      | _ \<Rightarrow> None)"

definition coerce_int :: "config_value \<Rightarrow> config_value option" where
  "coerce_int authored =
     (case authored of
        CvInt i \<Rightarrow> Some (CvInt i)
      | CvFloat x \<Rightarrow> if f64_is_finite x \<and> f64_is_integral x then Some (CvInt (f64_to_i64 x)) else None
      | CvString s \<Rightarrow> map_option CvInt (parse_i64 (trim s))
      | _ \<Rightarrow> None)"

definition coerce_float :: "config_value \<Rightarrow> config_value option" where
  "coerce_float authored =
     (case authored of
        CvFloat x \<Rightarrow> if f64_is_finite x then Some (CvFloat x) else None
      | CvInt i \<Rightarrow> Some (CvFloat (f64_of_i64 i))
      | CvString s \<Rightarrow> map_option CvFloat (parse_finite_float s)
      | _ \<Rightarrow> None)"

definition coerce_string :: "config_value \<Rightarrow> config_value option" where
  "coerce_string authored = (case authored of CvString s \<Rightarrow> Some (CvString s) | _ \<Rightarrow> None)"

definition coerce_percent :: "config_value \<Rightarrow> config_value option" where
  "coerce_percent authored =
     (case authored of
        CvPercent x \<Rightarrow> Some (CvPercent x)
      | CvFloatOrPercent x _ \<Rightarrow> if f64_is_finite x then Some (CvPercent x) else None
      | CvInt i \<Rightarrow> Some (CvPercent (f64_of_i64 i))
      | CvFloat x \<Rightarrow> if f64_is_finite x then Some (CvPercent x) else None
      | CvString s \<Rightarrow> map_option CvPercent (parse_percent s)
      | _ \<Rightarrow> None)"

definition coerce_float_or_percent :: "config_value \<Rightarrow> config_value option" where
  "coerce_float_or_percent authored =
     (case authored of
        CvFloatOrPercent x p \<Rightarrow> Some (CvFloatOrPercent x p)
      | CvPercent x \<Rightarrow> if f64_is_finite x then Some (CvFloatOrPercent x True) else None
      | CvInt i \<Rightarrow> Some (CvFloatOrPercent (f64_of_i64 i) False)
      | CvFloat x \<Rightarrow> if f64_is_finite x then Some (CvFloatOrPercent x False) else None
      | CvString s \<Rightarrow> map_option (\<lambda>(x, p). CvFloatOrPercent x p) (parse_float_or_percent s)
      | _ \<Rightarrow> None)"

definition coerce_float_list :: "config_value \<Rightarrow> config_value option" where
  "coerce_float_list authored =
     (let entries = (case authored of CvList items \<Rightarrow> items | other \<Rightarrow> [other])
      in map_option (\<lambda>vss. CvList (concat vss)) (collect_option coerce_float_item entries))"

definition coerce_as :: "string \<Rightarrow> config_value \<Rightarrow> config_value option" where
  "coerce_as field_type authored =
     (if field_type = ''bool'' then coerce_bool authored
      else if field_type = ''int'' then coerce_int authored
      else if field_type = ''float'' then coerce_float authored
      else if field_type = ''string'' \<or> field_type = ''enum'' then coerce_string authored
      else if field_type = ''percent'' then coerce_percent authored
      else if field_type = ''float_or_percent'' then coerce_float_or_percent authored
      else if field_type = ''float-list'' then coerce_float_list authored
      else if field_type = ''int-list'' then coerce_list coerce_int_item authored
      else if field_type = ''string-list'' then coerce_list coerce_string_item authored
      else None)"

definition coerce_value :: "text_format \<Rightarrow> string \<Rightarrow> config_value \<Rightarrow> string \<Rightarrow> config_ingestion_error + config_value" where
  "coerce_value tf key authored field_type =
     (case coerce_as field_type authored of
        Some v \<Rightarrow> Inr v
      | None \<Rightarrow> Inl (IngestTypeMismatch key field_type (authored_text tf authored)))"

subsection \<open>The tolerant mode's fallbacks\<close>

definition is_non_finite_float_text :: "string \<Rightarrow> bool" where
  "is_non_finite_float_text value =
     (case parse_f64 (trim value) of Some x \<Rightarrow> \<not> f64_is_finite x | None \<Rightarrow> False)"

definition is_non_finite_percent_text :: "string \<Rightarrow> bool" where
  "is_non_finite_percent_text value =
     (case strip_suffix_char (CHR ''%'') (trim value) of
        Some r \<Rightarrow> is_non_finite_float_text r | None \<Rightarrow> False)"

definition is_non_finite_float_or_percent_text :: "string \<Rightarrow> bool" where
  "is_non_finite_float_or_percent_text value =
     (case strip_suffix_char (CHR ''%'') (trim value) of
        Some r \<Rightarrow> is_non_finite_float_text r | None \<Rightarrow> is_non_finite_float_text value)"

definition is_non_finite_scalar_value :: "config_value \<Rightarrow> string \<Rightarrow> bool" where
  "is_non_finite_scalar_value authored field_type =
     (if field_type = ''float''
      then (case authored of CvFloat x \<Rightarrow> \<not> f64_is_finite x | CvString s \<Rightarrow> is_non_finite_float_text s | _ \<Rightarrow> False)
      else if field_type = ''percent''
      then (case authored of
              CvFloatOrPercent x _ \<Rightarrow> \<not> f64_is_finite x
            | CvFloat x \<Rightarrow> \<not> f64_is_finite x
            | CvString s \<Rightarrow> is_non_finite_percent_text s
            | _ \<Rightarrow> False)
      else if field_type = ''float_or_percent''
      then (case authored of
              CvPercent x \<Rightarrow> \<not> f64_is_finite x
            | CvFloat x \<Rightarrow> \<not> f64_is_finite x
            | CvString s \<Rightarrow> is_non_finite_float_or_percent_text s
            | _ \<Rightarrow> False)
      else False)"

definition is_non_finite_type_mismatch :: "config_value \<Rightarrow> string \<Rightarrow> bool" where
  "is_non_finite_type_mismatch authored field_type =
     (case authored of
        CvList items \<Rightarrow>
          if suffix ''-list'' field_type
          then field_type = ''float-list'' \<and> list_ex (\<lambda>i. is_non_finite_scalar_value i ''float'') items
          else list_ex (\<lambda>i. is_non_finite_scalar_value i field_type) items
      | _ \<Rightarrow> is_non_finite_scalar_value authored field_type)"

fun coerce_items :: "text_format \<Rightarrow> string \<Rightarrow> config_value list \<Rightarrow> string
    \<Rightarrow> config_ingestion_error + config_value list option" where
  "coerce_items tf key [] field_type = Inr (Some [])"
| "coerce_items tf key (item # rest) field_type =
     (case coerce_value tf key item field_type of
        Inr v \<Rightarrow> (case coerce_items tf key rest field_type of
            Inl e \<Rightarrow> Inl e | Inr r \<Rightarrow> Inr (map_option ((#) v) r))
      | Inl e \<Rightarrow> if is_non_finite_scalar_value item field_type then Inl e else Inr None)"

definition coerce_scalar_list :: "text_format \<Rightarrow> string \<Rightarrow> config_value \<Rightarrow> string
    \<Rightarrow> config_ingestion_error + config_value option" where
  "coerce_scalar_list tf key authored field_type =
     (case authored of
        CvList items \<Rightarrow>
          if suffix ''-list'' field_type then Inr None
          else (case (case items of [] \<Rightarrow> None | first # _ \<Rightarrow> coerce_as field_type first) of
                  Some v \<Rightarrow> Inr (Some v)
                | None \<Rightarrow> map_sum id (map_option CvList) (coerce_items tf key items field_type))
      | _ \<Rightarrow> Inr None)"

section \<open>Suggestions\<close>

text \<open>The characters of a valid UTF-8 string: each lead byte with the continuation bytes after it.\<close>

definition is_continuation :: "char \<Rightarrow> bool" where
  "is_continuation c \<longleftrightarrow> (of_char c :: nat) div 64 = 2"

function chars :: "string \<Rightarrow> string list" where
  "chars [] = []"
| "chars (c # s) = (c # takeWhile is_continuation s) # chars (dropWhile is_continuation s)"
  by pat_completeness auto

termination
  by (relation "measure length") (auto simp: le_imp_less_Suc length_dropWhile_le)

text \<open>One row of the edit-distance table: \<open>left\<close> is \<^verbatim>\<open>current[j]\<close>, \<open>prev\<close> the previous
  row from index \<open>j\<close>.\<close>

fun levenshtein_row :: "'a \<Rightarrow> 'a list \<Rightarrow> nat list \<Rightarrow> nat \<Rightarrow> nat list" where
  "levenshtein_row c (d # ds) (p0 # p1 # ps) left =
     (let v = (if c = d then p0 else 1 + min (min p0 p1) left)
      in v # levenshtein_row c ds (p1 # ps) v)"
| "levenshtein_row c _ _ left = []"

fun levenshtein_rows :: "'a list \<Rightarrow> 'a list \<Rightarrow> nat list \<Rightarrow> nat \<Rightarrow> nat list" where
  "levenshtein_rows [] ds previous i = previous"
| "levenshtein_rows (c # cs) ds previous i =
     levenshtein_rows cs ds ((i + 1) # levenshtein_row c ds previous (i + 1)) (i + 1)"

definition levenshtein :: "string \<Rightarrow> string \<Rightarrow> nat" where
  "levenshtein first second =
     (let second_chars = chars second
      in levenshtein_rows (chars first) second_chars [0..<length second_chars + 1] 0 ! length second_chars)"

text \<open>\<^verbatim>\<open>min_by\<close> keeps the first of equal minima.\<close>

fun min_by_key :: "('a \<Rightarrow> 'b::linorder) \<Rightarrow> 'a list \<Rightarrow> 'a option" where
  "min_by_key f [] = None"
| "min_by_key f (x # xs) =
     (case min_by_key f xs of None \<Rightarrow> Some x | Some y \<Rightarrow> Some (if f y < f x then y else x))"

definition suggestion :: "registry \<Rightarrow> string \<Rightarrow> string option" where
  "suggestion reg key =
     map_option snd (min_by_key (\<lambda>p. p)
       (map (\<lambda>c. (levenshtein key c, c)) (filter (\<lambda>c. levenshtein key c \<le> 2) (sort (btm_keys reg)))))"

section \<open>The ingestor\<close>

record layer_config_range =
  lr_scope :: config_scope
  lr_min_z :: u64
  lr_max_z :: u64
  lr_delta :: config_map

record scoped_config =
  sc_deltas :: "(config_scope, config_map) btree_map"
  sc_layer_ranges :: "(string, layer_config_range list) btree_map"

record ingestor =
  in_registry :: registry
  in_deltas :: "(config_scope, config_map) btree_map"
  in_layer_ranges :: "(string, layer_config_range list) btree_map"
  in_warnings :: "ingestion_warning list"
  in_untyped_global_keys :: "string list"
  in_tolerant :: bool

definition with_mode :: "registry \<Rightarrow> bool \<Rightarrow> ingestor" where
  "with_mode reg tolerant =
     \<lparr>in_registry = reg, in_deltas = [], in_layer_ranges = [], in_warnings = [],
      in_untyped_global_keys = [], in_tolerant = tolerant\<rparr>"

record pending_entry =
  pe_scope :: config_scope
  pe_key :: string
  pe_value :: "config_value option"
  pe_warning :: "ingestion_warning option"

text \<open>The lookup with its wildcard fallback \<^verbatim>\<open>prefix:*\<close>.\<close>

definition registry_entry_for :: "registry \<Rightarrow> string \<Rightarrow> registry_entry option" where
  "registry_entry_for reg key =
     (case btm_get reg key of
        Some e \<Rightarrow> Some e
      | None \<Rightarrow> (case rsplit_once (CHR '':'') key of
            None \<Rightarrow> None
          | Some (base, _) \<Rightarrow> btm_get reg (base @ '':*'')))"

definition declared_entry :: "registry \<Rightarrow> string \<Rightarrow> registry_entry option" where
  "declared_entry reg key =
     (case registry_entry_for reg key of
        Some e \<Rightarrow> Some e
      | None \<Rightarrow> if canonical_config_key key \<noteq> key then registry_entry_for reg (canonical_config_key key) else None)"

definition prepare_entry :: "text_format \<Rightarrow> ingestor \<Rightarrow> config_scope \<Rightarrow> string \<Rightarrow> string \<Rightarrow> config_value
    \<Rightarrow> config_ingestion_error + pending_entry" where
  "prepare_entry tf ing scope key wire_key authored =
     (case declared_entry (in_registry ing) key of
        None \<Rightarrow>
          Inr \<lparr>pe_scope = scope, pe_key = key, pe_value = None,
               pe_warning = Some (UnrecognizedKey wire_key key (suggestion (in_registry ing) key))\<rparr>
      | Some entry \<Rightarrow>
          (case coerce_value tf key authored (re_type entry) of
             Inr v \<Rightarrow> Inr \<lparr>pe_scope = scope, pe_key = key, pe_value = Some v, pe_warning = None\<rparr>
           | Inl error \<Rightarrow>
               if \<not> in_tolerant ing \<or> is_non_finite_type_mismatch authored (re_type entry) then Inl error
               else (case coerce_scalar_list tf key authored (re_type entry) of
                       Inl e \<Rightarrow> Inl e
                     | Inr r \<Rightarrow>
                         Inr \<lparr>pe_scope = scope, pe_key = key,
                              pe_value = Some (case r of Some v \<Rightarrow> v | None \<Rightarrow> authored),
                              pe_warning = Some (UntypedValue key (re_type entry) (authored_text tf authored))\<rparr>)))"

text \<open>\<^verbatim>\<open>warning_order\<close> as a sort key: the variant, then its fields in order.  The derived order of
  \<^verbatim>\<open>Option<String>\<close> puts \<^verbatim>\<open>None\<close> first.\<close>

fun warning_rank :: "ingestion_warning \<Rightarrow> nat \<times> string \<times> string \<times> bool \<times> string" where
  "warning_rank (UnrecognizedKey w k s) = (0, w, k, s \<noteq> None, case s of None \<Rightarrow> [] | Some t \<Rightarrow> t)"
| "warning_rank (UntypedValue k t a) = (1, k, t, False, a)"

definition commit_entry :: "pending_entry \<Rightarrow> ingestor \<Rightarrow> ingestor" where
  "commit_entry entry ing =
     ing\<lparr>in_untyped_global_keys :=
           (case (pe_scope entry, pe_warning entry) of
              (Global, Some (UntypedValue _ _ _)) \<Rightarrow> bts_insert (pe_key entry) (in_untyped_global_keys ing)
            | _ \<Rightarrow> in_untyped_global_keys ing),
         in_deltas :=
           (case pe_value entry of
              None \<Rightarrow> in_deltas ing
            | Some v \<Rightarrow> btm_entry (pe_scope entry) [] (btm_insert (pe_key entry) v) (in_deltas ing)),
         in_warnings :=
           (case pe_warning entry of None \<Rightarrow> in_warnings ing | Some w \<Rightarrow> in_warnings ing @ [w])\<rparr>"

definition commit :: "pending_entry list \<Rightarrow> ingestor \<Rightarrow> ingestor" where
  "commit pending ing =
     (let ing' = fold commit_entry pending ing
      in ing'\<lparr>in_warnings := sort_key warning_rank (in_warnings ing')\<rparr>)"

text \<open>The authored \<^verbatim>\<open>HashMap\<close> is its entry list; ingestion sorts it by key first.\<close>

fun prepare_flat :: "text_format \<Rightarrow> ingestor \<Rightarrow> (string \<times> config_value) list
    \<Rightarrow> config_ingestion_error + pending_entry list" where
  "prepare_flat tf ing [] = Inr []"
| "prepare_flat tf ing ((wire_key, authored) # rest) =
     (case decode_wire_key wire_key of
        Inl e \<Rightarrow> Inl e
      | Inr (scope, key) \<Rightarrow>
          (case prepare_entry tf ing scope key wire_key authored of
             Inl e \<Rightarrow> Inl e
           | Inr p \<Rightarrow> (case prepare_flat tf ing rest of Inl e \<Rightarrow> Inl e | Inr ps \<Rightarrow> Inr (p # ps))))"

definition ingest_flat :: "text_format \<Rightarrow> (string \<times> config_value) list \<Rightarrow> ingestor
    \<Rightarrow> config_ingestion_error + ingestor" where
  "ingest_flat tf values ing =
     map_sum id (\<lambda>pending. commit pending ing) (prepare_flat tf ing (sort_key fst values))"

fun prepare_delta :: "text_format \<Rightarrow> ingestor \<Rightarrow> config_scope \<Rightarrow> (string \<times> config_value) list
    \<Rightarrow> config_ingestion_error + pending_entry list" where
  "prepare_delta tf ing scope [] = Inr []"
| "prepare_delta tf ing scope ((key, authored) # rest) =
     (case prepare_entry tf ing scope key key authored of
        Inl e \<Rightarrow> Inl e
      | Inr p \<Rightarrow> (case prepare_delta tf ing scope rest of Inl e \<Rightarrow> Inl e | Inr ps \<Rightarrow> Inr (p # ps)))"

definition ingest_delta :: "text_format \<Rightarrow> config_scope \<Rightarrow> (string \<times> config_value) list \<Rightarrow> ingestor
    \<Rightarrow> config_ingestion_error + ingestor" where
  "ingest_delta tf scope values ing =
     map_sum id (\<lambda>pending. commit pending ing) (prepare_delta tf ing scope (sort_key fst values))"

section \<open>Layer ranges\<close>

record layer_range_input =
  li_object_id :: string
  li_source_index :: u32
  li_min_z :: u64
  li_max_z :: u64
  li_values :: "(string, string) btree_map"

record pending_layer_range =
  pr_range_index :: u32
  pr_min_z :: u64
  pr_max_z :: u64
  pr_delta :: config_map

definition valid_layer_range_interval :: "u64 \<Rightarrow> u64 \<Rightarrow> bool" where
  "valid_layer_range_interval min_z max_z \<longleftrightarrow>
     f64_is_finite min_z \<and> f64_is_finite max_z \<and> f64_le 0 min_z \<and> f64_lt min_z max_z"

definition layer_config_range_new :: "string \<Rightarrow> u32 \<Rightarrow> u64 \<Rightarrow> u64 \<Rightarrow> config_map
    \<Rightarrow> layer_range_load_error + layer_config_range" where
  "layer_config_range_new object_id range_index min_z max_z delta =
     (if valid_layer_range_interval min_z max_z
      then Inr \<lparr>lr_scope = LayerRange object_id range_index, lr_min_z = min_z, lr_max_z = max_z, lr_delta = delta\<rparr>
      else Inl (InvalidInterval object_id range_index min_z max_z))"

definition narrower :: "u64 \<Rightarrow> u64" where
  "narrower bound = (let n = f32_of_f64 bound in if f32_is_finite n then f64_of_f32 n else bound)"

definition covers :: "layer_config_range \<Rightarrow> u64 \<Rightarrow> bool" where
  "covers r layer_top_z \<longleftrightarrow>
     f64_le (f64_min (lr_min_z r) (narrower (lr_min_z r))) layer_top_z \<and>
     f64_lt layer_top_z (f64_min (lr_max_z r) (narrower (lr_max_z r)))"

fun type_range_values :: "text_format \<Rightarrow> ingestor \<Rightarrow> config_scope \<Rightarrow> (string \<times> string) list
    \<Rightarrow> config_map \<Rightarrow> ingestion_warning list \<Rightarrow> config_ingestion_error + config_map \<times> ingestion_warning list" where
  "type_range_values tf ing scope [] delta warnings = Inr (delta, warnings)"
| "type_range_values tf ing scope ((key, authored) # rest) delta warnings =
     (case prepare_entry tf ing scope key key (CvString authored) of
        Inl e \<Rightarrow> Inl e
      | Inr entry \<Rightarrow>
          type_range_values tf ing scope rest
            (case pe_value entry of None \<Rightarrow> delta | Some v \<Rightarrow> btm_insert (pe_key entry) v delta)
            (case pe_warning entry of None \<Rightarrow> warnings | Some w \<Rightarrow> warnings @ [w]))"

definition check_layer_height :: "string \<Rightarrow> u32 \<Rightarrow> config_map \<Rightarrow> layer_range_load_error option" where
  "check_layer_height object_id range_index delta =
     (case btm_get delta ''layer_height'' of
        None \<Rightarrow> None
      | Some (CvFloat h) \<Rightarrow>
          if f64_is_finite h \<and> f64_lt 0 h then None else Some (InvalidLayerHeight object_id range_index h)
      | Some (CvInt i) \<Rightarrow> Some (InvalidLayerHeight object_id range_index (f64_of_i64 i))
      | Some _ \<Rightarrow> Some (InvalidLayerHeight object_id range_index f64_NAN))"

definition prepare_range :: "text_format \<Rightarrow> ingestor \<Rightarrow> string \<Rightarrow> u32 \<Rightarrow> layer_range_input \<Rightarrow> ingestion_warning list
    \<Rightarrow> layer_range_load_error + pending_layer_range \<times> ingestion_warning list" where
  "prepare_range tf ing object_id range_index input warnings =
     (let scope = LayerRange object_id range_index
      in if \<not> valid_layer_range_interval (li_min_z input) (li_max_z input)
         then Inl (InvalidInterval object_id range_index (li_min_z input) (li_max_z input))
         else case type_range_values tf ing scope (li_values input) [] warnings of
                Inl e \<Rightarrow> Inl (Ingestion e)
              | Inr (delta, warnings') \<Rightarrow>
                  (case check_layer_height object_id range_index delta of
                     Some e \<Rightarrow> Inl e
                   | None \<Rightarrow>
                       (case find (\<lambda>key. key \<notin> set (admission_set (in_registry ing) scope)) (btm_keys delta) of
                          Some key \<Rightarrow> Inl (Denied (ScopeDenied key scope))
                        | None \<Rightarrow>
                            Inr (\<lparr>pr_range_index = range_index, pr_min_z = li_min_z input,
                                  pr_max_z = li_max_z input, pr_delta = delta\<rparr>, warnings'))))"

fun prepare_ranges :: "text_format \<Rightarrow> ingestor \<Rightarrow> string \<Rightarrow> nat \<Rightarrow> layer_range_input list \<Rightarrow> ingestion_warning list
    \<Rightarrow> layer_range_load_error + pending_layer_range list \<times> ingestion_warning list" where
  "prepare_ranges tf ing object_id index [] warnings = Inr ([], warnings)"
| "prepare_ranges tf ing object_id index (input # rest) warnings =
     (case prepare_range tf ing object_id (of_nat index) input warnings of
        Inl e \<Rightarrow> Inl e
      | Inr (r, warnings') \<Rightarrow>
          (case prepare_ranges tf ing object_id (Suc index) rest warnings' of
             Inl e \<Rightarrow> Inl e
           | Inr (rs, warnings'') \<Rightarrow> Inr (r # rs, warnings'')))"

definition range_sort_key :: "layer_range_input \<Rightarrow> int \<times> int \<times> u32" where
  "range_sort_key i = (f64_total_key (li_min_z i), f64_total_key (li_max_z i), li_source_index i)"

fun prepare_objects :: "text_format \<Rightarrow> ingestor \<Rightarrow> (string \<times> layer_range_input list) list \<Rightarrow> ingestion_warning list
    \<Rightarrow> layer_range_load_error + (string \<times> pending_layer_range list) list \<times> ingestion_warning list" where
  "prepare_objects tf ing [] warnings = Inr ([], warnings)"
| "prepare_objects tf ing ((object_id, authored) # rest) warnings =
     (case prepare_ranges tf ing object_id 0 (sort_key range_sort_key authored) warnings of
        Inl e \<Rightarrow> Inl e
      | Inr (rs, warnings') \<Rightarrow>
          (case prepare_objects tf ing rest warnings' of
             Inl e \<Rightarrow> Inl e
           | Inr (os, warnings'') \<Rightarrow> Inr ((object_id, rs) # os, warnings'')))"

definition conflicting_key :: "pending_layer_range \<Rightarrow> pending_layer_range \<Rightarrow> string option" where
  "conflicting_key first second =
     (if \<not> (f64_lt (pr_min_z first) (pr_max_z second) \<and> f64_lt (pr_min_z second) (pr_max_z first)) then None
      else map_option fst (find (\<lambda>(key, v).
             key \<noteq> ''layer_height'' \<and>
             (case btm_get (pr_delta second) key of None \<Rightarrow> False | Some v' \<Rightarrow> v \<noteq> v')) (pr_delta first)))"

fun check_range_overlaps :: "string \<Rightarrow> pending_layer_range list \<Rightarrow> layer_range_load_error option" where
  "check_range_overlaps object_id [] = None"
| "check_range_overlaps object_id (first # rest) =
     (case find (\<lambda>second. conflicting_key first second \<noteq> None) rest of
        Some second \<Rightarrow>
          Some (ConflictingOverlap object_id (the (conflicting_key first second))
                  (pr_range_index first) (pr_range_index second))
      | None \<Rightarrow> check_range_overlaps object_id rest)"

fun validate_layer_range_overlaps :: "(string \<times> pending_layer_range list) list \<Rightarrow> layer_range_load_error option" where
  "validate_layer_range_overlaps [] = None"
| "validate_layer_range_overlaps ((object_id, ranges) # rest) =
     (case check_range_overlaps object_id ranges of
        Some e \<Rightarrow> Some e
      | None \<Rightarrow> validate_layer_range_overlaps rest)"

fun commit_ranges :: "string \<Rightarrow> pending_layer_range list \<Rightarrow> layer_range_load_error + layer_config_range list" where
  "commit_ranges object_id [] = Inr []"
| "commit_ranges object_id (r # rs) =
     (case layer_config_range_new object_id (pr_range_index r) (pr_min_z r) (pr_max_z r) (pr_delta r) of
        Inl e \<Rightarrow> Inl e
      | Inr c \<Rightarrow> (case commit_ranges object_id rs of Inl e \<Rightarrow> Inl e | Inr cs \<Rightarrow> Inr (c # cs)))"

fun commit_objects :: "(string \<times> pending_layer_range list) list
    \<Rightarrow> layer_range_load_error + (string \<times> layer_config_range list) list" where
  "commit_objects [] = Inr []"
| "commit_objects ((object_id, ranges) # rest) =
     (case commit_ranges object_id ranges of
        Inl e \<Rightarrow> Inl e
      | Inr rs \<Rightarrow> (case commit_objects rest of Inl e \<Rightarrow> Inl e | Inr os \<Rightarrow> Inr ((object_id, rs) # os)))"

definition ingest_layer_ranges :: "text_format \<Rightarrow> layer_range_input list \<Rightarrow> ingestor
    \<Rightarrow> layer_range_load_error + ingestor" where
  "ingest_layer_ranges tf inputs ing =
     (case prepare_objects tf ing (btm_group (map (\<lambda>i. (li_object_id i, i)) inputs)) [] of
        Inl e \<Rightarrow> Inl e
      | Inr (pending, warnings) \<Rightarrow>
          (case validate_layer_range_overlaps pending of
             Some e \<Rightarrow> Inl e
           | None \<Rightarrow>
               (case commit_objects pending of
                  Inl e \<Rightarrow> Inl e
                | Inr committed \<Rightarrow>
                    Inr (ing\<lparr>in_layer_ranges := fold (\<lambda>(o', rs). btm_insert o' rs) committed (in_layer_ranges ing),
                             in_warnings := sort_key warning_rank (in_warnings ing @ warnings)\<rparr>))))"

section \<open>Outcome\<close>

record ingestion_outcome =
  io_scoped :: scoped_config
  io_selector_values :: config_map
  io_warnings :: "ingestion_warning list"

definition finish :: "ingestor \<Rightarrow> ingestion_outcome" where
  "finish ing =
     \<lparr>io_scoped = \<lparr>sc_deltas = in_deltas ing, sc_layer_ranges = in_layer_ranges ing\<rparr>,
      io_selector_values =
        (case btm_get (in_deltas ing) Global of
           None \<Rightarrow> []
         | Some delta \<Rightarrow> btm_collect (filter (\<lambda>(key, _).
             (case registry_entry_for (in_registry ing) key of
                None \<Rightarrow> False
              | Some e \<Rightarrow> re_selector e \<and> key \<notin> set (in_untyped_global_keys ing))) delta)),
      io_warnings = in_warnings ing\<rparr>"

end
