(* ===== verification/ConfigResolve.thy ===== *)
theory ConfigResolve
  imports ConfigIngest
begin

text \<open>
  Resolution of the scope stack, \<^verbatim>\<open>crates/slicer-config/src/resolution.rs\<close>, and the expansion
  of relative and automatic values in \<^verbatim>\<open>crates/slicer-config/src/lib.rs\<close>: the eligibility gate
  and the bounds checks of an authored delta, the seeding of registry defaults, the precedence of the
  scopes, and the expansion of percentages against their base keys.
\<close>

section \<open>Expansion of automatic values\<close>

record expansion_context =
  ec_nozzle_diameter_mm :: u64
  ec_tool_bases :: "(u32, (string, u64) btree_map) btree_map"

definition percent_magnitude :: "config_value \<Rightarrow> u64 option" where
  "percent_magnitude value =
     (case value of
        CvPercent x \<Rightarrow> Some x
      | CvFloatOrPercent x p \<Rightarrow> if p then Some x else None
      | _ \<Rightarrow> None)"

definition absolute_number :: "config_value \<Rightarrow> u64 option" where
  "absolute_number value =
     (case value of
        CvFloat x \<Rightarrow> Some x
      | CvInt i \<Rightarrow> Some (f64_of_i64 i)
      | CvFloatOrPercent x p \<Rightarrow> if p then None else Some x
      | _ \<Rightarrow> None)"

definition base_number :: "config_value \<Rightarrow> u64 option" where
  "base_number value =
     (case value of
        CvList items \<Rightarrow> (case items of [] \<Rightarrow> None | first # _ \<Rightarrow> absolute_number first)
      | other \<Rightarrow> absolute_number other)"

definition absolute_like :: "config_value \<Rightarrow> u64 \<Rightarrow> config_value" where
  "absolute_like original value =
     (case original of CvFloatOrPercent _ _ \<Rightarrow> CvFloatOrPercent value False | _ \<Rightarrow> CvFloat value)"

definition is_plain_zero :: "config_value \<Rightarrow> bool" where
  "is_plain_zero value =
     (case value of
        CvFloat x \<Rightarrow> f64_eq x 0
      | CvInt i \<Rightarrow> i = 0
      | CvFloatOrPercent x p \<Rightarrow> \<not> p \<and> f64_eq x 0
      | _ \<Rightarrow> False)"

text \<open>The bit pattern of \<^verbatim>\<open>-1.0\<close>.\<close>

definition is_plain_minus_one :: "config_value \<Rightarrow> bool" where
  "is_plain_minus_one value =
     (case value of
        CvFloat x \<Rightarrow> f64_eq x 0xBFF0000000000000
      | CvInt i \<Rightarrow> i = -1
      | CvFloatOrPercent x p \<Rightarrow> \<not> p \<and> f64_eq x 0xBFF0000000000000
      | _ \<Rightarrow> False)"

definition validate_base :: "string \<Rightarrow> string \<Rightarrow> u64 \<Rightarrow> expansion_error + u64" where
  "validate_base key base_key value =
     (if f64_is_finite value \<and> f64_lt 0 value then Inr value else Inl (NonPositiveBase key base_key value))"

definition BOTTOM_AUTO_BASES :: "(string \<times> string) list" where
  "BOTTOM_AUTO_BASES =
     [(''support_interface_bottom_layers'', ''support_interface_top_layers''),
      (''support_bottom_interface_spacing'', ''support_interface_spacing'')]"

record resolver =
  ex_registry :: registry
  ex_source :: config_map
  ex_context :: expansion_context
  ex_tool_index :: "u32 option"
  ex_expanded :: config_map
  ex_visiting :: "string list"

definition tool_base :: "resolver \<Rightarrow> string \<Rightarrow> u64 option" where
  "tool_base rs base_key =
     Option.bind (ex_tool_index rs) (\<lambda>tool.
     Option.bind (btm_get (ec_tool_bases (ex_context rs)) tool) (\<lambda>bases. btm_get bases base_key))"

definition relative_base :: "resolver \<Rightarrow> string \<Rightarrow> config_value \<Rightarrow> (u64 \<times> string) option" where
  "relative_base rs key value =
     Option.bind (percent_magnitude value) (\<lambda>percent.
       map_option (\<lambda>base. (percent, base)) (base_of (ex_registry rs) key))"

definition auto_base :: "string \<Rightarrow> config_value \<Rightarrow> string option" where
  "auto_base key value =
     map_option snd (find (\<lambda>(automatic_key, _). automatic_key = key \<and> is_plain_minus_one value) BOTTOM_AUTO_BASES)"

text \<open>The bit patterns of \<^verbatim>\<open>1.125\<close> and \<^verbatim>\<open>100.0\<close>.\<close>

definition f64_nine_eighths :: u64 where "f64_nine_eighths = 0x3FF2000000000000"

definition f64_hundred :: u64 where "f64_hundred = 0x4059000000000000"

text \<open>\<^verbatim>\<open>expand_key\<close> and \<^verbatim>\<open>required_base\<close> call each other; the keys under
  expansion are in \<open>ex_visiting\<close>, which bounds the depth by the number of source keys.  An error
  abandons the resolver, so only a success carries its state on.\<close>

definition open_keys :: "resolver \<Rightarrow> nat" where
  "open_keys rs = card (set (btm_keys (ex_source rs)) - set (ex_visiting rs))"

definition begin_key :: "string \<Rightarrow> resolver \<Rightarrow> resolver" where
  "begin_key key rs = rs\<lparr>ex_visiting := key # ex_visiting rs\<rparr>"

definition end_key :: "string \<Rightarrow> config_value \<Rightarrow> resolver \<Rightarrow> resolver" where
  "end_key key result rs =
     rs\<lparr>ex_visiting := filter (\<lambda>k. k \<noteq> key) (ex_visiting rs),
        ex_expanded := btm_insert key result (ex_expanded rs)\<rparr>"

lemma begin_key_opens_fewer:
  assumes "btm_get (ex_source rs) key = Some v" and "key \<notin> set (ex_visiting rs)"
  shows "open_keys (begin_key key rs) < open_keys rs"
  unfolding open_keys_def begin_key_def
proof (rule psubset_card_mono)
  have "key \<in> set (btm_keys (ex_source rs))"
    using assms(1) btm_get_None_iff [of "ex_source rs" key] by auto
  then show "set (btm_keys (ex_source (rs\<lparr>ex_visiting := key # ex_visiting rs\<rparr>))) -
      set (ex_visiting (rs\<lparr>ex_visiting := key # ex_visiting rs\<rparr>)) \<subset>
      set (btm_keys (ex_source rs)) - set (ex_visiting rs)"
    using assms(2) by auto
qed simp

function (sequential) expand_key :: "string \<Rightarrow> resolver \<Rightarrow> expansion_error + config_value option \<times> resolver" and
  required_base :: "string \<Rightarrow> string \<Rightarrow> resolver \<Rightarrow> expansion_error + u64 \<times> resolver" where
  "expand_key key rs =
     (case btm_get (ex_expanded rs) key of
        Some v \<Rightarrow> Inr (Some v, rs)
      | None \<Rightarrow>
     (case btm_get (ex_source rs) key of
        None \<Rightarrow> Inr (None, rs)
      | Some value \<Rightarrow>
          if key \<in> set (ex_visiting rs) then Inr (Some value, rs)
          else let rs1 = begin_key key rs
               in if key = ''line_width'' \<and> is_plain_zero value
                  then (case required_base key ''nozzle_diameter'' rs1 of
                          Inl e \<Rightarrow> Inl e
                        | Inr (b, rs2) \<Rightarrow>
                            let r = CvFloat (f64_mul f64_nine_eighths b) in Inr (Some r, end_key key r rs2))
                  else if key = ''support_line_width'' \<and> is_plain_zero value
                  then (case required_base key ''nozzle_diameter'' rs1 of
                          Inl e \<Rightarrow> Inl e
                        | Inr (b, rs2) \<Rightarrow> let r = CvFloat b in Inr (Some r, end_key key r rs2))
                  else case auto_base key value of
                         Some base_key \<Rightarrow>
                           (case expand_key base_key rs1 of
                              Inl e \<Rightarrow> Inl e
                            | Inr (None, _) \<Rightarrow> Inl (MissingAutoBase key base_key)
                            | Inr (Some r, rs2) \<Rightarrow> Inr (Some r, end_key key r rs2))
                       | None \<Rightarrow>
                           (case relative_base rs1 key value of
                              Some (percent, base_key) \<Rightarrow>
                                (case required_base key base_key rs1 of
                                   Inl e \<Rightarrow> Inl e
                                 | Inr (b, rs2) \<Rightarrow>
                                     let r = absolute_like value (f64_mul (f64_div percent f64_hundred) b)
                                     in Inr (Some r, end_key key r rs2))
                            | None \<Rightarrow> Inr (Some value, end_key key value rs1))))"
| "required_base key base_key rs =
     (case tool_base rs base_key of
        Some v \<Rightarrow> map_sum id (\<lambda>b. (b, rs)) (validate_base key base_key v)
      | None \<Rightarrow>
          (case expand_key base_key rs of
             Inl e \<Rightarrow> Inl e
           | Inr (Some v, rs1) \<Rightarrow>
               (case base_number v of
                  Some b \<Rightarrow> map_sum id (\<lambda>b. (b, rs1)) (validate_base key base_key b)
                | None \<Rightarrow> Inl (UnknownBaseKey key base_key))
           | Inr (None, rs1) \<Rightarrow>
               if base_key = ''nozzle_diameter''
               then map_sum id (\<lambda>b. (b, rs1))
                      (validate_base key ''nozzle_diameter'' (ec_nozzle_diameter_mm (ex_context rs1)))
               else Inl (UnknownBaseKey key base_key)))"
  by pat_completeness auto

termination
  by (relation "measures [(\<lambda>x. case x of Inl (_, rs) \<Rightarrow> open_keys rs | Inr (_, _, rs) \<Rightarrow> open_keys rs),
        (\<lambda>x. case x of Inl _ \<Rightarrow> 0 | Inr _ \<Rightarrow> 1)]")
    (auto simp: begin_key_opens_fewer)

declare expand_key.simps [simp del] required_base.simps [simp del]

fun expand_keys :: "string list \<Rightarrow> resolver \<Rightarrow> expansion_error + resolver" where
  "expand_keys [] rs = Inr rs"
| "expand_keys (key # rest) rs =
     (case expand_key key rs of Inl e \<Rightarrow> Inl e | Inr (_, rs') \<Rightarrow> expand_keys rest rs')"

text \<open>The write-back of one expanded value into the candidate config.\<close>

definition write_expanded :: "config_map \<Rightarrow> string \<times> config_value \<Rightarrow> resolved_config \<Rightarrow> resolved_config" where
  "write_expanded source kv candidate =
     (let (key, expanded) = kv;
          put = (\<lambda>rc. rc\<lparr>rc_extensions := btm_insert key expanded (rc_extensions rc)\<rparr>)
      in if btm_get source key = Some expanded then candidate
         else if btm_get (rc_extensions candidate) key \<noteq> None then put candidate
         else case apply_cli_key candidate key expanded of
                Inr (rc, True) \<Rightarrow> if key = ''support_line_width'' then put rc else rc
              | Inr (_, False) \<Rightarrow> put candidate
              | Inl _ \<Rightarrow> put candidate)"

definition expand_automatic_values :: "registry \<Rightarrow> resolved_config \<Rightarrow> expansion_context \<Rightarrow> u32 option
    \<Rightarrow> expansion_error + resolved_config" where
  "expand_automatic_values reg config ctx tool_index =
     (let source = to_config_map config;
          rs = \<lparr>ex_registry = reg, ex_source = source, ex_context = ctx, ex_tool_index = tool_index,
                ex_expanded = [], ex_visiting = []\<rparr>
      in case expand_keys (btm_keys source) rs of
           Inl e \<Rightarrow> Inl e
         | Inr rs' \<Rightarrow> Inr (fold (write_expanded source) (ex_expanded rs') config))"

section \<open>Checks of a value against its declaration\<close>

definition check_extension_scalar :: "string \<Rightarrow> u64 \<Rightarrow> registry_entry \<Rightarrow> nat option \<Rightarrow> resolution_error + unit" where
  "check_extension_scalar key value entry index =
     (if f64_is_finite value \<and>
         (case re_min entry of None \<Rightarrow> True | Some m \<Rightarrow> f64_le m value) \<and>
         (case re_max entry of None \<Rightarrow> True | Some m \<Rightarrow> f64_le value m)
      then Inr ()
      else Inl (Application (OutOfRange key value (re_min entry) (re_max entry) index)))"

definition check_extension_percent :: "string \<Rightarrow> u64 \<Rightarrow> registry_entry \<Rightarrow> resolution_error + unit" where
  "check_extension_percent key value entry =
     (if f64_is_finite value \<and> (case re_min entry of None \<Rightarrow> True | Some m \<Rightarrow> f64_le m value)
      then Inr ()
      else Inl (Application (OutOfRange key value (re_min entry) (re_max entry) None)))"

definition type_mismatch :: "string \<Rightarrow> string \<Rightarrow> config_value \<Rightarrow> resolution_error" where
  "type_mismatch key expected value = Application (TypeMismatch key expected (variant_name value))"

definition cli_bool_spelling :: "string \<Rightarrow> bool option" where
  "cli_bool_spelling value =
     map_option snd (find (\<lambda>(spelling, _). eq_ignore_ascii_case (trim value) spelling)
       [(''1'', True), (''true'', True), (''yes'', True), (''on'', True), (''enabled'', True),
        (''0'', False), (''false'', False), (''no'', False), (''off'', False), (''disabled'', False)])"

definition check_bool :: "string \<Rightarrow> config_value \<Rightarrow> resolution_error + unit" where
  "check_bool key value =
     (case value of
        CvBool _ \<Rightarrow> Inr ()
      | CvInt i \<Rightarrow> if i = 0 \<or> i = 1 then Inr () else Inl (type_mismatch key ''Bool'' value)
      | CvString text \<Rightarrow> if cli_bool_spelling text \<noteq> None then Inr () else Inl (type_mismatch key ''Bool'' value)
      | _ \<Rightarrow> Inl (type_mismatch key ''Bool'' value))"

definition check_int :: "string \<Rightarrow> registry_entry \<Rightarrow> config_value \<Rightarrow> resolution_error + unit" where
  "check_int key entry value =
     (case value of
        CvInt i \<Rightarrow> check_extension_scalar key (f64_of_i64 i) entry None
      | CvFloat x \<Rightarrow>
          if f64_is_finite x \<and> f64_is_integral x then check_extension_scalar key x entry None
          else Inl (type_mismatch key ''Int'' value)
      | _ \<Rightarrow> Inl (type_mismatch key ''Int'' value))"

definition check_float_text :: "string \<Rightarrow> registry_entry \<Rightarrow> string \<Rightarrow> resolution_error + unit" where
  "check_float_text key entry text =
     (let t = trim text; bad = Inl (type_mismatch key ''Float'' (CvString text))
      in if eq_ignore_ascii_case t ''nil'' then Inr ()
         else case strip_suffix_char (CHR ''%'') t of
                Some percent \<Rightarrow>
                  (case parse_f64 (trim percent) of
                     Some x \<Rightarrow> if f64_is_finite x then check_extension_percent key x entry else bad
                   | None \<Rightarrow> bad)
              | None \<Rightarrow>
                  (case parse_f64 t of
                     Some x \<Rightarrow> if f64_is_finite x then check_extension_scalar key x entry None else bad
                   | None \<Rightarrow> bad))"

definition check_float :: "string \<Rightarrow> registry_entry \<Rightarrow> config_value \<Rightarrow> resolution_error + unit" where
  "check_float key entry value =
     (case value of
        CvFloat x \<Rightarrow> check_extension_scalar key x entry None
      | CvInt i \<Rightarrow> check_extension_scalar key (f64_of_i64 i) entry None
      | CvString text \<Rightarrow> check_float_text key entry text
      | _ \<Rightarrow> Inl (type_mismatch key ''Float'' value))"

definition check_string :: "string \<Rightarrow> config_value \<Rightarrow> resolution_error + unit" where
  "check_string key value =
     (case value of CvString _ \<Rightarrow> Inr () | _ \<Rightarrow> Inl (type_mismatch key ''String'' value))"

definition check_percent :: "string \<Rightarrow> registry_entry \<Rightarrow> config_value \<Rightarrow> resolution_error + unit" where
  "check_percent key entry value =
     (case value of
        CvPercent x \<Rightarrow> check_extension_percent key x entry
      | _ \<Rightarrow> Inl (type_mismatch key ''Percent'' value))"

definition check_float_or_percent :: "string \<Rightarrow> registry_entry \<Rightarrow> config_value \<Rightarrow> resolution_error + unit" where
  "check_float_or_percent key entry value =
     (case value of
        CvFloatOrPercent x p \<Rightarrow>
          if p then check_extension_percent key x entry else check_extension_scalar key x entry None
      | CvFloat x \<Rightarrow> check_extension_scalar key x entry None
      | CvInt i \<Rightarrow> check_extension_scalar key (f64_of_i64 i) entry None
      | CvPercent x \<Rightarrow> check_extension_percent key x entry
      | _ \<Rightarrow> Inl (type_mismatch key ''FloatOrPercent'' value))"

fun check_items :: "(nat \<Rightarrow> config_value \<Rightarrow> resolution_error + unit) \<Rightarrow> nat \<Rightarrow> config_value list \<Rightarrow> resolution_error + unit" where
  "check_items f i [] = Inr ()"
| "check_items f i (x # xs) = (case f i x of Inl e \<Rightarrow> Inl e | Inr _ \<Rightarrow> check_items f (Suc i) xs)"

definition check_int_list :: "string \<Rightarrow> registry_entry \<Rightarrow> config_value \<Rightarrow> resolution_error + unit" where
  "check_int_list key entry value =
     (case value of
        CvList items \<Rightarrow>
          check_items (\<lambda>index item. case item of
              CvInt i \<Rightarrow> check_extension_scalar key (f64_of_i64 i) entry (Some index)
            | _ \<Rightarrow> Inl (type_mismatch key ''Int'' item)) 0 items
      | _ \<Rightarrow> Inl (type_mismatch key ''List'' value))"

definition check_float_list :: "string \<Rightarrow> registry_entry \<Rightarrow> config_value \<Rightarrow> resolution_error + unit" where
  "check_float_list key entry value =
     (case value of
        CvList items \<Rightarrow>
          check_items (\<lambda>index item. case item of
              CvFloat x \<Rightarrow> check_extension_scalar key x entry (Some index)
            | CvInt i \<Rightarrow> check_extension_scalar key (f64_of_i64 i) entry (Some index)
            | _ \<Rightarrow> Inl (type_mismatch key ''Float'' item)) 0 items
      | CvFloat x \<Rightarrow> check_extension_scalar key x entry (Some 0)
      | CvInt i \<Rightarrow> check_extension_scalar key (f64_of_i64 i) entry (Some 0)
      | _ \<Rightarrow> Inl (type_mismatch key ''List'' value))"

definition check_string_list :: "string \<Rightarrow> config_value \<Rightarrow> resolution_error + unit" where
  "check_string_list key value =
     (case value of
        CvList items \<Rightarrow>
          check_items (\<lambda>_ item. case item of
              CvString _ \<Rightarrow> Inr () | _ \<Rightarrow> Inl (type_mismatch key ''String'' item)) 0 items
      | CvString _ \<Rightarrow> Inr ()
      | _ \<Rightarrow> Inl (type_mismatch key ''List'' value))"

text \<open>The per-filament envelope: a scalar-typed key reads the first element of a list.\<close>

definition extension_envelope :: "registry_entry \<Rightarrow> config_value \<Rightarrow> config_value" where
  "extension_envelope entry value =
     (case value of
        CvList items \<Rightarrow>
          if suffix ''-list'' (re_type entry) then value
          else (case items of [] \<Rightarrow> value | first # _ \<Rightarrow> first)
      | _ \<Rightarrow> value)"

definition validate_extension :: "registry \<Rightarrow> string \<Rightarrow> config_value \<Rightarrow> resolution_error + unit" where
  "validate_extension reg key raw =
     (case registry_entry_for reg key of
        None \<Rightarrow> Inr ()
      | Some entry \<Rightarrow>
          let value = extension_envelope entry raw; ft = re_type entry
          in if ft = ''bool'' then check_bool key value
             else if ft = ''int'' then check_int key entry value
             else if ft = ''float'' then check_float key entry value
             else if ft = ''string'' \<or> ft = ''enum'' then check_string key value
             else if ft = ''percent'' then check_percent key entry value
             else if ft = ''float_or_percent'' then check_float_or_percent key entry value
             else if ft = ''int-list'' then check_int_list key entry value
             else if ft = ''float-list'' then check_float_list key entry value
             else if ft = ''string-list'' then check_string_list key value
             else Inr ())"

section \<open>Application of a delta\<close>

definition alias_conflict :: "config_map \<Rightarrow> (string \<times> string) option" where
  "alias_conflict delta =
     find (\<lambda>(legacy, canonical). btm_get delta legacy \<noteq> None \<and> btm_get delta canonical \<noteq> None) CONFIG_KEY_ALIASES"

definition apply_value :: "resolved_config \<Rightarrow> string \<Rightarrow> config_value \<Rightarrow> config_resolution_error + resolved_config" where
  "apply_value config key value =
     (case apply_cli_key config key value of
        Inl e \<Rightarrow> Inl e
      | Inr (rc, True) \<Rightarrow> Inr rc
      | Inr (rc, False) \<Rightarrow> Inr (rc\<lparr>rc_extensions := btm_insert key value (rc_extensions rc)\<rparr>))"

fun apply_values :: "registry \<Rightarrow> (string \<times> config_value) list \<Rightarrow> resolved_config \<Rightarrow> resolution_error + resolved_config" where
  "apply_values reg [] config = Inr config"
| "apply_values reg ((raw_key, value) # rest) config =
     (let key = canonical_config_key raw_key
      in case validate_extension reg key value of
           Inl e \<Rightarrow> Inl e
         | Inr _ \<Rightarrow>
             (case apply_value config key value of
                Inl e \<Rightarrow> Inl (Application e)
              | Inr config' \<Rightarrow> apply_values reg rest config'))"

definition apply_delta :: "registry \<Rightarrow> config_scope \<Rightarrow> config_map option \<Rightarrow> resolved_config
    \<Rightarrow> resolution_error + resolved_config" where
  "apply_delta reg scope delta config =
     (case delta of
        None \<Rightarrow> Inr config
      | Some d \<Rightarrow>
          (case alias_conflict d of
             Some (legacy, canonical) \<Rightarrow>
               Inl (Application (TypeMismatch (canonical @ '' and '' @ legacy) ''one config key''
                 ''both config keys supplied''))
           | None \<Rightarrow>
               (case find (\<lambda>key. key \<notin> set (admission_set reg scope)) (map canonical_config_key (btm_keys d)) of
                  Some key \<Rightarrow> Inl (ScopeDenied key scope)
                | None \<Rightarrow> apply_values reg d config)))"

section \<open>Registry defaults\<close>

definition parse_list_default :: "(string \<Rightarrow> config_value option) \<Rightarrow> string \<Rightarrow> config_value option" where
  "parse_list_default item dflt =
     map_option CvList (collect_option item (split_char (CHR '','') dflt))"

definition parse_registry_default :: "registry_entry \<Rightarrow> string \<Rightarrow> config_value option" where
  "parse_registry_default entry dflt =
     (let t = trim dflt; ft = re_type entry
      in if ft = ''bool''
         then (if t = ''true'' then Some (CvBool True) else if t = ''false'' then Some (CvBool False) else None)
         else if ft = ''int'' then map_option CvInt (parse_i64 t)
         else if ft = ''float'' then map_option CvFloat (parse_f64 t)
         else if ft = ''string'' \<or> ft = ''enum'' then Some (CvString dflt)
         else if ft = ''percent''
         then map_option CvPercent (parse_f64 (trim (case strip_suffix_char (CHR ''%'') t of Some m \<Rightarrow> m | None \<Rightarrow> t)))
         else if ft = ''float_or_percent''
         then (case strip_suffix_char (CHR ''%'') t of
                 Some m \<Rightarrow> map_option (\<lambda>x. CvFloatOrPercent x True) (parse_f64 (trim m))
               | None \<Rightarrow> map_option (\<lambda>x. CvFloatOrPercent x False) (parse_f64 t))
         else if ft = ''int-list'' then parse_list_default (\<lambda>i. map_option CvInt (parse_i64 (trim i))) dflt
         else if ft = ''float-list'' then parse_list_default (\<lambda>i. map_option CvFloat (parse_f64 (trim i))) dflt
         else if ft = ''string-list''
         then Some (CvList (if dflt = [] then [] else map CvString (split_char (CHR '','') dflt)))
         else None)"

definition render_type_name :: "string \<Rightarrow> string" where
  "render_type_name ft =
     (if ft = ''bool'' then ''Bool'' else if ft = ''int'' then ''Int'' else if ft = ''float'' then ''Float''
      else if ft = ''string'' \<or> ft = ''enum'' then ''String'' else if ft = ''percent'' then ''Percent''
      else if ft = ''float_or_percent'' then ''FloatOrPercent'' else if ft = ''int-list'' then ''List<Int>''
      else if ft = ''float-list'' then ''List<Float>'' else if ft = ''string-list'' then ''List<String>''
      else ''registry-declared type'')"

text \<open>The message of an unrenderable default quotes it by \<^verbatim>\<open>Debug\<close>; that quoting is the
  parameter \<open>quote\<close>.\<close>

definition seed_key :: "(string \<Rightarrow> string) \<Rightarrow> registry \<Rightarrow> string \<times> registry_entry \<Rightarrow> resolved_config
    \<Rightarrow> resolution_error + resolved_config" where
  "seed_key quote reg ke config =
     (let (key, entry) = ke
      in if CHR ''*'' \<in> set key \<or> re_selector entry \<or> canonical_config_key key \<in> set typed_field_keys
         then Inr config
         else case re_default entry of
                None \<Rightarrow> Inr config
              | Some dflt \<Rightarrow>
                  (case parse_registry_default entry dflt of
                     None \<Rightarrow> Inl (Application (TypeMismatch key (render_type_name (re_type entry))
                               (''unrenderable default '' @ quote dflt)))
                   | Some value \<Rightarrow>
                       (case validate_extension reg key value of
                          Inl e \<Rightarrow> Inl e
                        | Inr _ \<Rightarrow>
                            Inr (if btm_get (rc_extensions config) key = None
                                 then config\<lparr>rc_extensions := btm_insert key value (rc_extensions config)\<rparr>
                                 else config))))"

fun seed_keys :: "(string \<Rightarrow> string) \<Rightarrow> registry \<Rightarrow> (string \<times> registry_entry) list \<Rightarrow> resolved_config
    \<Rightarrow> resolution_error + resolved_config" where
  "seed_keys quote reg [] config = Inr config"
| "seed_keys quote reg (ke # rest) config =
     (case seed_key quote reg ke config of Inl e \<Rightarrow> Inl e | Inr c \<Rightarrow> seed_keys quote reg rest c)"

definition seed_registry_defaults :: "(string \<Rightarrow> string) \<Rightarrow> registry \<Rightarrow> resolved_config
    \<Rightarrow> resolution_error + resolved_config" where
  "seed_registry_defaults quote reg config = seed_keys quote reg reg config"

section \<open>The scope stack\<close>

record resolution_target =
  rt_object_id :: string
  rt_modifier_ids :: "string list"
  rt_paint_semantics :: "string list"
  rt_tool_index :: "u32 option"
  rt_layer_top_z :: "u64 option"

definition scoped_delta :: "scoped_config \<Rightarrow> config_scope \<Rightarrow> config_map option" where
  "scoped_delta sc scope = btm_get (sc_deltas sc) scope"

definition ranges_for :: "scoped_config \<Rightarrow> string \<Rightarrow> layer_config_range list" where
  "ranges_for sc object_id = (case btm_get (sc_layer_ranges sc) object_id of None \<Rightarrow> [] | Some rs \<Rightarrow> rs)"

text \<open>The deltas a target selects, in the order they are applied: global, object, covering layer
  ranges, modifiers in target order, paint semantics in lexical order, tool.\<close>

definition scope_stack :: "scoped_config \<Rightarrow> resolution_target \<Rightarrow> (config_scope \<times> config_map option) list" where
  "scope_stack sc target =
     [(Global, scoped_delta sc Global),
      (Object (rt_object_id target), scoped_delta sc (Object (rt_object_id target)))] @
     (case rt_layer_top_z target of
        None \<Rightarrow> []
      | Some z \<Rightarrow> map (\<lambda>r. (lr_scope r, Some (lr_delta r)))
                   (filter (\<lambda>r. covers r z) (ranges_for sc (rt_object_id target)))) @
     map (\<lambda>m. let scope = Modifier (rt_object_id target) m in (scope, scoped_delta sc scope)) (rt_modifier_ids target) @
     map (\<lambda>s. (PaintSemantic s, scoped_delta sc (PaintSemantic s)))
       (remdups_adj (sort (rt_paint_semantics target))) @
     (case rt_tool_index target of
        None \<Rightarrow> []
      | Some t \<Rightarrow> [(Tool t, scoped_delta sc (Tool t))])"

fun apply_deltas :: "registry \<Rightarrow> (config_scope \<times> config_map option) list \<Rightarrow> resolved_config
    \<Rightarrow> resolution_error + resolved_config" where
  "apply_deltas reg [] config = Inr config"
| "apply_deltas reg ((scope, delta) # rest) config =
     (case apply_delta reg scope delta config of Inl e \<Rightarrow> Inl e | Inr c \<Rightarrow> apply_deltas reg rest c)"

definition resolve_scope_stack :: "(string \<Rightarrow> string) \<Rightarrow> registry \<Rightarrow> scoped_config \<Rightarrow> resolution_target
    \<Rightarrow> expansion_context \<Rightarrow> resolution_error + resolved_config" where
  "resolve_scope_stack quote reg sc target ctx =
     (case apply_deltas reg (scope_stack sc target) resolved_config_default of
        Inl e \<Rightarrow> Inl e
      | Inr c \<Rightarrow>
     (case seed_registry_defaults quote reg c of
        Inl e \<Rightarrow> Inl e
      | Inr c' \<Rightarrow> map_sum Expansion id (expand_automatic_values reg c' ctx (rt_tool_index target))))"

section \<open>Laws of the scope stack\<close>

text \<open>The statements of a stack in application order, under canonical keys.\<close>

definition authored_statements :: "(config_scope \<times> config_map option) list \<Rightarrow> (string \<times> config_value) list" where
  "authored_statements stack =
     concat (map (\<lambda>(_, d). case d of None \<Rightarrow> [] | Some m \<Rightarrow> map (\<lambda>(k, v). (canonical_config_key k, v)) m) stack)"

definition config_wf :: "resolved_config \<Rightarrow> bool" where
  "config_wf rc \<longleftrightarrow> resolved_config_ok rc \<and> btm_wf (rc_extensions rc)"

definition run_value :: "string \<times> config_value \<Rightarrow> config_resolution_error + resolved_config \<Rightarrow> config_resolution_error + resolved_config" where
  "run_value kv acc = (case acc of Inl e \<Rightarrow> Inl e | Inr c \<Rightarrow> apply_value c (fst kv) (snd kv))"

lemma run_value_Inl [simp]: "fold run_value kvs (Inl e) = Inl e"
  by (induction kvs) (simp_all add: run_value_def)

lemma apply_values_Inr:
  "apply_values reg kvs c = Inr c' \<Longrightarrow>
     fold run_value (map (\<lambda>(k, v). (canonical_config_key k, v)) kvs) (Inr c) = Inr c' \<and>
     list_all (\<lambda>(k, v). validate_extension reg (canonical_config_key k) v = Inr ()) kvs"
  by (induction reg kvs c rule: apply_values.induct)
    (auto simp: Let_def run_value_def split: sum.splits)

lemma apply_delta_Inr:
  assumes "apply_delta reg scope (Some d) c = Inr c'"
  shows "fold run_value (map (\<lambda>(k, v). (canonical_config_key k, v)) d) (Inr c) = Inr c'"
    and "list_all (\<lambda>k. canonical_config_key k \<in> set (admission_set reg scope)) (btm_keys d)"
    and "list_all (\<lambda>(k, v). validate_extension reg (canonical_config_key k) v = Inr ()) d"
proof -
  have none: "find (\<lambda>key. key \<notin> set (admission_set reg scope)) (map canonical_config_key (btm_keys d)) = None"
    and run: "apply_values reg d c = Inr c'"
    using assms by (auto simp: apply_delta_def split: option.splits prod.splits)
  show "list_all (\<lambda>k. canonical_config_key k \<in> set (admission_set reg scope)) (btm_keys d)"
    using none by (auto simp: find_None_iff list_all_iff)
  show "fold run_value (map (\<lambda>(k, v). (canonical_config_key k, v)) d) (Inr c) = Inr c'"
    and "list_all (\<lambda>(k, v). validate_extension reg (canonical_config_key k) v = Inr ()) d"
    using apply_values_Inr [OF run] by blast+
qed

lemma apply_deltas_Inr:
  "apply_deltas reg stack c = Inr c' \<Longrightarrow>
     fold run_value (authored_statements stack) (Inr c) = Inr c' \<and>
     list_all (\<lambda>(k, v). validate_extension reg k v = Inr ()) (authored_statements stack) \<and>
     list_all (\<lambda>(scope, d). case d of None \<Rightarrow> True
        | Some m \<Rightarrow> list_all (\<lambda>k. canonical_config_key k \<in> set (admission_set reg scope)) (btm_keys m)) stack"
proof (induction reg stack c rule: apply_deltas.induct)
  case (2 reg scope delta rest c)
  obtain c1 where c1: "apply_delta reg scope delta c = Inr c1" "apply_deltas reg rest c1 = Inr c'"
    using "2.prems" by (auto split: sum.splits)
  note IH = "2.IH" [OF c1]
  show ?case
  proof (cases delta)
    case None
    then have "c1 = c" using c1(1) by (simp add: apply_delta_def)
    then show ?thesis using IH None by (simp add: authored_statements_def)
  next
    case (Some m)
    note D = apply_delta_Inr [OF c1(1) [unfolded Some]]
    have st: "authored_statements ((scope, delta) # rest) =
        map (\<lambda>(k, v). (canonical_config_key k, v)) m @ authored_statements rest"
      by (simp add: authored_statements_def Some)
    show ?thesis
      unfolding st using IH D Some
      by (simp add: list_all_iff case_prod_unfold) auto
  qed
qed (simp add: authored_statements_def)

text \<open>What one statement writes.\<close>

definition written_value :: "string \<Rightarrow> config_value \<Rightarrow> field_value" where
  "written_value key value =
     (case cli_row key of
        Some r \<Rightarrow> projr (run_extractor (row_extractor r) key value)
      | None \<Rightarrow> FU32 (projr (extract_int_as_u32 key value)))"

lemma apply_value_Inr:
  assumes "apply_value c key value = Inr c'"
  shows "get_field c' f = (if target_field key = Some f then written_value key value else get_field c f)"
    and "btm_get (rc_extensions c') k = (if target_field key = None \<and> k = key then Some value else btm_get (rc_extensions c) k)"
    and "config_wf c \<Longrightarrow> config_wf c'"
proof -
  obtain rc b where run: "apply_cli_key c key value = Inr (rc, b)"
    and c': "c' = (if b then rc else rc\<lparr>rc_extensions := btm_insert key value (rc_extensions rc)\<rparr>)"
    using assms by (auto simp: apply_value_def split: sum.splits bool.splits)
  have tf: "b \<longleftrightarrow> target_field key \<noteq> None"
    using run by (cases rule: apply_cli_key_cases) auto
  have ext: "rc_extensions rc = rc_extensions c"
    using run by (cases rule: apply_cli_key_cases) auto
  have fld: "get_field rc f = (if target_field key = Some f then written_value key value else get_field c f)"
    using run by (auto simp: apply_cli_key_def target_field_def written_value_def get_set_field split: option.splits sum.splits if_splits)
  have gf: "get_field (rc\<lparr>rc_extensions := x\<rparr>) f = get_field rc f" for x
    by (simp add: get_field_def)
  show "get_field c' f = (if target_field key = Some f then written_value key value else get_field c f)"
    using fld by (simp add: c' gf)
  show "btm_get (rc_extensions c') k = (if target_field key = None \<and> k = key then Some value else btm_get (rc_extensions c) k)"
    using tf ext by (auto simp: c')
  have okx: "resolved_config_ok (rc\<lparr>rc_extensions := x\<rparr>) = resolved_config_ok rc" for x
    by (simp add: resolved_config_ok_def get_field_def)
  show "config_wf c'" if "config_wf c"
    using that apply_cli_key_ok [OF _ run] ext by (auto simp: config_wf_def c' okx)
qed

lemma fold_run_value_snoc:
  assumes "fold run_value (kvs @ [kv]) (Inr c) = Inr c'"
  obtains c1 where "fold run_value kvs (Inr c) = Inr c1" and "apply_value c1 (fst kv) (snd kv) = Inr c'"
  using assms by (cases "fold run_value kvs (Inr c)") (auto simp: run_value_def [of kv])

lemma fold_run_value:
  assumes "fold run_value kvs (Inr c) = Inr c'"
  shows "get_field c' f =
      (case find (\<lambda>(k, _). target_field k = Some f) (rev kvs) of
         None \<Rightarrow> get_field c f | Some (k, v) \<Rightarrow> written_value k v) \<and>
    (target_field key = None \<longrightarrow> btm_get (rc_extensions c') key =
      (case map_of (rev kvs) key of None \<Rightarrow> btm_get (rc_extensions c) key | Some v \<Rightarrow> Some v)) \<and>
    (config_wf c \<longrightarrow> config_wf c')"
  using assms
proof (induction kvs arbitrary: c' rule: rev_induct)
  case (snoc kv kvs)
  obtain c1 where c1: "fold run_value kvs (Inr c) = Inr c1" "apply_value c1 (fst kv) (snd kv) = Inr c'"
    using snoc.prems by (rule fold_run_value_snoc)
  show ?case
    using snoc.IH [OF c1(1)] apply_value_Inr(1) [OF c1(2), of f] apply_value_Inr(2) [OF c1(2), of key]
      apply_value_Inr(3) [OF c1(2)]
    by (cases kv) auto
qed simp

section \<open>Laws of expansion\<close>

definition needs_expansion :: "registry \<Rightarrow> string \<Rightarrow> config_value \<Rightarrow> bool" where
  "needs_expansion reg key value \<longleftrightarrow>
     (key \<in> {''line_width'', ''support_line_width''} \<and> is_plain_zero value) \<or>
     auto_base key value \<noteq> None \<or> (percent_magnitude value \<noteq> None \<and> base_of reg key \<noteq> None)"

definition expanded_ok :: "registry \<Rightarrow> config_map \<Rightarrow> string \<Rightarrow> config_value \<Rightarrow> bool" where
  "expanded_ok reg source key result \<longleftrightarrow>
     (\<exists>v. btm_get source key = Some v \<and> (\<not> needs_expansion reg key v \<longrightarrow> result = v) \<and>
        (auto_base key v = None \<longrightarrow> base_of reg key \<noteq> None \<longrightarrow> percent_magnitude result = None))"

definition resolver_ok :: "resolver \<Rightarrow> bool" where
  "resolver_ok rs \<longleftrightarrow> btm_wf (ex_expanded rs) \<and>
     (\<forall>k r. btm_get (ex_expanded rs) k = Some r \<longrightarrow> expanded_ok (ex_registry rs) (ex_source rs) k r)"

text \<open>A call keeps everything but the table of expanded values, which only grows.\<close>

definition resolver_extends :: "resolver \<Rightarrow> resolver \<Rightarrow> bool" where
  "resolver_extends rs rs' \<longleftrightarrow>
     ex_registry rs' = ex_registry rs \<and> ex_source rs' = ex_source rs \<and> ex_context rs' = ex_context rs \<and>
     ex_tool_index rs' = ex_tool_index rs \<and> ex_visiting rs' = ex_visiting rs \<and>
     (\<forall>k. btm_get (ex_expanded rs) k \<noteq> None \<longrightarrow> btm_get (ex_expanded rs') k \<noteq> None) \<and>
     (resolver_ok rs \<longrightarrow> resolver_ok rs')"

lemma resolver_extends_refl [simp]: "resolver_extends rs rs"
  by (simp add: resolver_extends_def)

lemma begin_key_sel [simp]:
  "ex_registry (begin_key key rs) = ex_registry rs" "ex_source (begin_key key rs) = ex_source rs"
  "ex_context (begin_key key rs) = ex_context rs" "ex_tool_index (begin_key key rs) = ex_tool_index rs"
  "ex_expanded (begin_key key rs) = ex_expanded rs" "ex_visiting (begin_key key rs) = key # ex_visiting rs"
  by (simp_all add: begin_key_def)

lemma resolver_ok_begin [simp]: "resolver_ok (begin_key key rs) = resolver_ok rs"
  by (simp add: resolver_ok_def)

lemma end_key_extends:
  assumes "resolver_extends (begin_key key rs) rs2" and "key \<notin> set (ex_visiting rs)"
    and "expanded_ok (ex_registry rs) (ex_source rs) key r"
  shows "resolver_extends rs (end_key key r rs2) \<and> btm_get (ex_expanded (end_key key r rs2)) key = Some r"
proof -
  have "filter (\<lambda>k. k \<noteq> key) (ex_visiting rs2) = ex_visiting rs"
    using assms(1,2) by (simp add: resolver_extends_def filter_id_conv) (metis filter_True)
  then show ?thesis
    using assms(1,3) by (auto simp: resolver_extends_def end_key_def resolver_ok_def)
qed

lemma relative_result_absolute: "percent_magnitude (absolute_like v x) = None"
  by (cases v) (simp_all add: absolute_like_def percent_magnitude_def)

lemma expand_extends:
  "(expand_key key rs = Inr (res, rs') \<longrightarrow>
      resolver_extends rs rs' \<and>
      (key \<notin> set (ex_visiting rs) \<and> btm_get (ex_source rs) key \<noteq> None \<longrightarrow> btm_get (ex_expanded rs') key \<noteq> None))"
  "(required_base k0 base rs = Inr (b, rs') \<longrightarrow> resolver_extends rs rs')"
proof (induction key rs and k0 base rs arbitrary: res rs' and b rs' rule: expand_key_required_base.induct)
  case (1 key rs)
  show ?case
  proof (intro impI)
    assume run: "expand_key key rs = Inr (res, rs')"
    show "resolver_extends rs rs' \<and>
      (key \<notin> set (ex_visiting rs) \<and> btm_get (ex_source rs) key \<noteq> None \<longrightarrow> btm_get (ex_expanded rs') key \<noteq> None)"
    proof (cases "btm_get (ex_expanded rs) key")
      case (Some v)
      then have "rs' = rs" using run by (auto simp: expand_key.simps [of key rs])
      then show ?thesis using Some by simp
    next
      case new: None
      show ?thesis
      proof (cases "btm_get (ex_source rs) key")
        case None
        then show ?thesis using run new by (auto simp: expand_key.simps [of key rs])
      next
        case src: (Some v)
        show ?thesis
        proof (cases "key \<in> set (ex_visiting rs)")
          case True
          then show ?thesis using run new src by (auto simp: expand_key.simps [of key rs])
        next
          case fresh: False
          let ?rs1 = "begin_key key rs"
          have fin: "resolver_extends rs (end_key key r rs2) \<and> btm_get (ex_expanded (end_key key r rs2)) key = Some r"
            if "resolver_extends ?rs1 rs2" and "expanded_ok (ex_registry rs) (ex_source rs) key r" for r rs2
            using end_key_extends [OF that(1) fresh that(2)] .
          note step = run [unfolded expand_key.simps [of key rs] new src option.case if_not_P [OF fresh] Let_def]
          note IH = "1.IH" [OF new src fresh refl]
          consider (lw) "key = ''line_width''" "is_plain_zero v"
            | (slw) "\<not> (key = ''line_width'' \<and> is_plain_zero v)" "key = ''support_line_width''" "is_plain_zero v"
            | (automatic) base where "\<not> (key = ''line_width'' \<and> is_plain_zero v)"
                "\<not> (key = ''support_line_width'' \<and> is_plain_zero v)" "auto_base key v = Some base"
            | (rel) p base where "\<not> (key = ''line_width'' \<and> is_plain_zero v)"
                "\<not> (key = ''support_line_width'' \<and> is_plain_zero v)" "auto_base key v = None"
                "relative_base ?rs1 key v = Some (p, base)"
            | (plain) "\<not> (key = ''line_width'' \<and> is_plain_zero v)"
                "\<not> (key = ''support_line_width'' \<and> is_plain_zero v)" "auto_base key v = None"
                "relative_base ?rs1 key v = None"
            by (cases "auto_base key v"; cases "relative_base ?rs1 key v") auto
          then show ?thesis
          proof cases
            case lw
            obtain b rs2 where b: "required_base key ''nozzle_diameter'' ?rs1 = Inr (b, rs2)"
              and rs': "rs' = end_key key (CvFloat (f64_mul f64_nine_eighths b)) rs2"
              using step lw by (auto split: sum.splits)
            have "expanded_ok (ex_registry rs) (ex_source rs) key (CvFloat (f64_mul f64_nine_eighths b))"
              using src lw by (auto simp: expanded_ok_def needs_expansion_def percent_magnitude_def)
            moreover have "resolver_extends ?rs1 rs2" using IH(1) b lw by blast
            ultimately show ?thesis unfolding rs' using fin by simp
          next
            case slw
            obtain b rs2 where b: "required_base key ''nozzle_diameter'' ?rs1 = Inr (b, rs2)"
              and rs': "rs' = end_key key (CvFloat b) rs2"
              using step slw by (auto split: sum.splits)
            have "expanded_ok (ex_registry rs) (ex_source rs) key (CvFloat b)"
              using src slw by (auto simp: expanded_ok_def needs_expansion_def percent_magnitude_def)
            moreover have "resolver_extends ?rs1 rs2" using IH(2) b slw by blast
            ultimately show ?thesis unfolding rs' using fin by simp
          next
            case automatic
            obtain r rs2 where b: "expand_key base ?rs1 = Inr (Some r, rs2)"
              and rs': "rs' = end_key key r rs2"
              using step automatic by (auto split: sum.splits option.splits)
            have "expanded_ok (ex_registry rs) (ex_source rs) key r"
              using src automatic by (auto simp: expanded_ok_def needs_expansion_def)
            moreover have "resolver_extends ?rs1 rs2" using IH(4) b automatic by blast
            ultimately show ?thesis unfolding rs' using fin by simp
          next
            case rel
            obtain b rs2 where b: "required_base key base ?rs1 = Inr (b, rs2)"
              and rs': "rs' = end_key key (absolute_like v (f64_mul (f64_div p f64_hundred) b)) rs2"
              using step rel by (auto split: sum.splits)
            have "expanded_ok (ex_registry rs) (ex_source rs) key (absolute_like v (f64_mul (f64_div p f64_hundred) b))"
              using src rel
              by (auto simp: expanded_ok_def needs_expansion_def relative_result_absolute relative_base_def bind_eq_Some_conv)
            moreover have "resolver_extends ?rs1 rs2" using IH(3) b rel by blast
            ultimately show ?thesis unfolding rs' using fin by simp
          next
            case plain
            have rs': "rs' = end_key key v ?rs1"
              using step plain by simp
            have "expanded_ok (ex_registry rs) (ex_source rs) key v"
              using src plain by (auto simp: expanded_ok_def relative_base_def bind_eq_None_conv)
            then show ?thesis unfolding rs' using fin [OF resolver_extends_refl] by fastforce
          qed
        qed
      qed
    qed
  qed
next
  case (2 k0 base rs)
  show ?case
  proof (intro impI)
    assume run: "required_base k0 base rs = Inr (b, rs')"
    show "resolver_extends rs rs'"
    proof (cases "tool_base rs base")
      case (Some v)
      then show ?thesis
        using run by (auto simp: required_base.simps [of k0 base rs] map_sum_def split: sum.splits)
    next
      case None
      obtain r rs1 where r: "expand_key base rs = Inr (r, rs1)"
        using run None by (auto simp: required_base.simps [of k0 base rs] split: sum.splits)
      moreover have "rs' = rs1"
        using run None r
        by (auto simp: required_base.simps [of k0 base rs] map_sum_def split: sum.splits option.splits if_splits)
      ultimately show ?thesis using "2.IH" [OF None] by blast
    qed
  qed
qed


lemma expand_keys_Inr:
  "expand_keys ks rs = Inr rs' \<Longrightarrow> ex_visiting rs = [] \<Longrightarrow>
     resolver_extends rs rs' \<and>
     (\<forall>k \<in> set ks. btm_get (ex_source rs) k \<noteq> None \<longrightarrow> btm_get (ex_expanded rs') k \<noteq> None)"
proof (induction ks rs rule: expand_keys.induct)
  case (2 key rest rs)
  obtain o' rs1 where r: "expand_key key rs = Inr (o', rs1)" "expand_keys rest rs1 = Inr rs'"
    using "2.prems"(1) by (auto split: sum.splits)
  have e1: "resolver_extends rs rs1"
    "btm_get (ex_source rs) key \<noteq> None \<longrightarrow> btm_get (ex_expanded rs1) key \<noteq> None"
    using expand_extends(1) [of key rs o' rs1] r(1) "2.prems"(2) by auto
  have "ex_visiting rs1 = []" using e1(1) "2.prems"(2) by (simp add: resolver_extends_def)
  note IH = "2.IH" [OF r(1) refl r(2) this]
  show ?case using e1 IH by (auto simp: resolver_extends_def)
qed simp

definition put_extension :: "string \<Rightarrow> config_value \<Rightarrow> resolved_config \<Rightarrow> resolved_config" where
  "put_extension key v rc = rc\<lparr>rc_extensions := btm_insert key v (rc_extensions rc)\<rparr>"

lemma put_extension_laws [simp]:
  "get_field (put_extension key v rc) f = get_field rc f"
  "rc_extensions (put_extension key v rc) = btm_insert key v (rc_extensions rc)"
  "config_wf rc \<Longrightarrow> config_wf (put_extension key v rc)"
  by (simp_all add: put_extension_def get_field_def config_wf_def resolved_config_ok_def)

lemma write_expanded_cases:
  assumes "config_wf rc"
  obtains (same) "write_expanded source (key, r) rc = rc"
      "btm_get source key = Some r"
    | (put) "write_expanded source (key, r) rc = put_extension key r rc"
    | (field) rc1 where "apply_cli_key rc key r = Inr (rc1, True)" "btm_get (rc_extensions rc) key = None"
        "write_expanded source (key, r) rc = rc1"
    | (both) rc1 where "apply_cli_key rc key r = Inr (rc1, True)"
        "write_expanded source (key, r) rc = put_extension key r rc1"
proof (cases "btm_get source key = Some r")
  case True
  then show thesis using same by (simp add: write_expanded_def)
next
  case False
  show thesis
  proof (cases "btm_get (rc_extensions rc) key")
    case (Some x)
    then show thesis using put False by (simp add: write_expanded_def put_extension_def)
  next
    case None
    show thesis
    proof (cases "apply_cli_key rc key r")
      case (Inl e)
      then show thesis using put False None by (simp add: write_expanded_def put_extension_def)
    next
      case (Inr p)
      obtain rc1 b where p: "p = (rc1, b)" by (cases p)
      show thesis
      proof (cases b)
        case True
        then show thesis
          using field [of rc1] both [of rc1] False None Inr p
          by (cases "key = ''support_line_width''") (simp_all add: write_expanded_def put_extension_def)
      next
        case False
        then show thesis using put \<open>btm_get source key \<noteq> Some r\<close> None Inr p
          by (simp add: write_expanded_def put_extension_def)
      qed
    qed
  qed
qed

lemma apply_cli_key_wf:
  assumes "config_wf rc" and "apply_cli_key rc key v = Inr (rc1, b)"
  shows "config_wf rc1"
proof -
  have "rc_extensions rc1 = rc_extensions rc"
    using assms(2) by (cases rule: apply_cli_key_cases) auto
  then show ?thesis using assms apply_cli_key_ok by (auto simp: config_wf_def)
qed

lemma write_expanded_frame:
  assumes "config_wf rc"
  shows "config_wf (write_expanded source (key, r) rc)"
    and "k \<noteq> key \<Longrightarrow> btm_get (rc_extensions (write_expanded source (key, r) rc)) k = btm_get (rc_extensions rc) k"
    and "target_field key \<noteq> Some f \<Longrightarrow> get_field (write_expanded source (key, r) rc) f = get_field rc f"
proof -
  have A: "config_wf rc1 \<and> rc_extensions rc1 = rc_extensions rc \<and>
      (target_field key \<noteq> Some f \<longrightarrow> get_field rc1 f = get_field rc f)"
    if run: "apply_cli_key rc key r = Inr (rc1, True)" for rc1
    using run by (cases rule: apply_cli_key_cases)
      (use apply_cli_key_ok [OF _ run] assms in \<open>auto simp: config_wf_def get_set_field\<close>)
  show "config_wf (write_expanded source (key, r) rc)"
    using assms by (cases rule: write_expanded_cases [of rc source key r]) (use assms A in auto)
  show "btm_get (rc_extensions (write_expanded source (key, r) rc)) k = btm_get (rc_extensions rc) k" if "k \<noteq> key"
    using assms by (cases rule: write_expanded_cases [of rc source key r]) (use that A in auto)
  show "get_field (write_expanded source (key, r) rc) f = get_field rc f" if "target_field key \<noteq> Some f"
    using assms by (cases rule: write_expanded_cases [of rc source key r]) (use that A in auto)
qed

text \<open>The value a config renders under a key is not a percentage.\<close>

definition not_relative :: "resolved_config \<Rightarrow> string \<Rightarrow> bool" where
  "not_relative rc key \<longleftrightarrow>
     (case btm_get (to_config_map rc) key of None \<Rightarrow> True | Some v \<Rightarrow> percent_magnitude v = None)"

lemma row_of_key:
  assumes "find (\<lambda>r. row_key r = key) RESOLVED_CONFIG_ROWS = Some r"
  shows "r \<in> set RESOLVED_CONFIG_ROWS" and "row_key r = key"
  using assms by (auto simp: find_Some_iff dest: nth_mem)

lemma target_field_row:
  assumes "target_field k' = Some (row_field r)" and "r \<in> set RESOLVED_CONFIG_ROWS" and "row_key r \<noteq> k'"
  shows "row_type r = row_type (Cli ''wall_count'' ''wall_count'' (FU32 2) ExtractIntAsU32)"
proof (cases "cli_row k'")
  case (Some r')
  then have "row_field r' = row_field r" using assms(1) by (simp add: target_field_def)
  then have "r' = r" using row_field_inj assms(2) cli_row_Some [OF Some] by blast
  moreover have "row_key r' = k'"
    using cli_row_Some [OF Some] by (cases r') (auto simp: row_key_def is_plain_def)
  ultimately show ?thesis using assms(3) by simp
next
  case None
  then have "row_field r = ''wall_count''" using assms(1) by (auto simp: target_field_def split: if_splits)
  then have "r = Cli ''wall_count'' ''wall_count'' (FU32 2) ExtractIntAsU32"
    using row_field_inj [OF assms(2) wall_count_row] by simp
  then show ?thesis by simp
qed

lemma write_expanded_other:
  assumes wf: "config_wf rc" and ne: "key \<noteq> k'" and P: "not_relative rc key"
  shows "not_relative (write_expanded source (k', r) rc) key"
proof -
  let ?rc = "write_expanded source (k', r) rc"
  have wf': "config_wf ?rc" and ext: "btm_get (rc_extensions ?rc) key = btm_get (rc_extensions rc) key"
    using write_expanded_frame(1) [OF wf] write_expanded_frame(2) [OF wf ne] by simp_all
  have get: "btm_get (to_config_map c) key = (case btm_get (rc_extensions c) key of
       Some v \<Rightarrow> Some v
     | None \<Rightarrow> (case find (\<lambda>r. row_key r = key) RESOLVED_CONFIG_ROWS of
           None \<Rightarrow> None | Some r \<Rightarrow> to_config_value (get_field c (row_field r))))" if "config_wf c" for c
    using that to_config_map_get by (simp add: config_wf_def)
  show ?thesis
  proof (cases "btm_get (rc_extensions rc) key")
    case (Some x)
    then show ?thesis using P ext by (simp add: not_relative_def get [OF wf] get [OF wf'])
  next
    case none: None
    show ?thesis
    proof (cases "find (\<lambda>r. row_key r = key) RESOLVED_CONFIG_ROWS")
      case None
      then show ?thesis using none ext by (simp add: not_relative_def get [OF wf'])
    next
      case (Some row)
      note row = row_of_key [OF Some]
      show ?thesis
      proof (cases "target_field k' = Some (row_field row)")
        case True
        have "row_type row (get_field ?rc (row_field row))"
          using wf' row(1) by (simp add: config_wf_def resolved_config_ok_def list_all_iff)
        moreover have "row_type row = row_type (Cli ''wall_count'' ''wall_count'' (FU32 2) ExtractIntAsU32)"
          using row(2) ne by (intro target_field_row [OF True row(1)]) simp
        ultimately have "\<exists>n. get_field ?rc (row_field row) = FU32 n"
          by (simp split: field_value.splits)
        then show ?thesis
          using none ext Some by (auto simp: not_relative_def get [OF wf'] percent_magnitude_def)
      next
        case False
        then have "get_field ?rc (row_field row) = get_field rc (row_field row)"
          by (rule write_expanded_frame(3) [OF wf])
        then show ?thesis
          using P none ext Some by (simp add: not_relative_def get [OF wf] get [OF wf'])
      qed
    qed
  qed
qed

lemma wall_loops_no_row: "row_key r = ''wall_loops'' \<Longrightarrow> r \<notin> set RESOLVED_CONFIG_ROWS"
  by (auto simp: RESOLVED_CONFIG_ROWS_def GEOMETRY_ROWS_def PATH_SUPPORT_ROWS_def MODULE_MACHINE_ROWS_def row_key_def)

lemma extractor_not_relative:
  assumes "run_extractor e key r = Inr v" and "percent_magnitude r = None"
  shows "case to_config_value v of None \<Rightarrow> True | Some x \<Rightarrow> percent_magnitude x = None"
proof (cases "e = ExtractFloatOrPercent")
  case True
  then show ?thesis
    using assms by (auto simp: extract_float_or_percent_def map_sum_def percent_magnitude_def split: config_value.splits)
next
  case False
  then show ?thesis
    using run_extractor_type [OF assms(1)]
    by (cases e) (auto simp: percent_magnitude_def split: field_value.splits)
qed

lemma write_expanded_self:
  assumes wf: "config_wf rc" and r: "percent_magnitude r = None" and ne: "btm_get source key \<noteq> Some r"
  shows "not_relative (write_expanded source (key, r) rc) key"
proof -
  have putok: "not_relative (put_extension key r c) key" if "config_wf c" for c
    using that r put_extension_laws(3) [OF that, of key r]
    by (simp add: not_relative_def to_config_map_get config_wf_def)
  show ?thesis
    using wf
  proof (cases rule: write_expanded_cases [of rc source key r])
    case same
    then show ?thesis using ne by simp
  next
    case put
    then show ?thesis using putok [OF wf] by simp
  next
    case (field rc1)
    have wf1: "config_wf rc1" using write_expanded_frame(1) [OF wf, of source key r] field by simp
    have ext: "btm_get (rc_extensions rc1) key = None"
      using field(1) by (cases rule: apply_cli_key_cases) (use field(2) in auto)
    have "case to_config_value (get_field rc1 (row_field row)) of None \<Rightarrow> True | Some x \<Rightarrow> percent_magnitude x = None"
      if "find (\<lambda>r. row_key r = key) RESOLVED_CONFIG_ROWS = Some row" for row
    proof -
      note row = row_of_key [OF that]
      show ?thesis
      proof (cases "cli_row key")
        case (Some row')
        note row' = cli_row_Some [OF Some]
        have "row_key row' = key" using row' by (cases row') (auto simp: row_key_def is_plain_def)
        then have same: "row' = row"
          using row row' rows_distinct(2) by (auto simp: distinct_map inj_on_def)
        obtain v where "run_extractor (row_extractor row) key r = Inr v" and "get_field rc1 (row_field row) = v"
          using field(1) Some by (auto simp: apply_cli_key_def same get_set_field split: sum.splits)
        then show ?thesis using extractor_not_relative r by blast
      next
        case None
        then have "key = ''wall_loops''" using field(1) by (auto simp: apply_cli_key_def split: if_splits)
        then show ?thesis using row wall_loops_no_row by auto
      qed
    qed
    then show ?thesis
      using wf1 ext field(3)
      by (auto simp: not_relative_def config_wf_def to_config_map_get split: option.splits)
  next
    case (both rc1)
    then show ?thesis using putok [OF apply_cli_key_wf [OF wf both(1)]] by simp
  qed
qed

lemma fold_write_expanded_wf: "config_wf rc \<Longrightarrow> config_wf (fold (write_expanded source) kvs rc)"
proof (induction kvs arbitrary: rc)
  case (Cons kv kvs)
  then show ?case using write_expanded_frame(1) [OF Cons.prems, of source "fst kv" "snd kv"] by simp
qed simp

lemma fold_write_expanded_other:
  "config_wf rc \<Longrightarrow> not_relative rc key \<Longrightarrow> key \<notin> fst ` set kvs \<Longrightarrow>
     not_relative (fold (write_expanded source) kvs rc) key"
proof (induction kvs arbitrary: rc)
  case (Cons kv kvs)
  have "config_wf (write_expanded source kv rc)"
    using write_expanded_frame(1) [OF Cons.prems(1), of source "fst kv" "snd kv"] by simp
  moreover have "not_relative (write_expanded source kv rc) key"
    using write_expanded_other [OF Cons.prems(1) _ Cons.prems(2), of "fst kv" source "snd kv"] Cons.prems(3) by auto
  ultimately show ?case using Cons by simp
qed simp

lemma fold_write_expanded_not_relative:
  assumes wf: "config_wf rc" and dist: "distinct (map fst kvs)"
    and ok: "\<And>r. (key, r) \<in> set kvs \<Longrightarrow> percent_magnitude r = None"
    and start: "key \<in> fst ` set kvs \<or> not_relative rc key"
    and src: "\<And>v. btm_get source key = Some v \<Longrightarrow> percent_magnitude v = None \<Longrightarrow> not_relative rc key"
  shows "not_relative (fold (write_expanded source) kvs rc) key"
proof (cases "key \<in> fst ` set kvs")
  case False
  then show ?thesis using fold_write_expanded_other [OF wf] start by blast
next
  case True
  then obtain r where "(key, r) \<in> set kvs" by auto
  then obtain xs ys where kvs: "kvs = xs @ (key, r) # ys" by (meson split_list)
  have notin: "key \<notin> fst ` set xs" "key \<notin> fst ` set ys" using dist by (auto simp: kvs)
  let ?c = "fold (write_expanded source) xs rc"
  have wfc: "config_wf ?c" by (rule fold_write_expanded_wf [OF wf])
  have r: "percent_magnitude r = None" using ok by (simp add: kvs)
  have "not_relative (write_expanded source (key, r) ?c) key"
  proof (cases "btm_get source key = Some r")
    case True
    then show ?thesis
      using fold_write_expanded_other [OF wf src [OF True r] notin(1)] by (simp add: write_expanded_def)
  next
    case False
    then show ?thesis by (rule write_expanded_self [OF wfc r])
  qed
  then show ?thesis
    using fold_write_expanded_other [OF write_expanded_frame(1) [OF wfc] _ notin(2)] by (simp add: kvs)
qed

lemma expansion_not_relative:
  assumes wf: "config_wf config" and run: "expand_automatic_values reg config ctx tool = Inr config'"
    and base: "base_of reg key \<noteq> None" and "key \<notin> fst ` set BOTTOM_AUTO_BASES"
  shows "not_relative config' key"
proof -
  let ?src = "to_config_map config"
  let ?rs = "\<lparr>ex_registry = reg, ex_source = ?src, ex_context = ctx, ex_tool_index = tool,
                ex_expanded = [], ex_visiting = []\<rparr>"
  obtain rs' where rs': "expand_keys (btm_keys ?src) ?rs = Inr rs'"
    and c': "config' = fold (write_expanded ?src) (ex_expanded rs') config"
    using run by (auto simp: expand_automatic_values_def Let_def split: sum.splits)
  have "resolver_ok ?rs" by (simp add: resolver_ok_def)
  then have ok: "resolver_ok rs'" "ex_registry rs' = reg" "ex_source rs' = ?src"
    and all: "\<And>k. btm_get ?src k \<noteq> None \<Longrightarrow> btm_get (ex_expanded rs') k \<noteq> None"
    using expand_keys_Inr [OF rs'] by (auto simp: resolver_extends_def btm_keys_set)
  have noauto: "auto_base key v = None" for v
    using assms(4) by (force simp: auto_base_def find_None_iff)
  have wfx: "btm_wf (ex_expanded rs')" using ok(1) by (simp add: resolver_ok_def)
  show ?thesis
    unfolding c'
  proof (rule fold_write_expanded_not_relative [OF wf])
    show "distinct (map fst (ex_expanded rs'))"
      using btm_wf_distinct [OF wfx] by (simp add: btm_keys_def)
    show "percent_magnitude r = None" if "(key, r) \<in> set (ex_expanded rs')" for r
    proof -
      have "expanded_ok reg ?src key r"
        using that ok by (auto simp: resolver_ok_def btm_get_Some_iff [OF wfx])
      then show ?thesis using noauto base by (auto simp: expanded_ok_def)
    qed
    show "key \<in> fst ` set (ex_expanded rs') \<or> not_relative config key"
    proof (cases "btm_get ?src key")
      case None
      then show ?thesis by (simp add: not_relative_def)
    next
      case (Some v)
      then have "key \<in> set (btm_keys (ex_expanded rs'))" using all [of key] by (simp add: btm_keys_set)
      then show ?thesis by (simp add: btm_keys_def)
    qed
    show "not_relative config key" if "btm_get ?src key = Some v" "percent_magnitude v = None" for v
      using that by (simp add: not_relative_def)
  qed
qed

text \<open>Keys that need no expansion keep their effective value through the write-back.\<close>

lemma effective_get:
  assumes "config_wf c"
  shows "btm_get (to_config_map c) key = (case btm_get (rc_extensions c) key of
       Some v \<Rightarrow> Some v
     | None \<Rightarrow> (case find (\<lambda>r. row_key r = key) RESOLVED_CONFIG_ROWS of
           None \<Rightarrow> None | Some r \<Rightarrow> to_config_value (get_field c (row_field r))))"
  using assms to_config_map_get by (simp add: config_wf_def)

lemma target_of_row:
  assumes "target_field k' = Some (row_field r)" and "r \<in> set RESOLVED_CONFIG_ROWS"
  shows "row_key r = k' \<or> (k' = ''wall_loops'' \<and> row_key r = ''wall_count'')"
proof (cases "cli_row k'")
  case (Some r')
  then have "r' = r"
    using assms row_field_inj cli_row_Some [OF Some] by (auto simp: target_field_def)
  then show ?thesis
    using cli_row_Some [OF Some] by (cases r) (auto simp: row_key_def is_plain_def)
next
  case None
  then have "k' = ''wall_loops''" and "row_field r = ''wall_count''"
    using assms(1) by (auto simp: target_field_def split: if_splits)
  then have "r = Cli ''wall_count'' ''wall_count'' (FU32 2) ExtractIntAsU32"
    using row_field_inj [OF assms(2) wall_count_row] by simp
  then show ?thesis using \<open>k' = ''wall_loops''\<close> by (simp add: row_key_def)
qed

lemma write_expanded_effective:
  assumes wf: "config_wf rc" and ne: "key \<noteq> k'" and "key \<noteq> ''wall_count''"
  shows "btm_get (to_config_map (write_expanded source (k', r) rc)) key = btm_get (to_config_map rc) key"
proof -
  have fld: "get_field (write_expanded source (k', r) rc) (row_field row) = get_field rc (row_field row)"
    if "find (\<lambda>r. row_key r = key) RESOLVED_CONFIG_ROWS = Some row" for row
    using write_expanded_frame(3) [OF wf] target_of_row row_of_key [OF that] assms(2,3) by metis
  show ?thesis
    unfolding effective_get [OF wf] effective_get [OF write_expanded_frame(1) [OF wf]]
      write_expanded_frame(2) [OF wf ne]
    using fld by (simp split: option.splits)
qed

lemma fold_write_expanded_effective:
  "config_wf rc \<Longrightarrow> key \<noteq> ''wall_count'' \<Longrightarrow> (\<And>r. (key, r) \<in> set kvs \<Longrightarrow> btm_get source key = Some r) \<Longrightarrow>
     btm_get (to_config_map (fold (write_expanded source) kvs rc)) key = btm_get (to_config_map rc) key"
proof (induction kvs arbitrary: rc)
  case (Cons kv kvs)
  have wf: "config_wf (write_expanded source kv rc)"
    using write_expanded_frame(1) [OF Cons.prems(1), of source "fst kv" "snd kv"] by simp
  have "btm_get (to_config_map (write_expanded source kv rc)) key = btm_get (to_config_map rc) key"
  proof (cases "fst kv = key")
    case True
    then have "btm_get source key = Some (snd kv)" using Cons.prems(3) [of "snd kv"] by (cases kv) simp
    then show ?thesis using True by (cases kv) (simp add: write_expanded_def)
  next
    case False
    then show ?thesis
      using write_expanded_effective [OF Cons.prems(1) _ Cons.prems(2), of "fst kv" source "snd kv"] by auto
  qed
  then show ?case using Cons.IH [OF wf Cons.prems(2)] Cons.prems(3) by simp
qed simp

lemma expansion_keeps:
  assumes wf: "config_wf config" and run: "expand_automatic_values reg config ctx tool = Inr config'"
    and src: "btm_get (to_config_map config) key = Some v" and plain: "\<not> needs_expansion reg key v"
    and "key \<noteq> ''wall_count''"
  shows "btm_get (to_config_map config') key = Some v"
proof -
  let ?src = "to_config_map config"
  let ?rs = "\<lparr>ex_registry = reg, ex_source = ?src, ex_context = ctx, ex_tool_index = tool,
                ex_expanded = [], ex_visiting = []\<rparr>"
  obtain rs' where rs': "expand_keys (btm_keys ?src) ?rs = Inr rs'"
    and c': "config' = fold (write_expanded ?src) (ex_expanded rs') config"
    using run by (auto simp: expand_automatic_values_def Let_def split: sum.splits)
  have "resolver_ok ?rs" by (simp add: resolver_ok_def)
  then have ok: "resolver_ok rs'" "ex_registry rs' = reg" "ex_source rs' = ?src"
    using expand_keys_Inr [OF rs'] by (auto simp: resolver_extends_def)
  have wfx: "btm_wf (ex_expanded rs')" using ok(1) by (simp add: resolver_ok_def)
  have "btm_get ?src key = Some r" if "(key, r) \<in> set (ex_expanded rs')" for r
  proof -
    have "expanded_ok reg ?src key r"
      using that ok by (auto simp: resolver_ok_def btm_get_Some_iff [OF wfx])
    then show ?thesis using src plain by (auto simp: expanded_ok_def)
  qed
  then show ?thesis unfolding c' using fold_write_expanded_effective [OF wf assms(5)] src by simp
qed

section \<open>Seeding\<close>

lemma seed_key_Inr:
  assumes "seed_key quote reg ke c = Inr c1"
  obtains "c1 = c"
    | x where "btm_get (rc_extensions c) (fst ke) = None" and "c1 = put_extension (fst ke) x c"
        and "canonical_config_key (fst ke) \<notin> set typed_field_keys"
proof -
  obtain key entry where ke: "ke = (key, entry)" by (cases ke)
  show thesis
  proof (cases "CHR ''*'' \<in> set key \<or> re_selector entry \<or> canonical_config_key key \<in> set typed_field_keys")
    case True
    then show thesis using assms that(1) by (simp add: ke seed_key_def)
  next
    case False
    show thesis
    proof (cases "re_default entry")
      case None
      then show thesis using assms that(1) False by (simp add: ke seed_key_def)
    next
      case (Some dflt)
      obtain x where x: "parse_registry_default entry dflt = Some x" "validate_extension reg key x = Inr ()"
        using assms False Some by (auto simp: ke seed_key_def split: option.splits sum.splits)
      then have c1: "c1 = (if btm_get (rc_extensions c) key = None then put_extension key x c else c)"
        using assms False Some by (auto simp: ke seed_key_def put_extension_def)
      show thesis
        using that c1 False by (cases "btm_get (rc_extensions c) key") (auto simp: ke)
    qed
  qed
qed

lemma seed_keys_Inr:
  "seed_keys quote reg es c = Inr c' \<Longrightarrow> config_wf c \<Longrightarrow>
     config_wf c' \<and> (\<forall>f. get_field c' f = get_field c f) \<and>
     (\<forall>key. btm_get (rc_extensions c) key \<noteq> None \<or> canonical_config_key key \<in> set typed_field_keys \<longrightarrow>
        btm_get (rc_extensions c') key = btm_get (rc_extensions c) key)"
proof (induction quote reg es c rule: seed_keys.induct)
  case (2 quote reg ke rest c)
  obtain c1 where c1: "seed_key quote reg ke c = Inr c1" "seed_keys quote reg rest c1 = Inr c'"
    using "2.prems" by (auto split: sum.splits)
  have one: "config_wf c1 \<and> (\<forall>f. get_field c1 f = get_field c f) \<and>
      (\<forall>key. btm_get (rc_extensions c) key \<noteq> None \<or> canonical_config_key key \<in> set typed_field_keys \<longrightarrow>
        btm_get (rc_extensions c1) key = btm_get (rc_extensions c) key)"
    using c1(1) by (rule seed_key_Inr) (use "2.prems"(2) in auto)
  show ?case using "2.IH" [OF c1] one by auto
qed simp

section \<open>Laws of a whole resolution\<close>

lemma fold_run_value_typed:
  assumes "fold run_value kvs (Inr c) = Inr c'" and "target_field key \<noteq> None"
  shows "btm_get (rc_extensions c') key = btm_get (rc_extensions c) key"
  using assms(1)
proof (induction kvs arbitrary: c' rule: rev_induct)
  case (snoc kv kvs)
  obtain c1 where c1: "fold run_value kvs (Inr c) = Inr c1" "apply_value c1 (fst kv) (snd kv) = Inr c'"
    using snoc.prems by (rule fold_run_value_snoc)
  then show ?case using snoc.IH [OF c1(1)] apply_value_Inr(2) [OF c1(2), of key] assms(2) by auto
qed simp

lemma default_config_wf: "config_wf resolved_config_default"
  using default_config_ok by (simp add: config_wf_def resolved_config_default_def)

lemma resolve_stages:
  assumes "resolve_scope_stack quote reg sc target ctx = Inr rc"
  obtains c c' where "apply_deltas reg (scope_stack sc target) resolved_config_default = Inr c"
    and "fold run_value (authored_statements (scope_stack sc target)) (Inr resolved_config_default) = Inr c"
    and "config_wf c" and "seed_keys quote reg reg c = Inr c'" and "config_wf c'"
    and "expand_automatic_values reg c' ctx (rt_tool_index target) = Inr rc"
proof -
  obtain c c' where c: "apply_deltas reg (scope_stack sc target) resolved_config_default = Inr c"
    "seed_keys quote reg reg c = Inr c'" "expand_automatic_values reg c' ctx (rt_tool_index target) = Inr rc"
    using assms by (auto simp: resolve_scope_stack_def seed_registry_defaults_def map_sum_def split: sum.splits)
  note run = conjunct1 [OF apply_deltas_Inr [OF c(1)]]
  have "config_wf c" using fold_run_value [OF run] default_config_wf by blast
  then show thesis using that c run seed_keys_Inr [OF c(2)] by blast
qed

lemma target_field_typed_key: "target_field key \<noteq> None \<Longrightarrow> canonical_config_key key \<in> set typed_field_keys"
proof -
  assume t: "target_field key \<noteq> None"
  have "key \<in> set typed_field_keys"
  proof (cases "cli_row key")
    case (Some r)
    then show ?thesis
      using cli_row_Some [OF Some] by (cases r) (force simp: typed_field_keys_def row_key_def is_plain_def)+
  next
    case None
    then show ?thesis using t by (auto simp: target_field_def typed_field_keys_def split: if_splits)
  qed
  moreover have "map_of CONFIG_KEY_ALIASES key = None" if "key \<in> set typed_field_keys"
    using that by (auto simp: CONFIG_KEY_ALIASES_def typed_field_keys_def row_key_def RESOLVED_CONFIG_ROWS_def
        GEOMETRY_ROWS_def PATH_SUPPORT_ROWS_def MODULE_MACHINE_ROWS_def)
  ultimately show ?thesis by (simp add: canonical_config_key_def)
qed

text \<open>The effective value a statement gives its key.\<close>

definition effective_statement :: "string \<Rightarrow> config_value \<Rightarrow> config_value option" where
  "effective_statement key v =
     (case target_field key of None \<Rightarrow> Some v | Some _ \<Rightarrow> to_config_value (written_value key v))"

lemma find_unique: "distinct (map f xs) \<Longrightarrow> x \<in> set xs \<Longrightarrow> find (\<lambda>y. f y = f x) xs = Some x"
  by (induction xs) (auto simp: image_iff)

lemma find_last_target:
  assumes "r \<in> set RESOLVED_CONFIG_ROWS" and "target_field key = Some (row_field r)"
    and "key \<noteq> ''wall_count''" "key \<noteq> ''wall_loops''"
  shows "find (\<lambda>(k, _). target_field k = Some (row_field r)) kvs = map_option (Pair key) (map_of kvs key)"
proof -
  have rk: "row_key r = key" using target_of_row [OF assms(2,1)] assms(4) by blast
  have "target_field k = Some (row_field r) \<longleftrightarrow> k = key" for k
  proof
    assume "target_field k = Some (row_field r)"
    then show "k = key" using target_of_row [OF _ assms(1)] rk assms(3) by blast
  qed (use assms(2) in simp)
  then show ?thesis by (induction kvs) (simp_all add: case_prod_unfold prod_eq_iff)
qed

lemma applied_effective:
  assumes run: "fold run_value kvs (Inr resolved_config_default) = Inr c" and wf: "config_wf c"
    and key: "key \<noteq> ''wall_count''" "key \<noteq> ''wall_loops''"
    and last: "map_of (rev kvs) key = Some v" and x: "effective_statement key v = Some x"
  shows "btm_get (to_config_map c) key = Some x"
    and "target_field key = None \<Longrightarrow> btm_get (rc_extensions c) key = Some x"
proof -
  have ext0: "rc_extensions resolved_config_default = []" by (simp add: resolved_config_default_def)
  show untyped: "btm_get (rc_extensions c) key = Some x" if "target_field key = None"
    using fold_run_value [OF run, of _ key] that last x by (auto simp: effective_statement_def)
  show "btm_get (to_config_map c) key = Some x"
  proof (cases "target_field key")
    case None
    then show ?thesis using untyped by (simp add: effective_get [OF wf])
  next
    case (Some f)
    then obtain r where r: "cli_row key = Some r" "f = row_field r"
      using key(2) by (auto simp: target_field_def split: option.splits if_splits)
    note row = cli_row_Some [OF r(1)]
    have "row_key r = key" using row by (cases r) (auto simp: row_key_def is_plain_def)
    then have find: "find (\<lambda>r. row_key r = key) RESOLVED_CONFIG_ROWS = Some r"
      using find_unique [OF rows_distinct(2) conjunct1 [OF row]] by simp
    have "get_field c (row_field r) = written_value key v"
      using conjunct1 [OF fold_run_value [OF run, of "row_field r"]] last
        find_last_target [OF conjunct1 [OF row] Some [unfolded r(2)] key, of "rev kvs"] by simp
    moreover have "btm_get (rc_extensions c) key = None"
      using fold_run_value_typed [OF run, of key] Some by (simp add: ext0)
    ultimately show ?thesis
      using x Some by (simp add: effective_get [OF wf] find effective_statement_def)
  qed
qed

end
