(* ===== verification/Resolution.thy ===== *)
theory Resolution
  imports ConfigResolve
begin

text \<open>
  The properties of a whole resolution: precedence of the scopes, eligibility, and expansion, with a
  sufficient condition under which expansion succeeds and a concrete resolution that meets it.
\<close>

section \<open>A sufficient condition for expansion\<close>

text \<open>Expansion of a config without tool bases, whose relative values have plain positive bases: every
  key has a closed form.\<close>

definition simple_relative :: "resolver \<Rightarrow> string \<Rightarrow> config_value \<Rightarrow> u64 \<Rightarrow> u64 \<Rightarrow> bool" where
  "simple_relative rs key v p x \<longleftrightarrow>
     percent_magnitude v = Some p \<and> auto_base key v = None \<and>
     (\<exists>b vb. base_of (ex_registry rs) key = Some b \<and> b \<noteq> key \<and> btm_get (ex_source rs) b = Some vb \<and>
        \<not> needs_expansion (ex_registry rs) b vb \<and> base_number vb = Some x \<and> f64_is_finite x \<and> f64_lt 0 x)"

definition simple_expansion :: "resolver \<Rightarrow> string \<Rightarrow> config_value \<Rightarrow> config_value \<Rightarrow> bool" where
  "simple_expansion rs key v r \<longleftrightarrow>
     (\<not> needs_expansion (ex_registry rs) key v \<and> r = v) \<or>
     (key = ''line_width'' \<and> is_plain_zero v \<and> r = CvFloat (f64_mul f64_nine_eighths (ec_nozzle_diameter_mm (ex_context rs)))) \<or>
     (key = ''support_line_width'' \<and> is_plain_zero v \<and> r = CvFloat (ec_nozzle_diameter_mm (ex_context rs))) \<or>
     (\<exists>p x. simple_relative rs key v p x \<and> r = absolute_like v (f64_mul (f64_div p f64_hundred) x))"

definition simple_resolver :: "resolver \<Rightarrow> bool" where
  "simple_resolver rs \<longleftrightarrow>
     ex_tool_index rs = None \<and> btm_get (ex_source rs) ''nozzle_diameter'' = None \<and>
     f64_is_finite (ec_nozzle_diameter_mm (ex_context rs)) \<and> f64_lt 0 (ec_nozzle_diameter_mm (ex_context rs)) \<and>
     (\<forall>k v. btm_get (ex_source rs) k = Some v \<longrightarrow> (\<exists>r. simple_expansion rs k v r))"

definition simply_expanded :: "resolver \<Rightarrow> bool" where
  "simply_expanded rs \<longleftrightarrow>
     (\<forall>k r. btm_get (ex_expanded rs) k = Some r \<longrightarrow>
        (\<exists>v. btm_get (ex_source rs) k = Some v \<and> simple_expansion rs k v r))"

lemma zero_not_relative: "is_plain_zero v \<Longrightarrow> percent_magnitude v = None"
  by (cases v) (auto simp: is_plain_zero_def percent_magnitude_def)

lemma plain_expand_key:
  assumes "btm_get (ex_expanded rs) key = None" and "btm_get (ex_source rs) key = Some v"
    and "key \<notin> set (ex_visiting rs)" and "\<not> needs_expansion (ex_registry rs) key v"
  shows "expand_key key rs = Inr (Some v, end_key key v (begin_key key rs))"
proof -
  have "relative_base (begin_key key rs) key v = None" and "auto_base key v = None"
    and "\<not> (key = ''line_width'' \<and> is_plain_zero v)" and "\<not> (key = ''support_line_width'' \<and> is_plain_zero v)"
    using assms(4) by (auto simp: needs_expansion_def relative_base_def bind_eq_None_conv)
  then show ?thesis using assms(1-3) by (subst expand_key.simps) (auto simp: Let_def)
qed

lemma simple_expansion_cong:
  assumes "ex_registry rs' = ex_registry rs" and "ex_source rs' = ex_source rs" and "ex_context rs' = ex_context rs"
  shows "simple_expansion rs' k v r = simple_expansion rs k v r"
  using assms by (simp add: simple_expansion_def simple_relative_def)

definition same_inputs :: "resolver \<Rightarrow> resolver \<Rightarrow> bool" where
  "same_inputs rs rs' \<longleftrightarrow> ex_registry rs' = ex_registry rs \<and> ex_source rs' = ex_source rs \<and>
     ex_context rs' = ex_context rs \<and> ex_tool_index rs' = ex_tool_index rs"

lemma close_key:
  assumes "simply_expanded rs" and "same_inputs rs0 rs" and "btm_get (ex_source rs0) key = Some v"
    and "simple_expansion rs0 key v r"
  shows "simply_expanded (end_key key r rs)" and "same_inputs rs0 (end_key key r rs)"
proof -
  have cong: "simple_expansion (end_key key r rs) k v r' = simple_expansion rs k v r'"
    "simple_expansion rs k v r' = simple_expansion rs0 k v r'" for k v r'
    using assms(2) by (intro simple_expansion_cong; simp add: same_inputs_def end_key_def)+
  show "simply_expanded (end_key key r rs)"
    unfolding simply_expanded_def cong(1)
  proof (intro allI impI)
    fix k r'
    assume get: "btm_get (ex_expanded (end_key key r rs)) k = Some r'"
    show "\<exists>v. btm_get (ex_source (end_key key r rs)) k = Some v \<and> simple_expansion rs k v r'"
    proof (cases "k = key")
      case True
      then show ?thesis using get assms(2,3,4) cong(2) by (simp add: end_key_def same_inputs_def)
    next
      case False
      then show ?thesis using get assms(1) by (simp add: end_key_def simply_expanded_def)
    qed
  qed
  show "same_inputs rs0 (end_key key r rs)"
    using assms(2) by (simp add: same_inputs_def end_key_def)
qed

lemma open_key: "simply_expanded rs \<Longrightarrow> simply_expanded (begin_key key rs)" "same_inputs rs (begin_key key rs)"
  by (simp_all add: simply_expanded_def same_inputs_def simple_expansion_cong [of "begin_key key rs" rs])

lemma same_inputs_trans: "same_inputs a b \<Longrightarrow> same_inputs b c \<Longrightarrow> same_inputs a c"
  by (simp add: same_inputs_def)

lemma plain_expansion_unique:
  "simple_expansion rs b vb r \<Longrightarrow> \<not> needs_expansion (ex_registry rs) b vb \<Longrightarrow> r = vb"
  by (auto simp: simple_expansion_def simple_relative_def needs_expansion_def)

lemma simple_base:
  assumes rs: "simply_expanded rs" and tool: "ex_tool_index rs = None"
    and b: "btm_get (ex_source rs) b = Some vb" "\<not> needs_expansion (ex_registry rs) b vb"
    and x: "base_number vb = Some x" "f64_is_finite x" "f64_lt 0 x" and fresh: "b \<notin> set (ex_visiting rs)"
  shows "\<exists>rs2. required_base key b rs = Inr (x, rs2) \<and> simply_expanded rs2 \<and> same_inputs rs rs2"
proof -
  have plain: "simple_expansion rs b vb vb" using b(2) by (simp add: simple_expansion_def)
  have "\<exists>rs2. expand_key b rs = Inr (Some vb, rs2) \<and> simply_expanded rs2 \<and> same_inputs rs rs2"
  proof (cases "btm_get (ex_expanded rs) b")
    case None
    then have "expand_key b rs = Inr (Some vb, end_key b vb (begin_key b rs))"
      using b fresh by (rule_tac plain_expand_key)
    then show ?thesis using close_key [OF open_key(1) [OF rs] open_key(2) b(1) plain] by blast
  next
    case (Some r)
    then have "r = vb" using rs b plain_expansion_unique by (fastforce simp: simply_expanded_def)
    then show ?thesis using Some rs by (subst expand_key.simps) (simp add: same_inputs_def)
  qed
  then show ?thesis
    using tool x by (subst required_base.simps) (auto simp: tool_base_def validate_base_def)
qed

lemma nozzle_base:
  assumes "simple_resolver rs" and "simply_expanded rs" and "same_inputs rs rs'" and "ex_expanded rs' = ex_expanded rs"
  shows "required_base key ''nozzle_diameter'' rs' = Inr (ec_nozzle_diameter_mm (ex_context rs), rs')"
proof -
  have "btm_get (ex_expanded rs') ''nozzle_diameter'' = None"
    using assms by (cases "btm_get (ex_expanded rs') ''nozzle_diameter''") (fastforce simp: simple_resolver_def simply_expanded_def)+
  then have "expand_key ''nozzle_diameter'' rs' = Inr (None, rs')"
    using assms by (subst expand_key.simps) (simp add: simple_resolver_def same_inputs_def)
  then show ?thesis
    using assms by (subst required_base.simps) (simp add: tool_base_def simple_resolver_def validate_base_def same_inputs_def)
qed

lemma simple_expand_key:
  assumes rs: "simple_resolver rs" "simply_expanded rs" and top: "ex_visiting rs = []"
  shows "\<exists>o' rs'. expand_key key rs = Inr (o', rs') \<and> simply_expanded rs' \<and> same_inputs rs rs'"
proof (cases "btm_get (ex_expanded rs) key")
  case (Some r)
  then show ?thesis using rs(2) by (subst expand_key.simps) (simp add: same_inputs_def)
next
  case new: None
  show ?thesis
  proof (cases "btm_get (ex_source rs) key")
    case None
    then show ?thesis using rs(2) new by (subst expand_key.simps) (simp add: same_inputs_def)
  next
    case src: (Some v)
    let ?rs1 = "begin_key key rs"
    obtain r where "simple_expansion rs key v r" using rs(1) src by (auto simp: simple_resolver_def)
    note close = close_key [OF _ _ src this]
    note start = open_key(1) [OF rs(2), of key] open_key(2) [of rs key]
    consider (plain) "\<not> needs_expansion (ex_registry rs) key v" "r = v"
      | (lw) "key = ''line_width''" "is_plain_zero v"
          "r = CvFloat (f64_mul f64_nine_eighths (ec_nozzle_diameter_mm (ex_context rs)))"
      | (slw) "key = ''support_line_width''" "is_plain_zero v" "r = CvFloat (ec_nozzle_diameter_mm (ex_context rs))"
      | (rel) p x where "simple_relative rs key v p x" "r = absolute_like v (f64_mul (f64_div p f64_hundred) x)"
      using \<open>simple_expansion rs key v r\<close> by (auto simp: simple_expansion_def)
    then show ?thesis
    proof cases
      case plain
      have "expand_key key rs = Inr (Some v, end_key key v ?rs1)"
        using new src plain(1) by (intro plain_expand_key) (simp_all add: top)
      then show ?thesis using close [OF start] plain(2) by blast
    next
      case lw
      have "required_base key ''nozzle_diameter'' ?rs1 = Inr (ec_nozzle_diameter_mm (ex_context rs), ?rs1)"
        using start by (intro nozzle_base [OF rs]) simp_all
      then have "expand_key key rs = Inr (Some r, end_key key r ?rs1)"
        using new src lw top by (subst expand_key.simps) (simp add: Let_def)
      then show ?thesis using close [OF start] by blast
    next
      case slw
      have "required_base key ''nozzle_diameter'' ?rs1 = Inr (ec_nozzle_diameter_mm (ex_context rs), ?rs1)"
        using start by (intro nozzle_base [OF rs]) simp_all
      then have "expand_key key rs = Inr (Some r, end_key key r ?rs1)"
        using new src slw top by (subst expand_key.simps) (simp add: Let_def)
      then show ?thesis using close [OF start] by blast
    next
      case rel
      then obtain b vb where b: "percent_magnitude v = Some p" "auto_base key v = None"
        "base_of (ex_registry rs) key = Some b" "b \<noteq> key" "btm_get (ex_source rs) b = Some vb"
        "\<not> needs_expansion (ex_registry rs) b vb" "base_number vb = Some x" "f64_is_finite x" "f64_lt 0 x"
        by (auto simp: simple_relative_def)
      have zero: "\<not> is_plain_zero v" using zero_not_relative b(1) by fastforce
      have tool: "ex_tool_index ?rs1 = None" using rs(1) by (simp add: simple_resolver_def)
      obtain rs2 where rs2: "required_base key b ?rs1 = Inr (x, rs2)" "simply_expanded rs2" "same_inputs ?rs1 rs2"
        using simple_base [OF start(1) tool, of b vb x key] b top by auto
      have "relative_base ?rs1 key v = Some (p, b)" using b by (simp add: relative_base_def)
      then have "expand_key key rs = Inr (Some r, end_key key r rs2)"
        using new src zero top b(2) rs2(1) rel(2) by (subst expand_key.simps) (simp add: Let_def)
      then show ?thesis using close [OF rs2(2) same_inputs_trans [OF start(2) rs2(3)]] by blast
    qed
  qed
qed

lemma simple_expand_keys:
  assumes "simple_resolver rs" and "simply_expanded rs" and "ex_visiting rs = []"
  shows "\<exists>rs'. expand_keys ks rs = Inr rs' \<and> simply_expanded rs' \<and> same_inputs rs rs'"
  using assms
proof (induction ks arbitrary: rs)
  case (Cons k ks)
  obtain o' rs1 where r: "expand_key k rs = Inr (o', rs1)" "simply_expanded rs1" "same_inputs rs rs1"
    using simple_expand_key [OF Cons.prems] by blast
  have "ex_visiting rs1 = []"
    using expand_extends(1) [of k rs o' rs1] r(1) Cons.prems(3) by (simp add: resolver_extends_def)
  moreover have "simple_resolver rs1"
    using Cons.prems(1) r(3) simple_expansion_cong [of rs1 rs] by (simp add: simple_resolver_def same_inputs_def)
  ultimately obtain rs' where "expand_keys ks rs1 = Inr rs'" "simply_expanded rs'" "same_inputs rs1 rs'"
    using Cons.IH r(2) by blast
  then show ?case using r same_inputs_trans by auto
qed (auto simp: same_inputs_def)

lemma fold_write_expanded_extension:
  assumes wf: "config_wf rc" and dist: "distinct (map fst kvs)" and mem: "(key, r) \<in> set kvs"
    and ext: "btm_get (rc_extensions rc) key \<noteq> None" and ne: "btm_get source key \<noteq> Some r"
  shows "btm_get (rc_extensions (fold (write_expanded source) kvs rc)) key = Some r"
proof -
  have other: "btm_get (rc_extensions (fold (write_expanded source) xs c)) key = btm_get (rc_extensions c) key"
    if "config_wf c" "key \<notin> fst ` set xs" for xs c
    using that
  proof (induction xs arbitrary: c)
    case (Cons kv xs)
    have "config_wf (write_expanded source kv c)"
      and "btm_get (rc_extensions (write_expanded source kv c)) key = btm_get (rc_extensions c) key"
      using write_expanded_frame(1) [OF Cons.prems(1), of source "fst kv" "snd kv"] Cons.prems(2)
        write_expanded_frame(2) [OF Cons.prems(1), of key "fst kv" source "snd kv"] by auto
    then show ?case using Cons by simp
  qed simp
  obtain xs ys where kvs: "kvs = xs @ (key, r) # ys" using mem by (meson split_list)
  have notin: "key \<notin> fst ` set xs" "key \<notin> fst ` set ys" using dist by (auto simp: kvs)
  let ?c = "fold (write_expanded source) xs rc"
  have wfc: "config_wf ?c" by (rule fold_write_expanded_wf [OF wf])
  have "btm_get (rc_extensions ?c) key \<noteq> None" using other [OF wf notin(1)] ext by simp
  then have "btm_get (rc_extensions (write_expanded source (key, r) ?c)) key = Some r"
    using ne by (simp add: write_expanded_def)
  then show ?thesis using other [OF write_expanded_frame(1) [OF wfc] notin(2)] by (simp add: kvs)
qed

section \<open>A concrete resolution\<close>

text \<open>A base key \<open>a_base\<close> stated globally and for an object, and a key \<open>b_width\<close> of at most 1.0 stated
  globally as 50 percent of it.\<close>

definition sample_entry :: "string \<Rightarrow> string \<Rightarrow> u64 option \<Rightarrow> string option \<Rightarrow> registry_entry" where
  "sample_entry key ft mx base =
     \<lparr>re_key = key, re_type = ft, re_default = None, re_min = Some 0, re_max = mx, re_values = None,
      re_denied_scopes = [], re_selector = False, re_omit = False, re_base_key = base, re_host_meta = None,
      re_module_meta = None, re_provenance = []\<rparr>"

definition relative_registry :: registry where
  "relative_registry =
     [(''a_base'', sample_entry ''a_base'' ''float'' None None),
      (''b_width'', sample_entry ''b_width'' ''float_or_percent'' (Some 0x3FF0000000000000) (Some ''a_base''))]"

definition sample_scoped :: scoped_config where
  "sample_scoped =
     \<lparr>sc_deltas =
        [(Global, [(''a_base'', CvFloat 0x4000000000000000), (''b_width'', CvFloatOrPercent 0x4049000000000000 True)]),
         (Object ''o'', [(''a_base'', CvFloat 0x4010000000000000)])],
      sc_layer_ranges = []\<rparr>"

definition sample_target :: resolution_target where
  "sample_target = \<lparr>rt_object_id = ''o'', rt_modifier_ids = [], rt_paint_semantics = [], rt_tool_index = None, rt_layer_top_z = None\<rparr>"

definition sample_context :: expansion_context where
  "sample_context = \<lparr>ec_nozzle_diameter_mm = 0x3FD999999999999A, ec_tool_bases = []\<rparr>"

definition sample_merged :: resolved_config where
  "sample_merged = resolved_config_default\<lparr>rc_extensions :=
     [(''a_base'', CvFloat 0x4010000000000000), (''b_width'', CvFloatOrPercent 0x4049000000000000 True)]\<rparr>"

lemma sample_stack:
  "scope_stack sample_scoped sample_target =
     [(Global, Some [(''a_base'', CvFloat 0x4000000000000000), (''b_width'', CvFloatOrPercent 0x4049000000000000 True)]),
      (Object ''o'', Some [(''a_base'', CvFloat 0x4010000000000000)])]"
  by code_simp

lemma sample_rows: "cli_row ''a_base'' = None" "cli_row ''b_width'' = None"
  by (simp_all add: cli_row_def find_None_iff is_plain_def RESOLVED_CONFIG_ROWS_def GEOMETRY_ROWS_def
      PATH_SUPPORT_ROWS_def MODULE_MACHINE_ROWS_def)

lemma sample_checks:
  "alias_conflict [(''a_base'', CvFloat 0x4000000000000000), (''b_width'', CvFloatOrPercent 0x4049000000000000 True)] = None"
  "alias_conflict [(''a_base'', CvFloat 0x4010000000000000)] = None"
  "set (admission_set relative_registry Global) = {''a_base'', ''b_width''}"
  "set (admission_set relative_registry (Object ''o'')) = {''a_base'', ''b_width''}"
  "validate_extension relative_registry ''a_base'' (CvFloat 0x4000000000000000) = Inr ()"
  "validate_extension relative_registry ''a_base'' (CvFloat 0x4010000000000000) = Inr ()"
  "validate_extension relative_registry ''b_width'' (CvFloatOrPercent 0x4049000000000000 True) = Inr ()"
  "canonical_config_key ''a_base'' = ''a_base''" "canonical_config_key ''b_width'' = ''b_width''"
  by (simp_all add: alias_conflict_def CONFIG_KEY_ALIASES_def canonical_config_key_def btm_get_def) code_simp+

lemma default_extensions: "rc_extensions resolved_config_default = []"
  by (simp add: resolved_config_default_def)

lemma sample_applied: "apply_deltas relative_registry (scope_stack sample_scoped sample_target) resolved_config_default = Inr sample_merged"
  unfolding sample_stack
  by (simp add: apply_delta_def sample_checks btm_keys_def apply_value_def apply_cli_key_def sample_rows
      sample_merged_def default_extensions)

lemma sample_seeded: "seed_registry_defaults quote relative_registry c = Inr c"
  by (simp add: seed_registry_defaults_def relative_registry_def seed_key_def sample_entry_def)

lemma sample_base_of: "base_of relative_registry k = (if k = ''b_width'' then Some ''a_base'' else None)"
  by (simp add: base_of_def relative_registry_def btm_get_def sample_entry_def)

lemma sample_merged_wf: "config_wf sample_merged"
  using default_config_wf by (simp add: config_wf_def sample_merged_def resolved_config_ok_def get_field_def btm_wf_def)

lemma rows_ordinary:
  "list_all (\<lambda>r. row_key r \<notin> {''b_width'', ''nozzle_diameter'', ''support_interface_bottom_layers'',
     ''support_bottom_interface_spacing''}) RESOLVED_CONFIG_ROWS"
  by (simp add: RESOLVED_CONFIG_ROWS_def GEOMETRY_ROWS_def PATH_SUPPORT_ROWS_def MODULE_MACHINE_ROWS_def row_key_def)

definition sample_resolver :: resolver where
  "sample_resolver = \<lparr>ex_registry = relative_registry, ex_source = to_config_map sample_merged,
     ex_context = sample_context, ex_tool_index = None, ex_expanded = [], ex_visiting = []\<rparr>"

lemma sample_source:
  "btm_get (to_config_map sample_merged) key =
     (if key = ''a_base'' then Some (CvFloat 0x4010000000000000)
      else if key = ''b_width'' then Some (CvFloatOrPercent 0x4049000000000000 True)
      else case find (\<lambda>r. row_key r = key) RESOLVED_CONFIG_ROWS of
             None \<Rightarrow> None | Some r \<Rightarrow> to_config_value (get_field sample_merged (row_field r)))"
  using effective_get [OF sample_merged_wf, of key] by (simp add: sample_merged_def btm_get_def)

lemma row_key_ordinary:
  assumes "find (\<lambda>r. row_key r = key) RESOLVED_CONFIG_ROWS = Some r"
  shows "auto_base key v = None" and "key \<noteq> ''b_width''" and "key \<noteq> ''nozzle_diameter''"
  using rows_ordinary row_of_key [OF assms]
  by (auto simp: list_all_iff auto_base_def BOTTOM_AUTO_BASES_def)

lemma nozzle_positive: "f64_is_finite (ec_nozzle_diameter_mm sample_context)" "f64_lt 0 (ec_nozzle_diameter_mm sample_context)"
  by code_simp+

lemma sample_b_width:
  "simple_relative sample_resolver ''b_width'' (CvFloatOrPercent 0x4049000000000000 True) 0x4049000000000000 0x4010000000000000"
proof -
  have "f64_is_finite 0x4010000000000000" "f64_lt 0 0x4010000000000000" by code_simp+
  moreover have "auto_base ''a_base'' v = None" "auto_base ''b_width'' v = None" for v
    by (simp_all add: auto_base_def BOTTOM_AUTO_BASES_def)
  ultimately show ?thesis
    by (simp add: simple_relative_def sample_resolver_def sample_base_of sample_source needs_expansion_def
        percent_magnitude_def base_number_def absolute_number_def)
qed

lemma sample_simple: "simple_resolver sample_resolver"
proof -
  have "\<exists>r. simple_expansion sample_resolver k v r" if get: "btm_get (to_config_map sample_merged) k = Some v" for k v
  proof (cases "k = ''b_width''")
    case True
    then have "v = CvFloatOrPercent 0x4049000000000000 True" using get by (simp add: sample_source)
    then show ?thesis using sample_b_width True by (auto simp: simple_expansion_def)
  next
    case False
    have "auto_base k v = None"
    proof (cases "k = ''a_base''")
      case True
      then show ?thesis by (simp add: auto_base_def BOTTOM_AUTO_BASES_def)
    next
      case no: False
      then show ?thesis using get False row_key_ordinary(1) by (auto simp: sample_source split: option.splits)
    qed
    then have "needs_expansion relative_registry k v \<longleftrightarrow> k \<in> {''line_width'', ''support_line_width''} \<and> is_plain_zero v"
      using False by (auto simp: needs_expansion_def sample_base_of)
    then show ?thesis by (auto simp: simple_expansion_def sample_resolver_def)
  qed
  moreover have "btm_get (to_config_map sample_merged) ''nozzle_diameter'' = None"
    using row_key_ordinary(3) [of "''nozzle_diameter''"] by (auto simp: sample_source split: option.splits)
  ultimately show ?thesis
    using nozzle_positive by (simp add: simple_resolver_def sample_resolver_def)
qed

lemma sample_resolved:
  obtains rc where "resolve_scope_stack quote relative_registry sample_scoped sample_target sample_context = Inr rc"
    and "btm_get (to_config_map rc) ''b_width'' = Some (CvFloatOrPercent 0x4000000000000000 False)"
proof -
  have "simply_expanded sample_resolver" by (simp add: simply_expanded_def sample_resolver_def)
  then obtain rs' where rs': "expand_keys (btm_keys (to_config_map sample_merged)) sample_resolver = Inr rs'"
    "simply_expanded rs'" "same_inputs sample_resolver rs'"
    using simple_expand_keys [OF sample_simple] by (auto simp: sample_resolver_def)
  define rc where "rc = fold (write_expanded (to_config_map sample_merged)) (ex_expanded rs') sample_merged"
  have run: "expand_automatic_values relative_registry sample_merged sample_context None = Inr rc"
    using rs'(1) by (simp add: expand_automatic_values_def sample_resolver_def Let_def rc_def)
  have tool: "rt_tool_index sample_target = None" by (simp add: sample_target_def)
  have res: "resolve_scope_stack quote relative_registry sample_scoped sample_target sample_context = Inr rc"
    using run tool by (simp add: resolve_scope_stack_def sample_applied sample_seeded)
  have ok: "resolver_ok rs'" and all: "btm_get (ex_expanded rs') ''b_width'' \<noteq> None"
    using expand_keys_Inr [OF rs'(1)]
    by (auto simp: resolver_extends_def sample_resolver_def resolver_ok_def btm_keys_set sample_source)
  obtain r where r: "btm_get (ex_expanded rs') ''b_width'' = Some r" using all by auto
  obtain v where v: "btm_get (ex_source rs') ''b_width'' = Some v" "simple_expansion rs' ''b_width'' v r"
    using rs'(2) r unfolding simply_expanded_def by blast
  have "ex_source rs' = to_config_map sample_merged"
    using rs'(3) by (simp add: same_inputs_def sample_resolver_def)
  then have "v = CvFloatOrPercent 0x4049000000000000 True" using v(1) by (simp add: sample_source)
  moreover have "simple_expansion sample_resolver ''b_width'' v r"
    using v(2) rs'(3) simple_expansion_cong [of rs' sample_resolver] by (simp add: same_inputs_def)
  ultimately have "r = absolute_like (CvFloatOrPercent 0x4049000000000000 True)
      (f64_mul (f64_div 0x4049000000000000 f64_hundred) 0x4010000000000000)"
    using sample_b_width
    by (auto simp: simple_expansion_def simple_relative_def needs_expansion_def sample_resolver_def)
  also have "\<dots> = CvFloatOrPercent 0x4000000000000000 False" by code_simp
  finally have rv: "r = CvFloatOrPercent 0x4000000000000000 False" .
  have wfx: "btm_wf (ex_expanded rs')" using ok by (simp add: resolver_ok_def)
  have "btm_get (rc_extensions rc) ''b_width'' = Some r"
    unfolding rc_def
  proof (rule fold_write_expanded_extension [OF sample_merged_wf])
    show "distinct (map fst (ex_expanded rs'))" using btm_wf_distinct [OF wfx] by (simp add: btm_keys_def)
    show "(''b_width'', r) \<in> set (ex_expanded rs')" using r by (simp add: btm_get_Some_iff [OF wfx])
    show "btm_get (rc_extensions sample_merged) ''b_width'' \<noteq> None" by (simp add: sample_merged_def btm_get_def)
    show "btm_get (to_config_map sample_merged) ''b_width'' \<noteq> Some r" by (simp add: sample_source rv)
  qed
  moreover have "config_wf rc" unfolding rc_def by (rule fold_write_expanded_wf [OF sample_merged_wf])
  ultimately have "btm_get (to_config_map rc) ''b_width'' = Some (CvFloatOrPercent 0x4000000000000000 False)"
    using rv by (simp add: effective_get)
  then show thesis using that res by blast
qed

text \<open>The resolution of the sample, whatever the quoting of diagnostics.\<close>

definition sample_result :: resolved_config where
  "sample_result = projr (resolve_scope_stack (\<lambda>s. s) relative_registry sample_scoped sample_target sample_context)"

lemma sample_result:
  "resolve_scope_stack (\<lambda>s. s) relative_registry sample_scoped sample_target sample_context = Inr sample_result"
  "btm_get (to_config_map sample_result) ''b_width'' = Some (CvFloatOrPercent 0x4000000000000000 False)"
proof -
  obtain rc where rc: "resolve_scope_stack (\<lambda>s. s) relative_registry sample_scoped sample_target sample_context = Inr rc"
    "btm_get (to_config_map rc) ''b_width'' = Some (CvFloatOrPercent 0x4000000000000000 False)"
    by (rule sample_resolved)
  then show "resolve_scope_stack (\<lambda>s. s) relative_registry sample_scoped sample_target sample_context = Inr sample_result"
    and "btm_get (to_config_map sample_result) ''b_width'' = Some (CvFloatOrPercent 0x4000000000000000 False)"
    by (simp_all add: sample_result_def)
qed

section \<open>Properties\<close>

text \<open>C6: in a successful resolution the last scope that states a key decides it: where the last
  statement of a key along global, object, covering layer ranges, modifiers, paint semantics and tool
  has the effective value \<open>x\<close>, and \<open>x\<close> is neither relative nor an automatic sentinel, the resolved
  config has the effective value \<open>x\<close> for the key.  (\<^verbatim>\<open>wall_count\<close> and its alias
  \<^verbatim>\<open>wall_loops\<close> write one field.)\<close>

theorem last_scope_wins:
  assumes "resolve_scope_stack quote reg sc target ctx = Inr rc"
    and "map_of (rev (authored_statements (scope_stack sc target))) key = Some v"
    and "effective_statement key v = Some x" and "\<not> needs_expansion reg key x"
    and "key \<notin> {''wall_count'', ''wall_loops''}"
  shows "btm_get (to_config_map rc) key = Some x"
proof -
  obtain c c' where c: "fold run_value (authored_statements (scope_stack sc target)) (Inr resolved_config_default) = Inr c"
      "config_wf c" "seed_keys quote reg reg c = Inr c'" "config_wf c'"
      "expand_automatic_values reg c' ctx (rt_tool_index target) = Inr rc"
    using assms(1) by (rule resolve_stages)
  have key: "key \<noteq> ''wall_count''" "key \<noteq> ''wall_loops''" using assms(5) by auto
  note app = applied_effective [OF c(1,2) key assms(2,3)]
  have ext: "btm_get (rc_extensions c') key = btm_get (rc_extensions c) key"
    using seed_keys_Inr [OF c(3,2)] app(2) target_field_typed_key [of key] by (cases "target_field key") auto
  have fields: "get_field c' f = get_field c f" for f using seed_keys_Inr [OF c(3,2)] by blast
  have "btm_get (to_config_map c') key = Some x"
    using app(1) unfolding effective_get [OF c(4)] effective_get [OF c(2)] ext fields .
  then show ?thesis by (rule expansion_keeps [OF c(4,5) _ assms(4) key(1)])
qed

theorem last_scope_wins_witness:
  "btm_get (to_config_map sample_result) ''a_base'' = Some (CvFloat 0x4010000000000000)"
proof (rule last_scope_wins [OF sample_result(1)])
  show "map_of (rev (authored_statements (scope_stack sample_scoped sample_target))) ''a_base'' = Some (CvFloat 0x4010000000000000)"
    unfolding sample_stack by (simp add: authored_statements_def sample_checks)
  show "effective_statement ''a_base'' (CvFloat 0x4010000000000000) = Some (CvFloat 0x4010000000000000)"
    by (simp add: effective_statement_def target_field_def sample_rows)
  show "\<not> needs_expansion relative_registry ''a_base'' (CvFloat 0x4010000000000000)"
    by (simp add: needs_expansion_def auto_base_def BOTTOM_AUTO_BASES_def percent_magnitude_def)
qed simp

text \<open>C7: a successful resolution applied no key below its eligibility: every key stated by any delta of
  the stack is statable at that delta's scope, and every statement passed the type and bounds check of
  its declaration.\<close>

theorem resolution_respects_eligibility:
  assumes "resolve_scope_stack quote reg sc target ctx = Inr rc"
  shows "list_all (\<lambda>(scope, d). case d of None \<Rightarrow> True
      | Some m \<Rightarrow> list_all (\<lambda>k. canonical_config_key k \<in> set (admission_set reg scope)) (btm_keys m))
      (scope_stack sc target) \<and>
    list_all (\<lambda>(k, v). validate_extension reg k v = Inr ()) (authored_statements (scope_stack sc target))"
  using assms by (rule resolve_stages) (use apply_deltas_Inr in blast)

theorem resolution_respects_eligibility_witness:
  "''b_width'' \<in> set (admission_set relative_registry Global) \<and>
   validate_extension relative_registry ''b_width'' (CvFloatOrPercent 0x4049000000000000 True) = Inr ()"
  using resolution_respects_eligibility [OF sample_result(1)]
  unfolding sample_stack by (simp add: authored_statements_def sample_checks btm_keys_def)

text \<open>C8: after a successful resolution no key with a declared base key is still relative: its effective
  value is absent or not a percentage.  (The two bottom-layer sentinels copy another key's value and
  are not covered.)\<close>

theorem resolution_leaves_no_relative_value:
  assumes "resolve_scope_stack quote reg sc target ctx = Inr rc"
    and "base_of reg key \<noteq> None" and "key \<notin> fst ` set BOTTOM_AUTO_BASES"
  shows "case btm_get (to_config_map rc) key of None \<Rightarrow> True | Some v \<Rightarrow> percent_magnitude v = None"
  using assms(1)
proof (rule resolve_stages)
  fix c c'
  assume "config_wf c'" and "expand_automatic_values reg c' ctx (rt_tool_index target) = Inr rc"
  then show ?thesis using expansion_not_relative assms(2,3) unfolding not_relative_def by blast
qed

theorem resolution_leaves_no_relative_value_witness:
  "case btm_get (to_config_map sample_result) ''b_width'' of None \<Rightarrow> True | Some v \<Rightarrow> percent_magnitude v = None"
  by (rule resolution_leaves_no_relative_value [OF sample_result(1)])
    (simp_all add: sample_base_of BOTTOM_AUTO_BASES_def)

text \<open>C30: the bounds of a declaration do not bind the value of a relative statement: a percentage is
  checked against the minimum only, and its expansion against nothing, so a resolution succeeds with
  an absolute value above the declared maximum.\<close>

theorem expansion_can_exceed_maximum:
  "\<exists>rc x. resolve_scope_stack (\<lambda>s. s) relative_registry sample_scoped sample_target sample_context = Inr rc \<and>
     btm_get (to_config_map rc) ''b_width'' = Some (CvFloatOrPercent x False) \<and>
     (\<exists>e. btm_get relative_registry ''b_width'' = Some e \<and> \<not> within_bounds (re_min e) (re_max e) x)"
proof -
  have "\<exists>e. btm_get relative_registry ''b_width'' = Some e \<and> \<not> within_bounds (re_min e) (re_max e) 0x4000000000000000"
    by (simp add: relative_registry_def btm_get_def sample_entry_def) code_simp
  then show ?thesis using sample_result by blast
qed
end
