(* ===== verification/FloatRounding.thy ===== *)
theory FloatRounding
  imports Floats Complex_Main
begin

text \<open>
  The meaning of the bit-level floats as real numbers.  A finite pattern denotes a real; the key by
  which patterns are compared is strictly monotone in it; and the key of a sum is the monotone rounding
  of the exact sum, which leaves every representable number alone.
\<close>

section \<open>Binary logarithms and half-even rounding\<close>

lemma ilog2_bounds: "1 \<le> n \<Longrightarrow> 0 \<le> ilog2 n \<and> 2 ^ nat (ilog2 n) \<le> n \<and> n < 2 ^ (nat (ilog2 n) + 1)"
proof (induction n rule: ilog2.induct)
  case (1 n)
  show ?case
  proof (cases "n < 2")
    case True
    then show ?thesis using 1(2) by (subst (1 2 3) ilog2.simps) auto
  next
    case False
    then have IH: "0 \<le> ilog2 (n div 2)" "2 ^ nat (ilog2 (n div 2)) \<le> n div 2"
      "n div 2 < 2 ^ (nat (ilog2 (n div 2)) + 1)"
      using 1(1) by auto
    have eq: "ilog2 n = 1 + ilog2 (n div 2)" using False by (subst ilog2.simps) simp
    have "nat (1 + ilog2 (n div 2)) = Suc (nat (ilog2 (n div 2)))" using IH(1) by simp
    moreover have "n = 2 * (n div 2) \<or> n = 2 * (n div 2) + 1" by linarith
    ultimately show ?thesis using IH unfolding eq by simp linarith
  qed
qed

definition ratio :: "int \<Rightarrow> int \<Rightarrow> real" where
  "ratio n d = real_of_int n / real_of_int d"

lemma scaled_less:
  assumes "0 < d"
  shows "n * 2 ^ nat (- k) < d * 2 ^ nat k \<longleftrightarrow> ratio n d < 2 powi k"
proof -
  have "n * 2 ^ nat (- k) < d * 2 ^ nat k \<longleftrightarrow> real_of_int (n * 2 ^ nat (- k)) < real_of_int (d * 2 ^ nat k)"
    by (simp only: of_int_less_iff)
  also have "\<dots> \<longleftrightarrow> ratio n d < 2 powi k"
    using assms by (cases "0 \<le> k") (simp_all add: ratio_def power_int_def field_simps)
  finally show ?thesis .
qed

lemma quotient_log2_bounds:
  assumes "1 \<le> n" and "1 \<le> d"
  shows "2 powi (quotient_log2 n d) \<le> ratio n d" and "ratio n d < 2 powi (quotient_log2 n d + 1)"
proof -
  let ?k = "ilog2 n - ilog2 d"
  have real: "2 powi (ilog2 m) \<le> real_of_int m \<and> real_of_int m < 2 powi (ilog2 m + 1)" if "1 \<le> m" for m
  proof -
    note b = ilog2_bounds [OF that]
    then have "real_of_int (2 ^ nat (ilog2 m)) \<le> real_of_int m" "real_of_int m < real_of_int (2 ^ (nat (ilog2 m) + 1))"
      by (simp_all only: of_int_le_iff of_int_less_iff)
    then show ?thesis using b by (simp add: power_int_def nat_add_distrib)
  qed
  have n: "2 powi (ilog2 n) \<le> real_of_int n" "real_of_int n < 2 powi (ilog2 n + 1)"
    and d: "2 powi (ilog2 d) \<le> real_of_int d" "real_of_int d < 2 powi (ilog2 d + 1)"
    using real [OF assms(1)] real [OF assms(2)] by simp_all
  have dpos: "0 < real_of_int d" using assms(2) by simp
  have "2 powi (ilog2 n) / 2 powi (ilog2 d + 1) \<le> real_of_int n / real_of_int d"
    using n(1) d(2) dpos assms(1) by (intro frac_le) auto
  then have lo: "2 powi (?k - 1) \<le> ratio n d"
    by (simp add: ratio_def power_int_diff power_int_add field_simps)
  have "real_of_int n / real_of_int d < 2 powi (ilog2 n + 1) / 2 powi (ilog2 d)"
    using n(2) d(1) assms by (intro frac_less) auto
  then have hi: "ratio n d < 2 powi (?k + 1)"
    by (simp add: ratio_def power_int_diff power_int_add field_simps)
  have test: "n * 2 ^ nat (- ?k) < d * 2 ^ nat ?k \<longleftrightarrow> ratio n d < 2 powi ?k"
    using assms(2) by (intro scaled_less) simp
  show "2 powi (quotient_log2 n d) \<le> ratio n d" and "ratio n d < 2 powi (quotient_log2 n d + 1)"
    unfolding quotient_log2_def Let_def test using lo hi by (auto simp: algebra_simps)
qed

lemma powi_less_iff: "(2::real) powi i < 2 powi j \<longleftrightarrow> i < j"
  using power_int_strict_increasing [of i j "2::real"] power_int_strict_increasing [of j i "2::real"]
  by (cases i j rule: linorder_cases) auto

lemma powi_le_iff: "(2::real) powi i \<le> 2 powi j \<longleftrightarrow> i \<le> j"
  by (simp add: powi_less_iff flip: not_less)

lemma powi_shift: "2 powi e * 2 powi (int m - e) = (2::real) ^ m" "2 powi (e + 1) * 2 powi (int m - e) = (2::real) ^ (m + 1)"
proof -
  have "(2::real) powi (e + (int m - e)) = 2 ^ m" by simp
  then show one: "2 powi e * 2 powi (int m - e) = (2::real) ^ m" by (subst (asm) power_int_add) simp_all
  show "2 powi (e + 1) * 2 powi (int m - e) = (2::real) ^ (m + 1)" using one by (simp add: power_int_add_1)
qed

lemma binade_unique:
  assumes "2 powi i \<le> x" "x < 2 powi (i + 1)" "2 powi j \<le> x" "x < (2::real) powi (j + 1)"
  shows "i = j"
proof -
  have "(2::real) powi i < 2 powi (j + 1)" "(2::real) powi j < 2 powi (i + 1)" using assms by linarith+
  then show ?thesis unfolding powi_less_iff by linarith
qed

definition round_half_even :: "real \<Rightarrow> int" where
  "round_half_even x =
     (let f = \<lfloor>x\<rfloor>; r = x - real_of_int f
      in if r < 1 / 2 \<or> (r = 1 / 2 \<and> even f) then f else f + 1)"

lemma div_half_even_ratio:
  assumes "0 < d"
  shows "div_half_even n d = round_half_even (ratio n d)"
proof -
  have f: "\<lfloor>ratio n d\<rfloor> = n div d" unfolding ratio_def by (rule floor_divide_of_int_eq)
  have frac: "ratio n d - real_of_int (n div d) = real_of_int (n mod d) / real_of_int d"
    using assms by (simp add: ratio_def field_simps flip: of_int_mult of_int_add)
  have r: "ratio n d - real_of_int (n div d) < 1 / 2 \<longleftrightarrow> 2 * (n mod d) < d"
    "ratio n d - real_of_int (n div d) = 1 / 2 \<longleftrightarrow> 2 * (n mod d) = d"
    unfolding frac using assms by (simp_all add: field_simps) linarith+
  show ?thesis unfolding div_half_even_def round_half_even_def Let_def f r ..
qed

lemma round_half_even_mono:
  assumes "x \<le> y"
  shows "round_half_even x \<le> round_half_even y"
proof (cases "\<lfloor>x\<rfloor> = \<lfloor>y\<rfloor>")
  case True
  then show ?thesis using assms by (auto simp: round_half_even_def Let_def)
next
  case False
  then have "\<lfloor>x\<rfloor> + 1 \<le> \<lfloor>y\<rfloor>" using floor_mono [OF assms] by simp
  moreover have "round_half_even x \<le> \<lfloor>x\<rfloor> + 1" "\<lfloor>y\<rfloor> \<le> round_half_even y"
    by (simp_all add: round_half_even_def Let_def)
  ultimately show ?thesis by simp
qed

lemma round_half_even_int [simp]: "round_half_even (real_of_int i) = i"
  by (simp add: round_half_even_def)

lemma round_half_even_near: "\<bar>real_of_int (round_half_even x) - x\<bar> \<le> 1 / 2"
  unfolding round_half_even_def Let_def abs_le_iff by (auto; linarith)

section \<open>Rounding to a format\<close>

definition fp_emin :: "nat \<Rightarrow> int" where
  "fp_emin eb = 2 - 2 ^ (eb - 1)"

definition fp_exponent :: "nat \<Rightarrow> real \<Rightarrow> int" where
  "fp_exponent eb x = max (fp_emin eb) \<lfloor>log 2 x\<rfloor>"

text \<open>The pattern to which a positive real rounds.\<close>

definition fp_nearest :: "nat \<Rightarrow> nat \<Rightarrow> real \<Rightarrow> int" where
  "fp_nearest mb eb x =
     (if x \<le> 0 then 0
      else min ((fp_exponent eb x - fp_emin eb) * 2 ^ mb + round_half_even (x * 2 powi (int mb - fp_exponent eb x)))
        (fp_inf mb eb))"

lemma floor_log2_iff:
  assumes "(0::real) < x"
  shows "\<lfloor>log 2 x\<rfloor> = k \<longleftrightarrow> 2 powi k \<le> x \<and> x < 2 powi (k + 1)"
proof -
  have powr: "2 powr real_of_int k = 2 powi k" "2 powr (real_of_int k + 1) = 2 powi (k + 1)"
    using powr_real_of_int' [of 2 k] powr_real_of_int' [of 2 "k + 1"] by simp_all
  show ?thesis using floor_log_eq_powr_iff [OF assms, of 2 k] powr by simp
qed

lemma floor_log2:
  assumes "2 powi k \<le> x" and "x < (2::real) powi (k + 1)"
  shows "\<lfloor>log 2 x\<rfloor> = k"
proof -
  have "0 < (2::real) powi k" by simp
  then show ?thesis using assms by (subst floor_log2_iff) linarith+
qed

lemmas log2_bounds = floor_log2_iff [where k = "\<lfloor>log 2 x\<rfloor>" for x, THEN iffD1, OF _ refl, THEN conjunct1]
  floor_log2_iff [where k = "\<lfloor>log 2 x\<rfloor>" for x, THEN iffD1, OF _ refl, THEN conjunct2]

lemma scaled_ratio:
  assumes "0 < d"
  shows "ratio (n * 2 ^ nat (- q)) (d * 2 ^ nat q) = ratio n d * 2 powi (- q)"
  using assms by (cases "0 \<le> q") (simp_all add: ratio_def power_int_def field_simps)

lemma fp_round_nearest:
  assumes "0 \<le> n" and "1 \<le> d"
  shows "fp_round mb eb n d = fp_nearest mb eb (ratio n d)"
proof (cases "n = 0")
  case True
  then show ?thesis by (simp add: fp_round_def fp_nearest_def ratio_def)
next
  case False
  then have n: "1 \<le> n" using assms(1) by simp
  have "\<lfloor>log 2 (ratio n d)\<rfloor> = quotient_log2 n d"
    by (rule floor_log2) (rule quotient_log2_bounds [OF n assms(2)])+
  then have e: "max (2 - 2 ^ (eb - 1)) (quotient_log2 n d) = fp_exponent eb (ratio n d)"
    by (simp add: fp_exponent_def fp_emin_def)
  have pos: "\<not> ratio n d \<le> 0" using n assms(2) by (simp add: ratio_def not_le zero_less_divide_iff)
  have scale: "div_half_even (n * 2 ^ nat (- q)) (d * 2 ^ nat q) = round_half_even (ratio n d * 2 powi (- q))" for q
    using assms(2) by (subst div_half_even_ratio) (simp_all add: scaled_ratio)
  have "div_half_even (n * 2 ^ nat (- (fp_exponent eb (ratio n d) - int mb))) (d * 2 ^ nat (fp_exponent eb (ratio n d) - int mb)) =
      round_half_even (ratio n d * 2 powi (int mb - fp_exponent eb (ratio n d)))"
    using scale [of "fp_exponent eb (ratio n d) - int mb"] by simp
  then show ?thesis using False pos
    unfolding fp_round_def Let_def e fp_nearest_def fp_inf_def by (simp only: if_False fp_emin_def)
qed

lemma fp_exponent_mono: "0 < x \<Longrightarrow> x \<le> y \<Longrightarrow> fp_exponent eb x \<le> fp_exponent eb y"
  unfolding fp_exponent_def by (intro max.mono order_refl floor_mono) (simp add: log_mono)

lemma fp_nearest_nonneg [simp]: "0 \<le> fp_nearest mb eb x"
proof (cases "x \<le> 0")
  case False
  have "0 \<le> round_half_even (x * 2 powi (int mb - fp_exponent eb x))"
    using round_half_even_mono [of 0 "x * 2 powi (int mb - fp_exponent eb x)"] round_half_even_int [of 0] False
    by (simp add: less_imp_le)
  moreover have "fp_emin eb \<le> fp_exponent eb x" by (simp add: fp_exponent_def)
  moreover have "0 \<le> fp_inf mb eb" by (simp add: fp_inf_def)
  ultimately show ?thesis by (simp add: fp_nearest_def)
qed (simp add: fp_nearest_def)

lemma fp_nearest_le_inf [simp]: "fp_nearest mb eb x \<le> fp_inf mb eb"
  by (simp add: fp_nearest_def fp_inf_def)

text \<open>Within a binade the scaled significand is below \<open>2\<^sup>m\<^sup>b\<^sup>+\<^sup>1\<close>, and above the lowest binade it is at
  least \<open>2\<^sup>m\<^sup>b\<close>.\<close>

lemma significand_upper:
  assumes "0 < x"
  shows "round_half_even (x * 2 powi (int mb - fp_exponent eb x)) \<le> 2 ^ (mb + 1)"
proof -
  let ?e = "fp_exponent eb x"
  have "x < 2 powi (?e + 1)"
    using log2_bounds(2) [OF assms] powi_le_iff [of "\<lfloor>log 2 x\<rfloor> + 1" "?e + 1"] by (simp add: fp_exponent_def)
  then have "x * 2 powi (int mb - ?e) \<le> 2 powi (?e + 1) * 2 powi (int mb - ?e)" by simp
  also have "\<dots> = real_of_int (2 ^ (mb + 1))" by (simp add: powi_shift)
  finally show ?thesis using round_half_even_mono round_half_even_int by metis
qed

lemma significand_lower:
  assumes "0 < x" and "fp_emin eb < fp_exponent eb x"
  shows "2 ^ mb \<le> round_half_even (x * 2 powi (int mb - fp_exponent eb x))"
proof -
  let ?e = "fp_exponent eb x"
  have "2 powi ?e \<le> x" using log2_bounds(1) [OF assms(1)] assms(2) by (simp add: fp_exponent_def max_def split: if_splits)
  have "real_of_int (2 ^ mb) = 2 powi ?e * 2 powi (int mb - ?e)" by (simp add: powi_shift)
  also have "\<dots> \<le> x * 2 powi (int mb - ?e)" using \<open>2 powi ?e \<le> x\<close> by simp
  finally show ?thesis using round_half_even_mono round_half_even_int by metis
qed

lemma fp_nearest_mono:
  assumes "x \<le> y"
  shows "fp_nearest mb eb x \<le> fp_nearest mb eb y"
proof (cases "x \<le> 0")
  case True
  then show ?thesis by (simp add: fp_nearest_def [of mb eb x])
next
  case False
  let ?s = "\<lambda>z. round_half_even (z * 2 powi (int mb - fp_exponent eb z))"
  let ?e = "\<lambda>z. fp_exponent eb z - fp_emin eb"
  have e: "?e x \<le> ?e y" using fp_exponent_mono [of x y eb] False assms by simp
  have "?e x * 2 ^ mb + ?s x \<le> ?e y * 2 ^ mb + ?s y"
  proof (cases "?e x = ?e y")
    case True
    then have "?s x \<le> ?s y" using assms by (intro round_half_even_mono) (simp add: mult_right_mono)
    then show ?thesis using True by simp
  next
    case lt: False
    have "0 \<le> ?e x" by (simp add: fp_exponent_def)
    then have "2 ^ mb \<le> ?s y" using lt e False assms by (intro significand_lower) auto
    moreover have "?s x \<le> 2 * 2 ^ mb" using significand_upper [of x mb eb] False by simp
    moreover have "(?e x + 1) * 2 ^ mb \<le> ?e y * 2 ^ mb" using lt e by (intro mult_right_mono) auto
    ultimately show ?thesis by (simp add: algebra_simps)
  qed
  then show ?thesis using False assms unfolding fp_nearest_def by (auto intro: min.mono)
qed

section \<open>Values of patterns\<close>

definition fp_value :: "nat \<Rightarrow> nat \<Rightarrow> int \<Rightarrow> real" where
  "fp_value mb eb m = (case fp_fraction mb eb m of (n, d) \<Rightarrow> ratio n d)"

definition fp_significand :: "nat \<Rightarrow> int \<Rightarrow> int" where
  "fp_significand mb m = (if m div 2 ^ mb = 0 then m mod 2 ^ mb else 2 ^ mb + m mod 2 ^ mb)"

lemma fp_value_eq:
  "fp_value mb eb m = real_of_int (fp_significand mb m) * 2 powi (max 1 (m div 2 ^ mb) - 1 + fp_emin eb - int mb)"
  by (simp add: fp_value_def fp_fraction_def fp_significand_def fp_emin_def Let_def ratio_def power_int_def field_simps)

lemma fp_fraction_denominator: "1 \<le> snd (fp_fraction mb eb m)"
  by (simp add: fp_fraction_def Let_def)

lemma fp_fraction_numerator: "0 \<le> fst (fp_fraction mb eb m)"
  by (simp add: fp_fraction_def Let_def)

lemma fp_value_nonneg [simp]: "0 \<le> fp_value mb eb m"
  by (simp add: fp_value_eq fp_significand_def)

lemma fp_value_0 [simp]: "fp_value mb eb 0 = 0"
  by (simp add: fp_value_eq fp_significand_def)

text \<open>Rounding leaves every finite pattern alone.\<close>

lemma fp_nearest_value:
  assumes "0 \<le> m" and "m < fp_inf mb eb"
  shows "fp_nearest mb eb (fp_value mb eb m) = m"
proof -
  define f where "f = m div 2 ^ mb"
  define s where "s = m mod 2 ^ mb"
  have m: "m = f * 2 ^ mb + s" unfolding f_def s_def by (rule div_mult_mod_eq [symmetric])
  have s: "0 \<le> s" "s < 2 ^ mb" by (simp_all add: s_def)
  have f0: "0 \<le> f" using assms(1) by (simp add: f_def pos_imp_zdiv_nonneg_iff)
  define e where "e = max 1 f - 1 + fp_emin eb"
  let ?x = "fp_value mb eb m"
  have x: "?x = real_of_int (fp_significand mb m) * 2 powi (e - int mb)"
    by (simp add: fp_value_eq e_def f_def)
  have sig: "fp_significand mb m = (if f = 0 then s else 2 ^ mb + s)" by (simp add: fp_significand_def f_def s_def)
  have scaled: "?x * 2 powi (int mb - e) = real_of_int (fp_significand mb m)"
  proof -
    have "(2::real) powi (e - int mb) * 2 powi (int mb - e) = 2 powi 0" by (subst power_int_add [symmetric]) simp_all
    then show ?thesis unfolding x by (simp add: mult.assoc)
  qed
  show ?thesis
  proof (cases "fp_significand mb m = 0")
    case True
    then have "m = 0" using sig s m by (auto split: if_splits)
    then show ?thesis by (simp add: fp_nearest_def)
  next
    case False
    have spos: "0 < fp_significand mb m" using False sig s(1) zero_less_power [of "2::int" mb] by (auto simp del: zero_less_power)
    then have xpos: "0 < ?x" unfolding x by simp
    have lt: "fp_significand mb m < 2 ^ (mb + 1)" using sig s by auto
    have "?x < 2 powi (e + 1)"
    proof -
      have "real_of_int (fp_significand mb m) < real_of_int (2 ^ (mb + 1))" using lt by (simp only: of_int_less_iff)
      then have "?x * 2 powi (int mb - e) < 2 powi (e + 1) * 2 powi (int mb - e)"
        unfolding scaled powi_shift by simp
      then show ?thesis by simp
    qed
    then have up: "\<lfloor>log 2 ?x\<rfloor> \<le> e"
      using log2_bounds(1) [OF xpos] powi_less_iff [of "\<lfloor>log 2 ?x\<rfloor>" "e + 1"] by linarith
    have exp: "fp_exponent eb ?x = e"
    proof (cases "f = 0")
      case True
      then show ?thesis using up by (simp add: fp_exponent_def e_def)
    next
      case nz: False
      have "real_of_int (2 ^ mb) \<le> real_of_int (fp_significand mb m)" using sig s nz by (simp only: of_int_le_iff) simp
      then have "2 powi e * 2 powi (int mb - e) \<le> ?x * 2 powi (int mb - e)" unfolding scaled powi_shift by simp
      then have "2 powi e \<le> ?x" by simp
      then have "e \<le> \<lfloor>log 2 ?x\<rfloor>"
        using log2_bounds(2) [OF xpos] powi_less_iff [of e "\<lfloor>log 2 ?x\<rfloor> + 1"] by linarith
      then show ?thesis using up by (simp add: fp_exponent_def e_def)
    qed
    have "(e - fp_emin eb) * 2 ^ mb + fp_significand mb m = m"
      using f0 m sig by (auto simp: e_def algebra_simps max_def)
    then show ?thesis using xpos assms(2) by (simp add: fp_nearest_def exp scaled)
  qed
qed

lemma fp_value_less_iff:
  assumes "0 \<le> m" "m < fp_inf mb eb" "0 \<le> m'" "m' < fp_inf mb eb"
  shows "fp_value mb eb m < fp_value mb eb m' \<longleftrightarrow> m < m'"
proof
  assume "fp_value mb eb m < fp_value mb eb m'"
  then have "fp_nearest mb eb (fp_value mb eb m) \<le> fp_nearest mb eb (fp_value mb eb m')"
    by (intro fp_nearest_mono) simp
  then have "m \<le> m'" using assms by (simp add: fp_nearest_value)
  moreover have "m \<noteq> m'" using \<open>fp_value mb eb m < fp_value mb eb m'\<close> by auto
  ultimately show "m < m'" by simp
next
  assume "m < m'"
  show "fp_value mb eb m < fp_value mb eb m'"
  proof (rule ccontr)
    assume "\<not> ?thesis"
    then have "fp_nearest mb eb (fp_value mb eb m') \<le> fp_nearest mb eb (fp_value mb eb m)"
      by (intro fp_nearest_mono) simp
    then show False using assms \<open>m < m'\<close> by (simp add: fp_nearest_value)
  qed
qed

text \<open>Between a pattern and its successor lies one unit of its last place.\<close>

lemma fp_value_succ:
  assumes "0 \<le> m"
  shows "fp_value mb eb (m + 1) = fp_value mb eb m + 2 powi (max 1 (m div 2 ^ mb) - 1 + fp_emin eb - int mb)"
proof -
  define f where "f = m div 2 ^ mb"
  define s where "s = m mod 2 ^ mb"
  have f0: "0 \<le> f" using assms by (simp add: f_def pos_imp_zdiv_nonneg_iff)
  have s: "0 \<le> s" "s < 2 ^ mb" by (simp_all add: s_def)
  have m: "m = f * 2 ^ mb + s" unfolding f_def s_def by (rule div_mult_mod_eq [symmetric])
  show ?thesis
  proof (cases "s + 1 < 2 ^ mb")
    case True
    then have "(m + 1) div 2 ^ mb = f \<and> (m + 1) mod 2 ^ mb = s + 1"
      using s unfolding m by (simp add: add.assoc)
    then show ?thesis
      by (simp add: fp_value_eq fp_significand_def f_def [symmetric] s_def [symmetric] algebra_simps)
  next
    case False
    then have s1: "s + 1 = 2 ^ mb" using s by linarith
    then have "m + 1 = (f + 1) * 2 ^ mb" unfolding m by (simp add: algebra_simps)
    then have "(m + 1) div 2 ^ mb = f + 1 \<and> (m + 1) mod 2 ^ mb = 0" by simp
    moreover have sum: "2 ^ mb * c = c + real_of_int s * c" for c :: real
    proof -
      have "real_of_int (s + 1) = real_of_int (2 ^ mb)" using s1 by (simp only:)
      then have "2 ^ mb = 1 + real_of_int s" by simp
      then show ?thesis by (simp add: distrib_right)
    qed
    moreover have "(2::real) powi (f + fp_emin eb - int mb) = 2 * 2 powi (f - 1 + fp_emin eb - int mb)" if "f \<noteq> 0"
      using power_int_add_1 [of "2::real" "f - 1 + fp_emin eb - int mb"] by (simp add: algebra_simps)
    ultimately show ?thesis using f0 sum [of "2 powi (fp_emin eb - int mb)"] sum [of "2 powi (f - 1 + fp_emin eb - int mb)"]
      by (cases "f = 0") (simp_all add: fp_value_eq fp_significand_def f_def [symmetric] s_def [symmetric] algebra_simps)
  qed
qed

section \<open>f64 as real numbers\<close>

definition f64_value :: "u64 \<Rightarrow> real" where
  "f64_value x = (if f64_neg x then - fp_value 52 11 (f64_magnitude x) else fp_value 52 11 (f64_magnitude x))"

text \<open>The key of the number to which a real rounds.\<close>

definition f64_nearest :: "real \<Rightarrow> int" where
  "f64_nearest r = (if r < 0 then - fp_nearest 52 11 (- r) else fp_nearest 52 11 r)"

lemma f64_nearest_mono: "r \<le> r' \<Longrightarrow> f64_nearest r \<le> f64_nearest r'"
  using fp_nearest_mono [of r r' 52 11] fp_nearest_mono [of "- r'" "- r" 52 11]
    fp_nearest_nonneg [of 52 11 "- r"] fp_nearest_nonneg [of 52 11 r']
  unfolding f64_nearest_def by (auto simp del: fp_nearest_nonneg)

lemma f64_magnitude_range: "0 \<le> f64_magnitude x" "f64_magnitude x < 2 ^ 63"
  by (simp_all add: f64_magnitude_def fp_magnitude_def)

lemma f64_nearest_value: "f64_is_finite x \<Longrightarrow> f64_nearest (f64_value x) = f64_key x"
proof -
  assume "f64_is_finite x"
  then have m: "fp_nearest 52 11 (fp_value 52 11 (f64_magnitude x)) = f64_magnitude x"
    by (intro fp_nearest_value) (simp_all add: f64_is_finite_def f64_magnitude_range)
  have "fp_value 52 11 (f64_magnitude x) = 0 \<Longrightarrow> f64_magnitude x = 0"
    using m by (simp add: fp_nearest_def)
  then show ?thesis using m fp_value_nonneg [of 52 11 "f64_magnitude x"]
    by (auto simp: f64_nearest_def f64_value_def f64_key_def simp del: fp_value_nonneg)
qed

lemma f64_value_less_iff:
  assumes "f64_is_finite x" and "f64_is_finite y"
  shows "f64_value x < f64_value y \<longleftrightarrow> f64_key x < f64_key y"
proof
  assume less: "f64_value x < f64_value y"
  then have "f64_key x \<le> f64_key y"
    using f64_nearest_mono [of "f64_value x" "f64_value y"] assms by (simp add: f64_nearest_value)
  moreover have "f64_value x = f64_value y" if "f64_key x = f64_key y"
  proof (cases "f64_neg x = f64_neg y")
    case True
    then show ?thesis using that by (auto simp: f64_key_def f64_value_def split: if_splits)
  next
    case False
    then have "f64_magnitude x = 0 \<and> f64_magnitude y = 0"
      using that f64_magnitude_range(1) [of x] f64_magnitude_range(1) [of y]
      by (auto simp: f64_key_def split: if_splits)
    then show ?thesis by (simp add: f64_value_def)
  qed
  ultimately show "f64_key x < f64_key y" using less by linarith
next
  assume less: "f64_key x < f64_key y"
  show "f64_value x < f64_value y"
  proof (rule ccontr)
    assume "\<not> ?thesis"
    then show False
      using f64_nearest_mono [of "f64_value y" "f64_value x"] assms less by (simp add: f64_nearest_value)
  qed
qed

lemma f64_lt_value: "f64_is_finite x \<Longrightarrow> f64_is_finite y \<Longrightarrow> f64_lt x y \<longleftrightarrow> f64_value x < f64_value y"
  by (simp add: f64_lt_def f64_finite_not_nan f64_value_less_iff)

lemma f64_le_value: "f64_is_finite x \<Longrightarrow> f64_is_finite y \<Longrightarrow> f64_le x y \<longleftrightarrow> f64_value x \<le> f64_value y"
  using f64_value_less_iff [of y x] by (auto simp: f64_le_def f64_finite_not_nan not_less)

subsection \<open>Building patterns\<close>

lemma f64_make_parts:
  assumes "0 \<le> m" and "m < 2 ^ 63"
  shows "f64_magnitude (f64_make neg m) = m" and "f64_neg (f64_make neg m) = neg"
  using assms
  by (auto simp: f64_magnitude_def f64_neg_def f64_make_def fp_magnitude_def fp_neg_def fp_with_sign_def
      uint_word_of_int_eq take_bit_eq_mod)

lemma fp_inf_f64: "fp_inf 52 11 < 2 ^ 63"
  by (simp add: fp_inf_def)

lemma f64_of_fraction_parts:
  assumes "1 \<le> d"
  shows "f64_key (f64_of_fraction z n d) = f64_nearest (ratio n d)" and "\<not> f64_is_nan (f64_of_fraction z n d)"
proof -
  let ?m = "fp_round 52 11 \<bar>n\<bar> d"
  have m: "?m = fp_nearest 52 11 (ratio \<bar>n\<bar> d)" using assms by (simp add: fp_round_nearest)
  then have range: "0 \<le> ?m" "?m \<le> fp_inf 52 11" by simp_all
  then have "?m < 2 ^ 63" using fp_inf_f64 by linarith
  note parts = f64_make_parts [OF range(1) this]
  show "\<not> f64_is_nan (f64_of_fraction z n d)"
    using range(2) by (simp add: f64_of_fraction_def f64_is_nan_def parts)
  have "f64_key (f64_of_fraction z n d) = (if n < 0 then - ?m else ?m)"
    unfolding f64_of_fraction_def f64_key_def parts by (auto simp: fp_round_def)
  moreover have "ratio n d < 0 \<longleftrightarrow> n < 0" using assms by (simp add: ratio_def divide_less_0_iff)
  moreover have "ratio (- n) d = - ratio n d" by (simp add: ratio_def)
  ultimately show "f64_key (f64_of_fraction z n d) = f64_nearest (ratio n d)"
    unfolding m by (cases "n < 0") (simp_all add: f64_nearest_def)
qed

lemma f64_fraction_value: "f64_fraction x = (n, d) \<Longrightarrow> 1 \<le> d \<and> f64_value x = ratio n d"
  using fp_fraction_denominator [of 52 11 "f64_magnitude x"]
  by (auto simp: f64_fraction_def f64_value_def fp_value_def ratio_def split: prod.splits)

lemma f64_add_parts:
  assumes "f64_is_finite x" and "f64_is_finite y"
  shows "f64_key (f64_add x y) = f64_nearest (f64_value x + f64_value y)" and "\<not> f64_is_nan (f64_add x y)"
proof -
  obtain nx dx ny dy where f: "f64_fraction x = (nx, dx)" "f64_fraction y = (ny, dy)" by (meson surj_pair)
  note v = f64_fraction_value [OF f(1)] f64_fraction_value [OF f(2)]
  have "0 < dx * dy" using v by (intro mult_pos_pos) linarith+
  then have d: "1 \<le> dx * dy" by linarith
  have add: "f64_add x y = f64_of_fraction (f64_neg x \<and> f64_neg y) (nx * dy + ny * dx) (dx * dy)"
    using assms by (simp add: f64_add_def f64_finite_not_nan f)
  have "ratio (nx * dy + ny * dx) (dx * dy) = f64_value x + f64_value y"
    using v by (simp add: ratio_def field_simps)
  then show "f64_key (f64_add x y) = f64_nearest (f64_value x + f64_value y)" and "\<not> f64_is_nan (f64_add x y)"
    unfolding add using f64_of_fraction_parts [OF d] by simp_all
qed

lemma f64_negate_parts:
  shows "f64_magnitude (f64_negate x) = f64_magnitude x" and "f64_neg (f64_negate x) \<longleftrightarrow> \<not> f64_neg x"
    and "f64_value (f64_negate x) = - f64_value x" and "f64_is_finite (f64_negate x) = f64_is_finite x"
    and "f64_is_nan (f64_negate x) = f64_is_nan x" and "f64_key (f64_negate x) = - f64_key x"
proof -
  show parts: "f64_magnitude (f64_negate x) = f64_magnitude x" "f64_neg (f64_negate x) \<longleftrightarrow> \<not> f64_neg x"
    unfolding f64_negate_def using f64_make_parts [OF f64_magnitude_range] by simp_all
  show "f64_value (f64_negate x) = - f64_value x" "f64_is_finite (f64_negate x) = f64_is_finite x"
    "f64_is_nan (f64_negate x) = f64_is_nan x" "f64_key (f64_negate x) = - f64_key x"
    by (simp_all add: f64_value_def f64_is_finite_def f64_is_nan_def f64_key_def parts)
qed

text \<open>Adding a positive number never goes down, and subtraction is monotone in its first argument.\<close>

lemma f64_add_ge:
  assumes "f64_is_finite x" "f64_is_finite y" "f64_le 0 y"
  shows "f64_le x (f64_add x y)"
proof -
  have "f64_is_finite 0" "f64_value 0 = 0"
    by (simp_all add: f64_is_finite_def f64_magnitude_def fp_magnitude_def fp_inf_def f64_value_def)
  then have "f64_value x \<le> f64_value x + f64_value y" using assms f64_le_value [of 0 y] by simp
  then have "f64_key x \<le> f64_key (f64_add x y)"
    using f64_nearest_mono [of "f64_value x" "f64_value x + f64_value y"] assms
    by (simp add: f64_add_parts f64_nearest_value)
  then show ?thesis using assms by (simp add: f64_le_def f64_add_parts f64_finite_not_nan)
qed

end
