(* ===== verification/LayerRanges.thy ===== *)
theory LayerRanges
  imports ConfigIngest FloatRounding
begin

text \<open>
  What a successful ingestion of layer ranges guarantees: every range it commits is a valid interval
  whose keys are eligible, and two ranges that cover one layer agree on every key but the layer height,
  although the authored bounds are compared exactly when overlaps are rejected and in their narrowed
  form when a layer is looked up.
\<close>

section \<open>Narrowing\<close>

lemma f64_nonneg_key: "f64_le 0 x \<Longrightarrow> f64_key x = f64_magnitude x \<and> (f64_neg x \<longrightarrow> f64_magnitude x = 0)"
  using f64_magnitude_range(1) [of x]
  by (auto simp: f64_le_def f64_key_def f64_magnitude_def fp_magnitude_def split: if_splits)

lemma f64_nonneg_value: "f64_le 0 x \<Longrightarrow> f64_value x = fp_value 52 11 (f64_magnitude x)"
  using f64_nonneg_key [of x] by (auto simp: f64_value_def)

lemma f32_of_f64_magnitude:
  assumes "f64_is_finite x"
  shows "fp_magnitude 23 8 (uint (f32_of_f64 x)) = fp_nearest 23 8 (fp_value 52 11 (f64_magnitude x))"
    and "fp_neg 23 8 (uint (f32_of_f64 x)) = f64_neg x"
proof -
  let ?m = "fp_nearest 23 8 (fp_value 52 11 (f64_magnitude x))"
  obtain n d where nd: "fp_fraction 52 11 (f64_magnitude x) = (n, d)" by (meson surj_pair)
  then have "fp_round 23 8 n d = ?m"
    using fp_fraction_numerator [of 52 11 "f64_magnitude x"] fp_fraction_denominator [of 52 11 "f64_magnitude x"]
    by (simp add: fp_round_nearest fp_value_def)
  then have eq: "f32_of_f64 x = of_int (fp_with_sign 23 8 (f64_neg x) ?m)"
    using assms by (simp add: f32_of_f64_def f64_finite_not_nan nd)
  have "0 \<le> ?m" "?m \<le> fp_inf 23 8" by simp_all
  then have "0 \<le> ?m" "?m < 2 ^ 31" by (simp_all add: fp_inf_def)
  then show "fp_magnitude 23 8 (uint (f32_of_f64 x)) = ?m" and "fp_neg 23 8 (uint (f32_of_f64 x)) = f64_neg x"
    unfolding eq by (auto simp: fp_with_sign_def fp_magnitude_def fp_neg_def uint_word_of_int_eq take_bit_eq_mod)
qed

lemma f64_of_f32_parts:
  assumes "f32_is_finite w"
  shows "f64_magnitude (f64_of_f32 w) = fp_nearest 52 11 (fp_value 23 8 (fp_magnitude 23 8 (uint w)))"
    and "f64_neg (f64_of_f32 w) = fp_neg 23 8 (uint w)"
proof -
  let ?m = "fp_magnitude 23 8 (uint w)"
  obtain n d where nd: "fp_fraction 23 8 ?m = (n, d)" by (meson surj_pair)
  then have r: "fp_round 52 11 n d = fp_nearest 52 11 (fp_value 23 8 ?m)"
    using fp_fraction_numerator [of 23 8 ?m] fp_fraction_denominator [of 23 8 ?m]
    by (simp add: fp_round_nearest fp_value_def)
  have eq: "f64_of_f32 w = f64_make (fp_neg 23 8 (uint w)) (fp_nearest 52 11 (fp_value 23 8 ?m))"
    using assms r by (simp add: f64_of_f32_def f32_is_finite_def nd)
  have "0 \<le> fp_nearest 52 11 (fp_value 23 8 ?m)" "fp_nearest 52 11 (fp_value 23 8 ?m) < 2 ^ 63"
    using fp_nearest_le_inf [of 52 11 "fp_value 23 8 ?m"] fp_inf_f64 by (simp, linarith)
  then show "f64_magnitude (f64_of_f32 w) = fp_nearest 52 11 (fp_value 23 8 ?m)"
    and "f64_neg (f64_of_f32 w) = fp_neg 23 8 (uint w)"
    unfolding eq by (simp_all only: f64_make_parts)
qed

text \<open>The key of a narrowed bound.\<close>

definition narrow_key :: "u64 \<Rightarrow> int" where
  "narrow_key x =
     (let m = fp_nearest 23 8 (f64_value x)
      in if m < fp_inf 23 8 then fp_nearest 52 11 (fp_value 23 8 m) else f64_magnitude x)"

lemma narrower_key:
  assumes "f64_is_finite x" and "f64_le 0 x"
  shows "f64_key (narrower x) = narrow_key x" and "\<not> f64_is_nan (narrower x)"
proof -
  let ?w = "f32_of_f64 x" and ?m = "fp_nearest 23 8 (f64_value x)"
  have mag: "fp_magnitude 23 8 (uint ?w) = ?m" and neg: "fp_neg 23 8 (uint ?w) = f64_neg x"
    using f32_of_f64_magnitude [OF assms(1)] by (simp_all add: f64_nonneg_value [OF assms(2)])
  have fin: "f32_is_finite ?w \<longleftrightarrow> ?m < fp_inf 23 8" by (simp add: f32_is_finite_def mag)
  have zero: "f64_neg x \<Longrightarrow> fp_nearest 52 11 (fp_value 23 8 ?m) = 0"
    using f64_nonneg_key [OF assms(2)] f64_nonneg_value [OF assms(2)] by (simp add: fp_nearest_def)
  show "f64_key (narrower x) = narrow_key x"
  proof (cases "f32_is_finite ?w")
    case True
    then show ?thesis using fin zero
      by (auto simp: narrower_def narrow_key_def Let_def f64_key_def f64_of_f32_parts [OF True] mag neg)
  next
    case False
    then show ?thesis using fin f64_nonneg_key [OF assms(2)] by (simp add: narrower_def narrow_key_def Let_def)
  qed
  show "\<not> f64_is_nan (narrower x)"
  proof (cases "f32_is_finite ?w")
    case True
    then show ?thesis
      using fp_nearest_le_inf [of 52 11 "fp_value 23 8 ?m"]
      by (simp add: narrower_def Let_def f64_is_nan_def f64_of_f32_parts [OF True] mag del: fp_nearest_le_inf)
  next
    case False
    then show ?thesis using f64_finite_not_nan [OF assms(1)] by (simp add: narrower_def Let_def)
  qed
qed

lemma narrower_mono:
  assumes "f64_is_finite x" "f64_is_finite y" "f64_le 0 x" "f64_le x y"
  shows "f64_le (narrower x) (narrower y)"
proof -
  have y: "f64_le 0 y" using assms(3,4) by (rule f64_le_trans)
  have v: "f64_value x \<le> f64_value y" using assms f64_le_value by blast
  let ?m = "fp_nearest 23 8 (f64_value x)" and ?n = "fp_nearest 23 8 (f64_value y)"
  have mn: "?m \<le> ?n" using v by (rule fp_nearest_mono)
  have "narrow_key x \<le> narrow_key y"
  proof (cases "?n < fp_inf 23 8")
    case True
    then have "fp_value 23 8 ?m \<le> fp_value 23 8 ?n"
      using mn fp_value_less_iff [of ?n 23 8 ?m] by (auto simp: not_less)
    then show ?thesis using True mn by (simp add: narrow_key_def Let_def fp_nearest_mono)
  next
    case inf: False
    show ?thesis
    proof (cases "?m < fp_inf 23 8")
      case True
      have "fp_value 23 8 ?m \<le> f64_value y"
      proof (rule ccontr)
        assume "\<not> ?thesis"
        then have "?n \<le> fp_nearest 23 8 (fp_value 23 8 ?m)" by (intro fp_nearest_mono) simp
        then show False using True inf by (simp add: fp_nearest_value)
      qed
      then have "fp_nearest 52 11 (fp_value 23 8 ?m) \<le> fp_nearest 52 11 (f64_value y)" by (rule fp_nearest_mono)
      also have "\<dots> = f64_magnitude y"
        using f64_nonneg_value [OF y] assms(2)
        by (simp add: fp_nearest_value f64_is_finite_def f64_magnitude_range)
      finally show ?thesis using True inf by (simp add: narrow_key_def Let_def)
    next
      case False
      then show ?thesis using inf assms(4) f64_nonneg_key [OF assms(3)] f64_nonneg_key [OF y]
        by (simp add: narrow_key_def Let_def f64_le_def)
    qed
  qed
  then show ?thesis using assms y by (simp add: f64_le_def narrower_key)
qed

text \<open>Disjoint authored intervals cover no common layer.\<close>

lemma covers_overlap:
  assumes "valid_layer_range_interval (lr_min_z a) (lr_max_z a)" and "valid_layer_range_interval (lr_min_z b) (lr_max_z b)"
    and "covers a z" and "covers b z"
  shows "f64_lt (lr_min_z a) (lr_max_z b)"
proof (rule ccontr)
  assume neg: "\<not> ?thesis"
  have fin: "f64_is_finite (lr_min_z a)" "f64_is_finite (lr_max_z b)" "f64_le 0 (lr_min_z a)" "f64_le 0 (lr_max_z b)"
    using assms(1,2) by (auto simp: valid_layer_range_interval_def f64_le_def f64_lt_def)
  then have le: "f64_le (lr_max_z b) (lr_min_z a)"
    using neg by (simp add: f64_not_lt f64_finite_not_nan)
  note n = narrower_mono [OF fin(2,1,4) le]
  have "f64_le (f64_min (lr_max_z b) (narrower (lr_max_z b))) (f64_min (lr_min_z a) (narrower (lr_min_z a)))"
    using le n by (auto simp: f64_min_def f64_le_def f64_lt_def)
  then show False using assms(3,4) by (auto simp: covers_def f64_le_def f64_lt_def)
qed

section \<open>Prepared ranges\<close>

definition range_sound :: "registry \<Rightarrow> string \<Rightarrow> layer_config_range \<Rightarrow> bool" where
  "range_sound reg object_id r \<longleftrightarrow>
     valid_layer_range_interval (lr_min_z r) (lr_max_z r) \<and>
     (\<exists>i. lr_scope r = LayerRange object_id i) \<and>
     list_all (\<lambda>key. key \<in> set (admission_set reg (lr_scope r))) (btm_keys (lr_delta r)) \<and>
     (case btm_get (lr_delta r) ''layer_height'' of
        None \<Rightarrow> True | Some v \<Rightarrow> (\<exists>h. v = CvFloat h \<and> f64_is_finite h \<and> f64_lt 0 h))"

definition committed_range :: "string \<Rightarrow> pending_layer_range \<Rightarrow> layer_config_range" where
  "committed_range object_id p =
     \<lparr>lr_scope = LayerRange object_id (pr_range_index p), lr_min_z = pr_min_z p, lr_max_z = pr_max_z p, lr_delta = pr_delta p\<rparr>"

lemma prepare_range_sound:
  assumes "prepare_range tf ing object_id i input ws = Inr (p, ws')"
  shows "pr_range_index p = i \<and> range_sound (in_registry ing) object_id (committed_range object_id p)"
  using assms
  by (auto simp: prepare_range_def range_sound_def committed_range_def check_layer_height_def Let_def
      list_all_iff find_None_iff split: if_splits sum.splits option.splits config_value.splits)

lemma prepare_ranges_sound:
  "prepare_ranges tf ing object_id k inputs ws = Inr (ps, ws') \<Longrightarrow>
     map pr_range_index ps = map of_nat [k ..< k + length inputs] \<and>
     list_all (\<lambda>p. range_sound (in_registry ing) object_id (committed_range object_id p)) ps"
proof (induction inputs arbitrary: k ws ps)
  case (Cons input inputs)
  then obtain p ws1 ps' where run: "prepare_range tf ing object_id (of_nat k) input ws = Inr (p, ws1)"
      "prepare_ranges tf ing object_id (Suc k) inputs ws1 = Inr (ps', ws')" "ps = p # ps'"
    by (auto split: sum.splits)
  then show ?case using Cons.IH [OF run(2)] prepare_range_sound [OF run(1)] by (simp add: upt_conv_Cons del: upt_Suc)
qed simp

lemma prepare_objects_sound:
  "prepare_objects tf ing objects ws = Inr (pending, ws') \<Longrightarrow>
     map fst pending = map fst objects \<and>
     (\<forall>(object_id, ps) \<in> set pending.
        map pr_range_index ps = map of_nat [0 ..< length ps] \<and>
        list_all (\<lambda>p. range_sound (in_registry ing) object_id (committed_range object_id p)) ps)"
proof (induction objects arbitrary: ws pending)
  case (Cons o' objects)
  obtain object_id authored where o': "o' = (object_id, authored)" by (cases o')
  obtain ps ws1 rest where run: "prepare_ranges tf ing object_id 0 (sort_key range_sort_key authored) ws = Inr (ps, ws1)"
      "prepare_objects tf ing objects ws1 = Inr (rest, ws')" "pending = (object_id, ps) # rest"
    using Cons.prems by (auto simp: o' split: sum.splits)
  note ps = prepare_ranges_sound [OF run(1)]
  then have "length ps = length authored" by (metis length_map length_sort length_upt add_diff_cancel_left' diff_zero)
  then show ?case using Cons.IH [OF run(2)] ps run(3) by (simp add: o')
qed simp

lemma commit_ranges_map:
  "commit_ranges object_id ps = Inr rs \<Longrightarrow> rs = map (committed_range object_id) ps"
  by (induction ps arbitrary: rs)
    (auto simp: layer_config_range_new_def committed_range_def split: sum.splits if_splits)

lemma commit_objects_map:
  "commit_objects pending = Inr committed \<Longrightarrow>
     committed = map (\<lambda>(object_id, ps). (object_id, map (committed_range object_id) ps)) pending"
  by (induction pending arbitrary: committed) (auto split: sum.splits dest: commit_ranges_map)

lemma overlaps_checked:
  "validate_layer_range_overlaps pending = None \<Longrightarrow> (object_id, ps) \<in> set pending \<Longrightarrow> check_range_overlaps object_id ps = None"
  by (induction pending) (auto split: option.splits)

lemma check_range_overlaps_pairs:
  "check_range_overlaps object_id ps = None \<Longrightarrow> sorted_wrt (\<lambda>a b. conflicting_key a b = None) ps"
  by (induction ps) (auto simp: find_None_iff split: option.splits)

lemma no_conflict_agree:
  assumes "conflicting_key a b = None" and "f64_lt (pr_min_z a) (pr_max_z b)" and "f64_lt (pr_min_z b) (pr_max_z a)"
    and "key \<noteq> ''layer_height''" and "btm_get (pr_delta a) key = Some v" and "btm_get (pr_delta b) key = Some v'"
  shows "v = v'"
proof -
  have "find (\<lambda>(key, v). key \<noteq> ''layer_height'' \<and>
      (case btm_get (pr_delta b) key of None \<Rightarrow> False | Some v' \<Rightarrow> v \<noteq> v')) (pr_delta a) = None"
    using assms(1-3) by (simp add: conflicting_key_def)
  moreover have "(key, v) \<in> set (pr_delta a)" using assms(5) by (simp add: btm_get_def map_of_SomeD)
  ultimately have "\<not> (case btm_get (pr_delta b) key of None \<Rightarrow> False | Some v' \<Rightarrow> v \<noteq> v')"
    using assms(4) by (fastforce simp: find_None_iff)
  then show ?thesis using assms(6) by simp
qed

text \<open>The ranges of an object agree where two of them cover a layer.\<close>

definition ranges_agree :: "layer_config_range list \<Rightarrow> bool" where
  "ranges_agree rs \<longleftrightarrow>
     (\<forall>a \<in> set rs. \<forall>b \<in> set rs. \<forall>z key v v'. covers a z \<and> covers b z \<and> key \<noteq> ''layer_height'' \<and>
        btm_get (lr_delta a) key = Some v \<and> btm_get (lr_delta b) key = Some v' \<longrightarrow> v = v')"

lemma committed_agree:
  assumes "check_range_overlaps object_id ps = None"
    and "list_all (\<lambda>p. range_sound reg object_id (committed_range object_id p)) ps"
  shows "ranges_agree (map (committed_range object_id) ps)"
proof -
  have valid: "valid_layer_range_interval (pr_min_z p) (pr_max_z p)" if "p \<in> set ps" for p
    using assms(2) that by (auto simp: list_all_iff range_sound_def committed_range_def)
  have pair: "a = b \<or> conflicting_key a b = None \<or> conflicting_key b a = None" if ab: "a \<in> set ps" "b \<in> set ps" for a b
  proof -
    obtain i j where "i < length ps" "ps ! i = a" "j < length ps" "ps ! j = b" using ab by (auto simp: in_set_conv_nth)
    then show ?thesis
      using sorted_wrt_nth_less [OF check_range_overlaps_pairs [OF assms(1)], of i j]
        sorted_wrt_nth_less [OF check_range_overlaps_pairs [OF assms(1)], of j i] by (cases i j rule: linorder_cases) auto
  qed
  have "v = v'" if mem: "a \<in> set ps" "b \<in> set ps" and cov: "covers (committed_range object_id a) z" "covers (committed_range object_id b) z"
    and key: "key \<noteq> ''layer_height''" "btm_get (pr_delta a) key = Some v" "btm_get (pr_delta b) key = Some v'" for a b z key v v'
  proof -
    have "f64_lt (pr_min_z a) (pr_max_z b)" "f64_lt (pr_min_z b) (pr_max_z a)"
      using covers_overlap [OF _ _ cov] covers_overlap [OF _ _ cov(2,1)] valid mem by (simp_all add: committed_range_def)
    then show ?thesis using pair [OF mem] no_conflict_agree [of a b key v v'] no_conflict_agree [of b a key v' v] key by auto
  qed
  then show ?thesis unfolding ranges_agree_def by (auto simp: committed_range_def)
qed

definition layer_range_index :: "config_scope \<Rightarrow> u32" where
  "layer_range_index scope = (case scope of LayerRange _ i \<Rightarrow> i | _ \<Rightarrow> 0)"

lemma map_of_map_values: "map_of (map (\<lambda>(k, v). (k, f k v)) xs) k = map_option (f k) (map_of xs k)"
  by (induction xs) auto

section \<open>Properties\<close>

text \<open>C12: a successful ingestion of layer ranges commits, for every object it names, ranges that are valid
  intervals, state only keys eligible at their scope and positive layer heights, carry the indices
  0, 1, ... in their order, and agree on every key but the layer height wherever two of them cover the same
  layer; the ranges of the other objects are left alone.\<close>

theorem ingested_ranges_sound:
  assumes "ingest_layer_ranges tf inputs ing = Inr ing'"
  shows "(case btm_get (in_layer_ranges ing') object_id of
      None \<Rightarrow> object_id \<notin> li_object_id ` set inputs
    | Some rs \<Rightarrow>
        if object_id \<in> li_object_id ` set inputs
        then list_all (range_sound (in_registry ing) object_id) rs \<and> ranges_agree rs \<and>
          map (layer_range_index \<circ> lr_scope) rs = map of_nat [0 ..< length rs]
        else btm_get (in_layer_ranges ing) object_id = Some rs) \<and>
    in_deltas ing' = in_deltas ing"
proof -
  obtain pending ws committed where run:
      "prepare_objects tf ing (btm_group (map (\<lambda>i. (li_object_id i, i)) inputs)) [] = Inr (pending, ws)"
      "validate_layer_range_overlaps pending = None" "commit_objects pending = Inr committed"
      "in_layer_ranges ing' = fold (\<lambda>(o', rs). btm_insert o' rs) committed (in_layer_ranges ing)"
      "in_deltas ing' = in_deltas ing"
    using assms by (auto simp: ingest_layer_ranges_def split: sum.splits option.splits)
  let ?groups = "btm_group (map (\<lambda>i. (li_object_id i, i)) inputs)"
  note pend = prepare_objects_sound [OF run(1)]
  have keys: "distinct (map fst pending)"
    using pend btm_wf_distinct [OF btm_group_wf, of "map (\<lambda>i. (li_object_id i, i)) inputs"] by (simp add: btm_keys_def)
  have com: "committed = map (\<lambda>(o', ps). (o', map (committed_range o') ps)) pending"
    using run(3) by (rule commit_objects_map)
  have "distinct (map fst committed)" using keys by (simp add: com case_prod_unfold comp_def)
  then have get: "btm_get (in_layer_ranges ing') object_id =
      (case map_option (map (committed_range object_id)) (map_of pending object_id) of
         None \<Rightarrow> btm_get (in_layer_ranges ing) object_id | Some rs \<Rightarrow> Some rs)"
    unfolding run(4) fold_btm_insert_get by (simp add: map_of_rev_distinct com map_of_map_values)
  have named: "map_of pending object_id = None \<longleftrightarrow> object_id \<notin> li_object_id ` set inputs"
  proof -
    have "map_of pending object_id = None \<longleftrightarrow> object_id \<notin> set (map fst ?groups)"
      using pend by (metis map_of_eq_None_iff list.set_map)
    also have "\<dots> \<longleftrightarrow> btm_get ?groups object_id = None" by (simp add: btm_get_None_iff btm_keys_def)
    finally show ?thesis by (auto simp: btm_group_get image_iff)
  qed
  show ?thesis
  proof (cases "map_of pending object_id")
    case None
    then show ?thesis using get named run(5) by (auto split: option.splits)
  next
    case (Some ps)
    then have mem: "(object_id, ps) \<in> set pending" by (rule map_of_SomeD)
    then have ps: "map pr_range_index ps = map of_nat [0 ..< length ps]"
        "list_all (\<lambda>p. range_sound (in_registry ing) object_id (committed_range object_id p)) ps"
      using pend by auto
    have idx: "map (layer_range_index \<circ> lr_scope) (map (committed_range object_id) ps) = map pr_range_index ps"
      by (simp add: committed_range_def layer_range_index_def)
    show ?thesis
      using get Some named run(5) ps idx committed_agree [OF overlaps_checked [OF run(2) mem] ps(2)]
      by (simp add: list.pred_map comp_def)
  qed
qed

definition sample_range_registry :: registry where
  "sample_range_registry =
     [(''k'', \<lparr>re_key = ''k'', re_type = ''string'', re_default = None, re_min = None, re_max = None, re_values = None,
        re_denied_scopes = [], re_selector = False, re_omit = False, re_base_key = None, re_host_meta = None,
        re_module_meta = None, re_provenance = []\<rparr>)]"

definition sample_range :: "u64 \<Rightarrow> u64 \<Rightarrow> layer_range_input" where
  "sample_range lo hi = \<lparr>li_object_id = ''o'', li_source_index = 0, li_min_z = lo, li_max_z = hi, li_values = [(''k'', ''x'')]\<rparr>"

definition sample_ranges_ingested :: "layer_range_load_error + ingestor" where
  "sample_ranges_ingested =
     ingest_layer_ranges \<lparr>tf_f64 = (\<lambda>_. []), tf_list = (\<lambda>_. [])\<rparr>
       [sample_range 0x4000000000000000 0x4010000000000000, sample_range 0x3FF0000000000000 0x4008000000000000]
       (with_mode sample_range_registry False)"

theorem ingested_ranges_sound_witness:
  "\<exists>ing'. sample_ranges_ingested = Inr ing' \<and>
     (\<exists>rs. btm_get (in_layer_ranges ing') ''o'' = Some rs \<and> ranges_agree rs)"
proof -
  have "\<not> isl sample_ranges_ingested" by code_simp
  then obtain ing' where run: "sample_ranges_ingested = Inr ing'" by (metis sum.collapse(2))
  then show ?thesis
    using ingested_ranges_sound [OF run [unfolded sample_ranges_ingested_def], of "''o''"]
    by (auto simp: sample_range_def split: option.splits)
qed

end
