(* ===== verification/LayerProfile.thy ===== *)
theory LayerProfile
  imports Resolution LayerRanges
begin

text \<open>
  Layer heights along an object, from \<^verbatim>\<open>crates/slicer-config/src/resolution.rs\<close>: the profile of
  height segments composed from the first layer, the authored layer ranges and the base height, the
  walk that turns a profile into layer tops, and the query for all objects of a plate with the shared
  raft offset.  The walk adds rounded floats and may not end, so it is a partial function.
\<close>

section \<open>Profiles\<close>

record height_profile_segment =
  hp_start :: u64
  hp_end :: u64
  hp_height :: u64

type_synonym height_profile = "height_profile_segment list"

definition validate_height :: "string \<Rightarrow> u64 \<Rightarrow> resolution_error + unit" where
  "validate_height object_id height =
     (if f64_is_finite height \<and> f64_lt 0 height then Inr ()
      else Inl (InvalidObjectHeight object_id (if f64_is_finite height then Some height else None)))"

definition f64_field :: "resolved_config \<Rightarrow> string \<Rightarrow> u64" where
  "f64_field rc f = (case get_field rc f of FF64 x \<Rightarrow> x | _ \<Rightarrow> f64_NAN)"

definition object_target :: "string \<Rightarrow> resolution_target" where
  "object_target object_id =
     \<lparr>rt_object_id = object_id, rt_modifier_ids = [], rt_paint_semantics = [], rt_tool_index = None, rt_layer_top_z = None\<rparr>"

text \<open>The ranges that state a layer height, as \<^verbatim>\<open>(min_z, max_z, index, height)\<close>, in authored order.\<close>

definition range_height :: "layer_config_range \<Rightarrow> (u64 \<times> u64 \<times> u32 \<times> u64) option" where
  "range_height r =
     (case btm_get (lr_delta r) ''layer_height'' of
        Some (CvFloat h) \<Rightarrow>
          if f64_is_finite h \<and> f64_lt 0 h
          then Some (lr_min_z r, lr_max_z r, layer_range_index (lr_scope r), h) else None
      | _ \<Rightarrow> None)"

definition profile_order :: "u64 \<times> u64 \<times> u32 \<times> u64 \<Rightarrow> int \<times> int \<times> u32" where
  "profile_order r = (case r of (min_z, max_z, i, _) \<Rightarrow> (f64_total_key min_z, f64_total_key max_z, i))"

definition height_ranges :: "scoped_config \<Rightarrow> string \<Rightarrow> (u64 \<times> u64 \<times> u32 \<times> u64) list" where
  "height_ranges sc object_id = sort_key profile_order (List.map_filter range_height (ranges_for sc object_id))"

fun retain_ranges :: "u64 \<Rightarrow> (u64 \<times> u64 \<times> u32 \<times> u64) list \<Rightarrow> height_profile \<Rightarrow> u64 \<Rightarrow> height_profile \<times> u64" where
  "retain_ranges raft_offset [] retained coverage_high = (retained, coverage_high)"
| "retain_ranges raft_offset ((min_z, max_z, _, height) # rest) retained coverage_high =
     (let min_z = f64_max (f64_sub min_z raft_offset) 0;
          max_z = f64_sub max_z raft_offset
      in if f64_le max_z 0 then retain_ranges raft_offset rest retained coverage_high
         else if f64_le max_z coverage_high then retain_ranges raft_offset rest retained coverage_high
         else retain_ranges raft_offset rest
                (retained @ [\<lparr>hp_start = f64_max min_z coverage_high, hp_end = max_z, hp_height = height\<rparr>]) max_z)"

definition push_profile_segment :: "height_profile \<Rightarrow> u64 \<Rightarrow> u64 \<Rightarrow> u64 \<Rightarrow> height_profile" where
  "push_profile_segment profile z_start z_end height =
     (if f64_le z_end z_start then profile
      else if profile \<noteq> [] \<and> f64_eq (hp_height (last profile)) height \<and> f64_eq (hp_end (last profile)) z_start
      then butlast profile @ [(last profile)\<lparr>hp_end := z_end\<rparr>]
      else profile @ [\<lparr>hp_start = z_start, hp_end = z_end, hp_height = height\<rparr>])"

fun fill_segments :: "u64 \<Rightarrow> height_profile \<Rightarrow> height_profile \<Rightarrow> u64 \<Rightarrow> height_profile \<times> u64" where
  "fill_segments base_height [] profile cursor = (profile, cursor)"
| "fill_segments base_height (segment # rest) profile cursor =
     (let profile = (if f64_lt cursor (hp_start segment)
                     then push_profile_segment profile cursor (hp_start segment) base_height else profile)
      in fill_segments base_height rest
           (push_profile_segment profile (hp_start segment) (hp_end segment) (hp_height segment)) (hp_end segment))"

definition fill_profile_gaps :: "height_profile \<Rightarrow> u64 \<Rightarrow> u64 \<Rightarrow> u64 \<Rightarrow> height_profile" where
  "fill_profile_gaps retained coverage_high object_height base_height =
     (let target = f64_max object_height coverage_high;
          (profile, cursor) = fill_segments base_height retained [] 0
      in if f64_lt cursor target then push_profile_segment profile cursor target base_height else profile)"

definition compose_profile :: "scoped_config \<Rightarrow> string \<Rightarrow> resolved_config \<Rightarrow> u64 \<Rightarrow> u64 \<Rightarrow> height_profile" where
  "compose_profile sc object_id config object_height raft_offset =
     (let first = f64_field config ''first_layer_height'';
          (retained, coverage_high) =
            retain_ranges raft_offset (height_ranges sc object_id)
              [\<lparr>hp_start = 0, hp_end = first, hp_height = first\<rparr>] first
      in fill_profile_gaps retained coverage_high object_height (f64_field config ''layer_height''))"

definition query_layer_height_profile :: "(string \<Rightarrow> string) \<Rightarrow> registry \<Rightarrow> scoped_config \<Rightarrow> string \<Rightarrow> u64 \<Rightarrow> u64
    \<Rightarrow> expansion_context \<Rightarrow> resolution_error + height_profile" where
  "query_layer_height_profile quote reg sc object_id object_height raft_offset ctx =
     (case validate_height object_id object_height of
        Inl e \<Rightarrow> Inl e
      | Inr _ \<Rightarrow>
     (case resolve_scope_stack quote reg sc (object_target object_id) ctx of
        Inl e \<Rightarrow> Inl e
      | Inr config \<Rightarrow>
     (case validate_height object_id (f64_field config ''layer_height'') of
        Inl e \<Rightarrow> Inl e
      | Inr _ \<Rightarrow>
     (case validate_height object_id (f64_field config ''first_layer_height'') of
        Inl e \<Rightarrow> Inl e
      | Inr _ \<Rightarrow> Inr (compose_profile sc object_id config object_height raft_offset)))))"

section \<open>Layer tops\<close>

definition TOP_TOLERANCE :: u64 where
  "TOP_TOLERANCE = 0x3E112E0BE826D695"

definition segment_at :: "height_profile \<Rightarrow> u64 \<Rightarrow> height_profile_segment option" where
  "segment_at segments probe = find (\<lambda>s. f64_le (hp_start s) probe \<and> f64_lt probe (hp_end s)) segments"

partial_function (option) layer_top_walk :: "height_profile \<Rightarrow> u64 \<Rightarrow> u64 \<Rightarrow> u64 list \<Rightarrow> u64 list option" where
  "layer_top_walk segments object_height z tops =
     (case segment_at segments (f64_add z TOP_TOLERANCE) of
        None \<Rightarrow> Some tops
      | Some segment \<Rightarrow>
          if f64_is_nan (hp_height segment) \<or> f64_le (hp_height segment) 0 then Some tops
          else let z = f64_add z (hp_height segment)
               in if f64_le z (f64_add object_height TOP_TOLERANCE)
                  then layer_top_walk segments object_height z (tops @ [z])
                  else Some tops)"

definition layer_top_zs :: "height_profile \<Rightarrow> u64 \<Rightarrow> u64 list option" where
  "layer_top_zs segments object_height = layer_top_walk segments object_height 0 []"

section \<open>The Z grid\<close>

record resolved_object_layer_config =
  ol_object_id :: string
  ol_object_height :: u64
  ol_layer_height :: u64
  ol_first_layer_height :: u64
  ol_support_raft_layers :: u32
  ol_layer_z_tops :: "u64 list"

definition support_raft_layers :: "resolved_config \<Rightarrow> resolution_error + u32" where
  "support_raft_layers config =
     (case btm_get (rc_extensions config) ''support_raft_layers'' of
        None \<Rightarrow> Inr 0
      | Some (CvInt i) \<Rightarrow>
          if 0 \<le> sint i \<and> sint i < 2 ^ 32 then Inr (of_int (sint i))
          else Inl (Application (OutOfRange ''support_raft_layers'' (f64_of_i64 i) (Some 0) (Some (f64_of_int (2 ^ 32 - 1))) None))
      | Some other \<Rightarrow> Inl (Application (TypeMismatch ''support_raft_layers'' ''Int'' (variant_name other))))"

fun check_object_heights :: "(string \<times> u64) list \<Rightarrow> resolution_error + unit" where
  "check_object_heights [] = Inr ()"
| "check_object_heights ((object_id, object_height) # rest) =
     (if \<not> f64_is_finite object_height \<or> f64_le object_height 0
      then Inl (InvalidObjectHeight object_id (if f64_is_finite object_height then Some object_height else None))
      else check_object_heights rest)"

definition object_config :: "(string \<Rightarrow> string) \<Rightarrow> registry \<Rightarrow> scoped_config \<Rightarrow> expansion_context \<Rightarrow> string \<times> u64
    \<Rightarrow> resolution_error + string \<times> u64 \<times> resolved_config \<times> u32" where
  "object_config quote reg sc ctx oh =
     (let (object_id, object_height) = oh
      in case resolve_scope_stack quote reg sc (object_target object_id) ctx of
           Inl e \<Rightarrow> Inl e
         | Inr config \<Rightarrow>
        (case support_raft_layers config of
           Inl e \<Rightarrow> Inl e
         | Inr raft \<Rightarrow>
        (case validate_height object_id (f64_field config ''layer_height'') of
           Inl e \<Rightarrow> Inl e
         | Inr _ \<Rightarrow>
        (case validate_height object_id (f64_field config ''first_layer_height'') of
           Inl e \<Rightarrow> Inl e
         | Inr _ \<Rightarrow> Inr (object_id, object_height, config, raft)))))"

fun object_configs :: "(string \<Rightarrow> string) \<Rightarrow> registry \<Rightarrow> scoped_config \<Rightarrow> expansion_context \<Rightarrow> (string \<times> u64) list
    \<Rightarrow> resolution_error + (string \<times> u64 \<times> resolved_config \<times> u32) list" where
  "object_configs quote reg sc ctx [] = Inr []"
| "object_configs quote reg sc ctx (oh # rest) =
     (case object_config quote reg sc ctx oh of
        Inl e \<Rightarrow> Inl e
      | Inr c \<Rightarrow> (case object_configs quote reg sc ctx rest of Inl e \<Rightarrow> Inl e | Inr cs \<Rightarrow> Inr (c # cs)))"

definition raft_top :: "resolved_config \<Rightarrow> u32 \<Rightarrow> u64" where
  "raft_top config raft =
     f64_add (f64_field config ''first_layer_height'')
       (f64_mul (f64_sub (f64_of_int (uint raft)) (f64_of_int 1)) (f64_field config ''layer_height''))"

definition shared_raft_offset :: "(string \<times> u64 \<times> resolved_config \<times> u32) list \<Rightarrow> u64" where
  "shared_raft_offset configs =
     fold (\<lambda>top acc. f64_max acc top)
       (map (\<lambda>(_, _, config, raft). raft_top config raft) (filter (\<lambda>(_, _, _, raft). 0 < raft) configs)) 0"

definition grid_row :: "(string \<Rightarrow> string) \<Rightarrow> registry \<Rightarrow> scoped_config \<Rightarrow> expansion_context \<Rightarrow> u64
    \<Rightarrow> string \<times> u64 \<times> resolved_config \<times> u32 \<Rightarrow> (resolution_error + resolved_object_layer_config) option" where
  "grid_row quote reg sc ctx raft_offset c =
     (let (object_id, object_height, config, raft) = c
      in case query_layer_height_profile quote reg sc object_id object_height raft_offset ctx of
           Inl e \<Rightarrow> Some (Inl e)
         | Inr profile \<Rightarrow>
             map_option (\<lambda>tops. Inr \<lparr>ol_object_id = object_id, ol_object_height = object_height,
                 ol_layer_height = f64_field config ''layer_height'',
                 ol_first_layer_height = f64_field config ''first_layer_height'',
                 ol_support_raft_layers = raft, ol_layer_z_tops = tops\<rparr>)
               (layer_top_zs profile object_height))"

fun grid_rows :: "(string \<Rightarrow> string) \<Rightarrow> registry \<Rightarrow> scoped_config \<Rightarrow> expansion_context \<Rightarrow> u64
    \<Rightarrow> (string \<times> u64 \<times> resolved_config \<times> u32) list \<Rightarrow> (resolution_error + resolved_object_layer_config list) option" where
  "grid_rows quote reg sc ctx raft_offset [] = Some (Inr [])"
| "grid_rows quote reg sc ctx raft_offset (c # rest) =
     (case grid_row quote reg sc ctx raft_offset c of
        None \<Rightarrow> None
      | Some (Inl e) \<Rightarrow> Some (Inl e)
      | Some (Inr r) \<Rightarrow> map_option (map_sum id ((#) r)) (grid_rows quote reg sc ctx raft_offset rest))"

definition query_z_grid :: "(string \<Rightarrow> string) \<Rightarrow> registry \<Rightarrow> scoped_config \<Rightarrow> (string, u64) btree_map \<Rightarrow> expansion_context
    \<Rightarrow> (resolution_error + resolved_object_layer_config list) option" where
  "query_z_grid quote reg sc object_heights ctx =
     (case check_object_heights object_heights of
        Inl e \<Rightarrow> Some (Inl e)
      | Inr _ \<Rightarrow>
     (case object_configs quote reg sc ctx object_heights of
        Inl e \<Rightarrow> Some (Inl e)
      | Inr configs \<Rightarrow> grid_rows quote reg sc ctx (shared_raft_offset configs) configs))"

section \<open>Tilings\<close>

text \<open>Segments that follow each other from \<open>a\<close> to \<open>b\<close>, without gaps (\<open>tiles\<close>) or with gaps (\<open>spaced\<close>).\<close>

fun tiles :: "u64 \<Rightarrow> height_profile \<Rightarrow> u64 \<Rightarrow> bool" where
  "tiles a [] b \<longleftrightarrow> f64_eq a b"
| "tiles a (s # ss) b \<longleftrightarrow> f64_eq a (hp_start s) \<and> f64_lt (hp_start s) (hp_end s) \<and> tiles (hp_end s) ss b"

fun spaced :: "u64 \<Rightarrow> height_profile \<Rightarrow> u64 \<Rightarrow> bool" where
  "spaced a [] b \<longleftrightarrow> f64_eq a b"
| "spaced a (s # ss) b \<longleftrightarrow> f64_le a (hp_start s) \<and> f64_le (hp_start s) (hp_end s) \<and> spaced (hp_end s) ss b"

definition height_at :: "height_profile \<Rightarrow> u64 \<Rightarrow> u64 option" where
  "height_at segments z = map_option hp_height (segment_at segments z)"

lemma height_at_Nil [simp]: "height_at [] z = None"
  by (simp add: height_at_def segment_at_def)

lemma height_at_Cons [simp]:
  "height_at (s # ss) z = (if f64_le (hp_start s) z \<and> f64_lt z (hp_end s) then Some (hp_height s) else height_at ss z)"
  by (simp add: height_at_def segment_at_def)

lemma height_at_append: "height_at (xs @ ys) z = (case height_at xs z of None \<Rightarrow> height_at ys z | Some h \<Rightarrow> Some h)"
  by (induction xs) auto

lemmas f64_order = f64_le_def f64_lt_def f64_eq_def

lemma spaced_numbers: "spaced a ss b \<Longrightarrow> \<not> f64_is_nan a \<and> \<not> f64_is_nan b \<and> f64_key a \<le> f64_key b"
  by (induction ss arbitrary: a) (force simp: f64_order)+

lemma tiles_spaced: "tiles a ss b \<Longrightarrow> spaced a ss b"
  by (induction ss arbitrary: a) (auto simp: f64_order)

lemma tiles_append: "tiles a xs b \<Longrightarrow> tiles b ys c \<Longrightarrow> tiles a (xs @ ys) c"
proof (induction xs arbitrary: a)
  case Nil
  then show ?case by (cases ys) (auto simp: f64_order)
qed auto

lemma spaced_append: "spaced a xs b \<Longrightarrow> spaced b ys c \<Longrightarrow> spaced a (xs @ ys) c"
proof (induction xs arbitrary: a)
  case Nil
  then show ?case by (cases ys) (auto simp: f64_order)
qed auto

lemma tiles_snoc: "tiles a (ss @ [s]) b \<longleftrightarrow> tiles a ss (hp_start s) \<and> f64_lt (hp_start s) (hp_end s) \<and> f64_eq (hp_end s) b"
  by (induction ss arbitrary: a) auto

lemma spaced_outside: "spaced a ss b \<Longrightarrow> f64_lt z a \<or> f64_le b z \<Longrightarrow> height_at ss z = None"
proof (induction ss arbitrary: a)
  case (Cons s ss)
  then have "f64_lt z (hp_end s) \<or> f64_le b z" and "\<not> (f64_le (hp_start s) z \<and> f64_lt z (hp_end s))"
    using spaced_numbers [of "hp_end s" ss b] by (auto simp: f64_order)
  then show ?case using Cons by auto
qed simp

lemma tiles_inside: "tiles a ss b \<Longrightarrow> f64_le a z \<Longrightarrow> f64_lt z b \<Longrightarrow> height_at ss z \<noteq> None"
proof (induction ss arbitrary: a)
  case (Cons s ss)
  then show ?case by (cases "f64_lt z (hp_end s)") (auto simp: f64_order)
qed (auto simp: f64_order)

section \<open>Filling the gaps\<close>

lemma f64_uint: "uint x = fp_with_sign 52 11 (f64_neg x) (f64_magnitude x)"
proof -
  have "0 \<le> uint x" "uint x < 2 ^ 64" using uint_lt2p [of x] by simp_all
  moreover have "uint x mod 2 ^ 63 = uint x - 2 ^ 63" if "2 ^ 63 \<le> uint x"
    using mod_pos_pos_trivial [of "uint x - 2 ^ 63" "2 ^ 63"] that calculation by (simp only: minus_mod_self2) simp
  ultimately show ?thesis by (simp add: fp_with_sign_def f64_neg_def f64_magnitude_def fp_neg_def fp_magnitude_def)
qed

lemma f64_eq_positive: "f64_eq x y \<Longrightarrow> f64_lt 0 x \<Longrightarrow> x = y"
proof -
  assume eq: "f64_eq x y" and pos: "f64_lt 0 x"
  have "f64_key 0 = 0" by (simp add: f64_key_def f64_magnitude_def fp_magnitude_def)
  then have "\<not> f64_neg x" "\<not> f64_neg y" "f64_magnitude x = f64_magnitude y"
    using eq pos f64_magnitude_range(1) [of x] f64_magnitude_range(1) [of y]
    by (auto simp: f64_order f64_key_def split: if_splits)
  then have "uint x = uint y" by (simp add: f64_uint)
  then show "x = y" by (rule word_uint_eqI)
qed

text \<open>A profile that tiles from 0 to \<open>c\<close> without equal neighbours, and whose height at a point is \<open>H\<close>.\<close>

definition profiled :: "height_profile \<Rightarrow> u64 \<Rightarrow> (u64 \<Rightarrow> u64) \<Rightarrow> bool" where
  "profiled p c H \<longleftrightarrow> tiles 0 p c \<and> successively (\<lambda>s t. hp_height s \<noteq> hp_height t) p \<and>
     (\<forall>s \<in> set p. f64_lt 0 (hp_height s)) \<and>
     (\<forall>z. f64_le 0 z \<and> f64_lt z c \<longrightarrow> height_at p z = Some (H z))"

lemma push_profiled_less:
  assumes p: "profiled p c H" and a: "f64_eq a c" and ab: "f64_lt a b" and h: "f64_lt 0 h"
  shows "profiled (push_profile_segment p a b h) b (\<lambda>z. if f64_lt z c then H z else h)"
proof -
  have t: "tiles 0 p c" and sep: "successively (\<lambda>s t. hp_height s \<noteq> hp_height t) p"
    and pos: "\<forall>s \<in> set p. f64_lt 0 (hp_height s)"
    and H: "f64_le 0 z \<Longrightarrow> f64_lt z c \<Longrightarrow> height_at p z = Some (H z)" for z
    using p by (auto simp: profiled_def)
  have nb: "\<not> f64_le b a" using ab by (auto simp: f64_order)
  show ?thesis
  proof (cases "p \<noteq> [] \<and> f64_eq (hp_height (last p)) h \<and> f64_eq (hp_end (last p)) a")
    case True
    define q where "q = butlast p"
    define l where "l = last p"
    have pq: "p = q @ [l]" using True by (simp add: q_def l_def)
    have lh: "hp_height l = h"
      using True pos f64_eq_positive [of "hp_height (last p)" h] by (simp add: l_def)
    have push: "push_profile_segment p a b h = q @ [l\<lparr>hp_end := b\<rparr>]"
      using True nb by (simp add: push_profile_segment_def q_def l_def)
    have tq: "tiles 0 q (hp_start l)" "f64_lt (hp_start l) (hp_end l)" "f64_eq (hp_end l) c"
      using t by (simp_all add: pq tiles_snoc)
    have nn: "\<not> f64_is_nan b" using ab by (simp add: f64_order)
    have "tiles 0 (q @ [l\<lparr>hp_end := b\<rparr>]) b"
      using tq a ab by (auto simp: tiles_snoc f64_order)
    moreover have "height_at (q @ [l\<lparr>hp_end := b\<rparr>]) z = Some (if f64_lt z c then H z else h)"
      if z: "f64_le 0 z" "f64_lt z b" for z
    proof (cases "f64_lt z c")
      case True
      then have "height_at (q @ [l]) z = Some (H z)" using H z by (simp add: pq)
      then show ?thesis using True z(2) tq(3) lh
        by (auto simp: height_at_append f64_order split: option.splits if_splits)
    next
      case False
      then have ge: "f64_le (hp_start l) z" using z tq by (auto simp: f64_order)
      then have "height_at q z = None" using spaced_outside [OF tiles_spaced [OF tq(1)]] by simp
      then show ?thesis using False z ge lh by (simp add: height_at_append)
    qed
    moreover have "successively (\<lambda>s t. hp_height s \<noteq> hp_height t) (q @ [l\<lparr>hp_end := b\<rparr>])"
      using sep by (auto simp: pq successively_append_iff)
    moreover have "\<forall>s \<in> set (q @ [l\<lparr>hp_end := b\<rparr>]). f64_lt 0 (hp_height s)" using pos by (auto simp: pq)
    ultimately show ?thesis unfolding push profiled_def by blast
  next
    case False
    let ?s = "\<lparr>hp_start = a, hp_end = b, hp_height = h\<rparr>"
    have push: "push_profile_segment p a b h = p @ [?s]"
      using False nb by (auto simp: push_profile_segment_def)
    have "tiles 0 (p @ [?s]) b"
      using tiles_append [OF t, of "[?s]" b] a ab by (auto simp: f64_order)
    moreover have "height_at (p @ [?s]) z = Some (if f64_lt z c then H z else h)"
      if z: "f64_le 0 z" "f64_lt z b" for z
    proof (cases "f64_lt z c")
      case True
      then show ?thesis using H z by (simp add: height_at_append)
    next
      case False
      then have "f64_le c z" "f64_le a z" using z a by (auto simp: f64_order)
      then show ?thesis using False z spaced_outside [OF tiles_spaced [OF t], of z] by (simp add: height_at_append)
    qed
    moreover have "successively (\<lambda>s t. hp_height s \<noteq> hp_height t) (p @ [?s])"
    proof (cases p rule: rev_cases)
      case (snoc q l)
      have "f64_eq (hp_end l) a" using t a by (auto simp: snoc tiles_snoc f64_order)
      then have "\<not> f64_eq (hp_height l) h" using False by (simp add: snoc)
      moreover have "f64_eq h h" using h by (simp add: f64_order)
      ultimately have "hp_height l \<noteq> h" by auto
      then show ?thesis using sep by (simp add: snoc successively_append_iff)
    qed simp
    moreover have "\<forall>s \<in> set (p @ [?s]). f64_lt 0 (hp_height s)" using pos h by simp
    ultimately show ?thesis unfolding push profiled_def by blast
  qed
qed

lemma tiles_end_eq: "tiles a ss b \<Longrightarrow> f64_eq b c \<Longrightarrow> tiles a ss c"
  by (induction ss arbitrary: a) (auto simp: f64_order)

lemma profiled_end_eq: "profiled p c H \<Longrightarrow> f64_eq c d \<Longrightarrow> profiled p d H"
  unfolding profiled_def by (auto intro: tiles_end_eq simp: f64_order)

lemma profiled_cong:
  "profiled p c H \<Longrightarrow> (\<And>z. f64_le 0 z \<Longrightarrow> f64_lt z c \<Longrightarrow> H z = H' z) \<Longrightarrow> profiled p c H'"
  unfolding profiled_def by simp

lemma push_profiled:
  assumes p: "profiled p c H" and a: "f64_eq a c" and ab: "f64_le a b" and h: "f64_lt 0 h"
  shows "profiled (push_profile_segment p a b h) b (\<lambda>z. if f64_lt z c then H z else h)"
proof (cases "f64_lt a b")
  case False
  then have "f64_eq c b" "push_profile_segment p a b h = p"
    using a ab by (auto simp: f64_order push_profile_segment_def)
  then show ?thesis using profiled_end_eq [OF p, of b]
    by (auto simp: f64_order intro: profiled_cong)
qed (rule push_profiled_less [OF p a _ h])

lemma fill_segments_profiled:
  assumes "profiled p c H" and "spaced c ss d" and "\<forall>s \<in> set ss. f64_lt 0 (hp_height s)" and "f64_lt 0 base"
  shows "\<exists>p' d'. fill_segments base ss p c = (p', d') \<and> f64_eq d' d \<and>
    profiled p' d' (\<lambda>z. if f64_lt z c then H z else case height_at ss z of Some h \<Rightarrow> h | None \<Rightarrow> base)"
  using assms
proof (induction ss arbitrary: p c H)
  case Nil
  have "profiled p c (\<lambda>z. if f64_lt z c then H z else case height_at [] z of Some h \<Rightarrow> h | None \<Rightarrow> base)"
    using Nil(1) by (rule profiled_cong) simp
  then show ?case using Nil(2) by simp
next
  case (Cons s ss)
  define G where "G = (\<lambda>z. if f64_lt z c then H z else base)"
  define p1 where "p1 = (if f64_lt c (hp_start s) then push_profile_segment p c (hp_start s) base else p)"
  have sp: "f64_le c (hp_start s)" "f64_le (hp_start s) (hp_end s)" "spaced (hp_end s) ss d" using Cons.prems(2) by simp_all
  have cc: "f64_eq c c" using sp by (simp add: f64_order)
  have p1: "\<exists>c1. f64_eq (hp_start s) c1 \<and> profiled p1 c1 G"
  proof (cases "f64_lt c (hp_start s)")
    case True
    then show ?thesis using push_profiled [OF Cons.prems(1) cc sp(1) Cons.prems(4)] sp(1)
      by (auto simp: p1_def G_def f64_order intro!: exI [of _ "hp_start s"])
  next
    case False
    have "profiled p c G" unfolding G_def using Cons.prems(1) by (rule profiled_cong) simp
    then show ?thesis using False sp by (auto simp: p1_def f64_order intro!: exI [of _ c])
  qed
  then obtain c1 where c1: "f64_eq (hp_start s) c1" "profiled p1 c1 G" by blast
  let ?p2 = "push_profile_segment p1 (hp_start s) (hp_end s) (hp_height s)"
  let ?G2 = "\<lambda>z. if f64_lt z c1 then G z else hp_height s"
  let ?F = "\<lambda>z. if f64_lt z (hp_end s) then ?G2 z else case height_at ss z of Some h \<Rightarrow> h | None \<Rightarrow> base"
  have "profiled ?p2 (hp_end s) ?G2" using Cons.prems(3) c1 sp(2) by (intro push_profiled) auto
  then obtain p' d' where run: "fill_segments base ss ?p2 (hp_end s) = (p', d')" "f64_eq d' d" "profiled p' d' ?F"
    using Cons.IH sp(3) Cons.prems(3,4) by (meson list.set_intros(2))
  have "?F z = (if f64_lt z c then H z else case height_at (s # ss) z of Some h \<Rightarrow> h | None \<Rightarrow> base)"
    if "f64_le 0 z" for z
    using that sp(1,2) c1(1) spaced_outside [OF sp(3), of z] by (auto simp: G_def f64_order)
  then have "profiled p' d' (\<lambda>z. if f64_lt z c then H z else case height_at (s # ss) z of Some h \<Rightarrow> h | None \<Rightarrow> base)"
    by (intro profiled_cong [OF run(3)]) simp
  then show ?case using run(1,2) by (simp add: p1_def Let_def)
qed

section \<open>Retaining ranges\<close>

definition shifted_covers :: "u64 \<Rightarrow> u64 \<Rightarrow> u64 \<times> u64 \<times> u32 \<times> u64 \<Rightarrow> bool" where
  "shifted_covers raft_offset z r =
     (case r of (min_z, max_z, _, _) \<Rightarrow>
        f64_le (f64_max (f64_sub min_z raft_offset) 0) z \<and> f64_lt z (f64_sub max_z raft_offset))"

definition range_start :: "u64 \<Rightarrow> u64 \<times> u64 \<times> u32 \<times> u64 \<Rightarrow> u64" where
  "range_start raft_offset r = f64_max (f64_sub (fst r) raft_offset) 0"

definition range_end :: "u64 \<Rightarrow> u64 \<times> u64 \<times> u32 \<times> u64 \<Rightarrow> u64" where
  "range_end raft_offset r = f64_sub (fst (snd r)) raft_offset"

definition range_value :: "u64 \<times> u64 \<times> u32 \<times> u64 \<Rightarrow> u64" where
  "range_value r = snd (snd (snd r))"

lemma shifted_covers_iff: "shifted_covers raft z r \<longleftrightarrow> f64_le (range_start raft r) z \<and> f64_lt z (range_end raft r)"
  by (simp add: shifted_covers_def range_start_def range_end_def split: prod.splits)

lemma f64_0_number [simp]: "\<not> f64_is_nan 0"
  by (simp add: f64_is_nan_def f64_magnitude_def fp_magnitude_def fp_inf_def)

lemma retain_ranges_spec:
  assumes "spaced 0 retained cov" and "sorted_wrt (\<lambda>r r'. f64_le (range_start raft r) (range_start raft r')) rs"
    and "\<forall>r \<in> set rs. f64_le (range_start raft r) (range_end raft r) \<or>
      \<not> f64_is_nan (range_start raft r) \<and> f64_le (range_end raft r) 0"
    and "retain_ranges raft rs retained cov = (R, d)"
  shows "spaced 0 R d \<and> d \<in> insert cov (range_end raft ` set rs) \<and> f64_le cov d \<and>
    hp_height ` set R \<subseteq> hp_height ` set retained \<union> range_value ` set rs \<and>
    (\<forall>z. f64_le 0 z \<longrightarrow> height_at R z =
      (if f64_lt z cov then height_at retained z else map_option range_value (find (shifted_covers raft z) rs)))"
  using assms
proof (induction rs arbitrary: retained cov)
  case Nil
  then have "R = retained" "d = cov" by simp_all
  moreover have "height_at retained z = None" if "f64_le 0 z" "\<not> f64_lt z cov" for z
    using that spaced_outside [OF Nil(1), of z] spaced_numbers [OF Nil(1)] by (auto simp: f64_order)
  ultimately show ?case using Nil(1) spaced_numbers [OF Nil(1)] by (auto simp: f64_order)
next
  case (Cons r rs)
  obtain mn mx i h where r: "r = (mn, mx, i, h)" by (cases r)
  let ?mn = "range_start raft r" and ?mx = "range_end raft r"
  have nn: "\<not> f64_is_nan ?mn" "\<not> f64_is_nan ?mx" "\<not> f64_is_nan cov" "f64_le 0 cov"
    using Cons.prems(3) spaced_numbers [OF Cons.prems(1)] by (auto simp: f64_order)
  have rest: "sorted_wrt (\<lambda>r r'. f64_le (range_start raft r) (range_start raft r')) rs"
    "\<forall>r \<in> set rs. f64_le (range_start raft r) (range_end raft r) \<or>
      \<not> f64_is_nan (range_start raft r) \<and> f64_le (range_end raft r) 0"
    using Cons.prems(2,3) by simp_all
  show ?case
  proof (cases "f64_le ?mx 0 \<or> f64_le ?mx cov")
    case True
    then have "retain_ranges raft rs retained cov = (R, d)"
      using Cons.prems(4) by (auto simp: r range_end_def Let_def split: if_splits)
    note IH = Cons.IH [OF Cons.prems(1) rest this]
    have "\<not> shifted_covers raft z r" if "f64_le 0 z" "\<not> f64_lt z cov" for z
      using True that nn by (auto simp: shifted_covers_iff f64_order)
    then show ?thesis using IH by auto
  next
    case False
    let ?s = "\<lparr>hp_start = f64_max ?mn cov, hp_end = ?mx, hp_height = h\<rparr>"
    have run: "retain_ranges raft rs (retained @ [?s]) ?mx = (R, d)"
      using Cons.prems(4) False by (simp add: r range_end_def range_start_def Let_def)
    have le: "f64_le ?mn ?mx" "f64_lt cov ?mx" using False Cons.prems(3) nn by (auto simp: f64_order)
    have st: "f64_le cov (f64_max ?mn cov)" "f64_le (f64_max ?mn cov) ?mx"
      using le nn by (auto simp: f64_max_def f64_order)
    have start: "f64_le (f64_max ?mn cov) z \<longleftrightarrow> f64_le ?mn z \<and> f64_le cov z" for z
      using nn by (auto simp: f64_max_def f64_order)
    have sp: "spaced 0 (retained @ [?s]) ?mx"
      using st nn by (intro spaced_append [OF Cons.prems(1)]) (simp add: f64_order)
    note IH = Cons.IH [OF sp rest run]
    have later: "find (shifted_covers raft z) rs = None" if "f64_lt z ?mn" for z
      using Cons.prems(2) that by (fastforce simp: find_None_iff shifted_covers_iff f64_order)
    have "height_at R z = (if f64_lt z cov then height_at retained z
        else map_option range_value (find (shifted_covers raft z) (r # rs)))" if z: "f64_le 0 z" for z
    proof -
      have zn: "\<not> f64_is_nan z" using z by (simp add: f64_order)
      consider "f64_lt z cov" | "f64_le cov z" "f64_lt z ?mx" | "f64_le ?mx z"
        using nn zn by (cases "f64_key z < f64_key cov"; cases "f64_key z < f64_key ?mx") (auto simp: f64_order)
      then show ?thesis
      proof cases
        case 1
        then have "f64_lt z ?mx" "\<not> f64_le cov z" using le(2) by (auto simp: f64_order)
        then show ?thesis using IH z 1 start [of z] by (simp add: height_at_append split: option.splits)
      next
        case 2
        then have "height_at retained z = None" using spaced_outside [OF Cons.prems(1)] by simp
        moreover have "f64_lt z ?mn" if "\<not> f64_le ?mn z" using that nn zn by (auto simp: f64_order)
        ultimately show ?thesis using IH z 2 start [of z] later [of z] nn
          by (auto simp: height_at_append shifted_covers_iff range_value_def r f64_order)
      next
        case 3
        then have "\<not> f64_lt z ?mx" "\<not> f64_lt z cov" using le(2) by (auto simp: f64_order)
        then show ?thesis using IH z by (simp add: shifted_covers_iff)
      qed
    qed
    moreover have "f64_le cov d" using IH le(2) by (auto simp: f64_order)
    ultimately show ?thesis using IH by (auto simp: range_value_def r)
  qed
qed

section \<open>Shifting ranges\<close>

lemma f64_sub_number: "f64_is_finite x \<Longrightarrow> \<not> f64_is_nan y \<Longrightarrow> \<not> f64_is_nan (f64_sub x y)"
proof (cases "f64_is_finite y")
  case True
  then show "f64_is_finite x \<Longrightarrow> ?thesis" by (simp add: f64_sub_def f64_add_parts f64_negate_parts)
next
  case False
  assume "f64_is_finite x" "\<not> f64_is_nan y"
  then have "f64_sub x y = f64_negate y" using False
    by (simp add: f64_sub_def f64_add_def f64_finite_not_nan f64_negate_parts)
  then show ?thesis using \<open>\<not> f64_is_nan y\<close> by (simp add: f64_negate_parts)
qed

lemma f64_sub_mono:
  assumes "f64_is_finite x" "f64_is_finite x'" "\<not> f64_is_nan y" "f64_le x x'"
  shows "f64_le (f64_sub x y) (f64_sub x' y)"
proof (cases "f64_is_finite y")
  case True
  have "f64_nearest (f64_value x - f64_value y) \<le> f64_nearest (f64_value x' - f64_value y)"
    using assms by (intro f64_nearest_mono) (simp add: f64_le_value)
  then show ?thesis using assms True
    by (simp add: f64_le_def f64_sub_number f64_sub_def f64_add_parts f64_negate_parts)
next
  case False
  then have "f64_sub x y = f64_sub x' y" using assms
    by (simp add: f64_sub_def f64_add_def f64_finite_not_nan f64_negate_parts)
  then show ?thesis using assms by (simp add: f64_le_refl f64_sub_number)
qed

lemma f64_max_mono: "f64_le x x' \<Longrightarrow> \<not> f64_is_nan y \<Longrightarrow> f64_le (f64_max x y) (f64_max x' y)"
  by (auto simp: f64_max_def f64_order)

lemma f64_total_key_le:
  assumes "f64_total_key x \<le> f64_total_key y" "f64_is_finite x" "f64_is_finite y"
  shows "f64_le x y"
  using assms f64_magnitude_range(1) [of x] f64_magnitude_range(1) [of y]
  by (auto simp: f64_le_def f64_finite_not_nan f64_total_key_def f64_key_def split: if_splits)

definition valid_ranges :: "layer_config_range list \<Rightarrow> bool" where
  "valid_ranges rs \<longleftrightarrow> list_all (\<lambda>r. valid_layer_range_interval (lr_min_z r) (lr_max_z r)) rs"

lemma range_height_Some:
  "range_height q = Some r \<Longrightarrow> fst r = lr_min_z q \<and> fst (snd r) = lr_max_z q \<and> f64_lt 0 (range_value r)"
  unfolding range_height_def range_value_def by (auto split: option.splits config_value.splits if_splits)

lemma height_ranges_valid:
  assumes "valid_ranges (ranges_for sc object_id)" and "r \<in> set (height_ranges sc object_id)"
  shows "valid_layer_range_interval (fst r) (fst (snd r))" and "f64_lt 0 (range_value r)"
proof -
  obtain q where q: "q \<in> set (ranges_for sc object_id)" "range_height q = Some r"
    using assms(2) by (auto simp: height_ranges_def map_filter_def)
  then show "valid_layer_range_interval (fst r) (fst (snd r))" and "f64_lt 0 (range_value r)"
    using range_height_Some [OF q(2)] assms(1) by (auto simp: valid_ranges_def list_all_iff)
qed

lemma valid_shift:
  assumes "valid_layer_range_interval (fst r) (fst (snd r))" and "\<not> f64_is_nan raft"
  shows "f64_le (range_start raft r) (range_end raft r) \<or>
    \<not> f64_is_nan (range_start raft r) \<and> f64_le (range_end raft r) 0"
proof -
  have f: "f64_is_finite (fst r)" "f64_is_finite (fst (snd r))" "f64_le (fst r) (fst (snd r))"
    using assms(1) by (auto simp: valid_layer_range_interval_def f64_order)
  note m = f64_sub_mono [OF f(1,2) assms(2) f(3)] and n = f64_sub_number [OF f(2) assms(2)]
  show ?thesis using m n by (auto simp: range_start_def range_end_def f64_max_def f64_order)
qed

lemma height_ranges_sorted:
  assumes "valid_ranges (ranges_for sc object_id)" and "\<not> f64_is_nan raft"
  shows "sorted_wrt (\<lambda>r r'. f64_le (range_start raft r) (range_start raft r')) (height_ranges sc object_id)"
proof -
  have "sorted_wrt (\<lambda>r r'. profile_order r \<le> profile_order r') (height_ranges sc object_id)"
    using sorted_sort_key [of profile_order] unfolding height_ranges_def sorted_map .
  then show ?thesis
  proof (rule sorted_wrt_mono_rel [rotated])
    fix r r' assume mem: "r \<in> set (height_ranges sc object_id)" "r' \<in> set (height_ranges sc object_id)"
      and "profile_order r \<le> profile_order r'"
    then have "f64_total_key (fst r) \<le> f64_total_key (fst r')"
      by (auto simp: profile_order_def less_eq_prod_def split: prod.splits)
    moreover have "f64_is_finite (fst r)" "f64_is_finite (fst r')"
      using height_ranges_valid(1) [OF assms(1)] mem by (auto simp: valid_layer_range_interval_def)
    ultimately show "f64_le (range_start raft r) (range_start raft r')"
      unfolding range_start_def using assms(2) by (intro f64_max_mono f64_sub_mono f64_total_key_le) auto
  qed
qed

section \<open>The composed profile\<close>

text \<open>The height scheduled at \<open>z\<close>: the first layer's below its top, then that of the first covering range
  in authored order, and the base height where no range covers.\<close>

definition scheduled_height :: "scoped_config \<Rightarrow> string \<Rightarrow> resolved_config \<Rightarrow> u64 \<Rightarrow> u64 \<Rightarrow> u64" where
  "scheduled_height sc object_id config raft_offset z =
     (if f64_lt z (f64_field config ''first_layer_height'') then f64_field config ''first_layer_height''
      else case find (shifted_covers raft_offset z) (height_ranges sc object_id) of
             Some (_, _, _, height) \<Rightarrow> height
           | None \<Rightarrow> f64_field config ''layer_height'')"

lemma compose_profile_profiled:
  assumes "valid_ranges (ranges_for sc object_id)" and raft: "\<not> f64_is_nan raft"
    and first: "f64_lt 0 (f64_field config ''first_layer_height'')"
    and base: "f64_lt 0 (f64_field config ''layer_height'')" and oh: "\<not> f64_is_nan object_height"
  shows "\<exists>top. profiled (compose_profile sc object_id config object_height raft) top
      (scheduled_height sc object_id config raft) \<and> f64_le object_height top \<and>
    (f64_eq top object_height \<or> f64_eq top (f64_field config ''first_layer_height'') \<or>
     (\<exists>r \<in> set (height_ranges sc object_id). f64_eq top (range_end raft r)))"
proof -
  let ?f = "f64_field config ''first_layer_height''" and ?b = "f64_field config ''layer_height''"
  let ?s = "\<lparr>hp_start = 0, hp_end = ?f, hp_height = ?f\<rparr>" and ?rs = "height_ranges sc object_id"
  obtain R d where run: "retain_ranges raft ?rs [?s] ?f = (R, d)" by (cases "retain_ranges raft ?rs [?s] ?f")
  have "spaced 0 [?s] ?f" using first by (auto simp: f64_order)
  moreover have "\<forall>r \<in> set ?rs. f64_le (range_start raft r) (range_end raft r) \<or>
      \<not> f64_is_nan (range_start raft r) \<and> f64_le (range_end raft r) 0"
    using valid_shift [OF height_ranges_valid(1) [OF assms(1)] raft] by blast
  ultimately have spec: "spaced 0 R d \<and> d \<in> insert ?f (range_end raft ` set ?rs) \<and> f64_le ?f d \<and>
      hp_height ` set R \<subseteq> hp_height ` set [?s] \<union> range_value ` set ?rs \<and>
      (\<forall>z. f64_le 0 z \<longrightarrow> height_at R z =
        (if f64_lt z ?f then height_at [?s] z else map_option range_value (find (shifted_covers raft z) ?rs)))"
    using retain_ranges_spec [OF _ height_ranges_sorted [OF assms(1) raft] _ run] by blast
  have R: "spaced 0 R d" "d \<in> insert ?f (range_end raft ` set ?rs)"
    "hp_height ` set R \<subseteq> {?f} \<union> range_value ` set ?rs"
    "\<And>z. f64_le 0 z \<Longrightarrow> height_at R z = (if f64_lt z ?f then height_at [?s] z
       else map_option range_value (find (shifted_covers raft z) ?rs))"
    using spec by (blast, blast, simp, blast)
  have pos: "\<forall>s \<in> set R. f64_lt 0 (hp_height s)"
  proof
    fix s assume "s \<in> set R"
    then have "hp_height s \<in> {?f} \<union> range_value ` set ?rs" using R(3) by blast
    then show "f64_lt 0 (hp_height s)" using first height_ranges_valid(2) [OF assms(1)] by auto
  qed
  have start: "profiled [] 0 (\<lambda>_. ?b)" by (auto simp: profiled_def f64_order)
  obtain p c where fill: "fill_segments ?b R [] 0 = (p, c)" "f64_eq c d"
    and p: "profiled p c (\<lambda>z. if f64_lt z 0 then ?b else case height_at R z of Some h \<Rightarrow> h | None \<Rightarrow> ?b)"
    using fill_segments_profiled [OF start R(1) pos base] by blast
  have H: "(if f64_lt z 0 then ?b else case height_at R z of Some h \<Rightarrow> h | None \<Rightarrow> ?b) =
      scheduled_height sc object_id config raft z" if "f64_le 0 z" for z
    using that R(4) [OF that] unfolding scheduled_height_def range_value_def
    by (auto simp: f64_order split: option.splits prod.splits)
  have H2: "scheduled_height sc object_id config raft z = ?b" if z: "f64_le 0 z" "\<not> f64_lt z c" for z
  proof -
    have "f64_le d z" using z fill(2) by (auto simp: f64_order)
    then have "height_at R z = None" using spaced_outside [OF R(1)] by simp
    then show ?thesis using H [OF z(1)] z(1) by (auto simp: f64_order)
  qed
  have p': "profiled p c (scheduled_height sc object_id config raft)" using H by (intro profiled_cong [OF p])
  let ?t = "f64_max object_height d"
  have t: "f64_le object_height ?t" "f64_le d ?t" using oh fill(2) by (auto simp: f64_max_def f64_order)
  have top: "f64_eq ?t object_height \<or> f64_eq ?t ?f \<or> (\<exists>r \<in> set ?rs. f64_eq ?t (range_end raft r))"
    using R(2) f64_max_cases [of object_height d] t by (auto simp: f64_order)
  have comp: "compose_profile sc object_id config object_height raft =
      (if f64_lt c ?t then push_profile_segment p c ?t ?b else p)"
    by (simp add: compose_profile_def fill_profile_gaps_def run fill)
  show ?thesis
  proof (cases "f64_lt c ?t")
    case True
    have "f64_eq c c" "f64_le c ?t" using True by (auto simp: f64_order)
    note push_profiled [OF p' this base]
    then have "profiled (push_profile_segment p c ?t ?b) ?t (scheduled_height sc object_id config raft)"
      by (rule profiled_cong) (simp add: H2)
    then show ?thesis using t top True comp by (intro exI [of _ ?t]) simp
  next
    case False
    then have "f64_eq c ?t" using fill(2) t by (auto simp: f64_order)
    then show ?thesis using profiled_end_eq [OF p'] t top False comp by (intro exI [of _ ?t]) simp
  qed
qed

section \<open>The walk over a profile\<close>

text \<open>The schedules of a profile from a top \<open>z\<close>: each next top adds the height of the segment just above,
  and the schedule ends outside the profile, at a segment without height, or past the object's top.\<close>

definition next_top :: "height_profile \<Rightarrow> u64 \<Rightarrow> u64 \<Rightarrow> u64 option" where
  "next_top segments object_height z =
     (case segment_at segments (f64_add z TOP_TOLERANCE) of
        None \<Rightarrow> None
      | Some s \<Rightarrow> if f64_lt 0 (hp_height s) \<and> f64_le (f64_add z (hp_height s)) (f64_add object_height TOP_TOLERANCE)
                  then Some (f64_add z (hp_height s)) else None)"

fun schedule :: "height_profile \<Rightarrow> u64 \<Rightarrow> u64 \<Rightarrow> u64 list \<Rightarrow> bool" where
  "schedule segments object_height z [] \<longleftrightarrow> next_top segments object_height z = None"
| "schedule segments object_height z (t # ts) \<longleftrightarrow>
     next_top segments object_height z = Some t \<and> schedule segments object_height t ts"

lemma layer_top_walk_step:
  "layer_top_walk segments object_height z tops =
     (case next_top segments object_height z of
        None \<Rightarrow> Some tops
      | Some t \<Rightarrow> layer_top_walk segments object_height t (tops @ [t]))"
  by (subst layer_top_walk.simps) (auto simp: next_top_def f64_order Let_def split: option.splits)

lemma layer_top_walk_schedule:
  "layer_top_walk segments object_height z tops = Some r \<Longrightarrow> \<exists>ts. r = tops @ ts \<and> schedule segments object_height z ts"
proof (rule layer_top_walk.raw_induct [where P = "\<lambda>segments object_height z tops r.
    \<exists>ts. r = tops @ ts \<and> schedule segments object_height z ts"])
  fix walk segments object_height z tops r
  assume IH: "\<And>segments object_height z tops r. walk segments object_height z tops = Some r \<Longrightarrow>
      \<exists>ts. r = tops @ ts \<and> schedule segments object_height z ts"
  assume "(case segment_at segments (f64_add z TOP_TOLERANCE) of
        None \<Rightarrow> Some tops
      | Some segment \<Rightarrow>
          if f64_is_nan (hp_height segment) \<or> f64_le (hp_height segment) 0 then Some tops
          else let z = f64_add z (hp_height segment)
               in if f64_le z (f64_add object_height TOP_TOLERANCE)
                  then walk segments object_height z (tops @ [z]) else Some tops) = Some r"
  then have step: "(case next_top segments object_height z of None \<Rightarrow> Some tops
      | Some t \<Rightarrow> walk segments object_height t (tops @ [t])) = Some r"
    by (auto simp: next_top_def f64_order Let_def split: option.splits if_splits)
  show "\<exists>ts. r = tops @ ts \<and> schedule segments object_height z ts"
  proof (cases "next_top segments object_height z")
    case None
    then show ?thesis using step by (intro exI [of _ "[]"]) simp
  next
    case (Some t)
    then have "walk segments object_height t (tops @ [t]) = Some r" using step by simp
    then obtain ts where "r = (tops @ [t]) @ ts" "schedule segments object_height t ts" using IH by blast
    then show ?thesis using Some by (intro exI [of _ "t # ts"]) simp
  qed
qed

lemma schedule_layer_top_walk:
  "schedule segments object_height z ts \<Longrightarrow> layer_top_walk segments object_height z tops = Some (tops @ ts)"
proof (induction ts arbitrary: z tops)
  case Nil
  then show ?case by (subst layer_top_walk_step) simp
next
  case (Cons t ts)
  then show ?case by (subst layer_top_walk_step) simp
qed

lemma layer_top_zs_iff: "layer_top_zs segments object_height = Some tops \<longleftrightarrow> schedule segments object_height 0 tops"
  using layer_top_walk_schedule [of segments object_height 0 "[]" tops]
    schedule_layer_top_walk [of segments object_height 0 tops "[]"]
  by (auto simp: layer_top_zs_def)

text \<open>A top that its own height does not move has no schedule at all.\<close>

lemma stuck_no_schedule: "next_top segments object_height z = Some z \<Longrightarrow> \<not> schedule segments object_height z ts"
  by (induction ts) auto

lemma f64_add_nonneg:
  assumes "f64_le 0 z" and "f64_lt 0 h"
  shows "f64_le z (f64_add z h)"
proof -
  have k0: "f64_key 0 = 0" by (simp add: f64_key_def f64_magnitude_def fp_magnitude_def)
  have n: "\<not> f64_is_nan z" "\<not> f64_is_nan h" using assms by (auto simp: f64_order)
  have h: "\<not> f64_neg h" "f64_key h = f64_magnitude h"
    using assms(2) k0 f64_magnitude_range(1) [of h] by (auto simp: f64_order f64_key_def split: if_splits)
  have z: "f64_key z = f64_magnitude z"
    using assms(1) k0 f64_magnitude_range(1) [of z] by (auto simp: f64_order f64_key_def split: if_splits)
  consider "f64_is_finite z" "f64_is_finite h" | "\<not> f64_is_finite z" | "f64_is_finite z" "\<not> f64_is_finite h" by blast
  then show ?thesis
  proof cases
    case 1
    then show ?thesis using assms(2) by (intro f64_add_ge) (auto simp: f64_order)
  next
    case 2
    have "\<not> f64_neg z" using 2 assms(1) k0 f64_magnitude_range(1) [of z] z
      by (auto simp: f64_is_finite_def f64_key_def fp_inf_def)
    then show ?thesis using 2 n h by (simp add: f64_add_def f64_le_refl)
  next
    case 3
    then have "f64_add z h = h" using n by (simp add: f64_add_def)
    then show ?thesis using 3 n z h by (simp add: f64_le_def f64_is_finite_def)
  qed
qed

lemma next_top_le: "f64_le 0 z \<Longrightarrow> next_top segments object_height z = Some t \<Longrightarrow> f64_le z t"
  using f64_add_nonneg [of z] by (auto simp: next_top_def split: option.splits if_splits)

lemma next_top_positive: "f64_le 0 z \<Longrightarrow> next_top segments object_height z = Some t \<Longrightarrow> z = 0 \<Longrightarrow> f64_lt 0 t"
proof -
  assume z: "z = 0" and t: "next_top segments object_height z = Some t"
  then obtain h where h: "f64_lt 0 h" "t = f64_add 0 h" by (auto simp: next_top_def split: option.splits if_splits)
  have fin: "f64_is_finite 0" "f64_value 0 = 0"
    by (simp_all add: f64_is_finite_def f64_magnitude_def fp_magnitude_def fp_inf_def f64_value_def)
  show "f64_lt 0 t"
  proof (cases "f64_is_finite h")
    case True
    then show ?thesis using h fin by (simp add: f64_lt_def f64_add_parts f64_nearest_value)
  next
    case False
    then show ?thesis using h fin by (auto simp: f64_add_def f64_order)
  qed
qed

lemma schedule_increasing:
  assumes "schedule segments object_height z ts" and "f64_lt 0 z \<or> z = 0"
  shows "sorted_wrt f64_lt (z # ts) \<and> list_all (\<lambda>t. f64_le t (f64_add object_height TOP_TOLERANCE)) ts"
  using assms
proof (induction ts arbitrary: z)
  case (Cons t ts)
  have z: "f64_le 0 z" using Cons.prems(2) by (auto simp: f64_order)
  have nt: "next_top segments object_height z = Some t" "schedule segments object_height t ts" using Cons.prems(1) by simp_all
  have lt: "f64_lt z t"
  proof (cases "f64_lt z t")
    case False
    then have eq: "f64_eq z t" using next_top_le [OF z nt(1)] by (auto simp: f64_order)
    moreover have "f64_lt 0 z" using Cons.prems(2) next_top_positive [OF z nt(1)] eq by (auto simp: f64_order)
    ultimately have "z = t" by (rule f64_eq_positive)
    then show ?thesis using stuck_no_schedule [of segments object_height z ts] nt by simp
  qed
  then have "f64_lt 0 t" using z by (auto simp: f64_order)
  then have IH: "sorted_wrt f64_lt (t # ts)" "list_all (\<lambda>t. f64_le t (f64_add object_height TOP_TOLERANCE)) ts"
    using Cons.IH [OF nt(2)] by simp_all
  then have "\<forall>u \<in> set ts. f64_lt z u" using lt by (auto simp: f64_order)
  moreover have "f64_le t (f64_add object_height TOP_TOLERANCE)"
    using nt(1) by (auto simp: next_top_def split: option.splits if_splits)
  ultimately show ?case using IH lt by simp
qed simp

section \<open>Termination of the walk\<close>

lemma schedule_exists:
  assumes moves: "\<And>z t. f64_le 0 z \<Longrightarrow> next_top segments object_height z = Some t \<Longrightarrow> f64_lt z t"
  shows "f64_le 0 z \<Longrightarrow> \<exists>ts. schedule segments object_height z ts"
proof (induction "nat (f64_key (f64_add object_height TOP_TOLERANCE) - f64_key z)" arbitrary: z rule: less_induct)
  case less
  show ?case
  proof (cases "next_top segments object_height z")
    case None
    then show ?thesis by (intro exI [of _ "[]"]) simp
  next
    case (Some t)
    have zt: "f64_lt z t" using moves less.prems Some by blast
    have "f64_le t (f64_add object_height TOP_TOLERANCE)"
      using Some by (auto simp: next_top_def split: option.splits if_splits)
    then have "nat (f64_key (f64_add object_height TOP_TOLERANCE) - f64_key t) <
        nat (f64_key (f64_add object_height TOP_TOLERANCE) - f64_key z)"
      using zt by (auto simp: f64_order)
    moreover have "f64_le 0 t" using less.prems zt by (auto simp: f64_order)
    ultimately obtain ts where "schedule segments object_height t ts" using less.hyps by blast
    then show ?thesis using Some by (intro exI [of _ "t # ts"]) simp
  qed
qed

lemma f64_add_moves:
  assumes "f64_le 0 z" and "f64_le z 0x4140000000000000" and h: "f64_le 0x3EB0000000000000 h"
  shows "f64_lt z (f64_add z h)"
proof -
  have keys: "f64_key 0x4140000000000000 = 0x4140000000000000" "f64_key 0x3EB0000000000000 = 0x3EB0000000000000"
    by code_simp+
  have hf: "f64_is_finite 0x3EB0000000000000" by code_simp
  have hv: "f64_value 0x3EB0000000000000 = 2 powi (- 20)"
  proof -
    have "f64_neg 0x3EB0000000000000 = False" "f64_magnitude 0x3EB0000000000000 = 0x3EB0000000000000" by code_simp+
    then show ?thesis by (simp add: f64_value_def fp_value_eq fp_significand_def fp_emin_def power_int_def power_one_over)
  qed
  note zk = f64_nonneg_key [OF assms(1)]
  have zm: "f64_magnitude z \<le> 0x4140000000000000" using assms(2) zk by (simp add: f64_le_def keys)
  have zf: "f64_is_finite z" using zm by (simp add: f64_is_finite_def fp_inf_def)
  show ?thesis
  proof (cases "f64_is_finite h")
    case True
    let ?m = "f64_magnitude z"
    have "f64_magnitude z div 2 ^ 52 \<le> 0x4140000000000000 div 2 ^ 52" using zm by (rule zdiv_mono1) simp
    then have "max 1 (?m div 2 ^ 52) - 1 + fp_emin 11 - 52 \<le> - 31" by (simp add: fp_emin_def)
    then have "(2::real) powi (max 1 (?m div 2 ^ 52) - 1 + fp_emin 11 - 52) \<le> 2 powi (- 31)" unfolding powi_le_iff .
    moreover have "f64_value 0x3EB0000000000000 \<le> f64_value h"
      using h True by (subst f64_le_value [symmetric]) (simp_all add: hf)
    moreover have "(2::real) powi (- 31) \<le> 2 powi (- 20)" unfolding powi_le_iff by simp
    moreover note hv
    ultimately have "fp_value 52 11 (?m + 1) \<le> f64_value z + f64_value h"
      using fp_value_succ [of ?m 52 11] f64_magnitude_range(1) [of z] f64_nonneg_value [OF assms(1)] by simp
    then have "fp_nearest 52 11 (fp_value 52 11 (?m + 1)) \<le> fp_nearest 52 11 (f64_value z + f64_value h)"
      by (rule fp_nearest_mono)
    moreover have "fp_nearest 52 11 (fp_value 52 11 (?m + 1)) = ?m + 1"
      using f64_magnitude_range(1) [of z] zm by (intro fp_nearest_value) (simp_all add: fp_inf_def)
    ultimately have "f64_key z < fp_nearest 52 11 (f64_value z + f64_value h)" using zk by simp
    moreover have "0 \<le> f64_value z + f64_value h"
      using f64_nonneg_value [OF assms(1)] hv \<open>f64_value 0x3EB0000000000000 \<le> f64_value h\<close>
      by (smt (verit) fp_value_nonneg zero_less_power_int)
    ultimately show ?thesis
      using zf True by (simp add: f64_lt_def f64_add_parts f64_finite_not_nan f64_nearest_def)
  next
    case False
    have hn: "\<not> f64_is_nan h" using h by (simp add: f64_order)
    then have "f64_add z h = h" using zf False by (simp add: f64_add_def f64_finite_not_nan)
    moreover have "f64_key h = f64_magnitude h" using h keys(2) f64_nonneg_key [of h] by (auto simp: f64_le_def f64_key_def [of 0] f64_magnitude_def [of 0] fp_magnitude_def)
    ultimately show ?thesis using zf zk hn False by (simp add: f64_lt_def f64_finite_not_nan f64_is_finite_def)
  qed
qed

section \<open>Fields untouched by expansion\<close>

lemma fold_write_expanded_field:
  "config_wf rc \<Longrightarrow> (\<And>k r. (k, r) \<in> set kvs \<Longrightarrow> target_field k = Some f \<Longrightarrow> btm_get source k = Some r) \<Longrightarrow>
     get_field (fold (write_expanded source) kvs rc) f = get_field rc f"
proof (induction kvs arbitrary: rc)
  case (Cons kv kvs)
  obtain k r where kv: "kv = (k, r)" by (cases kv)
  have wf: "config_wf (write_expanded source kv rc)" using write_expanded_frame(1) [OF Cons.prems(1)] by (simp add: kv)
  have "get_field (write_expanded source kv rc) f = get_field rc f"
  proof (cases "target_field k = Some f")
    case True
    then show ?thesis using Cons.prems(2) [of k r] by (simp add: kv write_expanded_def)
  qed (simp add: kv write_expanded_frame(3) [OF Cons.prems(1)])
  then show ?case using Cons.IH [OF wf] Cons.prems(2) by simp
qed simp

lemma expansion_keeps_field:
  assumes wf: "config_wf config" and run: "expand_automatic_values reg config ctx tool = Inr config'"
    and plain: "\<And>k v. target_field k = Some f \<Longrightarrow> btm_get (to_config_map config) k = Some v \<Longrightarrow> \<not> needs_expansion reg k v"
  shows "get_field config' f = get_field config f"
proof -
  let ?src = "to_config_map config"
  let ?rs = "\<lparr>ex_registry = reg, ex_source = ?src, ex_context = ctx, ex_tool_index = tool,
                ex_expanded = [], ex_visiting = []\<rparr>"
  obtain rs' where rs': "expand_keys (btm_keys ?src) ?rs = Inr rs'"
    and c': "config' = fold (write_expanded ?src) (ex_expanded rs') config"
    using run by (auto simp: expand_automatic_values_def Let_def split: sum.splits)
  have "resolver_ok ?rs" by (simp add: resolver_ok_def)
  then have ok: "resolver_ok rs'" "ex_registry rs' = reg" "ex_source rs' = ?src"
    using expand_keys_Inr [OF rs'] by (auto simp: resolver_extends_def)
  then have wfx: "btm_wf (ex_expanded rs')" by (simp add: resolver_ok_def)
  have "btm_get ?src k = Some r" if "(k, r) \<in> set (ex_expanded rs')" "target_field k = Some f" for k r
  proof -
    have "expanded_ok reg ?src k r" using that(1) ok by (auto simp: resolver_ok_def btm_get_Some_iff [OF wfx])
    then obtain v where "btm_get ?src k = Some v" "\<not> needs_expansion reg k v \<longrightarrow> r = v" by (auto simp: expanded_ok_def)
    then show ?thesis using plain [OF that(2)] by blast
  qed
  then show ?thesis unfolding c' by (rule fold_write_expanded_field [OF wf])
qed

section \<open>A concrete profile\<close>

definition ranged_scoped :: scoped_config where
  "ranged_scoped = sample_scoped\<lparr>sc_layer_ranges :=
     [(''o'', [\<lparr>lr_scope = LayerRange ''o'' 0, lr_min_z = 0x3FF0000000000000, lr_max_z = 0x4000000000000000,
        lr_delta = [(''layer_height'', CvFloat 0x3FB999999999999A)]\<rparr>])]\<rparr>"

lemma ranged_resolution:
  "resolve_scope_stack (\<lambda>s. s) relative_registry ranged_scoped (object_target ''o'') sample_context = Inr sample_result"
proof -
  have "object_target ''o'' = sample_target" by (simp add: object_target_def sample_target_def)
  moreover have "scope_stack ranged_scoped sample_target = scope_stack sample_scoped sample_target"
    by (simp add: scope_stack_def scoped_delta_def ranged_scoped_def sample_target_def)
  ultimately show ?thesis using sample_result(1) by (simp add: resolve_scope_stack_def)
qed

lemma sample_rows_heights:
  "find (\<lambda>r. row_key r = ''layer_height'') RESOLVED_CONFIG_ROWS = Some (Cli ''layer_height'' ''layer_height'' (FF64 0x3FC999999999999A) ExtractF64)"
  "find (\<lambda>r. row_key r = ''first_layer_height'') RESOLVED_CONFIG_ROWS = Some (Cli ''first_layer_height'' ''first_layer_height'' (FF64 0x3FC999999999999A) ExtractF64)"
  by (simp_all add: RESOLVED_CONFIG_ROWS_def GEOMETRY_ROWS_def row_key_def)

lemma sample_heights:
  assumes "key \<in> {''layer_height'', ''first_layer_height''}"
  shows "f64_field sample_result key = 0x3FC999999999999A"
  using sample_result(1)
proof (rule resolve_stages)
  fix c c'
  assume c: "apply_deltas relative_registry (scope_stack sample_scoped sample_target) resolved_config_default = Inr c"
    "seed_keys (\<lambda>s. s) relative_registry relative_registry c = Inr c'" "config_wf c'"
    "expand_automatic_values relative_registry c' sample_context (rt_tool_index sample_target) = Inr sample_result"
  have c': "c' = sample_merged" using c(1,2) sample_applied sample_seeded by (simp add: seed_registry_defaults_def)
  have "\<not> needs_expansion relative_registry k v" if "target_field k = Some key" for k v
  proof -
    have "Cli key key (FF64 0x3FC999999999999A) ExtractF64 \<in> set RESOLVED_CONFIG_ROWS"
      using assms row_of_key(1) [OF sample_rows_heights(1)] row_of_key(1) [OF sample_rows_heights(2)] by auto
    then have "k = key" using target_of_row [of k "Cli key key (FF64 0x3FC999999999999A) ExtractF64"] that assms
      by (auto simp: row_key_def)
    then show ?thesis using assms by (auto simp: needs_expansion_def auto_base_def BOTTOM_AUTO_BASES_def sample_base_of)
  qed
  then have "get_field sample_result key = get_field sample_merged key"
    using expansion_keeps_field [OF c(3,4)] c' by blast
  moreover have "get_field sample_merged key = FF64 0x3FC999999999999A"
  proof -
    have "get_field sample_merged ''layer_height'' = FF64 0x3FC999999999999A"
      "get_field sample_merged ''first_layer_height'' = FF64 0x3FC999999999999A" by code_simp+
    then show ?thesis using assms by auto
  qed
  ultimately show ?thesis by (simp add: f64_field_def)
qed

definition sample_profile :: height_profile where
  "sample_profile = compose_profile ranged_scoped ''o'' sample_result 0x4008000000000000 0"

lemma sample_query:
  "query_layer_height_profile (\<lambda>s. s) relative_registry ranged_scoped ''o'' 0x4008000000000000 0 sample_context = Inr sample_profile"
proof -
  have "validate_height ''o'' 0x4008000000000000 = Inr ()" "validate_height ''o'' 0x3FC999999999999A = Inr ()" by code_simp+
  then show ?thesis
    by (simp add: query_layer_height_profile_def ranged_resolution sample_heights sample_profile_def)
qed

lemma sample_ranges_valid: "valid_ranges (ranges_for ranged_scoped ''o'')"
proof -
  have "valid_layer_range_interval 0x3FF0000000000000 0x4000000000000000" by code_simp
  then show ?thesis by (simp add: valid_ranges_def ranges_for_def ranged_scoped_def btm_get_def)
qed

lemma f64_add_0: "f64_is_finite x \<Longrightarrow> f64_lt 0 x \<Longrightarrow> f64_add 0 x = x"
proof -
  assume x: "f64_is_finite x" "f64_lt 0 x"
  have "f64_is_finite 0" "f64_value 0 = 0"
    by (simp_all add: f64_is_finite_def f64_magnitude_def fp_magnitude_def fp_inf_def f64_value_def)
  then have "f64_eq x (f64_add 0 x)" using x
    by (simp add: f64_eq_def f64_add_parts f64_nearest_value f64_finite_not_nan)
  then show "f64_add 0 x = x" using f64_eq_positive [OF _ x(2)] by metis
qed

lemma tolerance_limit:
  assumes "f64_le object_height 0x4130000000000000"
  shows "f64_le (f64_add object_height TOP_TOLERANCE) 0x4140000000000000"
proof -
  have k: "f64_key 0x4130000000000000 = 0x4130000000000000" "f64_key 0x4140000000000000 = 0x4140000000000000" "\<not> f64_is_nan 0x4140000000000000" by code_simp+
  have fin: "f64_is_finite 0x4130000000000000" "f64_is_finite 0x4140000000000000" "f64_is_finite TOP_TOLERANCE" by code_simp+
  have le: "f64_le TOP_TOLERANCE 0x3FF0000000000000" "f64_is_finite 0x3FF0000000000000" by code_simp+
  have num: "f64_value 0x4130000000000000 = 2 ^ 20" "f64_value 0x4140000000000000 = 2 ^ 21" "f64_value 0x3FF0000000000000 = 1"
  proof -
    have "f64_neg 0x4130000000000000 = False" "f64_magnitude 0x4130000000000000 = 0x4130000000000000"
      "f64_neg 0x4140000000000000 = False" "f64_magnitude 0x4140000000000000 = 0x4140000000000000"
      "f64_neg 0x3FF0000000000000 = False" "f64_magnitude 0x3FF0000000000000 = 0x3FF0000000000000" by code_simp+
    then show "f64_value 0x4130000000000000 = 2 ^ 20" "f64_value 0x4140000000000000 = 2 ^ 21" "f64_value 0x3FF0000000000000 = 1"
      by (simp_all add: f64_value_def fp_value_eq fp_significand_def fp_emin_def power_int_def power_one_over)
  qed
  show ?thesis
  proof (cases "f64_is_finite object_height")
    case True
    have "f64_value object_height \<le> 2 ^ 20" "f64_value TOP_TOLERANCE \<le> 1"
      using f64_le_value [OF True fin(1)] f64_le_value [OF fin(3) le(2)] assms le(1) num by simp_all
    then have "f64_nearest (f64_value object_height + f64_value TOP_TOLERANCE) \<le> f64_nearest (f64_value 0x4140000000000000)"
      by (intro f64_nearest_mono) (simp add: num)
    then show ?thesis
      using True fin k by (simp add: f64_le_def f64_add_parts f64_nearest_value)
  next
    case False
    have n: "\<not> f64_is_nan object_height" using assms by (simp add: f64_order)
    have "f64_key object_height \<le> 0x4130000000000000" using assms k by (simp add: f64_order)
    then show ?thesis using False n fin k by (simp add: f64_add_def f64_finite_not_nan f64_le_def)
  qed
qed

section \<open>Properties\<close>

text \<open>C9: a composed layer height profile is a gapless tiling from 0 up to at least the object's height whose
  neighbouring segments differ in height, it ends at the object's height, the first layer's top or the
  (shifted) end of a range, and at every \<open>z\<close> below its end it has the scheduled height: that of the first
  layer, then of the first range in authored order that covers \<open>z\<close> after the raft shift, then the base.\<close>

theorem height_profile_correct:
  assumes "query_layer_height_profile quote reg sc object_id object_height raft_offset ctx = Inr profile"
    and "resolve_scope_stack quote reg sc (object_target object_id) ctx = Inr config"
    and "valid_ranges (ranges_for sc object_id)" and "\<not> f64_is_nan raft_offset" and "f64_le 0 z"
  shows "\<exists>top. tiles 0 profile top \<and> successively (\<lambda>s t. hp_height s \<noteq> hp_height t) profile \<and>
    f64_le object_height top \<and>
    (f64_eq top object_height \<or> f64_eq top (f64_field config ''first_layer_height'') \<or>
     (\<exists>r \<in> set (height_ranges sc object_id). f64_eq top (range_end raft_offset r))) \<and>
    height_at profile z =
      (if f64_lt z top then Some (scheduled_height sc object_id config raft_offset z) else None)"
proof -
  have p: "profile = compose_profile sc object_id config object_height raft_offset"
    and h: "f64_lt 0 (f64_field config ''first_layer_height'')" "f64_lt 0 (f64_field config ''layer_height'')"
      "\<not> f64_is_nan object_height"
    using assms(1,2)
    by (auto simp: query_layer_height_profile_def validate_height_def f64_finite_not_nan split: if_splits sum.splits)
  obtain top where top: "profiled profile top (scheduled_height sc object_id config raft_offset)"
      "f64_le object_height top"
      "f64_eq top object_height \<or> f64_eq top (f64_field config ''first_layer_height'') \<or>
       (\<exists>r \<in> set (height_ranges sc object_id). f64_eq top (range_end raft_offset r))"
    using compose_profile_profiled [OF assms(3,4) h] unfolding p by blast
  have t: "tiles 0 profile top" "successively (\<lambda>s t. hp_height s \<noteq> hp_height t) profile"
    using top(1) by (auto simp: profiled_def)
  have "height_at profile z = None" if "\<not> f64_lt z top"
    using that assms(5) spaced_numbers [OF tiles_spaced [OF t(1)]]
    by (intro spaced_outside [OF tiles_spaced [OF t(1)]]) (auto simp: f64_order)
  moreover have "height_at profile z = Some (scheduled_height sc object_id config raft_offset z)" if "f64_lt z top"
    using that top(1) assms(5) by (auto simp: profiled_def)
  ultimately show ?thesis using t top(2,3) by (intro exI [of _ top]) auto
qed

theorem height_profile_correct_witness:
  "\<exists>top. tiles 0 sample_profile top \<and> f64_le 0x4008000000000000 top \<and>
     height_at sample_profile 0x3FF8000000000000 =
       (if f64_lt 0x3FF8000000000000 top
        then Some (scheduled_height ranged_scoped ''o'' sample_result 0 0x3FF8000000000000) else None)"
proof -
  have "\<not> f64_is_nan 0" "f64_le 0 0x3FF8000000000000" by code_simp+
  then show ?thesis using height_profile_correct [OF sample_query ranged_resolution sample_ranges_valid] by blast
qed

text \<open>C11: when the walk over a profile returns, its layer tops increase strictly from 0, none lies above the
  object's height by more than the tolerance, each adds to the previous one the height of the segment just
  above it, and the list is complete: it stops where no segment, no positive height or no room is left.\<close>

theorem layer_tops_increase:
  assumes "layer_top_zs segments object_height = Some tops"
  shows "sorted_wrt f64_lt (0 # tops) \<and>
    list_all (\<lambda>t. f64_le t (f64_add object_height TOP_TOLERANCE)) tops \<and> schedule segments object_height 0 tops"
  using assms schedule_increasing [of segments object_height 0 tops] by (simp add: layer_top_zs_iff)

theorem layer_tops_increase_witness:
  "sorted_wrt f64_lt (0 # [0x3FE0000000000000, 0x3FF0000000000000]) \<and>
   schedule [\<lparr>hp_start = 0, hp_end = 0x3FF0000000000000, hp_height = 0x3FE0000000000000\<rparr>] 0x3FF0000000000000 0
     [0x3FE0000000000000, 0x3FF0000000000000]"
proof -
  let ?s = "[\<lparr>hp_start = 0, hp_end = 0x3FF0000000000000, hp_height = 0x3FE0000000000000\<rparr>]"
  have "next_top ?s 0x3FF0000000000000 0x3FE0000000000000 = Some 0x3FF0000000000000"
    "next_top ?s 0x3FF0000000000000 0x3FF0000000000000 = None"
    by code_simp+
  moreover have "next_top ?s 0x3FF0000000000000 0 = Some 0x3FE0000000000000"
  proof -
    have "f64_is_finite TOP_TOLERANCE" "f64_lt 0 TOP_TOLERANCE" "f64_is_finite 0x3FE0000000000000" "f64_lt 0 0x3FE0000000000000"
      "segment_at ?s TOP_TOLERANCE = Some \<lparr>hp_start = 0, hp_end = 0x3FF0000000000000, hp_height = 0x3FE0000000000000\<rparr>"
      "f64_le 0x3FE0000000000000 (f64_add 0x3FF0000000000000 TOP_TOLERANCE)"
      by code_simp+
    then show ?thesis by (simp add: next_top_def f64_add_0)
  qed
  ultimately have "layer_top_zs ?s 0x3FF0000000000000 = Some [0x3FE0000000000000, 0x3FF0000000000000]"
    by (simp add: layer_top_zs_iff)
  then show ?thesis using layer_tops_increase by blast
qed

text \<open>C10: the walk returns for every profile whose heights are at least \<open>2\<^sup>-\<^sup>2\<^sup>0\<close> mm and every object no higher
  than \<open>2\<^sup>2\<^sup>0\<close> mm: no addition is absorbed by rounding.\<close>

theorem layer_walk_terminates:
  assumes "list_all (\<lambda>s. f64_le 0x3EB0000000000000 (hp_height s)) segments" and "f64_le object_height 0x4130000000000000"
  shows "\<exists>tops. layer_top_zs segments object_height = Some tops"
proof -
  have limit: "f64_le (f64_add object_height TOP_TOLERANCE) 0x4140000000000000"
    by (rule tolerance_limit [OF assms(2)])
  have "f64_lt z t" if z: "f64_le 0 z" and t: "next_top segments object_height z = Some t" for z t
  proof -
    obtain s where s: "s \<in> set segments" "t = f64_add z (hp_height s)" "f64_le t (f64_add object_height TOP_TOLERANCE)"
      using t by (auto simp: next_top_def segment_at_def find_Some_iff dest!: nth_mem split: option.splits if_splits)
    then have "f64_le z 0x4140000000000000"
      using next_top_le [OF z t] limit by (meson f64_le_trans)
    then show ?thesis using f64_add_moves [OF z] assms(1) s(1,2) by (auto simp: list_all_iff)
  qed
  then show ?thesis using schedule_exists [of segments object_height 0] f64_le_refl [OF f64_0_number]
    by (simp add: layer_top_zs_iff)
qed

theorem layer_walk_terminates_witness:
  "\<exists>tops. layer_top_zs [\<lparr>hp_start = 0, hp_end = 0x3FF0000000000000, hp_height = 0x3FC999999999999A\<rparr>] 0x3FF0000000000000 = Some tops"
proof (rule layer_walk_terminates)
  show "list_all (\<lambda>s. f64_le 0x3EB0000000000000 (hp_height s))
      [\<lparr>hp_start = 0, hp_end = 0x3FF0000000000000, hp_height = 0x3FC999999999999A\<rparr>]"
    by code_simp
  show "f64_le 0x3FF0000000000000 0x4130000000000000" by code_simp
qed

text \<open>C31: the guard on the heights does not make the walk total: with a first layer of 0.2 mm and a range
  of height 1e-17 mm above it, every height is finite and positive, the addition is absorbed at 0.2, and
  the walk never returns.\<close>

theorem layer_walk_can_hang:
  "layer_top_zs
     [\<lparr>hp_start = 0, hp_end = 0x3FC999999999999A, hp_height = 0x3FC999999999999A\<rparr>,
      \<lparr>hp_start = 0x3FC999999999999A, hp_end = 0x3FF0000000000000, hp_height = 0x3C670EF54646D497\<rparr>]
     0x3FF0000000000000 = None"
  (is "layer_top_zs ?segments ?height = None")
proof -
  have "f64_is_finite TOP_TOLERANCE" "f64_lt 0 TOP_TOLERANCE" "f64_is_finite 0x3FC999999999999A" "f64_lt 0 0x3FC999999999999A"
    "segment_at ?segments TOP_TOLERANCE = Some \<lparr>hp_start = 0, hp_end = 0x3FC999999999999A, hp_height = 0x3FC999999999999A\<rparr>"
    "f64_le 0x3FC999999999999A (f64_add 0x3FF0000000000000 TOP_TOLERANCE)"
    by code_simp+
  then have "next_top ?segments ?height 0 = Some 0x3FC999999999999A" by (simp add: next_top_def f64_add_0)
  moreover have "next_top ?segments ?height 0x3FC999999999999A = Some 0x3FC999999999999A" by code_simp
  ultimately have "\<not> schedule ?segments ?height 0 ts" for ts
    using stuck_no_schedule by (cases ts) auto
  then show ?thesis using layer_top_zs_iff by (metis not_None_eq)
qed

end
