(* ===== verification/Ingestion.thy ===== *)
theory Ingestion
  imports LayerRanges
begin

text \<open>
  Properties of config ingestion: wire keys decode to exactly the scopes they spell, the suggestion for
  an unrecognised key is a nearest registered key in edit distance, and whatever sequence of inputs a
  strict ingestor accepts, every value it retains has the type its key declares.
\<close>

section \<open>Edit distance\<close>

text \<open>Alignments of two lists with a number of insertions, deletions and substitutions.\<close>

inductive aligned :: "nat \<Rightarrow> 'a list \<Rightarrow> 'a list \<Rightarrow> bool" where
  nil: "aligned 0 [] []"
| keep: "aligned n xs ys \<Longrightarrow> aligned n (x # xs) (x # ys)"
| substitute: "aligned n xs ys \<Longrightarrow> aligned (Suc n) (x # xs) (y # ys)"
| delete: "aligned n xs ys \<Longrightarrow> aligned (Suc n) (x # xs) ys"
| insert: "aligned n xs ys \<Longrightarrow> aligned (Suc n) xs (y # ys)"

fun edit_distance :: "'a list \<Rightarrow> 'a list \<Rightarrow> nat" where
  "edit_distance [] ys = length ys"
| "edit_distance xs [] = length xs"
| "edit_distance (x # xs) (y # ys) =
     (if x = y then edit_distance xs ys
      else 1 + min (min (edit_distance xs ys) (edit_distance xs (y # ys))) (edit_distance (x # xs) ys))"

lemma edit_distance_Nil [simp]: "edit_distance xs [] = length xs"
  by (cases xs) simp_all

lemma edit_distance_step:
  "edit_distance (x # xs) ys \<le> Suc (edit_distance xs ys) \<and> edit_distance xs ys \<le> Suc (edit_distance (x # xs) ys) \<and>
   edit_distance xs (y # ys) \<le> Suc (edit_distance xs ys) \<and> edit_distance xs ys \<le> Suc (edit_distance xs (y # ys))"
proof (induction "length xs + length ys" arbitrary: xs ys x y rule: less_induct)
  case less
  have L: "edit_distance (x # xs) ys \<le> Suc (edit_distance xs ys) \<and> edit_distance xs ys \<le> Suc (edit_distance (x # xs) ys)"
  proof (cases ys)
    case (Cons y' ys')
    have IH: "edit_distance (x # xs) ys' \<le> Suc (edit_distance xs ys')" "edit_distance xs ys' \<le> Suc (edit_distance (x # xs) ys')"
      "edit_distance xs (y' # ys') \<le> Suc (edit_distance xs ys')" "edit_distance xs ys' \<le> Suc (edit_distance xs (y' # ys'))"
      using less.hyps [of xs ys' x y'] Cons by simp_all
    then show ?thesis using Cons by (auto simp: min_def)
  qed simp
  moreover have "edit_distance xs (y # ys) \<le> Suc (edit_distance xs ys) \<and> edit_distance xs ys \<le> Suc (edit_distance xs (y # ys))"
  proof (cases xs)
    case (Cons x' xs')
    have IH: "edit_distance (x' # xs') ys \<le> Suc (edit_distance xs' ys)" "edit_distance xs' ys \<le> Suc (edit_distance (x' # xs') ys)"
      "edit_distance xs' (y # ys) \<le> Suc (edit_distance xs' ys)" "edit_distance xs' ys \<le> Suc (edit_distance xs' (y # ys))"
      using less.hyps [of xs' ys x' y] Cons by simp_all
    then show ?thesis using Cons by (auto simp: min_def)
  qed simp
  ultimately show ?case by blast
qed

lemma aligned_delete_all: "aligned (length xs) xs []"
  by (induction xs) (auto intro: aligned.intros)

lemma aligned_insert_all: "aligned (length ys) [] ys"
  by (induction ys) (auto intro: aligned.intros)

lemma edit_distance_aligned: "aligned (edit_distance xs ys) xs ys"
  by (induction xs ys rule: edit_distance.induct)
    (auto simp: min_def aligned_insert_all simp del: length_Cons intro: aligned.intros aligned_delete_all [of "_ # _", simplified])

lemma edit_distance_least: "aligned n xs ys \<Longrightarrow> edit_distance xs ys \<le> n"
proof (induction rule: aligned.induct)
  case (delete n xs ys x)
  then show ?case using edit_distance_step [of x xs ys] by (meson Suc_le_mono order_trans)
next
  case (insert n xs ys y)
  then show ?case using edit_distance_step [of _ xs ys y] by (meson Suc_le_mono order_trans)
qed (auto simp: min_def)

lemma aligned_append: "aligned m xs ys \<Longrightarrow> aligned n xs' ys' \<Longrightarrow> aligned (m + n) (xs @ xs') (ys @ ys')"
  by (induction rule: aligned.induct) (auto intro: aligned.intros)

lemma aligned_rev: "aligned n xs ys \<Longrightarrow> aligned n (rev xs) (rev ys)"
proof (induction rule: aligned.induct)
  case (keep n xs ys x)
  then show ?case using aligned_append [of n "rev xs" "rev ys" 0 "[x]" "[x]"] by (auto intro: aligned.intros)
next
  case (substitute n xs ys x y)
  then show ?case using aligned_append [of n "rev xs" "rev ys" "Suc 0" "[x]" "[y]"] by (auto intro: aligned.intros)
next
  case (delete n xs ys x)
  then show ?case using aligned_append [of n "rev xs" "rev ys" "Suc 0" "[x]" "[]"] by (auto intro: aligned.intros)
next
  case (insert n xs ys y)
  then show ?case using aligned_append [of n "rev xs" "rev ys" "Suc 0" "[]" "[y]"] by (auto intro: aligned.intros)
qed (simp add: aligned.nil)

text \<open>The rows of the table hold the distances between reversed prefixes.\<close>

fun distance_row :: "'a list \<Rightarrow> 'a list \<Rightarrow> 'a list \<Rightarrow> nat list" where
  "distance_row xs ys [] = [edit_distance xs ys]"
| "distance_row xs ys (d # ds) = edit_distance xs ys # distance_row xs (d # ys) ds"

lemma distance_row_Cons: "\<exists>r. distance_row xs ys ds = edit_distance xs ys # r"
  by (cases ds) simp_all

lemma levenshtein_row_distances:
  "levenshtein_row c ds (distance_row xs ys ds) (edit_distance (c # xs) ys) = tl (distance_row (c # xs) ys ds)"
proof (induction ds arbitrary: ys)
  case (Cons d ds)
  obtain r where r: "distance_row xs (d # ys) ds = edit_distance xs (d # ys) # r" using distance_row_Cons by blast
  obtain q where q: "distance_row (c # xs) (d # ys) ds = edit_distance (c # xs) (d # ys) # q" using distance_row_Cons by blast
  have v: "(if c = d then edit_distance xs ys else 1 + min (min (edit_distance xs ys) (edit_distance xs (d # ys)))
      (edit_distance (c # xs) ys)) = edit_distance (c # xs) (d # ys)" by simp
  show ?case using Cons [of "d # ys"] unfolding distance_row.simps r q levenshtein_row.simps Let_def v by simp
qed simp

lemma levenshtein_rows_distances:
  "levenshtein_rows cs ds (distance_row xs [] ds) (length xs) = distance_row (rev cs @ xs) [] ds"
proof (induction cs arbitrary: xs)
  case (Cons c cs)
  obtain r where r: "distance_row (c # xs) [] ds = edit_distance (c # xs) [] # r" using distance_row_Cons by blast
  have "(length xs + 1) # levenshtein_row c ds (distance_row xs [] ds) (length xs + 1) = distance_row (c # xs) [] ds"
    using levenshtein_row_distances [of c ds xs "[]"] r by simp
  then show ?case using Cons.IH [of "c # xs"] by simp
qed simp

lemma distance_row_start: "distance_row [] ys ds = [length ys ..< length ys + length ds + 1]"
  by (induction ds arbitrary: ys) (simp_all add: upt_conv_Cons del: upt_Suc)

lemma distance_row_last: "distance_row xs ys ds ! length ds = edit_distance xs (rev ds @ ys)"
  by (induction ds arbitrary: ys) simp_all

lemma levenshtein_edit_distance: "levenshtein s t = edit_distance (rev (chars s)) (rev (chars t))"
  using levenshtein_rows_distances [of "chars s" "chars t" "[]"] distance_row_start [of "[]" "chars t"]
  by (simp add: levenshtein_def Let_def distance_row_last del: upt_Suc)

lemma levenshtein_least: "(LEAST n. aligned n (chars s) (chars t)) = levenshtein s t"
proof (rule Least_equality)
  show "aligned (levenshtein s t) (chars s) (chars t)"
    using aligned_rev [OF edit_distance_aligned [of "rev (chars s)" "rev (chars t)"]] by (simp add: levenshtein_edit_distance)
  show "levenshtein s t \<le> n" if "aligned n (chars s) (chars t)" for n
    using edit_distance_least [OF aligned_rev [OF that]] by (simp add: levenshtein_edit_distance)
qed

lemma min_by_key_None: "min_by_key f xs = None \<longleftrightarrow> xs = []"
  by (cases xs) (auto split: option.splits)

lemma min_by_key_spec:
  "min_by_key f xs = Some x \<Longrightarrow> x \<in> set xs \<and> list_all (\<lambda>y. f x \<le> f y) xs"
proof (induction xs arbitrary: x)
  case (Cons a xs)
  show ?case
  proof (cases "min_by_key f xs")
    case None
    then show ?thesis using Cons.prems by (simp add: min_by_key_None)
  next
    case (Some y)
    then show ?thesis using Cons.IH [OF Some] Cons.prems
      by (auto simp: list_all_iff not_less split: if_splits intro: order_trans less_imp_le)
  qed
qed simp

section \<open>Declared types\<close>

definition is_float_list :: "config_value list \<Rightarrow> bool" where
  "is_float_list vs \<longleftrightarrow> list_all (\<lambda>v. \<exists>x. v = CvFloat x \<and> f64_is_finite x) vs"

definition has_type :: "string \<Rightarrow> config_value \<Rightarrow> bool" where
  "has_type field_type v \<longleftrightarrow>
     (case v of
        CvBool _ \<Rightarrow> field_type = ''bool''
      | CvInt _ \<Rightarrow> field_type = ''int''
      | CvFloat x \<Rightarrow> field_type = ''float'' \<and> f64_is_finite x
      | CvString _ \<Rightarrow> field_type \<in> {''string'', ''enum''}
      | CvPercent _ \<Rightarrow> field_type = ''percent''
      | CvFloatOrPercent _ _ \<Rightarrow> field_type = ''float_or_percent''
      | CvList vs \<Rightarrow>
          field_type = ''float-list'' \<and> is_float_list vs \<or>
          field_type = ''int-list'' \<and> list_all (\<lambda>v. \<exists>i. v = CvInt i) vs \<or>
          field_type = ''string-list'' \<and> list_all (\<lambda>v. \<exists>s. v = CvString s) vs)"

lemma f64_of_i64_finite [simp]: "f64_is_finite (f64_of_i64 i)"
proof -
  have "\<bar>sint i\<bar> \<le> 2 ^ 63" using sint_range_size [of i] by (simp add: word_size abs_le_iff)
  then have le: "ratio \<bar>sint i\<bar> 1 \<le> 2 ^ 63"
    by (metis (mono_tags) div_by_1 of_int_1 of_int_le_iff of_int_numeral of_int_power ratio_def)
  have v: "fp_value 52 11 0x43E0000000000000 = 2 ^ 63"
    by (simp add: fp_value_eq fp_significand_def fp_emin_def)
  let ?m = "fp_round 52 11 \<bar>sint i\<bar> 1"
  have m: "?m = fp_nearest 52 11 (ratio \<bar>sint i\<bar> 1)" by (simp add: fp_round_nearest)
  also have "\<dots> \<le> fp_nearest 52 11 (fp_value 52 11 0x43E0000000000000)" using le by (intro fp_nearest_mono) (simp add: v)
  also have "\<dots> = 0x43E0000000000000" by (rule fp_nearest_value) (simp_all add: fp_inf_def)
  finally have "0 \<le> ?m" "?m \<le> 0x43E0000000000000" by (simp_all add: m)
  then show ?thesis
    by (simp add: f64_is_finite_def f64_of_i64_def f64_of_int_def f64_of_fraction_def f64_make_parts fp_inf_def)
qed

lemma parse_finite_float_finite: "parse_finite_float s = Some x \<Longrightarrow> f64_is_finite x"
  by (auto simp: parse_finite_float_def Let_def split: option.splits if_splits)

lemma parse_point_pair_finite: "parse_point_pair s = Some (x, y) \<Longrightarrow> f64_is_finite x \<and> f64_is_finite y"
  by (auto simp: parse_point_pair_def split: option.splits dest: parse_finite_float_finite)

lemma coerce_float_entries_typed: "coerce_float_entries es = Some vs \<Longrightarrow> is_float_list vs"
  by (induction es arbitrary: vs)
    (auto simp: is_float_list_def split: option.splits dest: parse_finite_float_finite parse_point_pair_finite)

lemma coerce_float_item_typed: "coerce_float_item v = Some vs \<Longrightarrow> is_float_list vs"
  by (cases v) (auto simp: coerce_float_item_def is_float_list_def split: if_splits
      dest: coerce_float_entries_typed [unfolded is_float_list_def])

lemma collect_option_all: "collect_option f xs = Some ys \<Longrightarrow> list_all (\<lambda>y. \<exists>x. f x = Some y) ys"
  by (induction xs arbitrary: ys) (auto split: option.splits)

lemma coerce_list_all:
  assumes "coerce_list f v = Some w" and "\<And>x y. f x = Some y \<Longrightarrow> P y"
  shows "\<exists>vs. w = CvList vs \<and> list_all P vs"
proof -
  obtain items vs where "v = CvList items" "collect_option f items = Some vs" "w = CvList vs"
    using assms(1) by (auto simp: coerce_list_def split: config_value.splits)
  then show ?thesis using collect_option_all [of f items vs] assms(2) by (auto simp: list_all_iff)
qed

lemma coerce_int_item_typed: "coerce_int_item v = Some w \<Longrightarrow> \<exists>i. w = CvInt i"
  by (cases v) (auto simp: coerce_int_item_def)

lemma coerce_string_item_typed: "coerce_string_item v = Some w \<Longrightarrow> \<exists>s. w = CvString s"
  by (cases v) (auto simp: coerce_string_item_def)

lemma coerce_float_list_typed: "coerce_float_list v = Some w \<Longrightarrow> \<exists>vs. w = CvList vs \<and> is_float_list vs"
proof -
  assume "coerce_float_list v = Some w"
  then obtain items vss where vss: "collect_option coerce_float_item items = Some vss" "w = CvList (concat vss)"
    by (auto simp: coerce_float_list_def Let_def)
  have "list_all is_float_list vss"
    using collect_option_all [OF vss(1)] by (auto simp: list_all_iff dest: coerce_float_item_typed)
  then show ?thesis using vss(2) by (auto simp: is_float_list_def list_all_iff)
qed

lemma coerce_as_typed:
  assumes "coerce_as field_type v = Some w"
  shows "has_type field_type w"
proof -
  have b: "coerce_bool v = Some w \<Longrightarrow> \<exists>x. w = CvBool x" by (cases v) (auto simp: coerce_bool_def split: if_splits)
  have i: "coerce_int v = Some w \<Longrightarrow> \<exists>x. w = CvInt x" by (cases v) (auto simp: coerce_int_def split: if_splits)
  have f: "coerce_float v = Some w \<Longrightarrow> \<exists>x. w = CvFloat x \<and> f64_is_finite x"
    by (cases v) (auto simp: coerce_float_def split: if_splits dest: parse_finite_float_finite)
  have s: "coerce_string v = Some w \<Longrightarrow> \<exists>x. w = CvString x" by (cases v) (auto simp: coerce_string_def)
  have p: "coerce_percent v = Some w \<Longrightarrow> \<exists>x. w = CvPercent x" by (cases v) (auto simp: coerce_percent_def split: if_splits)
  have q: "coerce_float_or_percent v = Some w \<Longrightarrow> \<exists>x y. w = CvFloatOrPercent x y"
    by (cases v) (auto simp: coerce_float_or_percent_def split: if_splits)
  have il: "coerce_list coerce_int_item v = Some w \<Longrightarrow> \<exists>vs. w = CvList vs \<and> list_all (\<lambda>y. \<exists>i. y = CvInt i) vs"
    by (erule coerce_list_all) (rule coerce_int_item_typed)
  have sl: "coerce_list coerce_string_item v = Some w \<Longrightarrow> \<exists>vs. w = CvList vs \<and> list_all (\<lambda>y. \<exists>i. y = CvString i) vs"
    by (erule coerce_list_all) (rule coerce_string_item_typed)
  have "field_type = ''bool'' \<Longrightarrow> ?thesis" using assms b by (auto simp: coerce_as_def has_type_def)
  moreover have "field_type = ''int'' \<Longrightarrow> ?thesis" using assms i by (auto simp: coerce_as_def has_type_def)
  moreover have "field_type = ''float'' \<Longrightarrow> ?thesis" using assms f by (auto simp: coerce_as_def has_type_def)
  moreover have "field_type = ''string'' \<Longrightarrow> ?thesis" using assms s by (auto simp: coerce_as_def has_type_def)
  moreover have "field_type = ''enum'' \<Longrightarrow> ?thesis" using assms s by (auto simp: coerce_as_def has_type_def)
  moreover have "field_type = ''percent'' \<Longrightarrow> ?thesis" using assms p by (auto simp: coerce_as_def has_type_def)
  moreover have "field_type = ''float_or_percent'' \<Longrightarrow> ?thesis" using assms q by (auto simp: coerce_as_def has_type_def)
  moreover have "field_type = ''float-list'' \<Longrightarrow> ?thesis"
    using assms coerce_float_list_typed [of v w] by (auto simp: coerce_as_def has_type_def)
  moreover have "field_type = ''int-list'' \<Longrightarrow> ?thesis"
    using assms il by (auto simp: coerce_as_def has_type_def)
  moreover have "field_type = ''string-list'' \<Longrightarrow> ?thesis"
    using assms sl by (auto simp: coerce_as_def has_type_def)
  moreover have "field_type = ''bool'' \<or> field_type = ''int'' \<or> field_type = ''float'' \<or>
      field_type = ''string'' \<or> field_type = ''enum'' \<or> field_type = ''percent'' \<or> field_type = ''float_or_percent'' \<or>
      field_type = ''float-list'' \<or> field_type = ''int-list'' \<or> field_type = ''string-list''"
  proof (rule ccontr)
    assume "\<not> ?thesis"
    then have "coerce_as field_type v = None" by (simp add: coerce_as_def)
    then show False using assms by simp
  qed
  ultimately show ?thesis by (elim disjE) assumption+
qed

section \<open>Accounting for retained values\<close>

text \<open>A value retained under a key is declared, and it has the declared type or was reported as untyped.\<close>

definition accounted :: "registry \<Rightarrow> bool \<Rightarrow> ingestion_warning set \<Rightarrow> string \<times> config_value \<Rightarrow> bool" where
  "accounted reg tolerant ws kv \<longleftrightarrow>
     (\<exists>e. declared_entry reg (fst kv) = Some e \<and>
        (has_type (re_type e) (snd kv) \<or> tolerant \<and> (\<exists>a. UntypedValue (fst kv) (re_type e) a \<in> ws)))"

definition map_accounted :: "registry \<Rightarrow> bool \<Rightarrow> ingestion_warning set \<Rightarrow> config_map \<Rightarrow> bool" where
  "map_accounted reg tolerant ws m \<longleftrightarrow> list_all (accounted reg tolerant ws) m"

lemma accounted_mono: "accounted reg t ws kv \<Longrightarrow> ws \<subseteq> ws' \<Longrightarrow> accounted reg t ws' kv"
  unfolding accounted_def by blast

lemma map_accounted_mono: "map_accounted reg t ws m \<Longrightarrow> ws \<subseteq> ws' \<Longrightarrow> map_accounted reg t ws' m"
  unfolding map_accounted_def list_all_iff using accounted_mono by blast

lemma set_btm_insert: "set (btm_insert k v m) \<subseteq> insert (k, v) (set m)"
  by (induction m) auto

lemma map_accounted_insert:
  "map_accounted reg t ws m \<Longrightarrow> accounted reg t ws (k, v) \<Longrightarrow> map_accounted reg t ws (btm_insert k v m)"
  using set_btm_insert [of k v m] by (auto simp: map_accounted_def list_all_iff)

definition warnings_of :: "pending_entry \<Rightarrow> ingestion_warning set" where
  "warnings_of p = set_option (pe_warning p)"

lemma prepare_entry_accounted:
  assumes "prepare_entry tf ing scope key wire_key authored = Inr p" and "pe_value p = Some v"
  shows "accounted (in_registry ing) (in_tolerant ing) (warnings_of p) (key, v)"
  using assms
  by (auto simp: prepare_entry_def accounted_def warnings_of_def coerce_value_def
      split: option.splits sum.splits if_splits dest: coerce_as_typed)

lemma prepare_entry_fields:
  assumes "prepare_entry tf ing scope key wire_key authored = Inr p"
  shows "pe_key p = key" and "pe_scope p = scope"
    and "\<not> in_tolerant ing \<Longrightarrow> warnings_of p \<subseteq> {UnrecognizedKey w k s | w k s. declared_entry (in_registry ing) k = None}"
  using assms
  by (auto simp: prepare_entry_def warnings_of_def coerce_value_def split: option.splits sum.splits if_splits)

text \<open>The invariant of an ingestor.\<close>

definition ingestor_ok :: "ingestor \<Rightarrow> bool" where
  "ingestor_ok ing \<longleftrightarrow>
     (\<forall>(scope, m) \<in> set (in_deltas ing). map_accounted (in_registry ing) (in_tolerant ing) (set (in_warnings ing)) m) \<and>
     (\<forall>(object_id, rs) \<in> set (in_layer_ranges ing). \<forall>r \<in> set rs.
        map_accounted (in_registry ing) (in_tolerant ing) (set (in_warnings ing)) (lr_delta r)) \<and>
     (in_tolerant ing \<or> set (in_warnings ing) \<subseteq>
        {UnrecognizedKey w k s | w k s. declared_entry (in_registry ing) k = None} \<and> in_untyped_global_keys ing = []) \<and>
     sorted (map warning_rank (in_warnings ing))"

lemma set_btm_entry: "set (btm_entry k d f m) \<subseteq> insert (k, f (case btm_get m k of None \<Rightarrow> d | Some v \<Rightarrow> v)) (set m)"
  unfolding btm_entry_def by (rule set_btm_insert)

text \<open>Everything of the invariant but the order of the warnings.\<close>

definition contents_ok :: "ingestor \<Rightarrow> bool" where
  "contents_ok ing \<longleftrightarrow>
     (\<forall>(scope, m) \<in> set (in_deltas ing). map_accounted (in_registry ing) (in_tolerant ing) (set (in_warnings ing)) m) \<and>
     (\<forall>(object_id, rs) \<in> set (in_layer_ranges ing). \<forall>r \<in> set rs.
        map_accounted (in_registry ing) (in_tolerant ing) (set (in_warnings ing)) (lr_delta r)) \<and>
     (in_tolerant ing \<or> set (in_warnings ing) \<subseteq>
        {UnrecognizedKey w k s | w k s. declared_entry (in_registry ing) k = None} \<and> in_untyped_global_keys ing = [])"

lemma ingestor_ok_contents: "ingestor_ok ing \<longleftrightarrow> contents_ok ing \<and> sorted (map warning_rank (in_warnings ing))"
  by (simp add: ingestor_ok_def contents_ok_def)

definition same_mode :: "ingestor \<Rightarrow> ingestor \<Rightarrow> bool" where
  "same_mode a b \<longleftrightarrow> in_registry a = in_registry b \<and> in_tolerant a = in_tolerant b"

lemma commit_entry_ok:
  assumes "contents_ok ing" and "same_mode ing0 ing" and "prepare_entry tf ing0 scope key wire_key authored = Inr p"
  shows "contents_ok (commit_entry p ing) \<and> same_mode ing0 (commit_entry p ing)"
proof -
  let ?ing = "commit_entry p ing"
  let ?W = "set (in_warnings ?ing)"
  have mode: "in_registry ?ing = in_registry ing" "in_tolerant ?ing = in_tolerant ing" "in_layer_ranges ?ing = in_layer_ranges ing"
    by (simp_all add: commit_entry_def)
  have ws: "?W = set (in_warnings ing) \<union> warnings_of p" by (auto simp: commit_entry_def warnings_of_def split: option.splits)
  note fields = prepare_entry_fields [OF assms(3)]
  have old: "map_accounted (in_registry ing) (in_tolerant ing) (set (in_warnings ing)) m \<Longrightarrow>
      map_accounted (in_registry ing) (in_tolerant ing) ?W m" for m
    by (rule map_accounted_mono) (auto simp: ws)
  have deltas: "map_accounted (in_registry ing) (in_tolerant ing) ?W m" if "(sc, m) \<in> set (in_deltas ?ing)" for sc m
  proof (cases "pe_value p")
    case None
    then have "(sc, m) \<in> set (in_deltas ing)" using that by (simp add: commit_entry_def)
    then show ?thesis using assms(1) old by (auto simp: contents_ok_def)
  next
    case (Some v)
    let ?m = "case btm_get (in_deltas ing) scope of None \<Rightarrow> [] | Some m \<Rightarrow> m"
    have "accounted (in_registry ing) (in_tolerant ing) ?W (key, v)"
      using prepare_entry_accounted [OF assms(3) Some] assms(2) by (auto simp: same_mode_def ws intro: accounted_mono)
    moreover have "map_accounted (in_registry ing) (in_tolerant ing) ?W ?m"
    proof (cases "btm_get (in_deltas ing) scope")
      case None
      then show ?thesis by (simp add: map_accounted_def)
    next
      case m: (Some m')
      then have "(scope, m') \<in> set (in_deltas ing)" by (simp add: btm_get_def map_of_SomeD)
      then show ?thesis using m assms(1) old by (auto simp: contents_ok_def)
    qed
    ultimately have new: "map_accounted (in_registry ing) (in_tolerant ing) ?W (btm_insert key v ?m)"
      by (intro map_accounted_insert)
    have "(sc, m) = (scope, btm_insert key v ?m) \<or> (sc, m) \<in> set (in_deltas ing)"
      using that Some fields set_btm_entry [of scope "[]" "btm_insert key v" "in_deltas ing"] by (auto simp: commit_entry_def)
    then show ?thesis using new old assms(1) by (auto simp: contents_ok_def)
  qed
  have ranges: "map_accounted (in_registry ing) (in_tolerant ing) ?W (lr_delta rg)"
    if "(o', rs) \<in> set (in_layer_ranges ing)" "rg \<in> set rs" for o' rs rg
    using that assms(1) old by (fastforce simp: contents_ok_def)
  have strict: "in_tolerant ing \<or> ?W \<subseteq> {UnrecognizedKey w k s | w k s. declared_entry (in_registry ing) k = None} \<and>
      in_untyped_global_keys ?ing = []"
  proof (cases "in_tolerant ing")
    case False
    then have "warnings_of p \<subseteq> {UnrecognizedKey w k s | w k s. declared_entry (in_registry ing) k = None}"
      using fields(3) assms(2) by (simp add: same_mode_def)
    moreover have "in_untyped_global_keys ?ing = in_untyped_global_keys ing"
      using calculation by (auto simp: commit_entry_def warnings_of_def split: config_scope.splits option.splits ingestion_warning.splits)
    ultimately show ?thesis using assms(1) False by (auto simp: contents_ok_def ws)
  qed simp
  show ?thesis using deltas ranges strict assms(2) unfolding contents_ok_def same_mode_def mode by fastforce
qed

lemma fold_commit_ok:
  "contents_ok ing \<Longrightarrow> same_mode ing0 ing \<Longrightarrow>
   (\<And>p. p \<in> set ps \<Longrightarrow> \<exists>scope key wire_key authored. prepare_entry tf ing0 scope key wire_key authored = Inr p) \<Longrightarrow>
   contents_ok (fold commit_entry ps ing) \<and> same_mode ing0 (fold commit_entry ps ing)"
proof (induction ps arbitrary: ing)
  case (Cons p ps)
  obtain scope key wire_key authored where "prepare_entry tf ing0 scope key wire_key authored = Inr p"
    using Cons.prems(3) [of p] by auto
  then have "contents_ok (commit_entry p ing) \<and> same_mode ing0 (commit_entry p ing)"
    using commit_entry_ok Cons.prems(1,2) by blast
  then show ?case using Cons.IH Cons.prems(3) by simp
qed simp

lemma commit_ok:
  assumes "ingestor_ok ing"
    and "\<And>p. p \<in> set ps \<Longrightarrow> \<exists>scope key wire_key authored. prepare_entry tf ing scope key wire_key authored = Inr p"
  shows "ingestor_ok (commit ps ing) \<and> same_mode ing (commit ps ing)"
proof -
  have "contents_ok (fold commit_entry ps ing) \<and> same_mode ing (fold commit_entry ps ing)"
    using assms fold_commit_ok [of ing ing ps tf] by (simp add: ingestor_ok_contents same_mode_def)
  then show ?thesis by (simp add: ingestor_ok_contents contents_ok_def same_mode_def commit_def Let_def)
qed

lemma prepare_flat_entries:
  "prepare_flat tf ing kvs = Inr ps \<Longrightarrow> p \<in> set ps \<Longrightarrow>
     \<exists>scope key wire_key authored. prepare_entry tf ing scope key wire_key authored = Inr p"
proof (induction kvs arbitrary: ps)
  case (Cons kv kvs)
  then obtain scope key q qs where "prepare_entry tf ing scope key (fst kv) (snd kv) = Inr q"
      "prepare_flat tf ing kvs = Inr qs" "ps = q # qs"
    by (cases kv) (auto split: sum.splits)
  then show ?case using Cons by auto
qed simp

lemma prepare_delta_entries:
  "prepare_delta tf ing scope kvs = Inr ps \<Longrightarrow> p \<in> set ps \<Longrightarrow>
     \<exists>scope key wire_key authored. prepare_entry tf ing scope key wire_key authored = Inr p"
proof (induction kvs arbitrary: ps)
  case (Cons kv kvs)
  then obtain q qs where "prepare_entry tf ing scope (fst kv) (fst kv) (snd kv) = Inr q"
      "prepare_delta tf ing scope kvs = Inr qs" "ps = q # qs"
    by (cases kv) (auto split: sum.splits)
  then show ?case using Cons by auto
qed simp

lemma ingest_flat_ok:
  assumes "ingestor_ok ing" and "ingest_flat tf values ing = Inr ing'"
  shows "ingestor_ok ing' \<and> same_mode ing ing'"
proof -
  obtain ps where ps: "prepare_flat tf ing (sort_key fst values) = Inr ps" "ing' = commit ps ing"
    using assms(2) by (cases "prepare_flat tf ing (sort_key fst values)") (auto simp: ingest_flat_def)
  then show ?thesis using commit_ok [OF assms(1)] prepare_flat_entries by blast
qed

lemma ingest_delta_ok:
  assumes "ingestor_ok ing" and "ingest_delta tf scope values ing = Inr ing'"
  shows "ingestor_ok ing' \<and> same_mode ing ing'"
proof -
  obtain ps where ps: "prepare_delta tf ing scope (sort_key fst values) = Inr ps" "ing' = commit ps ing"
    using assms(2) by (cases "prepare_delta tf ing scope (sort_key fst values)") (auto simp: ingest_delta_def)
  then show ?thesis using commit_ok [OF assms(1)] prepare_delta_entries by blast
qed

section \<open>Layer ranges\<close>

lemma type_range_values_ok:
  "type_range_values tf ing scope kvs delta ws = Inr (delta', ws') \<Longrightarrow>
   map_accounted (in_registry ing) (in_tolerant ing) (set ws) delta \<Longrightarrow>
     map_accounted (in_registry ing) (in_tolerant ing) (set ws') delta' \<and> set ws \<subseteq> set ws' \<and>
     (\<not> in_tolerant ing \<longrightarrow> set ws' - set ws \<subseteq> {UnrecognizedKey w k s | w k s. declared_entry (in_registry ing) k = None})"
proof (induction kvs arbitrary: delta ws)
  case (Cons kv kvs)
  let ?acc = "\<lambda>ws. map_accounted (in_registry ing) (in_tolerant ing) (set ws)"
  obtain key authored where kv: "kv = (key, authored)" by (cases kv)
  obtain p where p: "prepare_entry tf ing scope key key (CvString authored) = Inr p"
    using Cons.prems(1) by (auto simp: kv split: sum.splits)
  define delta1 where "delta1 = (case pe_value p of None \<Rightarrow> delta | Some v \<Rightarrow> btm_insert (pe_key p) v delta)"
  define ws1 where "ws1 = (case pe_warning p of None \<Rightarrow> ws | Some w \<Rightarrow> ws @ [w])"
  have run: "type_range_values tf ing scope kvs delta1 ws1 = Inr (delta', ws')"
    using Cons.prems(1) by (simp add: kv p delta1_def ws1_def)
  have set1: "set ws1 = set ws \<union> warnings_of p" by (auto simp: ws1_def warnings_of_def split: option.splits)
  have "?acc ws1 delta" using Cons.prems(2) by (rule map_accounted_mono) (auto simp: set1)
  then have "?acc ws1 delta1"
  proof (cases "pe_value p")
    case (Some v)
    have "accounted (in_registry ing) (in_tolerant ing) (set ws1) (key, v)"
      using prepare_entry_accounted [OF p Some] by (rule accounted_mono) (simp add: set1)
    then show ?thesis using \<open>?acc ws1 delta\<close> Some prepare_entry_fields(1) [OF p] by (simp add: delta1_def map_accounted_insert)
  qed (simp add: delta1_def)
  note IH = Cons.IH [OF run this]
  have "\<not> in_tolerant ing \<Longrightarrow> warnings_of p \<subseteq> {UnrecognizedKey w k s | w k s. declared_entry (in_registry ing) k = None}"
    by (rule prepare_entry_fields(3) [OF p])
  then show ?case using IH set1 by blast
qed simp

definition warnings_grow :: "ingestor \<Rightarrow> ingestion_warning list \<Rightarrow> ingestion_warning list \<Rightarrow> bool" where
  "warnings_grow ing ws ws' \<longleftrightarrow> set ws \<subseteq> set ws' \<and>
     (in_tolerant ing \<or> set ws' - set ws \<subseteq> {UnrecognizedKey w k s | w k s. declared_entry (in_registry ing) k = None})"

lemma warnings_grow_trans: "warnings_grow ing a b \<Longrightarrow> warnings_grow ing b c \<Longrightarrow> warnings_grow ing a c"
  unfolding warnings_grow_def by blast

lemma prepare_range_accounted:
  assumes "prepare_range tf ing object_id i input ws = Inr (p, ws')"
  shows "map_accounted (in_registry ing) (in_tolerant ing) (set ws') (pr_delta p) \<and> warnings_grow ing ws ws'"
proof -
  have "type_range_values tf ing (LayerRange object_id i) (li_values input) [] ws = Inr (pr_delta p, ws')"
    using assms by (auto simp: prepare_range_def Let_def split: if_splits sum.splits option.splits)
  from type_range_values_ok [OF this] show ?thesis by (auto simp: warnings_grow_def map_accounted_def)
qed

lemma prepare_ranges_accounted:
  "prepare_ranges tf ing object_id k inputs ws = Inr (ps, ws') \<Longrightarrow>
     (\<forall>p \<in> set ps. map_accounted (in_registry ing) (in_tolerant ing) (set ws') (pr_delta p)) \<and> warnings_grow ing ws ws'"
proof (induction inputs arbitrary: k ws ps)
  case (Cons input inputs)
  then obtain p ws1 ps' where run: "prepare_range tf ing object_id (of_nat k) input ws = Inr (p, ws1)"
      "prepare_ranges tf ing object_id (Suc k) inputs ws1 = Inr (ps', ws')" "ps = p # ps'"
    by (auto split: sum.splits)
  note p = prepare_range_accounted [OF run(1)] and IH = Cons.IH [OF run(2)]
  have "map_accounted (in_registry ing) (in_tolerant ing) (set ws') (pr_delta p)"
    using p IH by (auto simp: warnings_grow_def intro: map_accounted_mono)
  then show ?case using p IH run(3) warnings_grow_trans by auto
qed (simp add: warnings_grow_def)

lemma prepare_objects_accounted:
  "prepare_objects tf ing objects ws = Inr (pending, ws') \<Longrightarrow>
     (\<forall>(o', ps) \<in> set pending. \<forall>p \<in> set ps. map_accounted (in_registry ing) (in_tolerant ing) (set ws') (pr_delta p)) \<and>
     warnings_grow ing ws ws'"
proof (induction objects arbitrary: ws pending)
  case (Cons o' objects)
  obtain object_id authored where o': "o' = (object_id, authored)" by (cases o')
  obtain ps ws1 rest where run: "prepare_ranges tf ing object_id 0 (sort_key range_sort_key authored) ws = Inr (ps, ws1)"
      "prepare_objects tf ing objects ws1 = Inr (rest, ws')" "pending = (object_id, ps) # rest"
    using Cons.prems by (auto simp: o' split: sum.splits)
  note ps = prepare_ranges_accounted [OF run(1)] and IH = Cons.IH [OF run(2)]
  have "\<forall>p \<in> set ps. map_accounted (in_registry ing) (in_tolerant ing) (set ws') (pr_delta p)"
    using ps IH by (auto simp: warnings_grow_def intro: map_accounted_mono)
  then show ?case using ps IH run(3) warnings_grow_trans by auto
qed (simp add: warnings_grow_def)

lemma fold_btm_insert_set: "set (fold (\<lambda>(k, v). btm_insert k v) kvs m) \<subseteq> set kvs \<union> set m"
proof (induction kvs arbitrary: m)
  case (Cons kv kvs)
  then show ?case using set_btm_insert [of "fst kv" "snd kv" m] by (cases kv) fastforce
qed simp

lemma ingest_layer_ranges_ok:
  assumes "ingestor_ok ing" and "ingest_layer_ranges tf inputs ing = Inr ing'"
  shows "ingestor_ok ing' \<and> same_mode ing ing'"
proof -
  let ?acc = "\<lambda>ws. map_accounted (in_registry ing) (in_tolerant ing) ws"
  obtain pending ws committed where run:
      "prepare_objects tf ing (btm_group (map (\<lambda>i. (li_object_id i, i)) inputs)) [] = Inr (pending, ws)"
      "commit_objects pending = Inr committed"
      "ing' = ing\<lparr>in_layer_ranges := fold (\<lambda>(o', rs). btm_insert o' rs) committed (in_layer_ranges ing),
         in_warnings := sort_key warning_rank (in_warnings ing @ ws)\<rparr>"
    using assms(2) by (auto simp: ingest_layer_ranges_def split: sum.splits option.splits)
  let ?W = "set (in_warnings ing) \<union> set ws"
  note pend = prepare_objects_accounted [OF run(1)]
  have com: "committed = map (\<lambda>(o', ps). (o', map (committed_range o') ps)) pending"
    using run(2) by (rule commit_objects_map)
  have new: "?acc ?W (lr_delta r)" if mem: "(o', rs) \<in> set committed" "r \<in> set rs" for o' rs r
  proof -
    obtain ps where ps: "(o', ps) \<in> set pending" "rs = map (committed_range o') ps" using mem(1) by (auto simp: com)
    then obtain p where p: "p \<in> set ps" "r = committed_range o' p" using mem(2) by auto
    then have "?acc (set ws) (pr_delta p)" "lr_delta r = pr_delta p" using pend ps(1) by (auto simp: committed_range_def)
    then show ?thesis using map_accounted_mono [of _ _ "set ws" "pr_delta p" ?W] by simp
  qed
  have old: "?acc ?W m" if "?acc (set (in_warnings ing)) m" for m using that by (rule map_accounted_mono) simp
  have ranges: "?acc ?W (lr_delta r)"
    if "(o', rs) \<in> set (in_layer_ranges ing')" "r \<in> set rs" for o' rs r
  proof -
    have "(o', rs) \<in> set committed \<or> (o', rs) \<in> set (in_layer_ranges ing)"
      using that(1) fold_btm_insert_set [of committed "in_layer_ranges ing"] by (auto simp: run(3))
    then show ?thesis using new old that(2) assms(1) by (fastforce simp: ingestor_ok_def)
  qed
  have deltas: "?acc ?W m" if "(sc, m) \<in> set (in_deltas ing)" for sc m
    using that assms(1) old by (auto simp: ingestor_ok_def)
  have strict: "in_tolerant ing \<or> ?W \<subseteq> {UnrecognizedKey w k s | w k s. declared_entry (in_registry ing) k = None} \<and>
      in_untyped_global_keys ing = []"
    using pend assms(1) by (auto simp: ingestor_ok_def warnings_grow_def)
  show ?thesis
    using deltas ranges strict unfolding ingestor_ok_def same_mode_def run(3) by (auto simp: sorted_sort_key)
qed

section \<open>Sequences of ingestions\<close>

text \<open>The states an ingestor reaches: each successful ingestion commits, a failed one leaves it as it was.\<close>

inductive ingests :: "text_format \<Rightarrow> registry \<Rightarrow> bool \<Rightarrow> ingestor \<Rightarrow> bool" for tf reg tolerant where
  new: "ingests tf reg tolerant (with_mode reg tolerant)"
| flat: "ingests tf reg tolerant ing \<Longrightarrow> ingest_flat tf vs ing = Inr ing' \<Longrightarrow> ingests tf reg tolerant ing'"
| delta: "ingests tf reg tolerant ing \<Longrightarrow> ingest_delta tf scope vs ing = Inr ing' \<Longrightarrow> ingests tf reg tolerant ing'"
| ranges: "ingests tf reg tolerant ing \<Longrightarrow> ingest_layer_ranges tf inputs ing = Inr ing' \<Longrightarrow> ingests tf reg tolerant ing'"

lemma ingests_ok: "ingests tf reg tolerant ing \<Longrightarrow> ingestor_ok ing \<and> in_registry ing = reg \<and> in_tolerant ing = tolerant"
proof (induction rule: ingests.induct)
  case new
  then show ?case by (simp add: with_mode_def ingestor_ok_def)
next
  case (flat ing vs ing')
  then show ?case using ingest_flat_ok [of ing tf vs ing'] by (simp add: same_mode_def)
next
  case (delta ing scope vs ing')
  then show ?case using ingest_delta_ok [of ing tf scope vs ing'] by (simp add: same_mode_def)
next
  case (ranges ing inputs ing')
  then show ?case using ingest_layer_ranges_ok [of ing tf inputs ing'] by (simp add: same_mode_def)
qed

section \<open>Wire keys\<close>

lemma split_char_Cons:
  "split_char c s = a # rest \<Longrightarrow>
     c \<notin> set a \<and> (rest = [] \<and> s = a \<or> (\<exists>t. s = a @ c # t \<and> split_char c t = rest))"
proof (induction s arbitrary: a)
  case (Cons x s)
  show ?case
  proof (cases "x = c")
    case False
    obtain b where b: "split_char c s = b # rest" "a = x # b"
      using Cons.prems False split_char_nonempty [of c s] by (cases "split_char c s") auto
    show ?thesis using Cons.IH [OF b(1)] False by (auto simp: b(2))
  qed (use Cons.prems in auto)
qed auto

lemma split_char_three:
  "split_char c s = [x, y, z] \<longleftrightarrow> s = x @ c # y @ c # z \<and> c \<notin> set x \<and> c \<notin> set y \<and> c \<notin> set z"
  by (auto simp: split_char_app split_char_none dest!: split_char_Cons)

lemma length_three: "length ps = 3 \<longleftrightarrow> (\<exists>x y z. ps = [x, y, z])"
  by (auto simp: numeral_3_eq_3 length_Suc_conv)

lemma scope_key_parts:
  assumes "CHR '':'' \<notin> set pre"
  shows "is_scope_key pre w \<and> split_char (CHR '':'') w = [x, y, z] \<longleftrightarrow>
    x = pre \<and> w = pre @ '':'' @ y @ '':'' @ z \<and> CHR '':'' \<notin> set y \<and> CHR '':'' \<notin> set z"
proof -
  have "x = pre" if "is_scope_key pre w" and three: "split_char (CHR '':'') w = [x, y, z]"
  proof -
    from that(1) consider "w = pre" | t where "w = pre @ '':'' @ t" by (auto simp: is_scope_key_def prefix_def)
    then show ?thesis
    proof cases
      case 1
      then show ?thesis using three split_char_none [OF assms] by simp
    next
      case 2
      then show ?thesis using three split_char_app [OF assms, of t] by simp
    qed
  qed
  moreover have "is_scope_key pre (pre @ '':'' @ t)" for t by (simp add: is_scope_key_def prefix_def)
  ultimately show ?thesis using assms by (auto simp: split_char_three)
qed

definition spells :: "string \<Rightarrow> string \<Rightarrow> string \<Rightarrow> string \<Rightarrow> bool" where
  "spells pre name key w \<longleftrightarrow> w = pre @ '':'' @ name @ '':'' @ key \<and> key \<noteq> [] \<and>
     CHR '':'' \<notin> set name \<and> CHR '':'' \<notin> set key"

lemma scope_prefixes_disjoint:
  "is_scope_key ''object_config'' w \<Longrightarrow> \<not> is_scope_key ''paint_config'' w \<and> \<not> is_scope_key ''tool_config'' w"
  "is_scope_key ''paint_config'' w \<Longrightarrow> \<not> is_scope_key ''tool_config'' w"
  by (auto simp: is_scope_key_def prefix_def)

lemma spells_scope: "spells pre name key w \<Longrightarrow> is_scope_key pre w"
  by (auto simp: spells_def is_scope_key_def prefix_def)

lemma spells_parts:
  assumes "is_scope_key pre w" and "CHR '':'' \<notin> set pre"
  shows "spells pre name key w \<longleftrightarrow> split_char (CHR '':'') w = [pre, name, key] \<and> key \<noteq> []"
  using scope_key_parts [OF assms(2), of w pre name key] assms(1) unfolding spells_def by blast

lemma scope_key_cases:
  assumes "is_scope_key pre w" and "CHR '':'' \<notin> set pre"
  obtains "length (split_char (CHR '':'') w) \<noteq> 3" | name key where "split_char (CHR '':'') w = [pre, name, key]"
  using scope_key_parts [OF assms(2), of w] assms(1) unfolding length_three by metis

lemma decode_object:
  assumes "is_scope_key ''object_config'' w"
  shows "decode_wire_key w = Inr r \<longleftrightarrow>
    (\<exists>name key. r = (Object name, key) \<and> name \<noteq> [] \<and> spells ''object_config'' name key w)"
proof -
  have sp: "spells ''object_config'' name key w \<longleftrightarrow> split_char (CHR '':'') w = [''object_config'', name, key] \<and> key \<noteq> []" for name key
    using assms by (intro spells_parts) auto
  show ?thesis unfolding sp
    using assms by (rule scope_key_cases) (auto simp: decode_wire_key_def Let_def assms numeral_2_eq_2 split: if_splits)
qed

lemma decode_paint:
  assumes "is_scope_key ''paint_config'' w"
  shows "decode_wire_key w = Inr r \<longleftrightarrow>
    (\<exists>name key. r = (PaintSemantic name, key) \<and> name \<noteq> [] \<and> spells ''paint_config'' name key w)"
proof -
  have sp: "spells ''paint_config'' name key w \<longleftrightarrow> split_char (CHR '':'') w = [''paint_config'', name, key] \<and> key \<noteq> []" for name key
    using assms by (intro spells_parts) auto
  have no: "\<not> is_scope_key ''object_config'' w" using assms scope_prefixes_disjoint(1) by blast
  show ?thesis unfolding sp
    using assms by (rule scope_key_cases) (auto simp: decode_wire_key_def Let_def assms no numeral_2_eq_2 split: if_splits)
qed

lemma decode_tool:
  assumes "is_scope_key ''tool_config'' w"
  shows "decode_wire_key w = Inr r \<longleftrightarrow>
    (\<exists>name tool key. r = (Tool tool, key) \<and> parse_u32 name = Some tool \<and> spells ''tool_config'' name key w)"
proof -
  have sp: "spells ''tool_config'' name key w \<longleftrightarrow> split_char (CHR '':'') w = [''tool_config'', name, key] \<and> key \<noteq> []" for name key
    using assms by (intro spells_parts) auto
  have no: "\<not> is_scope_key ''object_config'' w" "\<not> is_scope_key ''paint_config'' w"
    using assms scope_prefixes_disjoint by blast+
  show ?thesis unfolding sp
    using assms by (rule scope_key_cases) (auto simp: decode_wire_key_def Let_def assms no numeral_2_eq_2 split: if_splits option.splits)
qed

lemma decode_global:
  "\<not> is_scope_key ''object_config'' w \<Longrightarrow> \<not> is_scope_key ''paint_config'' w \<Longrightarrow> \<not> is_scope_key ''tool_config'' w \<Longrightarrow>
     decode_wire_key w = Inr (Global, w)"
  by (simp add: decode_wire_key_def Let_def)

section \<open>Properties\<close>

text \<open>C14: a wire key decodes to exactly the scope it spells: an object, paint or tool key to the scope named by
  its middle part when it has three parts with a non-empty key (and a non-empty name, or a decimal tool
  index), a key without a scope prefix to the global scope unchanged, and nothing else decodes.\<close>

theorem decode_wire_key_exact:
  "decode_wire_key w = Inr (scope, key) \<longleftrightarrow>
     (case scope of
        Object name \<Rightarrow> name \<noteq> [] \<and> spells ''object_config'' name key w
      | PaintSemantic name \<Rightarrow> name \<noteq> [] \<and> spells ''paint_config'' name key w
      | Tool tool \<Rightarrow> (\<exists>name. parse_u32 name = Some tool \<and> spells ''tool_config'' name key w)
      | Global \<Rightarrow> key = w \<and> \<not> is_scope_key ''object_config'' w \<and> \<not> is_scope_key ''paint_config'' w \<and>
          \<not> is_scope_key ''tool_config'' w
      | _ \<Rightarrow> False)"
proof -
  consider "is_scope_key ''object_config'' w" | "is_scope_key ''paint_config'' w" | "is_scope_key ''tool_config'' w"
    | "\<not> is_scope_key ''object_config'' w" "\<not> is_scope_key ''paint_config'' w" "\<not> is_scope_key ''tool_config'' w" by blast
  then show ?thesis
  proof cases
    case 1
    then show ?thesis using decode_object [OF 1] scope_prefixes_disjoint(1) [OF 1] spells_scope
      by (auto split: config_scope.split)
  next
    case 2
    then show ?thesis using decode_paint [OF 2] scope_prefixes_disjoint [of w] spells_scope
      by (auto split: config_scope.split)
  next
    case 3
    then show ?thesis using decode_tool [OF 3] scope_prefixes_disjoint [of w] spells_scope
      by (auto split: config_scope.split)
  next
    case 4
    then show ?thesis using decode_global [OF 4] spells_scope by (auto split: config_scope.split)
  qed
qed

text \<open>C15: the suggestion for a key is a registered key at least edit distance, and the least such key: it is
  within two edits, and there is none exactly when no registered key is.  The distance is the least number
  of inserted, deleted and substituted characters that aligns the two keys.\<close>

theorem suggestion_nearest:
  "case suggestion reg key of
     None \<Rightarrow> list_all (\<lambda>c. 2 < (LEAST n. aligned n (chars key) (chars c))) (btm_keys reg)
   | Some c \<Rightarrow> c \<in> set (btm_keys reg) \<and> (LEAST n. aligned n (chars key) (chars c)) \<le> 2 \<and>
       list_all (\<lambda>c'. ((LEAST n. aligned n (chars key) (chars c)), c) \<le> ((LEAST n. aligned n (chars key) (chars c')), c'))
         (btm_keys reg)"
proof -
  let ?cs = "map (\<lambda>c. (levenshtein key c, c)) (filter (\<lambda>c. levenshtein key c \<le> 2) (sort (btm_keys reg)))"
  show ?thesis
  proof (cases "min_by_key (\<lambda>p. p) ?cs")
    case None
    then have "filter (\<lambda>c. levenshtein key c \<le> 2) (sort (btm_keys reg)) = []" by (simp add: min_by_key_None)
    then show ?thesis using None
      by (auto simp: suggestion_def levenshtein_least list_all_iff filter_empty_conv not_le)
  next
    case (Some p)
    obtain c where c: "p = (levenshtein key c, c)" "c \<in> set (btm_keys reg)" "levenshtein key c \<le> 2"
      using min_by_key_spec [OF Some] by auto
    have "(levenshtein key c, c) \<le> (levenshtein key c', c')" if "c' \<in> set (btm_keys reg)" for c'
      using min_by_key_spec [OF Some] that c(1,3)
      by (cases "levenshtein key c' \<le> 2") (auto simp: list_all_iff less_eq_prod_def)
    then show ?thesis using Some c by (auto simp: suggestion_def levenshtein_least list_all_iff)
  qed
qed

text \<open>C13: whatever sequence of flat maps, scoped deltas and layer ranges an ingestor accepts, every value it
  retains in a scope or a layer range is declared, and has its declared type or, in tolerant mode only, is
  reported by a warning; a strict ingestor only ever warns of undeclared keys; and the warnings are sorted.\<close>

theorem ingestion_accounts_for_values:
  assumes "ingests tf reg tolerant ing"
  shows "(case btm_get (in_deltas ing) scope of
       None \<Rightarrow> True | Some m \<Rightarrow> map_accounted reg tolerant (set (in_warnings ing)) m) \<and>
    (case btm_get (in_layer_ranges ing) object_id of
       None \<Rightarrow> True
     | Some rs \<Rightarrow> list_all (\<lambda>r. map_accounted reg tolerant (set (in_warnings ing)) (lr_delta r)) rs) \<and>
    (if tolerant then True
     else set (in_warnings ing) \<subseteq> {UnrecognizedKey w k s | w k s. declared_entry reg k = None} \<and>
       in_untyped_global_keys ing = []) \<and>
    sorted (map warning_rank (in_warnings ing))"
proof -
  note ok = ingests_ok [OF assms]
  have mem: "btm_get m k = Some v \<Longrightarrow> (k, v) \<in> set m" for m :: "('x \<times> 'y) list" and k v
    by (simp add: btm_get_def map_of_SomeD)
  have "map_accounted reg tolerant (set (in_warnings ing)) m" if "btm_get (in_deltas ing) scope = Some m" for m
    using ok that by (auto simp: ingestor_ok_def btm_get_def dest!: map_of_SomeD)
  moreover have "list_all (\<lambda>r. map_accounted reg tolerant (set (in_warnings ing)) (lr_delta r)) rs"
    if "btm_get (in_layer_ranges ing) object_id = Some rs" for rs
    using ok that by (auto simp: ingestor_ok_def btm_get_def list_all_iff dest!: map_of_SomeD)
  ultimately show ?thesis using ok by (auto simp: ingestor_ok_def split: option.splits)
qed

text \<open>A strict ingestor that typed one text value and warned of one undeclared key.\<close>

definition sample_ingested :: "config_ingestion_error + ingestor" where
  "sample_ingested =
     ingest_delta \<lparr>tf_f64 = (\<lambda>_. []), tf_list = (\<lambda>_. [])\<rparr> Global [(''k'', CvString ''x''), (''unknown'', CvBool True)]
       (with_mode sample_range_registry False)"

theorem ingestion_accounts_for_values_witness:
  "\<exists>ing. sample_ingested = Inr ing \<and>
     (case btm_get (in_deltas ing) Global of
        None \<Rightarrow> True | Some m \<Rightarrow> map_accounted sample_range_registry False (set (in_warnings ing)) m)"
proof -
  have "\<not> isl sample_ingested" by code_simp
  then obtain ing where run: "sample_ingested = Inr ing" by (metis sum.collapse(2))
  have "ingests \<lparr>tf_f64 = (\<lambda>_. []), tf_list = (\<lambda>_. [])\<rparr> sample_range_registry False ing"
    using run by (intro ingests.delta [OF ingests.new]) (simp add: sample_ingested_def)
  then show ?thesis using ingestion_accounts_for_values run by blast
qed

end
