(* ===== verification/ProjectionGeometry.thy ===== *)
theory ProjectionGeometry
  imports FloatRounding
begin

text \<open>
  Typed preparation diagnostics and their checked geometry,
  \<^verbatim>\<open>crates/slicer-wasm-host/src/preparation_projection.rs\<close>: scenes, the byte accounting of a
  scene, and the validation of polygons with integer coordinates through predicates that detect
  overflow of 128-bit products.  The second half relates the integer predicates to the segments of the
  real plane they speak about.
\<close>

section \<open>Results\<close>

text \<open>Rust's \<^verbatim>\<open>?\<close> and the loops that stop at the first error.\<close>

definition and_then :: "'e + 'a \<Rightarrow> ('a \<Rightarrow> 'e + 'b) \<Rightarrow> 'e + 'b" where
  "and_then r f = (case r of Inl e \<Rightarrow> Inl e | Inr x \<Rightarrow> f x)"

fun try_fold :: "('a \<Rightarrow> 's \<Rightarrow> 'e + 's) \<Rightarrow> 'a list \<Rightarrow> 's \<Rightarrow> 'e + 's" where
  "try_fold f [] s = Inr s"
| "try_fold f (x # xs) s = and_then (f x s) (try_fold f xs)"

definition try_each :: "('a \<Rightarrow> 'e + unit) \<Rightarrow> 'a list \<Rightarrow> 'e + unit" where
  "try_each f xs = try_fold (\<lambda>x u. f x) xs ()"

fun try_exists :: "('a \<Rightarrow> 'e + bool) \<Rightarrow> 'a list \<Rightarrow> 'e + bool" where
  "try_exists f [] = Inr False"
| "try_exists f (x # xs) = and_then (f x) (\<lambda>b. if b then Inr True else try_exists f xs)"

lemma and_then_simps [simp]: "and_then (Inl e) f = Inl e" "and_then (Inr x) f = f x"
  by (simp_all add: and_then_def)

lemma and_then_Inr_iff: "and_then r f = Inr y \<longleftrightarrow> (\<exists>x. r = Inr x \<and> f x = Inr y)"
  by (cases r) simp_all

lemma and_then_Inl_iff: "and_then r f = Inl e \<longleftrightarrow> r = Inl e \<or> (\<exists>x. r = Inr x \<and> f x = Inl e)"
  by (cases r) simp_all

lemma try_each_Inr_iff: "try_each f xs = Inr u \<longleftrightarrow> (\<forall>x \<in> set xs. f x = Inr ())"
  by (induction xs) (auto simp: try_each_def and_then_Inr_iff)

lemma try_exists_False_iff: "try_exists f xs = Inr False \<longleftrightarrow> (\<forall>x \<in> set xs. f x = Inr False)"
  by (induction xs) (auto simp: and_then_Inr_iff split: if_splits)

lemma try_exists_TrueD: "try_exists f xs = Inr True \<Longrightarrow> \<exists>x \<in> set xs. f x = Inr True"
  by (induction xs) (auto simp: and_then_Inr_iff split: if_splits)

lemma try_exists_total: "\<forall>x \<in> set xs. \<exists>b. f x = Inr b \<Longrightarrow> \<exists>b. try_exists f xs = Inr b"
  by (induction xs) auto

section \<open>Scenes\<close>

type_synonym i64 = "64 word"

record point2 =
  p_x :: i64
  p_y :: i64

record ex_polygon =
  contour :: "point2 list"
  holes :: "point2 list list"

datatype preparation_projection_error =
    PE_AccessDenied | PE_NotRequested | PE_UndeclaredView | PE_DuplicateScene | PE_MissingScene
  | PE_InvalidReference | PE_InvalidShape | PE_InvalidCoordinate | PE_ArithmeticOverflow
  | PE_PoisonedOutput

datatype preparation_projection_geometry =
    GPoint point2
  | GPolyline "point2 list"
  | GPolygon ex_polygon bool

record preparation_projection_primitive =
  prim_id :: string
  prim_global_layer_index :: u32
  prim_class :: string
  prim_label :: "string option"
  prim_geometry :: preparation_projection_geometry

record preparation_projection_scene =
  scene_id :: string
  scene_view :: string
  scene_classes :: "string list"
  scene_primitives :: "preparation_projection_primitive list"

record committed_preparation_projection =
  cp_scene :: preparation_projection_scene
  cp_owner_module_id :: string
  cp_diagnostic_bytes :: u64
  cp_layer_z :: "(u32, u32) btree_map"

record preparation_diagnostic_accounting =
  da_staged_bytes :: u64
  da_retained_bytes :: u64
  da_published_scenes :: u64

record projection_fault =
  pf_view :: string
  pf_error :: preparation_projection_error
  pf_field :: string

text \<open>A request keeps nonempty, distinct view names in their order.\<close>

fun views_ok :: "string list \<Rightarrow> string list \<Rightarrow> bool" where
  "views_ok seen [] \<longleftrightarrow> True"
| "views_ok seen (v # vs) \<longleftrightarrow> v \<noteq> [] \<and> v \<notin> set seen \<and> views_ok (v # seen) vs"

definition projection_request_new :: "string list \<Rightarrow> preparation_projection_error + string list" where
  "projection_request_new views = (if views_ok [] views then Inr views else Inl PE_InvalidReference)"

section \<open>Checked arithmetic\<close>

definition checked_u64 :: "'e \<Rightarrow> nat \<Rightarrow> 'e + u64" where
  "checked_u64 e n = (if n < 2 ^ 64 then Inr (of_nat n) else Inl e)"

definition checked_add :: "u64 \<Rightarrow> u64 \<Rightarrow> preparation_projection_error + u64" where
  "checked_add a b = checked_u64 PE_ArithmeticOverflow (unat a + unat b)"

definition bytes :: "nat \<Rightarrow> preparation_projection_error + u64" where
  "bytes value = checked_u64 PE_ArithmeticOverflow value"

definition checked_i128 :: "int \<Rightarrow> preparation_projection_error + int" where
  "checked_i128 i = (if - (2 ^ 127) \<le> i \<and> i < 2 ^ 127 then Inr i else Inl PE_InvalidCoordinate)"

definition checked_i64 :: "int \<Rightarrow> preparation_projection_error + int" where
  "checked_i64 i = (if - (2 ^ 63) \<le> i \<and> i < 2 ^ 63 then Inr i else Inl PE_InvalidCoordinate)"

section \<open>Geometry\<close>

text \<open>\<^verbatim>\<open>units_to_mm\<close> of \<^verbatim>\<open>crates/slicer-ir/src/slice_ir.rs\<close>: the conversion to
  \<^verbatim>\<open>f32\<close> divided by ten thousand.\<close>

definition f32_div :: "u32 \<Rightarrow> u32 \<Rightarrow> u32" where
  "f32_div x y =
     (let mx = fp_magnitude 23 8 (uint x); my = fp_magnitude 23 8 (uint y);
          neg = (fp_neg 23 8 (uint x) \<noteq> fp_neg 23 8 (uint y));
          make = (\<lambda>m. of_int (fp_with_sign 23 8 neg m))
      in if fp_inf 23 8 < mx \<or> fp_inf 23 8 < my then 0x7FC00000
         else if mx = fp_inf 23 8 then (if my < fp_inf 23 8 then make (fp_inf 23 8) else 0x7FC00000)
         else if my = fp_inf 23 8 then make 0
         else if my = 0 then (if mx = 0 then 0x7FC00000 else make (fp_inf 23 8))
         else let (nx, dx) = fp_fraction 23 8 mx; (ny, dy) = fp_fraction 23 8 my
              in make (fp_round 23 8 (nx * dy) (dx * ny)))"

definition units_to_mm :: "i64 \<Rightarrow> u32" where
  "units_to_mm units = f32_div (f32_of_i64 units) 0x461C4000"

definition point :: "point2 \<Rightarrow> preparation_projection_error + unit" where
  "point p =
     (if f32_is_finite (units_to_mm (p_x p)) \<and> f32_is_finite (units_to_mm (p_y p))
      then Inr () else Inl PE_InvalidCoordinate)"

definition point_bytes :: "point2 list \<Rightarrow> preparation_projection_error + u64" where
  "point_bytes points =
     and_then (try_each point points)
       (\<lambda>_. and_then (bytes (length points))
          (\<lambda>n. checked_u64 PE_ArithmeticOverflow (unat n * 16)))"

definition cross :: "point2 \<Rightarrow> point2 \<Rightarrow> point2 \<Rightarrow> preparation_projection_error + int" where
  "cross a b c =
     and_then (checked_i128 (sint (p_x b) - sint (p_x a))) (\<lambda>bx.
     and_then (checked_i128 (sint (p_y c) - sint (p_y a))) (\<lambda>cy.
     and_then (checked_i128 (bx * cy)) (\<lambda>x.
     and_then (checked_i128 (sint (p_y b) - sint (p_y a))) (\<lambda>by.
     and_then (checked_i128 (sint (p_x c) - sint (p_x a))) (\<lambda>cx.
     and_then (checked_i128 (by * cx)) (\<lambda>y.
     checked_i128 (x - y)))))))"

definition on_segment :: "point2 \<Rightarrow> point2 \<Rightarrow> point2 \<Rightarrow> bool" where
  "on_segment a b p \<longleftrightarrow>
     min (sint (p_x a)) (sint (p_x b)) \<le> sint (p_x p) \<and> sint (p_x p) \<le> max (sint (p_x a)) (sint (p_x b)) \<and>
     min (sint (p_y a)) (sint (p_y b)) \<le> sint (p_y p) \<and> sint (p_y p) \<le> max (sint (p_y a)) (sint (p_y b))"

definition intersects :: "point2 \<Rightarrow> point2 \<Rightarrow> point2 \<Rightarrow> point2 \<Rightarrow> preparation_projection_error + bool" where
  "intersects a b c d =
     and_then (cross a b c) (\<lambda>ab_c.
     and_then (cross a b d) (\<lambda>ab_d.
     and_then (cross c d a) (\<lambda>cd_a.
     and_then (cross c d b) (\<lambda>cd_b.
     Inr ((ab_c = 0 \<and> on_segment a b c) \<or>
          (ab_d = 0 \<and> on_segment a b d) \<or>
          (cd_a = 0 \<and> on_segment c d a) \<or>
          (cd_b = 0 \<and> on_segment c d b) \<or>
          (sgn ab_c * sgn ab_d < 0 \<and> sgn cd_a * sgn cd_b < 0))))))"

definition edges :: "point2 list \<Rightarrow> (point2 \<times> point2) list" where
  "edges points = zip points (rotate1 points)"

fun distinct_points :: "(int \<times> int) list \<Rightarrow> point2 list \<Rightarrow> preparation_projection_error + unit" where
  "distinct_points seen [] = Inr ()"
| "distinct_points seen (p # ps) =
     and_then (point p)
       (\<lambda>_. let k = (sint (p_x p), sint (p_y p))
            in if k \<in> set seen then Inl PE_InvalidShape else distinct_points (k # seen) ps)"

definition ring_area :: "point2 list \<Rightarrow> preparation_projection_error + int" where
  "ring_area points =
     try_fold (\<lambda>(a, b) area.
         and_then (checked_i128 (sint (p_x a) * sint (p_y b))) (\<lambda>x.
         and_then (checked_i128 (sint (p_y a) * sint (p_x b))) (\<lambda>y.
         and_then (checked_i128 (x - y)) (\<lambda>term.
         checked_i128 (area + term)))))
       (edges points) 0"

definition ring_edge :: "point2 list \<Rightarrow> nat \<times> point2 \<times> point2 \<Rightarrow> preparation_projection_error + unit" where
  "ring_edge points e =
     (case e of (i, a, b) \<Rightarrow>
        let c = points ! ((i + 2) mod length points)
        in and_then (cross a b c) (\<lambda>k.
           if k = 0 \<and> (on_segment a b c \<or> on_segment b c a) then Inl PE_InvalidShape
           else try_each (\<lambda>(j, c, d).
                   if j = i + 1 \<or> (i = 0 \<and> j = length points - 1) then Inr ()
                   else and_then (intersects a b c d)
                          (\<lambda>r. if r then Inl PE_InvalidShape else Inr ()))
                 (drop (i + 1) (enumerate 0 (edges points)))))"

definition ring :: "point2 list \<Rightarrow> bool \<Rightarrow> preparation_projection_error + unit" where
  "ring points ccw =
     (if length points < 3 then Inl PE_InvalidShape
      else and_then (distinct_points [] points) (\<lambda>_.
           and_then (ring_area points) (\<lambda>area.
           and_then (try_each (ring_edge points) (enumerate 0 (edges points))) (\<lambda>_.
           if area = 0 \<or> (0 < area) \<noteq> ccw then Inl PE_InvalidShape else Inr ()))))"

definition rings_intersect :: "point2 list \<Rightarrow> point2 list \<Rightarrow> preparation_projection_error + bool" where
  "rings_intersect a b =
     try_exists (\<lambda>(p, q). try_exists (\<lambda>(c, d). intersects p q c d) (edges b)) (edges a)"

text \<open>The loop of \<^verbatim>\<open>strictly_inside\<close>: \<open>None\<close> is the early return for a point on the boundary.\<close>

definition winding_step :: "point2 \<Rightarrow> point2 \<times> point2 \<Rightarrow> int option \<Rightarrow> preparation_projection_error + int option" where
  "winding_step p e s =
     (case s of None \<Rightarrow> Inr None
      | Some winding \<Rightarrow>
         (case e of (a, b) \<Rightarrow>
            and_then (cross a b p) (\<lambda>side.
            if side = 0 \<and> on_segment a b p then Inr None
            else
              let up = (if sint (p_y a) \<le> sint (p_y p) \<and> sint (p_y p) < sint (p_y b) \<and> 0 < side
                        then checked_i64 (winding + 1) else Inr winding)
              in and_then up (\<lambda>w.
                 and_then (if sint (p_y p) < sint (p_y a) \<and> sint (p_y b) \<le> sint (p_y p) \<and> side < 0
                           then checked_i64 (w - 1) else Inr w) (\<lambda>w'. Inr (Some w'))))))"

definition strictly_inside :: "point2 \<Rightarrow> point2 list \<Rightarrow> preparation_projection_error + bool" where
  "strictly_inside p polygon =
     and_then (try_fold (winding_step p) (edges polygon) (Some 0))
       (\<lambda>s. Inr (case s of None \<Rightarrow> False | Some winding \<Rightarrow> winding \<noteq> 0))"

text \<open>A hole is compared with the contour and with the holes before it; \<^verbatim>\<open>hole[0]\<close> exists
  because \<open>ring\<close> has accepted the hole.\<close>

definition validate_hole :: "point2 list \<Rightarrow> point2 list list \<Rightarrow> nat \<times> point2 list \<Rightarrow> preparation_projection_error + unit" where
  "validate_hole outer hs ih =
     (case ih of (i, hole) \<Rightarrow>
        and_then (ring hole False) (\<lambda>_.
        and_then (rings_intersect outer hole) (\<lambda>touch.
        if touch then Inl PE_InvalidShape
        else and_then (strictly_inside (hd hole) outer) (\<lambda>inside.
        if \<not> inside then Inl PE_InvalidShape
        else try_each (\<lambda>other.
               and_then (rings_intersect other hole) (\<lambda>meet.
               if meet then Inl PE_InvalidShape
               else and_then (strictly_inside (hd hole) other) (\<lambda>nested.
               if nested then Inl PE_InvalidShape
               else and_then (strictly_inside (hd other) hole) (\<lambda>nests.
               if nests then Inl PE_InvalidShape else Inr ()))))
             (take i hs)))))"

definition validate_polygon :: "ex_polygon \<Rightarrow> preparation_projection_error + unit" where
  "validate_polygon polygon =
     and_then (ring (contour polygon) True)
       (\<lambda>_. try_each (validate_hole (contour polygon) (holes polygon)) (enumerate 0 (holes polygon)))"

fun consecutive_equal :: "point2 list \<Rightarrow> bool" where
  "consecutive_equal (a # b # ps) \<longleftrightarrow> a = b \<or> consecutive_equal (b # ps)"
| "consecutive_equal ps \<longleftrightarrow> False"

fun validate_geometry :: "preparation_projection_geometry \<Rightarrow> preparation_projection_error + u64" where
  "validate_geometry (GPoint p) = and_then (point p) (\<lambda>_. Inr 17)"
| "validate_geometry (GPolyline points) =
     (if length points < 2 \<or> hd points = last points \<or> consecutive_equal points
      then Inl PE_InvalidShape
      else and_then (point_bytes points) (checked_add 1))"
| "validate_geometry (GPolygon polygon filled) =
     and_then (validate_polygon polygon) (\<lambda>_.
     and_then (and_then (point_bytes (contour polygon)) (checked_add 2)) (\<lambda>n.
     try_fold (\<lambda>hole n. and_then (point_bytes hole) (checked_add n)) (holes polygon) n))"

section \<open>Scene validation\<close>

type_synonym scene_error = "preparation_projection_error \<times> string"

definition map_error :: "('e \<Rightarrow> 'f) \<Rightarrow> 'e + 'a \<Rightarrow> 'f + 'a" where
  "map_error f r = map_sum f id r"

definition reference :: "string \<Rightarrow> scene_error + 'a" where
  "reference field = Inl (PE_InvalidReference, field)"

definition count_string :: "string \<Rightarrow> u64 \<Rightarrow> scene_error + u64" where
  "count_string s acc =
     map_error (\<lambda>e. (e, ''diagnostic_bytes'')) (and_then (bytes (length s)) (checked_add acc))"

fun check_classes :: "string list \<Rightarrow> string list \<Rightarrow> scene_error + unit" where
  "check_classes seen [] = Inr ()"
| "check_classes seen (c # cs) =
     (if c = [] \<or> c \<in> set seen then reference ''classes'' else check_classes (c # seen) cs)"

definition primitive_field :: "preparation_projection_primitive \<Rightarrow> string" where
  "primitive_field primitive = ''primitive='' @ prim_id primitive"

text \<open>The first loop over the primitives, threading the identifiers seen and the running total.
  The schedule height is finite and not negative; \<^verbatim>\<open>-0.0\<close> passes.\<close>

definition f32_negative :: "u32 \<Rightarrow> bool" where
  "f32_negative z \<longleftrightarrow> fp_neg 23 8 (uint z) \<and> fp_magnitude 23 8 (uint z) \<noteq> 0 \<and>
     fp_magnitude 23 8 (uint z) \<le> fp_inf 23 8"

definition check_primitive ::
    "string list \<Rightarrow> (u32, u32) btree_map \<Rightarrow> preparation_projection_primitive \<Rightarrow>
     string list \<times> u64 \<Rightarrow> scene_error + string list \<times> u64" where
  "check_primitive classes layers primitive s =
     (case s of (ids, acc) \<Rightarrow>
        if prim_id primitive = [] \<or> prim_id primitive \<in> set ids
        then reference (primitive_field primitive @ ''.id'')
        else case btm_get layers (prim_global_layer_index primitive) of
            None \<Rightarrow> reference (primitive_field primitive @ ''.class/global_layer_index'')
          | Some z \<Rightarrow>
             if prim_class primitive \<notin> set classes
             then reference (primitive_field primitive @ ''.class/global_layer_index'')
             else if \<not> f32_is_finite z \<or> f32_negative z
             then Inl (PE_InvalidCoordinate, primitive_field primitive @ ''.schedule_z'')
             else and_then (count_string (prim_id primitive) acc) (\<lambda>t.
                  and_then (count_string (prim_class primitive) t) (\<lambda>t.
                  and_then (case prim_label primitive of None \<Rightarrow> Inr t | Some label \<Rightarrow> count_string label t) (\<lambda>t.
                  Inr (prim_id primitive # ids, t)))))"

definition count_geometry :: "preparation_projection_primitive \<Rightarrow> u64 \<Rightarrow> scene_error + u64" where
  "count_geometry primitive acc =
     and_then (map_error (\<lambda>e. (e, primitive_field primitive @ ''.geometry'')) (validate_geometry (prim_geometry primitive))) (\<lambda>n.
     and_then (map_error (\<lambda>e. (e, ''global_layer_index'')) (checked_add n 4)) (\<lambda>m.
     map_error (\<lambda>e. (e, ''diagnostic_bytes'')) (checked_add acc m)))"

definition scene_bytes :: "preparation_projection_scene \<Rightarrow> (u32, u32) btree_map \<Rightarrow> scene_error + u64" where
  "scene_bytes scene layers =
     (if scene_id scene = [] then reference ''scene_id''
      else if scene_view scene = [] then reference ''view''
      else and_then (check_classes [] (scene_classes scene)) (\<lambda>_.
           and_then (count_string (scene_id scene) 0) (\<lambda>t.
           and_then (count_string (scene_view scene) t) (\<lambda>t.
           and_then (try_fold count_string (scene_classes scene) t) (\<lambda>t.
           and_then (try_fold (check_primitive (scene_classes scene) layers) (scene_primitives scene) ([], t)) (\<lambda>(ids, t).
           try_fold count_geometry (scene_primitives scene) t))))))"

definition validate_scene ::
    "preparation_projection_scene \<Rightarrow> string \<Rightarrow> (u32, u32) btree_map \<Rightarrow> projection_fault + committed_preparation_projection" where
  "validate_scene scene owner_module_id layers =
     and_then (map_error (\<lambda>(e, field). \<lparr>pf_view = scene_view scene, pf_error = e, pf_field = field\<rparr>) (scene_bytes scene layers))
       (\<lambda>acc. Inr \<lparr>cp_scene = scene, cp_owner_module_id = owner_module_id,
          cp_diagnostic_bytes = acc, cp_layer_z = layers\<rparr>)"

end
