(* ===== verification/SimplePolygons.thy ===== *)
theory SimplePolygons
  imports ProjectionGeometry
begin

text \<open>
  What the integer predicates of the projection validator decide, in the real plane: two segments are
  reported to intersect exactly when they share a point, and a ring is accepted exactly when it is a
  simple polygon with the required orientation.
\<close>

section \<open>Segments of the plane\<close>

type_synonym plane = "real \<times> real"

definition segment :: "plane \<Rightarrow> plane \<Rightarrow> plane set" where
  "segment a b = {(fst a + t * (fst b - fst a), snd a + t * (snd b - snd a)) |t. 0 \<le> t \<and> t \<le> 1}"

definition turn :: "plane \<Rightarrow> plane \<Rightarrow> plane \<Rightarrow> real" where
  "turn a b c = (fst b - fst a) * (snd c - snd a) - (snd b - snd a) * (fst c - fst a)"

definition in_box :: "plane \<Rightarrow> plane \<Rightarrow> plane \<Rightarrow> bool" where
  "in_box a b p \<longleftrightarrow>
     min (fst a) (fst b) \<le> fst p \<and> fst p \<le> max (fst a) (fst b) \<and>
     min (snd a) (snd b) \<le> snd p \<and> snd p \<le> max (snd a) (snd b)"

lemma segmentE:
  assumes "p \<in> segment a b"
  obtains t where "0 \<le> t" "t \<le> 1" "fst p = fst a + t * (fst b - fst a)" "snd p = snd a + t * (snd b - snd a)"
  using assms by (auto simp: segment_def)

lemma segmentI:
  "0 \<le> t \<Longrightarrow> t \<le> 1 \<Longrightarrow> fst p = fst a + t * (fst b - fst a) \<Longrightarrow> snd p = snd a + t * (snd b - snd a) \<Longrightarrow> p \<in> segment a b"
  by (cases p) (auto simp: segment_def)

lemma segment_ends [simp]: "a \<in> segment a b" "b \<in> segment a b"
  by (rule segmentI [of 0]; simp) (rule segmentI [of 1]; simp)

text \<open>A coordinate between two others is a convex combination of them.\<close>

lemma box_parameter:
  fixes x y z :: real
  assumes "min x y \<le> z" and "z \<le> max x y" and "x \<noteq> y"
  shows "0 \<le> (z - x) / (y - x)" and "(z - x) / (y - x) \<le> 1"
  using assms by (auto simp: divide_simps min_def max_def split: if_splits)

lemma convex_in_box:
  fixes x y t :: real
  assumes "0 \<le> t" and "t \<le> 1"
  shows "min x y \<le> x + t * (y - x)" and "x + t * (y - x) \<le> max x y"
proof -
  have eq: "x + t * (y - x) = (1 - t) * x + t * y" by (simp add: algebra_simps)
  have "(1 - t) * min x y + t * min x y \<le> (1 - t) * x + t * y"
    using assms by (intro add_mono mult_left_mono) auto
  then show "min x y \<le> x + t * (y - x)" unfolding eq by (simp add: algebra_simps)
  have "(1 - t) * x + t * y \<le> (1 - t) * max x y + t * max x y"
    using assms by (intro add_mono mult_left_mono) auto
  then show "x + t * (y - x) \<le> max x y" unfolding eq by (simp add: algebra_simps)
qed

lemma in_segment_iff: "p \<in> segment a b \<longleftrightarrow> turn a b p = 0 \<and> in_box a b p"
proof
  assume "p \<in> segment a b"
  then obtain t where t: "0 \<le> t" "t \<le> 1" "fst p = fst a + t * (fst b - fst a)" "snd p = snd a + t * (snd b - snd a)"
    by (rule segmentE)
  then show "turn a b p = 0 \<and> in_box a b p"
    using convex_in_box [OF t(1,2)] by (simp add: turn_def in_box_def)
next
  assume A: "turn a b p = 0 \<and> in_box a b p"
  then have line: "(fst b - fst a) * (snd p - snd a) = (snd b - snd a) * (fst p - fst a)"
    by (simp add: turn_def)
  consider "fst a \<noteq> fst b" | "fst a = fst b" "snd a \<noteq> snd b" | "fst a = fst b" "snd a = snd b" by blast
  then show "p \<in> segment a b"
  proof cases
    case 1
    let ?t = "(fst p - fst a) / (fst b - fst a)"
    show ?thesis
      by (rule segmentI [of ?t]) (use 1 A line box_parameter [of "fst a" "fst b" "fst p"] in \<open>auto simp: in_box_def field_simps\<close>)
  next
    case 2
    let ?t = "(snd p - snd a) / (snd b - snd a)"
    show ?thesis
      by (rule segmentI [of ?t]) (use 2 A line box_parameter [of "snd a" "snd b" "snd p"] in \<open>auto simp: in_box_def field_simps\<close>)
  next
    case 3
    then have "p = a" using A by (auto simp: in_box_def prod_eq_iff)
    then show ?thesis by simp
  qed
qed

lemma turn_affine:
  "turn a b (fst c + t * (fst d - fst c), snd c + t * (snd d - snd c)) = (1 - t) * turn a b c + t * turn a b d"
  by (simp add: turn_def algebra_simps)

text \<open>Two segments that cross properly.\<close>

lemma proper_crossing:
  assumes "turn a b c * turn a b d < 0" and "turn c d a * turn c d b < 0"
  shows "segment a b \<inter> segment c d \<noteq> {}"
proof -
  let ?D = "turn a b c - turn a b d"
  let ?t = "turn a b c / ?D" and ?s = "turn c d a / (turn c d a - turn c d b)"
  have D: "turn c d a - turn c d b = - ?D" by (simp add: turn_def algebra_simps)
  have nz: "?D \<noteq> 0" using assms(1) by (auto simp: mult_less_0_iff)
  have t: "0 \<le> ?t" "?t \<le> 1" using assms(1) by (auto simp: mult_less_0_iff divide_simps)
  have s: "0 \<le> ?s" "?s \<le> 1" using assms(2) by (auto simp: mult_less_0_iff divide_simps)
  let ?p = "(fst c + ?t * (fst d - fst c), snd c + ?t * (snd d - snd c))"
  have "?p \<in> segment c d" by (rule segmentI [OF t]) simp_all
  moreover have "?p \<in> segment a b"
  proof (rule segmentI [OF s])
    show "fst ?p = fst a + ?s * (fst b - fst a)"
      unfolding D using nz by (simp add: field_simps) (simp add: turn_def algebra_simps)
    show "snd ?p = snd a + ?s * (snd b - snd a)"
      unfolding D using nz by (simp add: field_simps) (simp add: turn_def algebra_simps)
  qed
  ultimately show ?thesis by blast
qed

text \<open>Three collinear segments' worth of cases: if both ends of one segment lie on the line of the
  other and the segments meet, an end of one lies on the other.\<close>

lemma collinear_meet:
  assumes p: "p \<in> segment a b" "p \<in> segment c d" and ends: "turn a b c = 0" "turn a b d = 0"
  shows "c \<in> segment a b \<or> d \<in> segment a b \<or> a \<in> segment c d"
proof (cases "a = b")
  case True
  then show ?thesis using p by (auto simp: segment_def)
next
  case False
  have param: "\<exists>u. fst x = fst a + u * (fst b - fst a) \<and> snd x = snd a + u * (snd b - snd a)" if "turn a b x = 0" for x
  proof (cases "fst a = fst b")
    case True
    then have "snd a \<noteq> snd b" using False by (simp add: prod_eq_iff)
    then show ?thesis using that True
      by (intro exI [of _ "(snd x - snd a) / (snd b - snd a)"]) (simp add: turn_def)
  next
    case False
    then show ?thesis using that
      by (intro exI [of _ "(fst x - fst a) / (fst b - fst a)"]) (auto simp: turn_def field_simps)
  qed
  obtain u where u: "fst c = fst a + u * (fst b - fst a)" "snd c = snd a + u * (snd b - snd a)" using param [OF ends(1)] by blast
  obtain v where v: "fst d = fst a + v * (fst b - fst a)" "snd d = snd a + v * (snd b - snd a)" using param [OF ends(2)] by blast
  obtain s where s: "0 \<le> s" "s \<le> 1" "fst p = fst a + s * (fst b - fst a)" "snd p = snd a + s * (snd b - snd a)" using p(1) by (rule segmentE)
  obtain t where t: "0 \<le> t" "t \<le> 1" "fst p = fst c + t * (fst d - fst c)" "snd p = snd c + t * (snd d - snd c)" using p(2) by (rule segmentE)
  have sx: "(s - (u + t * (v - u))) * (fst b - fst a) = 0"
    using s(3) t(3) u(1) v(1) by (simp add: algebra_simps)
  have sy: "(s - (u + t * (v - u))) * (snd b - snd a) = 0"
    using s(4) t(4) u(2) v(2) by (simp add: algebra_simps)
  have seq: "s = u + t * (v - u)" using sx sy False by (auto simp: prod_eq_iff)
  have "min u v \<le> s" "s \<le> max u v" using convex_in_box [OF t(1,2), of u v] seq by auto
  then have "(0 \<le> u \<and> u \<le> 1) \<or> (0 \<le> v \<and> v \<le> 1) \<or> (min u v \<le> 0 \<and> 0 \<le> max u v \<and> u \<noteq> v)"
    using s(1,2) by (cases "u \<le> v") (simp_all add: min_def max_def, linarith+)
  then consider "0 \<le> u" "u \<le> 1" | "0 \<le> v" "v \<le> 1" | "min u v \<le> 0" "0 \<le> max u v" "u \<noteq> v"
    by blast
  then show ?thesis
  proof cases
    case 1
    then show ?thesis using segmentI [OF 1 u] by blast
  next
    case 2
    then show ?thesis using segmentI [OF 2 v] by blast
  next
    case 3
    define k where "k = (0 - u) / (v - u)"
    have k: "0 \<le> k" "k \<le> 1" using box_parameter [OF 3] by (auto simp: k_def)
    have zero: "u + k * (v - u) = 0" using 3 by (simp add: k_def)
    have "fst c + k * (fst d - fst c) = fst a + (u + k * (v - u)) * (fst b - fst a)"
      "snd c + k * (snd d - snd c) = snd a + (u + k * (v - u)) * (snd b - snd a)"
      unfolding u v by (simp_all add: algebra_simps)
    then have "a \<in> segment c d"
      using zero by (intro segmentI [OF k]) simp_all
    then show ?thesis by blast
  qed
qed

lemma meet_cases:
  assumes "p \<in> segment a b" and "p \<in> segment c d" and nc: "\<not> turn a b c * turn a b d < 0"
  shows "c \<in> segment a b \<or> d \<in> segment a b \<or> a \<in> segment c d"
proof -
  obtain t where t: "0 \<le> t" "t \<le> 1" "fst p = fst c + t * (fst d - fst c)" "snd p = snd c + t * (snd d - snd c)"
    using assms(2) by (rule segmentE)
  then have peq: "p = (fst c + t * (fst d - fst c), snd c + t * (snd d - snd c))" by (simp add: prod_eq_iff)
  have "(1 - t) * turn a b c + t * turn a b d = 0"
    using assms(1) unfolding in_segment_iff peq turn_affine by simp
  moreover have "((1 - t) * turn a b c) * (t * turn a b d) \<ge> 0"
    using nc t(1,2) by (simp add: not_less mult.left_commute mult.assoc)
  ultimately have z: "(1 - t) * turn a b c = 0" "t * turn a b d = 0"
    by (auto simp: zero_le_mult_iff add_nonneg_eq_0_iff add_nonpos_eq_0_iff)
  consider "t = 0" | "t = 1" | "turn a b c = 0" "turn a b d = 0" using z by auto
  then show ?thesis
  proof cases
    case 1
    then have "p = c" using t by (simp add: prod_eq_iff)
    then show ?thesis using assms(1) by simp
  next
    case 2
    then have "p = d" using t by (simp add: prod_eq_iff)
    then show ?thesis using assms(1) by simp
  next
    case 3
    then show ?thesis using collinear_meet [OF assms(1,2)] by simp
  qed
qed

lemma segments_meet_iff:
  "segment a b \<inter> segment c d \<noteq> {} \<longleftrightarrow>
     c \<in> segment a b \<or> d \<in> segment a b \<or> a \<in> segment c d \<or> b \<in> segment c d \<or>
     (turn a b c * turn a b d < 0 \<and> turn c d a * turn c d b < 0)"
proof
  assume "segment a b \<inter> segment c d \<noteq> {}"
  then obtain p where p: "p \<in> segment a b" "p \<in> segment c d" by blast
  then show "c \<in> segment a b \<or> d \<in> segment a b \<or> a \<in> segment c d \<or> b \<in> segment c d \<or>
     (turn a b c * turn a b d < 0 \<and> turn c d a * turn c d b < 0)"
    using meet_cases [OF p] meet_cases [OF p(2,1)] by blast
next
  assume "c \<in> segment a b \<or> d \<in> segment a b \<or> a \<in> segment c d \<or> b \<in> segment c d \<or>
     (turn a b c * turn a b d < 0 \<and> turn c d a * turn c d b < 0)"
  then show "segment a b \<inter> segment c d \<noteq> {}"
    using proper_crossing [of a b c d] segment_ends by blast
qed

section \<open>The integer predicates\<close>

definition plane_point :: "point2 \<Rightarrow> plane" where
  "plane_point p = (real_of_int (sint (p_x p)), real_of_int (sint (p_y p)))"

definition cross_int :: "point2 \<Rightarrow> point2 \<Rightarrow> point2 \<Rightarrow> int" where
  "cross_int a b c =
     (sint (p_x b) - sint (p_x a)) * (sint (p_y c) - sint (p_y a)) -
     (sint (p_y b) - sint (p_y a)) * (sint (p_x c) - sint (p_x a))"

lemma plane_point_inj [simp]: "plane_point p = plane_point q \<longleftrightarrow> p = q"
  by (cases p; cases q) (auto simp: plane_point_def signed_word_eqI)

lemma checked_i128_Inr [simp]: "checked_i128 i = Inr j \<longleftrightarrow> j = i \<and> - (2 ^ 127) \<le> i \<and> i < 2 ^ 127"
  by (auto simp: checked_i128_def)

lemma cross_value: "cross a b c = Inr k \<Longrightarrow> k = cross_int a b c"
  by (auto simp: cross_def cross_int_def and_then_Inr_iff)

lemma cross_int_turn: "real_of_int (cross_int a b c) = turn (plane_point a) (plane_point b) (plane_point c)"
  by (simp add: cross_int_def turn_def plane_point_def)

lemma on_segment_box: "on_segment a b p \<longleftrightarrow> in_box (plane_point a) (plane_point b) (plane_point p)"
  by (simp add: on_segment_def in_box_def plane_point_def del: of_int_sint flip: of_int_min of_int_max)

lemma cross_on_segment:
  "cross_int a b p = 0 \<and> on_segment a b p \<longleftrightarrow> plane_point p \<in> segment (plane_point a) (plane_point b)"
  unfolding in_segment_iff on_segment_box by (simp flip: cross_int_turn)

lemma sgn_mult_less_0_iff: "sgn x * sgn y < 0 \<longleftrightarrow> x * y < (0 :: int)"
  by (auto simp: sgn_if mult_less_0_iff)

definition point_segment :: "point2 \<times> point2 \<Rightarrow> plane set" where
  "point_segment e = segment (plane_point (fst e)) (plane_point (snd e))"

lemma intersects_meet:
  assumes "intersects a b c d = Inr r"
  shows "r \<longleftrightarrow> point_segment (a, b) \<inter> point_segment (c, d) \<noteq> {}"
proof -
  have "r \<longleftrightarrow> (cross_int a b c = 0 \<and> on_segment a b c) \<or> (cross_int a b d = 0 \<and> on_segment a b d) \<or>
      (cross_int c d a = 0 \<and> on_segment c d a) \<or> (cross_int c d b = 0 \<and> on_segment c d b) \<or>
      (cross_int a b c * cross_int a b d < 0 \<and> cross_int c d a * cross_int c d b < 0)"
    using assms by (auto simp: intersects_def and_then_Inr_iff sgn_mult_less_0_iff dest!: cross_value)
  also have "\<dots> \<longleftrightarrow> point_segment (a, b) \<inter> point_segment (c, d) \<noteq> {}"
    unfolding point_segment_def fst_conv snd_conv segments_meet_iff cross_on_segment
    by (simp flip: cross_int_turn of_int_mult)
  finally show ?thesis .
qed

section \<open>Coordinates without overflow\<close>

text \<open>Coordinates of at most \<open>2\<^sup>4\<^sup>7\<close> units (about fourteen thousand kilometres) keep every
  product in 128 bits.\<close>

definition small_point :: "point2 \<Rightarrow> bool" where
  "small_point p \<longleftrightarrow> \<bar>sint (p_x p)\<bar> \<le> 2 ^ 47 \<and> \<bar>sint (p_y p)\<bar> \<le> 2 ^ 47"

lemma small_product:
  fixes x y :: int
  assumes "\<bar>x\<bar> \<le> 2 ^ 48" and "\<bar>y\<bar> \<le> 2 ^ 48"
  shows "\<bar>x * y\<bar> \<le> 2 ^ 96"
  using mult_mono [OF assms] by (simp add: abs_mult)

lemma small_cross:
  assumes "small_point a" and "small_point b" and "small_point c"
  shows "cross a b c = Inr (cross_int a b c)"
proof -
  let ?bx = "sint (p_x b) - sint (p_x a)" and ?cy = "sint (p_y c) - sint (p_y a)"
    and ?by = "sint (p_y b) - sint (p_y a)" and ?cx = "sint (p_x c) - sint (p_x a)"
  have d: "\<bar>?bx\<bar> \<le> 2 ^ 48" "\<bar>?cy\<bar> \<le> 2 ^ 48" "\<bar>?by\<bar> \<le> 2 ^ 48" "\<bar>?cx\<bar> \<le> 2 ^ 48"
    using assms by (auto simp: small_point_def)
  have p: "\<bar>?bx * ?cy\<bar> \<le> 2 ^ 96" "\<bar>?by * ?cx\<bar> \<le> 2 ^ 96"
    using small_product [OF d(1,2)] small_product [OF d(3,4)] by auto
  have pw: "(2 :: int) ^ 96 + 2 ^ 96 \<le> 2 ^ 97" by simp
  have ok: "checked_i128 i = Inr i" if "\<bar>i\<bar> \<le> 2 ^ 97" for i using that by (auto simp: checked_i128_def abs_le_iff)
  have "checked_i128 ?bx = Inr ?bx" "checked_i128 ?cy = Inr ?cy" "checked_i128 ?by = Inr ?by" "checked_i128 ?cx = Inr ?cx"
    using d by (auto intro!: ok)
  moreover have "checked_i128 (?bx * ?cy) = Inr (?bx * ?cy)" by (rule ok) (use p pw in linarith)
  moreover have "checked_i128 (?by * ?cx) = Inr (?by * ?cx)" by (rule ok) (use p pw in linarith)
  moreover have "checked_i128 (?bx * ?cy - ?by * ?cx) = Inr (?bx * ?cy - ?by * ?cx)" by (rule ok) (use p pw in linarith)
  ultimately show ?thesis by (simp add: cross_def cross_int_def del: checked_i128_Inr)
qed

lemma small_intersects:
  assumes "small_point a" and "small_point b" and "small_point c" and "small_point d"
  shows "intersects a b c d = Inr (point_segment (a, b) \<inter> point_segment (c, d) \<noteq> {})"
proof -
  obtain r where "intersects a b c d = Inr r" using assms by (simp add: intersects_def small_cross)
  then show ?thesis using intersects_meet by blast
qed

section \<open>Every coordinate is finite in millimetres\<close>

lemma f32_make_magnitude:
  assumes "0 \<le> m" and "m < 2 ^ 31"
  shows "fp_magnitude 23 8 (uint (of_int (fp_with_sign 23 8 neg m) :: u32)) = m"
  using assms by (auto simp: fp_with_sign_def fp_magnitude_def uint_word_of_int_eq take_bit_eq_mod)

lemma f32_of_i64_finite: "fp_magnitude 23 8 (uint (f32_of_i64 i)) < fp_inf 23 8"
proof -
  have "ratio \<bar>sint i\<bar> 1 \<le> ratio (2 ^ 63) 1"
    using sint_range_size [of i] by (simp add: ratio_def word_size del: of_int_abs) linarith
  then have "fp_round 23 8 \<bar>sint i\<bar> 1 \<le> fp_round 23 8 (2 ^ 63) 1"
    by (simp add: fp_round_nearest fp_nearest_mono)
  also have "\<dots> < fp_inf 23 8" by code_simp
  finally have "fp_round 23 8 \<bar>sint i\<bar> 1 < fp_inf 23 8" .
  moreover have "0 \<le> fp_round 23 8 \<bar>sint i\<bar> 1" by (simp add: fp_round_nearest)
  moreover have "fp_inf 23 8 < 2 ^ 31" by (simp add: fp_inf_def)
  ultimately show ?thesis unfolding f32_of_i64_def by (subst f32_make_magnitude) auto
qed

lemma f32_div_finite:
  assumes x: "fp_magnitude 23 8 (uint x) < fp_inf 23 8" and y: "fp_magnitude 23 8 (uint y) < fp_inf 23 8"
    and one: "1 \<le> fp_value 23 8 (fp_magnitude 23 8 (uint y))"
  shows "f32_is_finite (f32_div x y)"
proof -
  let ?mx = "fp_magnitude 23 8 (uint x)" and ?my = "fp_magnitude 23 8 (uint y)"
  obtain nx dx where nx: "fp_fraction 23 8 ?mx = (nx, dx)" by (meson surj_pair)
  obtain ny dy where ny: "fp_fraction 23 8 ?my = (ny, dy)" by (meson surj_pair)
  have ge: "0 \<le> nx" "1 \<le> dx" "0 \<le> ny" "1 \<le> dy"
    using fp_fraction_numerator [of 23 8 ?mx] fp_fraction_denominator [of 23 8 ?mx]
      fp_fraction_numerator [of 23 8 ?my] fp_fraction_denominator [of 23 8 ?my] nx ny by simp_all
  have "dy \<le> ny" using one ge(4) by (simp add: fp_value_def ny ratio_def le_divide_eq)
  then have ny1: "1 \<le> dx * ny" and le: "ratio (nx * dy) (dx * ny) \<le> ratio nx dx"
    using ge mult_mono [of 1 dx 1 ny] mult_left_mono [of dy ny nx]
    by (auto simp: ratio_def field_simps simp flip: of_int_mult)
  have "fp_round 23 8 (nx * dy) (dx * ny) = fp_nearest 23 8 (ratio (nx * dy) (dx * ny))"
    using ge ny1 by (intro fp_round_nearest) auto
  also have "\<dots> \<le> fp_nearest 23 8 (fp_value 23 8 ?mx)"
    using le by (intro fp_nearest_mono) (simp add: fp_value_def nx)
  also have "\<dots> = ?mx" using x by (intro fp_nearest_value) (auto simp: fp_magnitude_def)
  finally have r: "fp_round 23 8 (nx * dy) (dx * ny) \<le> ?mx" .
  have r0: "0 \<le> fp_round 23 8 (nx * dy) (dx * ny)" using ge ny1 by (simp add: fp_round_nearest)
  have my: "?my \<noteq> 0" using one by auto
  have inf: "fp_inf 23 8 < 2 ^ 31" by (simp add: fp_inf_def)
  have "f32_div x y = of_int (fp_with_sign 23 8 (fp_neg 23 8 (uint x) \<noteq> fp_neg 23 8 (uint y)) (fp_round 23 8 (nx * dy) (dx * ny)))"
    using x y my by (simp add: f32_div_def Let_def nx ny)
  then show ?thesis
    unfolding f32_is_finite_def using r r0 x inf by (simp only: f32_make_magnitude)
qed

lemma point_ok [simp]: "point p = Inr ()"
proof -
  have m: "fp_magnitude 23 8 (uint (0x461C4000 :: u32)) = 0x461C4000" by (simp add: fp_magnitude_def)
  have "1 \<le> fp_value 23 8 0x461C4000" by (simp add: fp_value_eq fp_significand_def fp_emin_def power_int_def power_one_over)
  then have "f32_is_finite (units_to_mm u)" for u
    unfolding units_to_mm_def by (intro f32_div_finite f32_of_i64_finite) (simp_all only: m, simp add: fp_inf_def)
  then show ?thesis by (simp add: point_def)
qed

section \<open>Rings\<close>

text \<open>Two edges of a simple ring meet in their common vertices only.\<close>

definition simple_ring :: "point2 list \<Rightarrow> bool" where
  "simple_ring points \<longleftrightarrow>
     distinct points \<and>
     (\<forall>e \<in> set (edges points). \<forall>e' \<in> set (edges points). e \<noteq> e' \<longrightarrow>
        point_segment e \<inter> point_segment e' \<subseteq> plane_point ` ({fst e, snd e} \<inter> {fst e', snd e'}))"

definition twice_area :: "point2 list \<Rightarrow> int" where
  "twice_area points =
     (\<Sum>(a, b) \<leftarrow> edges points. sint (p_x a) * sint (p_y b) - sint (p_y a) * sint (p_x b))"

lemma distinct_points_iff:
  "distinct_points seen ps = Inr () \<longleftrightarrow>
     distinct ps \<and> (\<forall>p \<in> set ps. (sint (p_x p), sint (p_y p)) \<notin> set seen)"
proof (induction ps arbitrary: seen)
  case (Cons p ps)
  have "(sint (p_x q), sint (p_y q)) = (sint (p_x p), sint (p_y p)) \<longleftrightarrow> q = p" for q
    by (cases p; cases q) (auto simp: signed_word_eqI)
  then show ?case using Cons by (auto simp: Let_def)
qed simp

lemma small_ring_area:
  assumes "\<forall>(a, b) \<in> set es. small_point a \<and> small_point b" and "\<bar>s\<bar> \<le> 2 ^ 96 * 2 ^ 30 - int (length es) * 2 ^ 96"
  shows "try_fold (\<lambda>(a, b) area.
         and_then (checked_i128 (sint (p_x a) * sint (p_y b))) (\<lambda>x.
         and_then (checked_i128 (sint (p_y a) * sint (p_x b))) (\<lambda>y.
         and_then (checked_i128 (x - y)) (\<lambda>term.
         checked_i128 (area + term))))) es s =
     Inr (s + (\<Sum>(a, b) \<leftarrow> es. sint (p_x a) * sint (p_y b) - sint (p_y a) * sint (p_x b)))"
  using assms
proof (induction es arbitrary: s)
  case (Cons e es)
  obtain a b where e: "e = (a, b)" by (cases e)
  let ?x = "sint (p_x a) * sint (p_y b)" and ?y = "sint (p_y a) * sint (p_x b)"
  have "\<bar>sint (p_x a)\<bar> \<le> 2 ^ 47" "\<bar>sint (p_y b)\<bar> \<le> 2 ^ 47" "\<bar>sint (p_y a)\<bar> \<le> 2 ^ 47" "\<bar>sint (p_x b)\<bar> \<le> 2 ^ 47"
    using Cons.prems(1) by (auto simp: e small_point_def)
  then have p: "\<bar>?x\<bar> \<le> 2 ^ 47 * 2 ^ 47" "\<bar>?y\<bar> \<le> 2 ^ 47 * 2 ^ 47"
    unfolding abs_mult by (intro mult_mono; simp)+
  have s: "\<bar>s\<bar> \<le> 2 ^ 96 * 2 ^ 30 - 2 ^ 96 - int (length es) * 2 ^ 96"
    using Cons.prems(2) by (simp add: algebra_simps)
  have len: "0 \<le> int (length es) * (2 ^ 96 :: int)" by simp
  have pw: "(2 :: int) ^ 47 * 2 ^ 47 + 2 ^ 47 * 2 ^ 47 \<le> 2 ^ 96" "(2 :: int) ^ 96 * 2 ^ 30 \<le> 2 ^ 126" "(0 :: int) \<le> 2 ^ 47 * 2 ^ 47"
    "(2 :: int) ^ 96 \<le> 2 ^ 126" by simp_all
  have ok: "checked_i128 i = Inr i" if "\<bar>i\<bar> \<le> 2 ^ 126" for i using that by (auto simp: checked_i128_def abs_le_iff)
  have "checked_i128 ?x = Inr ?x" by (rule ok) (use p pw in linarith)
  moreover have "checked_i128 ?y = Inr ?y" by (rule ok) (use p pw in linarith)
  moreover have "checked_i128 (?x - ?y) = Inr (?x - ?y)" by (rule ok) (use p pw in linarith)
  moreover have "checked_i128 (s + (?x - ?y)) = Inr (s + (?x - ?y))" by (rule ok) (use p s len pw in linarith)
  moreover have "\<bar>s + (?x - ?y)\<bar> \<le> 2 ^ 96 * 2 ^ 30 - int (length es) * 2 ^ 96"
    using p s pw by linarith
  ultimately show ?case using Cons.IH [of "s + (?x - ?y)"] Cons.prems(1) by (simp add: e add.assoc del: checked_i128_Inr)
qed simp

lemma length_edges [simp]: "length (edges points) = length points"
  by (simp add: edges_def)

lemma edges_nth: "i < length points \<Longrightarrow> edges points ! i = (points ! i, points ! ((i + 1) mod length points))"
  by (simp add: edges_def nth_rotate1)

lemma set_edgesD: "(a, b) \<in> set (edges points) \<Longrightarrow> a \<in> set points \<and> b \<in> set points"
  by (auto simp: edges_def dest: set_zip_leftD set_zip_rightD)

lemma set_drop_nth: "set (drop k xs) = {xs ! j |j. k \<le> j \<and> j < length xs}"
proof (intro subset_antisym subsetI)
  fix x assume "x \<in> set (drop k xs)"
  then obtain i where "i < length xs - k" "x = xs ! (k + i)" by (auto simp: in_set_conv_nth)
  then show "x \<in> {xs ! j |j. k \<le> j \<and> j < length xs}" by (intro CollectI exI [of _ "k + i"]) auto
next
  fix x assume "x \<in> {xs ! j |j. k \<le> j \<and> j < length xs}"
  then obtain j where "k \<le> j" "j < length xs" "x = xs ! j" by blast
  then show "x \<in> set (drop k xs)" by (auto simp: in_set_conv_nth intro!: exI [of _ "j - k"])
qed

lemma set_drop_enumerate: "set (drop k (enumerate 0 xs)) = {(j, xs ! j) |j. k \<le> j \<and> j < length xs}"
  unfolding set_drop_nth by (auto simp: nth_enumerate_eq) (metis add_0 nth_enumerate_eq)

lemma set_enumerate: "set (enumerate 0 xs) = {(i, xs ! i) |i. i < length xs}"
  using set_drop_enumerate [of 0 xs] by simp

text \<open>Two segments with a common end meet elsewhere exactly if the far end of one lies on the other.\<close>

lemma adjacent_meet:
  assumes "a \<noteq> b" and "b \<noteq> c"
  shows "segment a b \<inter> segment b c \<subseteq> {b} \<longleftrightarrow> \<not> (c \<in> segment a b \<or> a \<in> segment b c)"
proof
  assume "segment a b \<inter> segment b c \<subseteq> {b}"
  then show "\<not> (c \<in> segment a b \<or> a \<in> segment b c)" using assms segment_ends by blast
next
  assume no: "\<not> (c \<in> segment a b \<or> a \<in> segment b c)"
  have False if p: "p \<in> segment a b" "p \<in> segment b c" and "p \<noteq> b" for p
  proof -
    obtain s where s: "0 \<le> s" "s \<le> 1" "fst p = fst a + s * (fst b - fst a)" "snd p = snd a + s * (snd b - snd a)"
      using p(1) by (rule segmentE)
    obtain t where t: "0 \<le> t" "t \<le> 1" "fst p = fst b + t * (fst c - fst b)" "snd p = snd b + t * (snd c - snd b)"
      using p(2) by (rule segmentE)
    have pos: "0 < t" "0 < 1 - s" using \<open>p \<noteq> b\<close> s t by (auto simp: prod_eq_iff less_le)
    have eq: "t * (fst c - fst b) = (1 - s) * (fst a - fst b)" "t * (snd c - snd b) = (1 - s) * (snd a - snd b)"
      using s(3,4) t(3,4) by (auto simp: algebra_simps)
    show False
    proof (cases "1 - s \<le> t")
      case True
      have "c \<in> segment a b"
        by (rule segmentI [of "1 - (1 - s) / t"]) (use True pos eq in \<open>auto simp: field_simps\<close>)
      then show False using no by simp
    next
      case False
      have "a \<in> segment b c"
        by (rule segmentI [of "t / (1 - s)"]) (use False pos eq in \<open>auto simp: field_simps\<close>)
      then show False using no by simp
    qed
  qed
  then show "segment a b \<inter> segment b c \<subseteq> {b}" by blast
qed

lemma turn_rotate: "turn b c a = turn a b c"
  by (simp add: turn_def algebra_simps)

lemma adjacent_edges:
  assumes "a \<noteq> b" and "b \<noteq> c"
  shows "point_segment (a, b) \<inter> point_segment (b, c) \<subseteq> plane_point ` {b} \<longleftrightarrow>
     \<not> (cross_int a b c = 0 \<and> (on_segment a b c \<or> on_segment b c a))"
proof -
  have "cross_int b c a = cross_int a b c" by (simp add: cross_int_def algebra_simps)
  then show ?thesis
    using adjacent_meet [of "plane_point a" "plane_point b" "plane_point c"] assms
    by (auto simp: point_segment_def simp flip: cross_on_segment)
qed

text \<open>The edges by index.\<close>

abbreviation ring_seg :: "point2 list \<Rightarrow> nat \<Rightarrow> plane set" where
  "ring_seg points i \<equiv> point_segment (edges points ! i)"

lemma cyclic_succ: "i < n \<Longrightarrow> (i + 1) mod n = (if i + 1 = n then 0 else i + 1 :: nat)"
  by auto

lemma cyclic_succ2: "i < n \<Longrightarrow> 2 \<le> n \<Longrightarrow> (i + 2) mod n = (if i + 2 < n then i + 2 else i + 2 - n :: nat)"
  by (auto simp: le_mod_geq)

lemma if_error_iff: "(if b then Inl e else r) = Inr x \<longleftrightarrow> \<not> b \<and> r = Inr x"
  by simp

lemma symmetric_pairs:
  fixes P :: "nat \<Rightarrow> nat \<Rightarrow> bool"
  assumes "\<And>i j. P i j \<longleftrightarrow> P j i"
  shows "(\<forall>i < n. \<forall>j < n. i \<noteq> j \<longrightarrow> P i j) \<longleftrightarrow> (\<forall>i j. i < j \<and> j < n \<longrightarrow> P i j)"
proof (intro iffI allI impI)
  fix i j assume L: "\<forall>i < n. \<forall>j < n. i \<noteq> j \<longrightarrow> P i j" and "i < j \<and> j < n"
  then show "P i j" by auto
next
  fix i j assume R: "\<forall>i j. i < j \<and> j < n \<longrightarrow> P i j" and "i < n" "j < n" "i \<noteq> j"
  then consider "i < j" | "j < i" by linarith
  then show "P i j" using R assms [of i j] \<open>i < n\<close> \<open>j < n\<close> by cases auto
qed

lemma ring_edge_iff:
  assumes small: "\<forall>p \<in> set points. small_point p" and "distinct points" and n: "3 \<le> length points" and i: "i < length points"
  shows "ring_edge points (i, edges points ! i) = Inr () \<longleftrightarrow>
     ring_seg points i \<inter> ring_seg points ((i + 1) mod length points) \<subseteq> plane_point ` {points ! ((i + 1) mod length points)} \<and>
     (\<forall>j. i + 1 < j \<and> j < length points \<and> \<not> (i = 0 \<and> j = length points - 1) \<longrightarrow>
        ring_seg points i \<inter> ring_seg points j = {})"
proof -
  let ?n = "length points"
  define a b c where abc: "a = points ! i" "b = points ! ((i + 1) mod ?n)" "c = points ! ((i + 2) mod ?n)"
  have lt: "(i + 1) mod ?n < ?n" "(i + 2) mod ?n < ?n" using n by (auto intro: mod_less_divisor)
  have sp: "small_point a" "small_point b" "small_point c" using small i lt by (auto simp: abc)
  have "i \<noteq> (i + 1) mod ?n" "(i + 1) mod ?n \<noteq> (i + 2) mod ?n"
    using i n cyclic_succ [OF i] cyclic_succ2 [OF i] by (auto split: if_splits)
  then have ne: "a \<noteq> b" "b \<noteq> c"
    using \<open>distinct points\<close> i lt unfolding abc by (simp_all add: nth_eq_iff_index_eq)
  have ei: "edges points ! i = (a, b)" using i by (simp add: edges_nth abc)
  have ei1: "edges points ! ((i + 1) mod ?n) = (b, c)"
    using lt by (simp add: edges_nth abc) (metis mod_Suc_eq Suc_eq_plus1 add_2_eq_Suc')
  have inter: "intersects a b (fst e) (snd e) = Inr (point_segment (a, b) \<inter> point_segment e \<noteq> {})" if "e \<in> set (edges points)" for e
    using that small set_edgesD [of "fst e" "snd e" points] small_intersects [OF sp(1,2), of "fst e" "snd e"] by auto
  let ?f = "\<lambda>(j, c, d). if j = i + 1 \<or> (i = 0 \<and> j = ?n - 1) then Inr ()
        else and_then (intersects a b c d) (\<lambda>r. if r then Inl PE_InvalidShape else Inr ())"
  have "?f (j, edges points ! j) = Inr () \<longleftrightarrow>
      (j = i + 1 \<or> (i = 0 \<and> j = ?n - 1)) \<or> ring_seg points i \<inter> ring_seg points j = {}" if "j < ?n" for j
    using inter [OF nth_mem, of j] that by (simp add: case_prod_unfold ei)
  moreover have "try_each ?f (drop (i + 1) (enumerate 0 (edges points))) = Inr () \<longleftrightarrow>
      (\<forall>j. i + 1 \<le> j \<and> j < ?n \<longrightarrow> ?f (j, edges points ! j) = Inr ())"
    unfolding try_each_Inr_iff set_drop_enumerate length_edges by blast
  ultimately have "try_each ?f (drop (i + 1) (enumerate 0 (edges points))) = Inr () \<longleftrightarrow>
     (\<forall>j. i + 1 \<le> j \<and> j < ?n \<longrightarrow> (j = i + 1 \<or> (i = 0 \<and> j = ?n - 1)) \<or> ring_seg points i \<inter> ring_seg points j = {})"
    by (simp only: cong: conj_cong imp_cong)
  also have "\<dots> \<longleftrightarrow> (\<forall>j. i + 1 < j \<and> j < ?n \<and> \<not> (i = 0 \<and> j = ?n - 1) \<longrightarrow> ring_seg points i \<inter> ring_seg points j = {})"
    unfolding le_eq_less_or_eq [of "i + 1"] by blast
  finally have each: "try_each ?f (drop (i + 1) (enumerate 0 (edges points))) = Inr () \<longleftrightarrow>
     (\<forall>j. i + 1 < j \<and> j < ?n \<and> \<not> (i = 0 \<and> j = ?n - 1) \<longrightarrow> ring_seg points i \<inter> ring_seg points j = {})" .
  show ?thesis
    unfolding ring_edge_def ei ei1 prod.case abc(3) [symmetric] Let_def small_cross [OF sp] and_then_simps
      adjacent_edges [OF ne] abc(2) [symmetric]
    unfolding if_error_iff each ei ..
qed

text \<open>Shared vertices of two edges of a ring.\<close>

lemma shared_vertices:
  assumes "distinct points" and n: "3 \<le> length points" and ij: "i < j" "j < length points"
  shows "(let e = edges points ! i; e' = edges points ! j in {fst e, snd e} \<inter> {fst e', snd e'}) =
     (if j = i + 1 then {points ! j} else if i = 0 \<and> j = length points - 1 then {points ! 0} else {})"
proof -
  let ?n = "length points"
  have i: "i < ?n" using ij by simp
  have eq: "points ! k = points ! l \<longleftrightarrow> k = l" if "k < ?n" "l < ?n" for k l
    using that \<open>distinct points\<close> by (simp add: nth_eq_iff_index_eq)
  have si: "(i + 1) mod ?n = i + 1" "i + 1 < ?n" using ij by auto
  have sj: "(j + 1) mod ?n = (if j + 1 = ?n then 0 else j + 1)" using cyclic_succ [OF ij(2)] .
  have e: "edges points ! i = (points ! i, points ! (i + 1))" "edges points ! j = (points ! j, points ! (if j + 1 = ?n then 0 else j + 1))"
    using edges_nth [OF i] edges_nth [OF ij(2)] si(1) sj by simp_all
  have lt: "(if j + 1 = ?n then 0 else j + 1) < ?n" using ij by auto
  have z: "0 < ?n" using n by linarith
  have wrap: "i = 0 \<and> j = ?n - 1 \<longleftrightarrow> i = 0 \<and> j + 1 = ?n" using z by auto
  show ?thesis
    unfolding Let_def e fst_conv snd_conv wrap
    using eq [OF i ij(2)] eq [OF i lt] eq [OF si(2) ij(2)] eq [OF si(2) lt] eq [OF z ij(2)] ij n by (auto split: if_splits)
qed

definition pair_ok :: "point2 list \<Rightarrow> nat \<Rightarrow> nat \<Rightarrow> bool" where
  "pair_ok points i j \<longleftrightarrow>
     ring_seg points i \<inter> ring_seg points j \<subseteq>
       plane_point ` (let e = edges points ! i; e' = edges points ! j in {fst e, snd e} \<inter> {fst e', snd e'})"

lemma pair_ok_sym: "pair_ok points i j \<longleftrightarrow> pair_ok points j i"
  by (auto simp: pair_ok_def Let_def)

lemma pair_ok_iff:
  assumes "distinct points" and "3 \<le> length points" and "i < j" and "j < length points"
  shows "pair_ok points i j \<longleftrightarrow>
     ring_seg points i \<inter> ring_seg points j \<subseteq>
       plane_point ` (if j = i + 1 then {points ! j} else if i = 0 \<and> j = length points - 1 then {points ! 0} else {})"
  unfolding pair_ok_def shared_vertices [OF assms] ..

lemma simple_ring_pairs:
  assumes d: "distinct points"
  shows "simple_ring points \<longleftrightarrow> (\<forall>i j. i < j \<and> j < length points \<longrightarrow> pair_ok points i j)"
proof -
  let ?n = "length points"
  have inj: "edges points ! i = edges points ! j \<longleftrightarrow> i = j" if "i < ?n" "j < ?n" for i j
    using that d by (auto simp: edges_nth nth_eq_iff_index_eq)
  have "simple_ring points \<longleftrightarrow> (\<forall>i < ?n. \<forall>j < ?n. edges points ! i \<noteq> edges points ! j \<longrightarrow> pair_ok points i j)"
    using d by (simp add: simple_ring_def pair_ok_def all_set_conv_all_nth Let_def)
  also have "\<dots> \<longleftrightarrow> (\<forall>i < ?n. \<forall>j < ?n. i \<noteq> j \<longrightarrow> pair_ok points i j)"
    using inj by meson
  also have "\<dots> \<longleftrightarrow> (\<forall>i j. i < j \<and> j < ?n \<longrightarrow> pair_ok points i j)"
    by (rule symmetric_pairs) (rule pair_ok_sym)
  finally show ?thesis .
qed

lemma ring_edge_of_pairs:
  assumes small: "\<forall>p \<in> set points. small_point p" and d: "distinct points" and n: "3 \<le> length points"
    and all: "\<forall>i j. i < j \<and> j < length points \<longrightarrow> pair_ok points i j" and i: "i < length points"
  shows "ring_edge points (i, edges points ! i) = Inr ()"
proof -
  let ?n = "length points"
  have "ring_seg points i \<inter> ring_seg points ((i + 1) mod ?n) \<subseteq> plane_point ` {points ! ((i + 1) mod ?n)}"
  proof (cases "i + 1 = ?n")
    case True
    then have "0 < i" "i \<noteq> 1" "i = ?n - 1" "(i + 1) mod ?n = 0" using n by auto
    then have "ring_seg points 0 \<inter> ring_seg points i \<subseteq> plane_point ` {points ! 0}"
      using all [rule_format, of 0 i] pair_ok_iff [OF d n, of 0 i] i by simp
    then show ?thesis unfolding \<open>(i + 1) mod ?n = 0\<close> by (subst Int_commute)
  next
    case False
    then have "i + 1 < ?n" "(i + 1) mod ?n = i + 1" using i by auto
    then show ?thesis using all [rule_format, of i "i + 1"] pair_ok_iff [OF d n, of i "i + 1"] by simp
  qed
  moreover have "ring_seg points i \<inter> ring_seg points j = {}"
    if "i + 1 < j \<and> j < ?n \<and> \<not> (i = 0 \<and> j = ?n - 1)" for j
    using all [rule_format, of i j] pair_ok_iff [OF d n, of i j] that by (simp split: if_splits)
  ultimately show ?thesis unfolding ring_edge_iff [OF small d n i] by blast
qed

lemma pairs_of_ring_edge:
  assumes small: "\<forall>p \<in> set points. small_point p" and d: "distinct points" and n: "3 \<le> length points"
    and all: "\<forall>i < length points. ring_edge points (i, edges points ! i) = Inr ()" and ij: "i < j" "j < length points"
  shows "pair_ok points i j"
proof -
  have i: "i < length points" using ij by simp
  note ei = all [rule_format, OF i, unfolded ring_edge_iff [OF small d n i]]
  note ej = all [rule_format, OF ij(2), unfolded ring_edge_iff [OF small d n ij(2)]]
  consider "j = i + 1" | "i = 0" "j + 1 = length points" "j \<noteq> 1" | "i + 1 < j" "\<not> (i = 0 \<and> j = length points - 1)"
    using ij by linarith
  then show ?thesis
  proof cases
    case 1
    then have "(i + 1) mod length points = j" using ij by simp
    then show ?thesis unfolding pair_ok_iff [OF d n ij] using ei 1 by simp
  next
    case 2
    then have "(j + 1) mod length points = i" "j = length points - 1" by simp_all
    then have "ring_seg points j \<inter> ring_seg points i \<subseteq> plane_point ` {points ! i}" using ej by simp
    then show ?thesis unfolding pair_ok_iff [OF d n ij] using 2 \<open>j = length points - 1\<close> by (subst Int_commute) simp
  next
    case 3
    then show ?thesis unfolding pair_ok_iff [OF d n ij] using ei ij by simp
  qed
qed

lemma ring_edges_iff:
  assumes small: "\<forall>p \<in> set points. small_point p" and d: "distinct points" and n: "3 \<le> length points"
  shows "try_each (ring_edge points) (enumerate 0 (edges points)) = Inr () \<longleftrightarrow> simple_ring points"
proof -
  have "try_each (ring_edge points) (enumerate 0 (edges points)) = Inr () \<longleftrightarrow>
      (\<forall>i < length points. ring_edge points (i, edges points ! i) = Inr ())"
    by (auto simp: try_each_Inr_iff set_enumerate)
  then show ?thesis
    unfolding simple_ring_pairs [OF d] using ring_edge_of_pairs [OF assms] pairs_of_ring_edge [OF assms] by blast
qed

definition oriented :: "bool \<Rightarrow> int \<Rightarrow> bool" where
  "oriented ccw area \<longleftrightarrow> (if ccw then 0 < area else area < 0)"

lemma ring_iff:
  assumes small: "\<forall>p \<in> set points. small_point p" and len: "length points \<le> 2 ^ 30"
  shows "ring points ccw = Inr () \<longleftrightarrow>
     3 \<le> length points \<and> simple_ring points \<and> oriented ccw (twice_area points)"
proof (cases "3 \<le> length points \<and> distinct points")
  case False
  then show ?thesis by (auto simp: ring_def and_then_Inr_iff distinct_points_iff simple_ring_def)
next
  case True
  then have "distinct_points [] points = Inr ()" by (simp add: distinct_points_iff)
  moreover have "ring_area points = Inr (twice_area points)"
    using small_ring_area [of "edges points" 0] small len set_edgesD
    by (auto simp: ring_area_def twice_area_def)
  moreover have "oriented ccw a \<longleftrightarrow> \<not> (a = 0 \<or> (0 < a) \<noteq> ccw)" for a by (auto simp: oriented_def)
  ultimately show ?thesis
    using True ring_edges_iff [OF small] by (auto simp: ring_def and_then_Inr_iff simp del: checked_i128_Inr)
qed

section \<open>Containment and polygons with holes\<close>

definition boundary :: "point2 list \<Rightarrow> plane set" where
  "boundary points = \<Union> (point_segment ` set (edges points))"

text \<open>The signed number of edges that cross the ray from a point to the right; an edge contains its
  lower end and not its upper end.\<close>

definition ray_crossing :: "plane \<Rightarrow> plane \<Rightarrow> plane \<Rightarrow> int" where
  "ray_crossing p a b =
     (if \<exists>q \<in> segment a b. snd q = snd p \<and> fst p < fst q
      then (if snd a \<le> snd p \<and> snd p < snd b then 1 else if snd b \<le> snd p \<and> snd p < snd a then -1 else 0)
      else 0)"

definition winding_number :: "point2 \<Rightarrow> point2 list \<Rightarrow> int" where
  "winding_number p points =
     (\<Sum>(a, b) \<leftarrow> edges points. ray_crossing (plane_point p) (plane_point a) (plane_point b))"

definition encloses :: "point2 list \<Rightarrow> point2 \<Rightarrow> bool" where
  "encloses points p \<longleftrightarrow> plane_point p \<notin> boundary points \<and> winding_number p points \<noteq> 0"

lemma ray_meets_iff:
  assumes "snd a \<noteq> snd b" and "min (snd a) (snd b) \<le> snd p" and "snd p \<le> max (snd a) (snd b)"
  shows "(\<exists>q \<in> segment a b. snd q = snd p \<and> fst p < fst q) \<longleftrightarrow> 0 < turn a b p * (snd b - snd a)"
proof -
  define t where "t = (snd p - snd a) / (snd b - snd a)"
  have t: "0 \<le> t" "t \<le> 1" unfolding t_def using box_parameter [OF assms(2,3,1)] .
  have h: "snd a + t * (snd b - snd a) = snd p" using assms(1) by (simp add: t_def)
  have eq: "turn a b p = (snd b - snd a) * (fst a + t * (fst b - fst a) - fst p)"
    unfolding turn_def h [symmetric] by (simp add: algebra_simps)
  have "turn a b p * (snd b - snd a) = (snd b - snd a)\<^sup>2 * (fst a + t * (fst b - fst a) - fst p)"
    by (simp only: eq power2_eq_square mult_ac)
  then have "0 < turn a b p * (snd b - snd a) \<longleftrightarrow> fst p < fst a + t * (fst b - fst a)"
    using assms(1) by (simp add: zero_less_mult_iff)
  also have "\<dots> \<longleftrightarrow> (\<exists>q \<in> segment a b. snd q = snd p \<and> fst p < fst q)"
  proof
    assume "fst p < fst a + t * (fst b - fst a)"
    then show "\<exists>q \<in> segment a b. snd q = snd p \<and> fst p < fst q"
      using t h by (intro bexI [of _ "(fst a + t * (fst b - fst a), snd p)"] segmentI [of t]) auto
  next
    assume "\<exists>q \<in> segment a b. snd q = snd p \<and> fst p < fst q"
    then obtain q where "q \<in> segment a b" "snd q = snd p" "fst p < fst q" by blast
    moreover from this(1) obtain s where "fst q = fst a + s * (fst b - fst a)" "snd q = snd a + s * (snd b - snd a)"
      by (rule segmentE)
    ultimately have "s = t" "fst p < fst a + s * (fst b - fst a)" using assms(1) by (auto simp: t_def eq_divide_eq)
    then show "fst p < fst a + t * (fst b - fst a)" by simp
  qed
  finally show ?thesis by blast
qed

lemma ray_crossing_int:
  "ray_crossing (plane_point p) (plane_point a) (plane_point b) =
     (if sint (p_y a) \<le> sint (p_y p) \<and> sint (p_y p) < sint (p_y b) \<and> 0 < cross_int a b p then 1
      else if sint (p_y p) < sint (p_y a) \<and> sint (p_y b) \<le> sint (p_y p) \<and> cross_int a b p < 0 then -1 else 0)"
proof -
  have y: "snd (plane_point q) = real_of_int (sint (p_y q))" for q by (simp add: plane_point_def)
  note r = ray_meets_iff [of "plane_point a" "plane_point b" "plane_point p"]
  show ?thesis
    unfolding ray_crossing_def y
    using r by (auto simp: y zero_less_mult_iff simp del: of_int_sint simp flip: cross_int_turn)
qed

lemma winding_step_small:
  assumes "small_point p" "small_point a" "small_point b" and "\<bar>w\<bar> < 2 ^ 62"
  shows "winding_step p (a, b) (Some w) =
     Inr (if plane_point p \<in> point_segment (a, b) then None
          else Some (w + ray_crossing (plane_point p) (plane_point a) (plane_point b)))"
  using assms(4) cross_on_segment [of a b p]
  by (auto simp: winding_step_def small_cross [OF assms(2,3,1)] ray_crossing_int checked_i64_def point_segment_def)

lemma winding_fold:
  assumes "small_point p" and "\<forall>(a, b) \<in> set es. small_point a \<and> small_point b" and "\<bar>w\<bar> + int (length es) < 2 ^ 62"
  shows "try_fold (winding_step p) es (Some w) =
     Inr (if \<exists>e \<in> set es. plane_point p \<in> point_segment e then None
          else Some (w + (\<Sum>(a, b) \<leftarrow> es. ray_crossing (plane_point p) (plane_point a) (plane_point b))))"
  using assms(2,3)
proof (induction es arbitrary: w)
  case (Cons e es)
  obtain a b where e: "e = (a, b)" by (cases e)
  have none: "try_fold (winding_step p) es None = Inr None" by (induction es) (simp_all add: winding_step_def)
  have "\<bar>ray_crossing (plane_point p) (plane_point a) (plane_point b)\<bar> \<le> 1" by (simp add: ray_crossing_int)
  then show ?case
    using Cons.IH [of "w + ray_crossing (plane_point p) (plane_point a) (plane_point b)"] Cons.prems none assms(1)
    by (auto simp: e winding_step_small add.assoc)
qed simp

lemma strictly_inside_small:
  assumes "small_point p" and "\<forall>q \<in> set points. small_point q" and "length points \<le> 2 ^ 30"
  shows "strictly_inside p points = Inr (encloses points p)"
proof -
  have "try_fold (winding_step p) (edges points) (Some 0) =
     Inr (if plane_point p \<in> boundary points then None else Some (winding_number p points))"
    using winding_fold [of p "edges points" 0] assms set_edgesD
    by (fastforce simp: boundary_def winding_number_def)
  then show ?thesis by (simp add: strictly_inside_def encloses_def)
qed

lemma rings_intersect_small:
  assumes "\<forall>p \<in> set xs. small_point p" and "\<forall>p \<in> set ys. small_point p"
  shows "rings_intersect xs ys = Inr (boundary xs \<inter> boundary ys \<noteq> {})"
proof -
  have inner: "try_exists (\<lambda>(c, d). intersects p q c d) es = Inr (\<exists>e \<in> set es. point_segment (p, q) \<inter> point_segment e \<noteq> {})"
    if "small_point p" "small_point q" "\<forall>(c, d) \<in> set es. small_point c \<and> small_point d" for p q es
    using that(3) by (induction es) (auto simp: small_intersects [OF that(1,2)])
  have "try_exists (\<lambda>(p, q). try_exists (\<lambda>(c, d). intersects p q c d) fs) es =
      Inr (\<exists>e \<in> set es. \<exists>f \<in> set fs. point_segment e \<inter> point_segment f \<noteq> {})"
    if "\<forall>(c, d) \<in> set es. small_point c \<and> small_point d" "\<forall>(c, d) \<in> set fs. small_point c \<and> small_point d" for es fs
    using that(1) by (induction es) (auto simp: inner [OF _ _ that(2)])
  then have "rings_intersect xs ys = Inr (\<exists>e \<in> set (edges xs). \<exists>f \<in> set (edges ys). point_segment e \<inter> point_segment f \<noteq> {})"
    unfolding rings_intersect_def using assms set_edgesD by blast
  also have "(\<exists>e \<in> set (edges xs). \<exists>f \<in> set (edges ys). point_segment e \<inter> point_segment f \<noteq> {}) \<longleftrightarrow> boundary xs \<inter> boundary ys \<noteq> {}"
    by (auto simp: boundary_def)
  finally show ?thesis .
qed

definition ring_ok :: "bool \<Rightarrow> point2 list \<Rightarrow> bool" where
  "ring_ok ccw points \<longleftrightarrow> 3 \<le> length points \<and> simple_ring points \<and> oriented ccw (twice_area points)"

text \<open>A polygon with holes: a simple counterclockwise contour, simple clockwise holes, boundaries that
  are pairwise disjoint, every hole inside the contour and no hole inside another.\<close>

definition separate_holes :: "point2 list \<Rightarrow> point2 list \<Rightarrow> bool" where
  "separate_holes g h \<longleftrightarrow> boundary g \<inter> boundary h = {} \<and> \<not> encloses g (hd h) \<and> \<not> encloses h (hd g)"

definition polygon_ok :: "ex_polygon \<Rightarrow> bool" where
  "polygon_ok polygon \<longleftrightarrow>
     ring_ok True (contour polygon) \<and>
     (\<forall>h \<in> set (holes polygon). ring_ok False h \<and> boundary (contour polygon) \<inter> boundary h = {} \<and>
        encloses (contour polygon) (hd h)) \<and>
     sorted_wrt separate_holes (holes polygon)"

definition small_ring :: "point2 list \<Rightarrow> bool" where
  "small_ring points \<longleftrightarrow> (\<forall>p \<in> set points. small_point p) \<and> length points \<le> 2 ^ 30"

definition small_polygon :: "ex_polygon \<Rightarrow> bool" where
  "small_polygon polygon \<longleftrightarrow> small_ring (contour polygon) \<and> (\<forall>h \<in> set (holes polygon). small_ring h)"

lemma small_ring_simps:
  "small_ring xs \<Longrightarrow> ring xs ccw = Inr () \<longleftrightarrow> ring_ok ccw xs"
  "small_ring xs \<Longrightarrow> small_ring ys \<Longrightarrow> rings_intersect xs ys = Inr (boundary xs \<inter> boundary ys \<noteq> {})"
  "small_ring xs \<Longrightarrow> small_ring ys \<Longrightarrow> ys \<noteq> [] \<Longrightarrow> strictly_inside (hd ys) xs = Inr (encloses xs (hd ys))"
  by (simp_all add: small_ring_def ring_iff ring_ok_def rings_intersect_small strictly_inside_small)

lemma ring_ok_nonempty: "ring_ok ccw xs \<Longrightarrow> xs \<noteq> []"
  by (auto simp: ring_ok_def)

lemma validate_hole_iff:
  assumes outer: "small_ring outer" and hs: "\<forall>h \<in> set hs. small_ring h" and i: "i < length hs"
    and earlier: "\<forall>g \<in> set (take i hs). g \<noteq> []"
  shows "validate_hole outer hs (i, hs ! i) = Inr () \<longleftrightarrow>
     ring_ok False (hs ! i) \<and> boundary outer \<inter> boundary (hs ! i) = {} \<and> encloses outer (hd (hs ! i)) \<and>
     (\<forall>g \<in> set (take i hs). separate_holes g (hs ! i))"
proof (cases "ring_ok False (hs ! i)")
  case False
  have "small_ring (hs ! i)" using hs i by simp
  then have "ring (hs ! i) False \<noteq> Inr ()" using False by (simp add: small_ring_simps)
  then show ?thesis using False by (auto simp: validate_hole_def and_then_Inr_iff)
next
  case True
  let ?h = "hs ! i"
  have h: "small_ring ?h" "?h \<noteq> []" using hs i True ring_ok_nonempty by auto
  have r: "ring ?h False = Inr ()" using True h by (simp add: small_ring_simps)
  have "and_then (rings_intersect g ?h) (\<lambda>meet. if meet then Inl PE_InvalidShape
        else and_then (strictly_inside (hd ?h) g) (\<lambda>nested. if nested then Inl PE_InvalidShape
        else and_then (strictly_inside (hd g) ?h) (\<lambda>nests. if nests then Inl PE_InvalidShape else Inr ()))) = Inr () \<longleftrightarrow>
      separate_holes g ?h" if g: "g \<in> set (take i hs)" for g
  proof -
    have "small_ring g" "g \<noteq> []" using g earlier hs set_take_subset [of i hs] by auto
    then show ?thesis using h by (simp add: small_ring_simps separate_holes_def)
  qed
  then show ?thesis
    using True h outer by (simp add: validate_hole_def r small_ring_simps try_each_Inr_iff)
qed

lemma sorted_wrt_take: "sorted_wrt P xs \<longleftrightarrow> (\<forall>i < length xs. \<forall>g \<in> set (take i xs). P g (xs ! i))"
  unfolding sorted_wrt_iff_nth_less by (fastforce simp: in_set_conv_nth)

lemma validate_polygon_iff:
  assumes "small_polygon polygon"
  shows "validate_polygon polygon = Inr () \<longleftrightarrow> polygon_ok polygon"
proof -
  let ?hs = "holes polygon" and ?c = "contour polygon"
  have s: "small_ring ?c" "\<forall>h \<in> set ?hs. small_ring h" using assms by (auto simp: small_polygon_def)
  have "try_each (validate_hole ?c ?hs) (enumerate 0 ?hs) = Inr () \<longleftrightarrow>
      (\<forall>i < length ?hs. validate_hole ?c ?hs (i, ?hs ! i) = Inr ())"
    by (auto simp: try_each_Inr_iff set_enumerate)
  also have "\<dots> \<longleftrightarrow> (\<forall>i < length ?hs. ring_ok False (?hs ! i) \<and> boundary ?c \<inter> boundary (?hs ! i) = {} \<and>
      encloses ?c (hd (?hs ! i)) \<and> (\<forall>g \<in> set (take i ?hs). separate_holes g (?hs ! i)))"
  proof -
    have nonempty: "\<forall>g \<in> set (take i ?hs). g \<noteq> []" if "\<forall>i < length ?hs. ring_ok False (?hs ! i)" for i
      using that ring_ok_nonempty by (fastforce simp: in_set_conv_nth)
    have r: "ring_ok False (?hs ! i)" if "validate_hole ?c ?hs (i, ?hs ! i) = Inr ()" "i < length ?hs" for i
      using that s(2) by (auto simp: validate_hole_def and_then_Inr_iff small_ring_simps)
    show ?thesis
      using r nonempty validate_hole_iff [OF s] by blast
  qed
  finally show ?thesis
    by (auto simp: validate_polygon_def and_then_Inr_iff small_ring_simps [OF s(1)] polygon_ok_def sorted_wrt_take
        all_set_conv_all_nth)
qed

end
