(* ===== verification/Scenes.thy ===== *)
theory Scenes
  imports SimplePolygons
begin

text \<open>
  What a committed preparation scene guarantees: its references resolve, its geometry is valid, and its
  logical size is counted exactly.
\<close>

section \<open>Sizes\<close>

fun geometry_size :: "preparation_projection_geometry \<Rightarrow> nat" where
  "geometry_size (GPoint p) = 17"
| "geometry_size (GPolyline points) = 1 + 16 * length points"
| "geometry_size (GPolygon polygon filled) = 2 + 16 * (length (contour polygon) + sum_list (map length (holes polygon)))"

definition primitive_text :: "preparation_projection_primitive \<Rightarrow> nat" where
  "primitive_text p = length (prim_id p) + length (prim_class p) + (case prim_label p of None \<Rightarrow> 0 | Some l \<Rightarrow> length l)"

definition scene_size :: "preparation_projection_scene \<Rightarrow> nat" where
  "scene_size s =
     length (scene_id s) + length (scene_view s) + sum_list (map length (scene_classes s)) +
     sum_list (map primitive_text (scene_primitives s)) +
     sum_list (map (\<lambda>p. geometry_size (prim_geometry p) + 4) (scene_primitives s))"

fun geometry_ok :: "preparation_projection_geometry \<Rightarrow> bool" where
  "geometry_ok (GPoint p) \<longleftrightarrow> True"
| "geometry_ok (GPolyline points) \<longleftrightarrow> 2 \<le> length points \<and> hd points \<noteq> last points \<and> \<not> consecutive_equal points"
| "geometry_ok (GPolygon polygon filled) \<longleftrightarrow> validate_polygon polygon = Inr ()"

definition primitive_ok :: "preparation_projection_scene \<Rightarrow> (u32, u32) btree_map \<Rightarrow> preparation_projection_primitive \<Rightarrow> bool" where
  "primitive_ok s layers p \<longleftrightarrow>
     prim_class p \<in> set (scene_classes s) \<and> geometry_ok (prim_geometry p) \<and>
     (\<exists>z. btm_get layers (prim_global_layer_index p) = Some z \<and> f32_is_finite z \<and> \<not> f32_negative z)"

definition scene_ok :: "preparation_projection_scene \<Rightarrow> (u32, u32) btree_map \<Rightarrow> bool" where
  "scene_ok s layers \<longleftrightarrow>
     scene_id s \<noteq> [] \<and> scene_view s \<noteq> [] \<and>
     [] \<notin> set (scene_classes s) \<and> distinct (scene_classes s) \<and>
     [] \<notin> prim_id ` set (scene_primitives s) \<and> distinct (map prim_id (scene_primitives s)) \<and>
     (\<forall>p \<in> set (scene_primitives s). primitive_ok s layers p)"

section \<open>Counting\<close>

lemma checked_u64_Inr: "checked_u64 e n = Inr w \<longleftrightarrow> n < 2 ^ 64 \<and> w = of_nat n"
  by (auto simp: checked_u64_def)

lemma checked_u64_size: "checked_u64 e n = Inr w \<Longrightarrow> unat w = n \<and> n < 2 ^ 64"
  by (auto simp: checked_u64_Inr unat_of_nat)

lemma map_error_Inr [simp]: "map_error f r = Inr x \<longleftrightarrow> r = Inr x"
  by (cases r) (simp_all add: map_error_def)

text \<open>A counter that either reports an overflow or adds exactly.\<close>

definition counts :: "('a \<Rightarrow> u64 \<Rightarrow> 'e + u64) \<Rightarrow> ('a \<Rightarrow> nat) \<Rightarrow> bool" where
  "counts f w \<longleftrightarrow> (\<forall>x t t'. f x t = Inr t' \<longrightarrow> unat t' = unat t + w x)"

lemma try_fold_counts:
  assumes "counts f w" and "try_fold f xs t = Inr t'"
  shows "unat t' = unat t + sum_list (map w xs)"
  using assms(2)
proof (induction xs arbitrary: t)
  case (Cons x xs)
  then obtain u where "f x t = Inr u" "try_fold f xs u = Inr t'" by (auto simp: and_then_Inr_iff)
  then show ?case using Cons.IH [of u] assms(1) by (simp add: counts_def)
qed simp

lemma counts_string: "counts count_string length"
  by (auto simp: counts_def count_string_def and_then_Inr_iff bytes_def checked_add_def dest!: checked_u64_size)

lemma points_ok [simp]: "try_each point points = Inr ()"
  by (simp add: try_each_Inr_iff)

lemma point_bytes_size: "point_bytes points = Inr n \<Longrightarrow> unat n = 16 * length points"
  by (auto simp: point_bytes_def and_then_Inr_iff bytes_def dest!: checked_u64_size)

lemma counts_points: "counts (\<lambda>hole n. and_then (point_bytes hole) (checked_add n)) (\<lambda>hole. 16 * length hole)"
  by (auto simp: counts_def and_then_Inr_iff checked_add_def dest!: checked_u64_size point_bytes_size)

lemma validate_geometry_size:
  "validate_geometry g = Inr n \<Longrightarrow> geometry_ok g \<and> unat n = geometry_size g"
proof (cases g)
  case (GPolygon polygon filled)
  assume "validate_geometry g = Inr n"
  then obtain c m where v: "validate_polygon polygon = Inr ()" and "point_bytes (contour polygon) = Inr c" "checked_add 2 c = Inr m"
    and f: "try_fold (\<lambda>hole n. and_then (point_bytes hole) (checked_add n)) (holes polygon) m = Inr n"
    by (auto simp: GPolygon and_then_Inr_iff)
  then have "unat m = 2 + 16 * length (contour polygon)"
    by (auto simp: checked_add_def dest!: checked_u64_size point_bytes_size)
  then show ?thesis using v try_fold_counts [OF counts_points f] by (simp add: GPolygon sum_list_const_mult)
qed (auto simp: and_then_Inr_iff checked_add_def not_less split: if_splits dest!: checked_u64_size point_bytes_size)

lemma counts_geometry: "counts count_geometry (\<lambda>p. geometry_size (prim_geometry p) + 4)"
  unfolding counts_def count_geometry_def
  by (auto simp: and_then_Inr_iff checked_add_def dest!: checked_u64_size validate_geometry_size)

lemma count_geometry_ok:
  "try_fold count_geometry ps t = Inr t' \<Longrightarrow> \<forall>p \<in> set ps. geometry_ok (prim_geometry p)"
  by (induction ps arbitrary: t) (auto simp: and_then_Inr_iff count_geometry_def dest!: validate_geometry_size)

lemma check_classes_ok:
  "check_classes seen cs = Inr () \<Longrightarrow> [] \<notin> set cs \<and> distinct cs \<and> set seen \<inter> set cs = {}"
  by (induction cs arbitrary: seen) (fastforce simp: reference_def split: if_splits)+

lemma check_primitive_ok:
  assumes "check_primitive classes layers p (ids, t) = Inr (ids', t')"
  shows "prim_id p \<noteq> []" and "prim_id p \<notin> set ids" and "ids' = prim_id p # ids" and "prim_class p \<in> set classes"
    and "\<exists>z. btm_get layers (prim_global_layer_index p) = Some z \<and> f32_is_finite z \<and> \<not> f32_negative z"
    and "unat t' = unat t + primitive_text p"
proof -
  have guards: "\<not> (prim_id p = [] \<or> prim_id p \<in> set ids)" using assms by (auto simp: check_primitive_def reference_def)
  obtain z where z: "btm_get layers (prim_global_layer_index p) = Some z"
    using assms guards by (auto simp: check_primitive_def reference_def split: option.splits)
  have rest: "prim_class p \<in> set classes" "f32_is_finite z \<and> \<not> f32_negative z"
    using assms guards z by (auto simp: check_primitive_def reference_def split: if_splits)
  obtain t1 t2 where t: "count_string (prim_id p) t = Inr t1" "count_string (prim_class p) t1 = Inr t2"
    "(case prim_label p of None \<Rightarrow> Inr t2 | Some label \<Rightarrow> count_string label t2) = Inr t'" and ids: "ids' = prim_id p # ids"
    using assms guards z rest by (auto simp: check_primitive_def and_then_Inr_iff)
  show "unat t' = unat t + primitive_text p"
    using t counts_string by (auto simp: counts_def primitive_text_def split: option.splits)
  show "prim_id p \<noteq> []" "prim_id p \<notin> set ids" "ids' = prim_id p # ids" "prim_class p \<in> set classes"
    "\<exists>z. btm_get layers (prim_global_layer_index p) = Some z \<and> f32_is_finite z \<and> \<not> f32_negative z"
    using guards ids rest z by auto
qed

lemma check_primitives_ok:
  assumes "try_fold (check_primitive classes layers) ps (ids, t) = Inr (ids', t')"
  shows "[] \<notin> prim_id ` set ps \<and> distinct (map prim_id ps) \<and> set ids \<inter> prim_id ` set ps = {} \<and>
     unat t' = unat t + sum_list (map primitive_text ps) \<and>
     (\<forall>p \<in> set ps. prim_class p \<in> set classes \<and>
        (\<exists>z. btm_get layers (prim_global_layer_index p) = Some z \<and> f32_is_finite z \<and> \<not> f32_negative z))"
  using assms
proof (induction ps arbitrary: ids t)
  case (Cons p ps)
  then obtain i u where c: "check_primitive classes layers p (ids, t) = Inr (i, u)"
    and f: "try_fold (check_primitive classes layers) ps (i, u) = Inr (ids', t')" by (auto simp: and_then_Inr_iff)
  show ?case using Cons.IH [OF f] check_primitive_ok [OF c] by auto
qed auto

lemma validate_scene_sound:
  assumes "validate_scene scene owner layers = Inr c"
  shows "scene_ok scene layers \<and> unat (cp_diagnostic_bytes c) = scene_size scene"
    and "c = \<lparr>cp_scene = scene, cp_owner_module_id = owner, cp_diagnostic_bytes = cp_diagnostic_bytes c, cp_layer_z = layers\<rparr>"
proof -
  obtain n where b: "scene_bytes scene layers = Inr n" and c: "c = \<lparr>cp_scene = scene, cp_owner_module_id = owner, cp_diagnostic_bytes = n, cp_layer_z = layers\<rparr>"
    using assms by (auto simp: validate_scene_def and_then_Inr_iff)
  from c show "c = \<lparr>cp_scene = scene, cp_owner_module_id = owner, cp_diagnostic_bytes = cp_diagnostic_bytes c, cp_layer_z = layers\<rparr>" by simp
  from b obtain t1 t2 t3 ids t4 where
    ne: "scene_id scene \<noteq> []" "scene_view scene \<noteq> []" and cl: "check_classes [] (scene_classes scene) = Inr ()"
    and t: "count_string (scene_id scene) 0 = Inr t1" "count_string (scene_view scene) t1 = Inr t2"
      "try_fold count_string (scene_classes scene) t2 = Inr t3"
    and p: "try_fold (check_primitive (scene_classes scene) layers) (scene_primitives scene) ([], t3) = Inr (ids, t4)"
    and g: "try_fold count_geometry (scene_primitives scene) t4 = Inr n"
    by (auto simp: scene_bytes_def reference_def and_then_Inr_iff split: if_splits)
  have "unat t1 = length (scene_id scene)" "unat t2 = unat t1 + length (scene_view scene)"
    "unat t3 = unat t2 + sum_list (map length (scene_classes scene))"
    using t(1,2) counts_string try_fold_counts [OF counts_string t(3)] by (auto simp: counts_def)
  then show "scene_ok scene layers \<and> unat (cp_diagnostic_bytes c) = scene_size scene"
    using ne check_classes_ok [OF cl] check_primitives_ok [OF p] count_geometry_ok [OF g] try_fold_counts [OF counts_geometry g]
    by (auto simp: c scene_ok_def primitive_ok_def scene_size_def)
qed

section \<open>Claims\<close>

text \<open>C16: with coordinates of at most \<open>2\<^sup>4\<^sup>7\<close> units, polygon validation accepts exactly the
  polygons with a simple counterclockwise contour, simple clockwise holes inside it, and pairwise
  disjoint boundaries; overlap and containment are meant in the real plane, although the code decides
  them in 128-bit integers.\<close>

theorem polygon_validation_exact:
  assumes "small_polygon polygon"
  shows "validate_polygon polygon = Inr () \<longleftrightarrow> polygon_ok polygon"
  by (rule validate_polygon_iff [OF assms])

definition square_with_hole :: ex_polygon where
  "square_with_hole =
     \<lparr>contour = [\<lparr>p_x = 0, p_y = 0\<rparr>, \<lparr>p_x = 9, p_y = 0\<rparr>, \<lparr>p_x = 9, p_y = 9\<rparr>, \<lparr>p_x = 0, p_y = 9\<rparr>],
      holes = [[\<lparr>p_x = 3, p_y = 3\<rparr>, \<lparr>p_x = 3, p_y = 6\<rparr>, \<lparr>p_x = 6, p_y = 3\<rparr>]]\<rparr>"

theorem polygon_validation_exact_witness: "small_polygon square_with_hole \<and> polygon_ok square_with_hole"
proof
  show small: "small_polygon square_with_hole"
    by (simp add: small_polygon_def small_ring_def small_point_def square_with_hole_def)
  have "validate_polygon square_with_hole = Inr ()" by code_simp
  then show "polygon_ok square_with_hole" using polygon_validation_exact [OF small] by simp
qed

text \<open>C17: a committed scene has unique nonempty names, references only its own classes and scheduled
  layers of nonnegative height, carries valid geometry, and its logical size is counted without loss.\<close>

theorem committed_scene_sound:
  assumes "validate_scene scene owner layers = Inr c"
  shows "scene_ok scene layers \<and> cp_scene c = scene \<and> cp_layer_z c = layers \<and>
     unat (cp_diagnostic_bytes c) = scene_size scene"
  using validate_scene_sound [OF assms] by (metis committed_preparation_projection.select_convs(1,4))

definition marker_scene :: preparation_projection_scene where
  "marker_scene =
     \<lparr>scene_id = ''final'', scene_view = ''view'', scene_classes = [''seam''],
      scene_primitives =
        [\<lparr>prim_id = ''p'', prim_global_layer_index = 2, prim_class = ''seam'', prim_label = None,
          prim_geometry = GPolygon square_with_hole True\<rparr>]\<rparr>"

theorem committed_scene_sound_witness: "scene_ok marker_scene [(2, 0x3F800000)] \<and> scene_size marker_scene = 136"
proof -
  have valid: "validate_polygon square_with_hole = Inr ()" by code_simp
  have z: "f32_is_finite 0x3F800000" "\<not> f32_negative 0x3F800000" by code_simp+
  have lengths: "length (contour square_with_hole) = 4" "\<exists>h. holes square_with_hole = [h] \<and> length h = 3"
    by (simp_all add: square_with_hole_def)
  have "\<not> isl (validate_scene marker_scene ''m'' [(2, 0x3F800000)])"
    using valid z lengths
    by (auto simp: validate_scene_def scene_bytes_def marker_scene_def count_string_def bytes_def checked_add_def
        checked_u64_def map_error_def check_primitive_def count_geometry_def point_bytes_def btm_get_def
        unat_of_nat primitive_field_def and_then_def split: sum.splits)
  then obtain c where "validate_scene marker_scene ''m'' [(2, 0x3F800000)] = Inr c"
    by (cases "validate_scene marker_scene ''m'' [(2, 0x3F800000)]") auto
  then have "scene_ok marker_scene [(2, 0x3F800000)]" using committed_scene_sound by blast
  moreover have "scene_size marker_scene = 136" by code_simp
  ultimately show ?thesis ..
qed

end
