(* ===== verification/PreparationStore.thy ===== *)
theory PreparationStore
  imports Scenes
begin

text \<open>
  The print-scoped store of prepared plans, \<^verbatim>\<open>crates/slicer-wasm-host/src/preparation_store.rs\<close>:
  owners, the staging transaction of an owner with its opaque pieces and typed scenes, publication,
  reads under a guard, and disposal.  Every method takes the mutex of the store once per critical
  section; a method is a function on the state per critical section, composed where it takes the mutex
  twice.  An \<^verbatim>\<open>Arc<()>\<close> identity is a number from a fresh supply, and the shared metadata of an
  owner is kept in its entry.
\<close>

section \<open>Errors\<close>

datatype transport_error =
    TE_NotReady | TE_InvalidName | TE_DuplicateName | TE_PoisonedOutput | TE_RangeError
  | TE_ArithmeticOverflow | TE_AccessDenied

datatype input_error =
    IE_AccessDenied | IE_RangeError | IE_ArithmeticOverflow | IE_MissingRequired string
  | IE_UnsupportedRead string | IE_InvalidInput string | IE_UnknownObject string
  | IE_SelectionRejected string

datatype declaration_error =
    DE_InvalidTable string | DE_MissingInterface string | DE_UnsupportedInterface string
  | DE_MissingInputReads string | DE_InvalidInputRead string | DE_DuplicateInputRead string
  | DE_InvalidViewName string | DE_DuplicateViewName string | DE_UnknownKey string
  | DE_MissingExport string | DE_IncompatibleExport string | DE_UndeclaredExport string
  | DE_UnsupportedStage string

datatype 'm preparation_failure =
    PF_Declaration declaration_error
  | PF_Transport transport_error
  | PF_Input input_error
  | PF_Module 'm
  | PF_Trap string
  | PF_Disposed
  | PF_Busy
  | PF_InvalidOwner
  | PF_AlreadyStarted
  | PF_PublicationRejected string
  | PF_ProjectionRejected string preparation_projection_error string

section \<open>State\<close>

text \<open>The four phases that the source spells as static strings.\<close>

datatype prep_phase = Unready | Staging | Ready | DisposedPhase

record prepared_plan_metadata =
  md_module_id :: string
  md_phase :: prep_phase
  md_ready :: bool
  md_pieces :: "(string \<times> u64) list"
  md_retained_payload_bytes :: u64
  md_retained_name_bytes :: u64
  md_staged_payload_bytes :: u64
  md_staged_name_bytes :: u64
  md_put_calls :: u64
  md_read_calls :: u64
  md_requested_read_bytes :: u64
  md_returned_read_bytes :: u64
  md_prepare_invocations :: u64

record piece =
  pc_id :: u64
  pc_bytes :: "u8 list"
  pc_len :: u64

record projection_staging =
  pg_views :: "string list"
  pg_layers :: "(u32, u32) btree_map"
  pg_scenes :: "(string, committed_preparation_projection) btree_map"

record owner_state =
  os_artifact_identity :: nat
  os_pieces :: "(string, piece) btree_map"
  os_metadata :: prepared_plan_metadata
  os_writer_fault :: "transport_error option"
  os_active_reads :: u64
  os_call_identity :: "nat option"
  os_projection :: "projection_staging option"
  os_projection_failure :: "projection_fault option"
  os_diagnostics :: preparation_diagnostic_accounting
  os_prepare_fuel :: u64

record store_state =
  st_self :: nat
  st_live :: bool
  st_disposed :: bool
  st_next_owner :: u64
  st_owners :: "(u64, owner_state) btree_map"
  st_fresh :: nat

record preparation_owner =
  ow_store :: nat
  ow_id :: u64
  ow_artifact_identity :: nat
  ow_stage_id :: stage_id
  ow_artifact_kind :: string
  ow_declared_views :: "string list"
  ow_input_reads :: "string list"

record preparation_declaration =
  pd_interface :: string
  pd_input_reads :: "string list"
  pd_views :: "string list"

record frozen_preparation_binding =
  fb_module_id :: module_id
  fb_stage_id :: stage_id
  fb_artifact_kind :: string
  fb_artifact_identity :: nat
  fb_declaration :: "preparation_declaration option"

record active_preparation_invocation =
  ai_owner :: preparation_owner
  ai_call_identity :: nat

text \<open>A transaction that is still open, a published plan, an opened piece, the description that
  validation sees, and the forwarding authority of a projection writer.\<close>

type_synonym prepared_plan_handle = preparation_owner

record prepared_piece_handle =
  ph_owner :: preparation_owner
  ph_id :: u64
  ph_len :: u64

record staged_preparation =
  sp_owner :: preparation_owner
  sp_pieces :: "(string \<times> u64) list"

record projection_writer =
  pw_owner :: preparation_owner
  pw_call_identity :: nat

section \<open>Helpers\<close>

definition add :: "u64 \<Rightarrow> u64 \<Rightarrow> transport_error + u64" where
  "add a b = checked_u64 TE_ArithmeticOverflow (unat a + unat b)"

definition count_u64 :: "nat \<Rightarrow> transport_error + u64" where
  "count_u64 value = checked_u64 TE_ArithmeticOverflow value"

definition os_phase :: "owner_state \<Rightarrow> prep_phase" where
  "os_phase entry = md_phase (os_metadata entry)"

definition check_owner :: "store_state \<Rightarrow> preparation_owner \<Rightarrow> 'm preparation_failure + owner_state" where
  "check_owner state owner =
     (case btm_get (st_owners state) (ow_id owner) of
        None \<Rightarrow> Inl PF_InvalidOwner
      | Some entry \<Rightarrow>
          if os_artifact_identity entry \<noteq> ow_artifact_identity owner then Inl PF_InvalidOwner
          else if st_disposed state \<or> os_phase entry = DisposedPhase then Inl PF_Disposed
          else Inr entry)"

definition set_entry :: "preparation_owner \<Rightarrow> owner_state \<Rightarrow> store_state \<Rightarrow> store_state" where
  "set_entry owner entry state = state\<lparr>st_owners := btm_insert (ow_id owner) entry (st_owners state)\<rparr>"

definition clear :: "prep_phase \<Rightarrow> owner_state \<Rightarrow> owner_state" where
  "clear phase entry =
     entry\<lparr>os_pieces := [],
           os_projection := None,
           os_call_identity := None,
           os_projection_failure := (if phase = DisposedPhase then None else os_projection_failure entry),
           os_diagnostics := (os_diagnostics entry)\<lparr>da_staged_bytes := 0, da_retained_bytes := 0\<rparr>,
           os_metadata := (os_metadata entry)
             \<lparr>md_phase := phase, md_ready := False, md_pieces := [],
              md_retained_payload_bytes := 0, md_retained_name_bytes := 0,
              md_staged_payload_bytes := 0, md_staged_name_bytes := 0\<rparr>\<rparr>"

section \<open>Owner tokens\<close>

definition originating_store :: "store_state \<Rightarrow> preparation_owner \<Rightarrow> 'm preparation_failure + unit" where
  "originating_store state owner = (if st_live state then Inr () else Inl PF_Disposed)"

definition same_owner :: "preparation_owner \<Rightarrow> preparation_owner \<Rightarrow> bool" where
  "same_owner a b \<longleftrightarrow> ow_store a = ow_store b \<and> ow_id a = ow_id b"

definition update_metadata :: "preparation_owner \<Rightarrow> (prepared_plan_metadata \<Rightarrow> prepared_plan_metadata) \<Rightarrow> store_state \<Rightarrow> store_state" where
  "update_metadata owner f state =
     state\<lparr>st_owners := btm_modify (ow_id owner) (\<lambda>e. e\<lparr>os_metadata := f (os_metadata e)\<rparr>) (st_owners state)\<rparr>"

text \<open>A token shares its metadata with the entry of the store, which is never removed.\<close>

definition metadata :: "store_state \<Rightarrow> preparation_owner \<Rightarrow> prepared_plan_metadata option" where
  "metadata state owner = map_option os_metadata (btm_get (st_owners state) (ow_id owner))"

definition record_prepare_invocation ::
    "preparation_owner \<Rightarrow> store_state \<Rightarrow> ('m preparation_failure + unit) \<times> store_state" where
  "record_prepare_invocation owner state =
     (case metadata state owner of
        None \<Rightarrow> (Inr (), state)
      | Some m \<Rightarrow>
         (case add (md_prepare_invocations m) 1 of
            Inl e \<Rightarrow> (Inl (PF_Transport e), state)
          | Inr n \<Rightarrow> (Inr (), update_metadata owner (\<lambda>m. m\<lparr>md_prepare_invocations := n\<rparr>) state)))"

definition record_prepare_fuel :: "preparation_owner \<Rightarrow> u64 \<Rightarrow> store_state \<Rightarrow> store_state" where
  "record_prepare_fuel owner fuel state =
     state\<lparr>st_owners := btm_modify (ow_id owner) (\<lambda>e. e\<lparr>os_prepare_fuel := fuel\<rparr>) (st_owners state)\<rparr>"

definition prepare_fuel_consumed :: "store_state \<Rightarrow> preparation_owner \<Rightarrow> u64" where
  "prepare_fuel_consumed state owner =
     (case btm_get (st_owners state) (ow_id owner) of None \<Rightarrow> 0 | Some e \<Rightarrow> os_prepare_fuel e)"

definition diagnostic_accounting :: "store_state \<Rightarrow> preparation_owner \<Rightarrow> preparation_diagnostic_accounting option" where
  "diagnostic_accounting state owner = map_option os_diagnostics (btm_get (st_owners state) (ow_id owner))"

definition writer_fault :: "store_state \<Rightarrow> preparation_owner \<Rightarrow> transport_error option" where
  "writer_fault state owner =
     (if st_live state then Option.bind (btm_get (st_owners state) (ow_id owner)) os_writer_fault else None)"

text \<open>The thread-local slot of the active invocation is an argument.\<close>

definition current_call_identity :: "active_preparation_invocation option \<Rightarrow> preparation_owner \<Rightarrow> nat option" where
  "current_call_identity slot owner =
     (case slot of None \<Rightarrow> None
      | Some active \<Rightarrow> if same_owner owner (ai_owner active) then Some (ai_call_identity active) else None)"

definition check_current_invocation ::
    "active_preparation_invocation option \<Rightarrow> preparation_owner \<Rightarrow> nat \<Rightarrow> preparation_projection_error + unit" where
  "check_current_invocation slot owner call_identity =
     (if current_call_identity slot owner = Some call_identity then Inr () else Inl PE_AccessDenied)"

definition piece_lengths :: "(string, piece) btree_map \<Rightarrow> (string \<times> u64) list" where
  "piece_lengths pieces = map (\<lambda>(name, piece). (name, pc_len piece)) pieces"

definition staged_description :: "store_state \<Rightarrow> preparation_owner \<Rightarrow> 'm preparation_failure + staged_preparation" where
  "staged_description state owner =
     and_then (originating_store state owner) (\<lambda>_.
     and_then (check_owner state owner) (\<lambda>entry.
     if os_phase entry \<noteq> Staging then Inl (PF_Transport TE_NotReady)
     else Inr \<lparr>sp_owner = owner, sp_pieces = piece_lengths (os_pieces entry)\<rparr>))"

section \<open>Read guards\<close>

definition guard_acquire :: "preparation_owner \<Rightarrow> store_state \<Rightarrow> (transport_error + unit) \<times> store_state" where
  "guard_acquire owner state =
     (if \<not> st_live state then (Inl TE_AccessDenied, state)
      else case check_owner state owner :: unit preparation_failure + owner_state of
          Inl _ \<Rightarrow> (Inl TE_AccessDenied, state)
        | Inr entry \<Rightarrow>
           (case add (os_active_reads entry) 1 of
              Inl e \<Rightarrow> (Inl e, state)
            | Inr n \<Rightarrow> (Inr (), set_entry owner (entry\<lparr>os_active_reads := n\<rparr>) state)))"

text \<open>Dropping a guard; \<open>None\<close> is the panic of an unbalanced guard.\<close>

definition guard_release :: "preparation_owner \<Rightarrow> store_state \<Rightarrow> store_state option" where
  "guard_release owner state =
     (if \<not> st_live state then Some state
      else case btm_get (st_owners state) (ow_id owner) of
          None \<Rightarrow> Some state
        | Some entry \<Rightarrow>
            if os_active_reads entry = 0 then None
            else Some (set_entry owner (entry\<lparr>os_active_reads := os_active_reads entry - 1\<rparr>) state))"

text \<open>\<^verbatim>\<open>active_guard\<close> also binds a fresh invocation to the thread; dropping that guard puts the
  previous invocation back.\<close>

definition active_guard ::
    "preparation_owner \<Rightarrow> store_state \<Rightarrow>
     ('m preparation_failure + active_preparation_invocation) \<times> store_state" where
  "active_guard owner state =
     (case and_then (originating_store state owner) (\<lambda>_. check_owner state owner) of
        Inl e \<Rightarrow> (Inl e, state)
      | Inr _ \<Rightarrow>
         (case guard_acquire owner state of
            (Inl e, s) \<Rightarrow> (Inl (PF_Transport e), s)
          | (Inr _, s) \<Rightarrow>
              (Inr \<lparr>ai_owner = owner, ai_call_identity = st_fresh s\<rparr>, s\<lparr>st_fresh := Suc (st_fresh s)\<rparr>)))"

section \<open>The store\<close>

definition new_store :: "nat \<Rightarrow> store_state" where
  "new_store self =
     \<lparr>st_self = self, st_live = True, st_disposed = False, st_next_owner = 0, st_owners = [], st_fresh = 0\<rparr>"

definition verify :: "store_state \<Rightarrow> preparation_owner \<Rightarrow> 'm preparation_failure + unit" where
  "verify state owner = (if ow_store owner = st_self state then Inr () else Inl PF_InvalidOwner)"

definition validate_owner ::
    "store_state \<Rightarrow> preparation_owner \<Rightarrow> frozen_preparation_binding \<Rightarrow> 'm preparation_failure + unit" where
  "validate_owner state owner binding =
     and_then (verify state owner) (\<lambda>_.
     if ow_artifact_identity owner \<noteq> fb_artifact_identity binding then Inl PF_InvalidOwner
     else and_then (check_owner state owner) (\<lambda>_. Inr ()))"

definition new_entry :: "frozen_preparation_binding \<Rightarrow> owner_state" where
  "new_entry binding =
     \<lparr>os_artifact_identity = fb_artifact_identity binding,
      os_pieces = [],
      os_metadata =
        \<lparr>md_module_id = fb_module_id binding, md_phase = Unready, md_ready = False, md_pieces = [],
         md_retained_payload_bytes = 0, md_retained_name_bytes = 0, md_staged_payload_bytes = 0,
         md_staged_name_bytes = 0, md_put_calls = 0, md_read_calls = 0, md_requested_read_bytes = 0,
         md_returned_read_bytes = 0, md_prepare_invocations = 0\<rparr>,
      os_writer_fault = None, os_active_reads = 0, os_call_identity = None, os_projection = None,
      os_projection_failure = None,
      os_diagnostics = \<lparr>da_staged_bytes = 0, da_retained_bytes = 0, da_published_scenes = 0\<rparr>,
      os_prepare_fuel = 0\<rparr>"

definition create_owner ::
    "frozen_preparation_binding \<Rightarrow> store_state \<Rightarrow> ('m preparation_failure + preparation_owner) \<times> store_state" where
  "create_owner binding state =
     (if st_disposed state then (Inl PF_Disposed, state)
      else case add (st_next_owner state) 1 of
          Inl e \<Rightarrow> (Inl (PF_Transport e), state)
        | Inr next \<Rightarrow>
            let owner = \<lparr>ow_store = st_self state, ow_id = st_next_owner state,
                  ow_artifact_identity = fb_artifact_identity binding, ow_stage_id = fb_stage_id binding,
                  ow_artifact_kind = fb_artifact_kind binding,
                  ow_declared_views = (case fb_declaration binding of None \<Rightarrow> [] | Some d \<Rightarrow> pd_views d),
                  ow_input_reads = (case fb_declaration binding of None \<Rightarrow> [] | Some d \<Rightarrow> pd_input_reads d)\<rparr>
            in (Inr owner, (set_entry owner (new_entry binding) state)\<lparr>st_next_owner := next\<rparr>))"

text \<open>A new transaction belongs to the invocation bound to the thread, or to a fresh identity.\<close>

definition begin_tx ::
    "active_preparation_invocation option \<Rightarrow> preparation_owner \<Rightarrow> store_state \<Rightarrow>
     ('m preparation_failure + preparation_owner) \<times> store_state" where
  "begin_tx slot owner state =
     (case and_then (verify state owner) (\<lambda>_. check_owner state owner) of
        Inl e \<Rightarrow> (Inl e, state)
      | Inr entry \<Rightarrow>
          if os_phase entry \<noteq> Unready then (Inl PF_AlreadyStarted, state)
          else
            let (identity, fresh) =
                  (case current_call_identity slot owner of
                     Some i \<Rightarrow> (i, st_fresh state)
                   | None \<Rightarrow> (st_fresh state, Suc (st_fresh state)))
            in (Inr owner,
                (set_entry owner
                  (entry\<lparr>os_metadata := (os_metadata entry)\<lparr>md_phase := Staging\<rparr>,
                         os_writer_fault := None, os_projection_failure := None,
                         os_call_identity := Some identity\<rparr>) state)\<lparr>st_fresh := fresh\<rparr>))"

definition projection_failure ::
    "store_state \<Rightarrow> preparation_owner \<Rightarrow> 'm preparation_failure + (string \<times> preparation_projection_error) option" where
  "projection_failure state owner =
     and_then (verify state owner) (\<lambda>_.
     and_then (check_owner state owner) (\<lambda>entry.
     Inr (map_option (\<lambda>fault. (pf_view fault, pf_error fault)) (os_projection_failure entry))))"

definition current :: "store_state \<Rightarrow> preparation_owner \<Rightarrow> 'm preparation_failure + prepared_plan_handle" where
  "current state owner =
     and_then (verify state owner) (\<lambda>_.
     and_then (check_owner state owner) (\<lambda>entry.
     if \<not> md_ready (os_metadata entry) then Inl (PF_Transport TE_NotReady) else Inr owner))"

text \<open>Disposal only tries the mutex: \<open>locked\<close> says that another thread holds it.\<close>

definition busy :: "owner_state \<Rightarrow> bool" where
  "busy entry \<longleftrightarrow> os_phase entry = Staging \<or> os_active_reads entry \<noteq> 0"

definition dispose_owner :: "bool \<Rightarrow> preparation_owner \<Rightarrow> store_state \<Rightarrow> ('m preparation_failure + unit) \<times> store_state" where
  "dispose_owner locked owner state =
     (case verify state owner of
        Inl e \<Rightarrow> (Inl e, state)
      | Inr _ \<Rightarrow>
          if locked then (Inl PF_Busy, state)
          else case check_owner state owner of
              Inl e \<Rightarrow> (Inl e, state)
            | Inr entry \<Rightarrow>
                if busy entry then (Inl PF_Busy, state)
                else (Inr (), set_entry owner (clear DisposedPhase entry) state))"

definition dispose :: "bool \<Rightarrow> store_state \<Rightarrow> ('m preparation_failure + unit) \<times> store_state" where
  "dispose locked state =
     (if locked then (Inl PF_Busy, state)
      else if list_ex (\<lambda>(_, entry). busy entry) (st_owners state) then (Inl PF_Busy, state)
      else (Inr (), state\<lparr>st_owners := map (\<lambda>(k, entry). (k, clear DisposedPhase entry)) (st_owners state),
                          st_disposed := True\<rparr>))"

section \<open>Projection writers\<close>

definition projection_rejection :: "projection_fault \<Rightarrow> 'm preparation_failure" where
  "projection_rejection fault = PF_ProjectionRejected (pf_view fault) (pf_error fault) (pf_field fault)"

text \<open>The operation runs on the entry; a fault it reports is recorded before the error is returned.\<close>

definition with_entry ::
    "projection_writer \<Rightarrow> (owner_state \<Rightarrow> projection_fault + 'a \<times> owner_state) \<Rightarrow> store_state \<Rightarrow>
     (preparation_projection_error + 'a) \<times> store_state" where
  "with_entry writer operation state =
     (if \<not> st_live state then (Inl PE_AccessDenied, state)
      else case check_owner state (pw_owner writer) :: unit preparation_failure + owner_state of
          Inl _ \<Rightarrow> (Inl PE_AccessDenied, state)
        | Inr entry \<Rightarrow>
            if os_call_identity entry \<noteq> Some (pw_call_identity writer) \<or> os_phase entry \<noteq> Staging
            then (Inl PE_AccessDenied, state)
            else if os_projection_failure entry \<noteq> None \<or> os_writer_fault entry \<noteq> None
            then (Inl PE_PoisonedOutput, state)
            else (case operation entry of
                Inr (value', entry') \<Rightarrow> (Inr value', set_entry (pw_owner writer) entry' state)
              | Inl fault \<Rightarrow>
                  (Inl (pf_error fault),
                   set_entry (pw_owner writer) (entry\<lparr>os_projection_failure := Some fault\<rparr>) state)))"

definition requested_views :: "projection_writer \<Rightarrow> store_state \<Rightarrow> (preparation_projection_error + string list) \<times> store_state" where
  "requested_views writer =
     with_entry writer (\<lambda>entry.
       case os_projection entry of
         Some p \<Rightarrow> Inr (pg_views p, entry)
       | None \<Rightarrow> Inl \<lparr>pf_view = [], pf_error = PE_NotRequested, pf_field = ''requested_views''\<rparr>)"

definition scene_fault :: "preparation_projection_scene \<Rightarrow> preparation_projection_error \<Rightarrow> string \<Rightarrow> projection_fault" where
  "scene_fault scene error field =
     \<lparr>pf_view = scene_view scene, pf_error = error, pf_field = ''scene='' @ scene_id scene @ '' '' @ field\<rparr>"

definition publish_scene ::
    "preparation_owner \<Rightarrow> preparation_projection_scene \<Rightarrow> owner_state \<Rightarrow> projection_fault + unit \<times> owner_state" where
  "publish_scene owner scene entry =
     (case os_projection entry of
        None \<Rightarrow> Inl (scene_fault scene PE_NotRequested ''view'')
      | Some projection \<Rightarrow>
          if scene_view scene = [] then Inl (scene_fault scene PE_InvalidReference ''view'')
          else if scene_view scene \<notin> set (ow_declared_views owner) then Inl (scene_fault scene PE_UndeclaredView ''view'')
          else if scene_view scene \<notin> set (pg_views projection) then Inl (scene_fault scene PE_NotRequested ''view'')
          else if btm_get (pg_scenes projection) (scene_view scene) \<noteq> None then Inl (scene_fault scene PE_DuplicateScene ''view'')
          else if list_ex (\<lambda>(_, p). scene_id (cp_scene p) = scene_id scene) (pg_scenes projection)
          then Inl (scene_fault scene PE_InvalidReference ''scene_id'')
          else and_then (validate_scene scene (md_module_id (os_metadata entry)) (pg_layers projection)) (\<lambda>committed.
               and_then (map_error (\<lambda>e. scene_fault scene e ''staged_bytes'')
                  (checked_add (da_staged_bytes (os_diagnostics entry)) (cp_diagnostic_bytes committed))) (\<lambda>staged.
               and_then (map_error (\<lambda>e. scene_fault scene e ''published_scenes'')
                  (checked_add (da_published_scenes (os_diagnostics entry)) 1)) (\<lambda>count.
               Inr ((), entry\<lparr>os_projection := Some (projection\<lparr>pg_scenes := btm_insert (scene_view scene) committed (pg_scenes projection)\<rparr>),
                     os_diagnostics := (os_diagnostics entry)\<lparr>da_staged_bytes := staged, da_published_scenes := count\<rparr>\<rparr>)))))"

definition publish ::
    "projection_writer \<Rightarrow> preparation_projection_scene \<Rightarrow> store_state \<Rightarrow> (preparation_projection_error + unit) \<times> store_state" where
  "publish writer scene = with_entry writer (publish_scene (pw_owner writer) scene)"

section \<open>Transactions\<close>

definition request_projections ::
    "preparation_owner \<Rightarrow> string list \<Rightarrow> (u32, u32) btree_map \<Rightarrow> store_state \<Rightarrow>
     ('m preparation_failure + unit) \<times> store_state" where
  "request_projections owner views layers state =
     (case and_then (originating_store state owner) (\<lambda>_. check_owner state owner) of
        Inl e \<Rightarrow> (Inl e, state)
      | Inr entry \<Rightarrow>
          if views = [] then (Inr (), state)
          else
            let entry' = entry\<lparr>os_projection := Some \<lparr>pg_views = views, pg_layers = layers, pg_scenes = []\<rparr>\<rparr>
            in case find (\<lambda>view. view \<notin> set (ow_declared_views owner)) views of
                 None \<Rightarrow> (Inr (), set_entry owner entry' state)
               | Some view \<Rightarrow>
                   let fault = \<lparr>pf_view = view, pf_error = PE_UndeclaredView, pf_field = ''requested view''\<rparr>
                   in (Inl (projection_rejection fault),
                       set_entry owner (entry'\<lparr>os_projection_failure := Some fault\<rparr>) state))"

definition new_projection_writer ::
    "preparation_owner \<Rightarrow> store_state \<Rightarrow> preparation_projection_error + projection_writer option" where
  "new_projection_writer owner state =
     (if \<not> st_live state then Inl PE_AccessDenied
      else case check_owner state owner :: unit preparation_failure + owner_state of
          Inl _ \<Rightarrow> Inl PE_AccessDenied
        | Inr entry \<Rightarrow>
           (case os_call_identity entry of
              None \<Rightarrow> Inl PE_AccessDenied
            | Some identity \<Rightarrow>
                Inr (map_option (\<lambda>_. \<lparr>pw_owner = owner, pw_call_identity = identity\<rparr>) (os_projection entry))))"

definition record_writer_fault :: "preparation_owner \<Rightarrow> transport_error \<Rightarrow> store_state \<Rightarrow> store_state" where
  "record_writer_fault owner error state =
     (if \<not> st_live state then state
      else case check_owner state owner :: unit preparation_failure + owner_state of
          Inl _ \<Rightarrow> state
        | Inr entry \<Rightarrow>
            set_entry owner
              (entry\<lparr>os_writer_fault := (case os_writer_fault entry of None \<Rightarrow> Some error | Some e \<Rightarrow> Some e)\<rparr>) state)"

text \<open>The fallible part of \<^verbatim>\<open>put\<close>: every check precedes the insertion.\<close>

definition put_piece :: "string \<Rightarrow> u8 list \<Rightarrow> owner_state \<Rightarrow> transport_error + owner_state" where
  "put_piece name bs entry =
     (if name = [] then Inl TE_InvalidName
      else if btm_get (os_pieces entry) name \<noteq> None then Inl TE_DuplicateName
      else
        let m = os_metadata entry
        in and_then (count_u64 (length bs)) (\<lambda>len.
           and_then (count_u64 (length name)) (\<lambda>name_len.
           and_then (count_u64 (length (os_pieces entry))) (\<lambda>id.
           and_then (add (md_staged_payload_bytes m) len) (\<lambda>payload.
           and_then (add (md_staged_name_bytes m) name_len) (\<lambda>names.
           and_then (add (md_put_calls m) 1) (\<lambda>calls.
           Inr (entry
             \<lparr>os_pieces := btm_insert name \<lparr>pc_id = id, pc_bytes = bs, pc_len = len\<rparr> (os_pieces entry),
              os_metadata := m\<lparr>md_staged_payload_bytes := payload, md_staged_name_bytes := names, md_put_calls := calls\<rparr>\<rparr>))))))))"

definition put :: "preparation_owner \<Rightarrow> string \<Rightarrow> u8 list \<Rightarrow> store_state \<Rightarrow> (transport_error + unit) \<times> store_state" where
  "put owner name bs state =
     (if \<not> st_live state then (Inl TE_AccessDenied, state)
      else case check_owner state owner :: unit preparation_failure + owner_state of
          Inl _ \<Rightarrow> (Inl TE_AccessDenied, state)
        | Inr entry \<Rightarrow>
            if os_writer_fault entry \<noteq> None \<or> os_projection_failure entry \<noteq> None
            then (Inl TE_PoisonedOutput, state)
            else (case put_piece name bs entry of
                Inr entry' \<Rightarrow> (Inr (), set_entry owner entry' state)
              | Inl error \<Rightarrow> (Inl error, set_entry owner (entry\<lparr>os_writer_fault := Some error\<rparr>) state)))"

text \<open>\<^verbatim>\<open>finish\<close> takes the mutex twice.  The first section records the faults of the
  projection and describes the staging; the validator runs without the mutex; the second section
  checks for faults again and publishes.\<close>

definition first_requested_view :: "owner_state \<Rightarrow> string" where
  "first_requested_view entry =
     (case os_projection entry of
        Some p \<Rightarrow> (case pg_views p of v # _ \<Rightarrow> v | [] \<Rightarrow> [])
      | None \<Rightarrow> [])"

definition retained_fault :: "owner_state \<Rightarrow> projection_fault" where
  "retained_fault entry =
     \<lparr>pf_view = first_requested_view entry, pf_error = PE_ArithmeticOverflow, pf_field = ''retained_bytes''\<rparr>"

definition retained_total :: "owner_state \<Rightarrow> preparation_projection_error + u64" where
  "retained_total entry = checked_add (da_retained_bytes (os_diagnostics entry)) (da_staged_bytes (os_diagnostics entry))"

definition missing_scene :: "owner_state \<Rightarrow> projection_fault option" where
  "missing_scene entry =
     (case os_projection entry of
        None \<Rightarrow> None
      | Some p \<Rightarrow>
         (case find (\<lambda>view. btm_get (pg_scenes p) view = None) (pg_views p) of
            None \<Rightarrow> None
          | Some view \<Rightarrow> Some \<lparr>pf_view = view, pf_error = PE_MissingScene, pf_field = ''scene''\<rparr>))"

definition finish_faults :: "owner_state \<Rightarrow> owner_state" where
  "finish_faults entry =
     (let e1 = (if os_projection_failure entry = None \<and> isl (retained_total entry)
                then entry\<lparr>os_projection_failure := Some (retained_fault entry)\<rparr> else entry)
      in if os_projection_failure e1 = None
         then (case missing_scene e1 of None \<Rightarrow> e1 | Some fault \<Rightarrow> e1\<lparr>os_projection_failure := Some fault\<rparr>)
         else e1)"

definition finish_stage ::
    "preparation_owner \<Rightarrow> store_state \<Rightarrow> ('m preparation_failure + staged_preparation) \<times> store_state" where
  "finish_stage owner state =
     (if \<not> st_live state then (Inl PF_Disposed, state)
      else case check_owner state owner of
          Inl e \<Rightarrow> (Inl e, state)
        | Inr entry \<Rightarrow>
            if os_writer_fault entry \<noteq> None then (Inl (PF_Transport TE_PoisonedOutput), state)
            else
              let entry' = finish_faults entry; state' = set_entry owner entry' state
              in case os_projection_failure entry' of
                   Some fault \<Rightarrow> (Inl (projection_rejection fault), state')
                 | None \<Rightarrow> (Inr \<lparr>sp_owner = owner, sp_pieces = piece_lengths (os_pieces entry')\<rparr>, state'))"

definition finish_commit ::
    "preparation_owner \<Rightarrow> staged_preparation \<Rightarrow> store_state \<Rightarrow> ('m preparation_failure + prepared_plan_handle) \<times> store_state" where
  "finish_commit owner staged state =
     (case check_owner state owner of
        Inl e \<Rightarrow> (Inl e, state)
      | Inr entry \<Rightarrow>
          if os_writer_fault entry \<noteq> None then (Inl (PF_Transport TE_PoisonedOutput), state)
          else (case os_projection_failure entry of
              Some fault \<Rightarrow> (Inl (projection_rejection fault), state)
            | None \<Rightarrow>
               (case retained_total entry of
                  Inl error \<Rightarrow>
                    (Inl (projection_rejection (retained_fault entry)),
                     set_entry owner (entry\<lparr>os_projection_failure := Some (retained_fault entry)\<rparr>) state)
                | Inr retained \<Rightarrow>
                    (Inr owner,
                     set_entry owner
                       (entry\<lparr>os_diagnostics := (os_diagnostics entry)\<lparr>da_retained_bytes := retained, da_staged_bytes := 0\<rparr>,
                              os_call_identity := None,
                              os_metadata := (os_metadata entry)
                                \<lparr>md_pieces := sp_pieces staged,
                                 md_retained_payload_bytes := md_staged_payload_bytes (os_metadata entry),
                                 md_retained_name_bytes := md_staged_name_bytes (os_metadata entry),
                                 md_staged_payload_bytes := 0, md_staged_name_bytes := 0,
                                 md_phase := Ready, md_ready := True\<rparr>\<rparr>) state))))"

definition drop_transaction :: "preparation_owner \<Rightarrow> store_state \<Rightarrow> store_state" where
  "drop_transaction owner state =
     (if \<not> st_live state then state
      else case check_owner state owner :: unit preparation_failure + owner_state of
          Inl _ \<Rightarrow> state
        | Inr entry \<Rightarrow> set_entry owner (clear Unready entry) state)"

text \<open>The whole method: any exit but the last one drops the uncompleted transaction.  The validator
  may act on the store.\<close>

definition producer_failed :: "'m preparation_failure + unit \<Rightarrow> bool" where
  "producer_failed result =
     (case result of Inl (PF_Module _) \<Rightarrow> True | Inl (PF_Trap _) \<Rightarrow> True | _ \<Rightarrow> False)"

definition finish_tx ::
    "preparation_owner \<Rightarrow> 'm preparation_failure + unit \<Rightarrow>
     (staged_preparation \<Rightarrow> store_state \<Rightarrow> ('m preparation_failure + unit) \<times> store_state) \<Rightarrow>
     store_state \<Rightarrow> ('m preparation_failure + prepared_plan_handle) \<times> store_state" where
  "finish_tx owner result validate state =
     (case result of
        Inl failure \<Rightarrow>
          if producer_failed result then (Inl failure, drop_transaction owner state)
          else (case finish_stage owner state of
              (Inl e, s) \<Rightarrow> (Inl e, drop_transaction owner s)
            | (Inr _, s) \<Rightarrow> (Inl failure, drop_transaction owner s))
      | Inr _ \<Rightarrow>
         (case finish_stage owner state of
            (Inl e, s) \<Rightarrow> (Inl e, drop_transaction owner s)
          | (Inr staged, s) \<Rightarrow>
             (case validate staged s of
                (Inl e, s') \<Rightarrow> (Inl e, drop_transaction owner s')
              | (Inr _, s') \<Rightarrow>
                 (case finish_commit owner staged s' of
                    (Inl e, s'') \<Rightarrow> (Inl e, drop_transaction owner s'')
                  | (Inr handle, s'') \<Rightarrow> (Inr handle, s'')))))"

section \<open>Published plans\<close>

definition plan_projection ::
    "prepared_plan_handle \<Rightarrow> string \<Rightarrow> store_state \<Rightarrow> preparation_projection_error + committed_preparation_projection option" where
  "plan_projection owner view state =
     (if \<not> st_live state then Inl PE_AccessDenied
      else case check_owner state owner :: unit preparation_failure + owner_state of
          Inl _ \<Rightarrow> Inl PE_AccessDenied
        | Inr entry \<Rightarrow>
            if \<not> md_ready (os_metadata entry) then Inl PE_AccessDenied
            else Inr (Option.bind (os_projection entry) (\<lambda>p. btm_get (pg_scenes p) view)))"

definition plan_open ::
    "prepared_plan_handle \<Rightarrow> string \<Rightarrow> store_state \<Rightarrow> transport_error + prepared_piece_handle option" where
  "plan_open owner name state =
     (if \<not> st_live state then Inl TE_AccessDenied
      else case check_owner state owner :: unit preparation_failure + owner_state of
          Inl _ \<Rightarrow> Inl TE_AccessDenied
        | Inr entry \<Rightarrow>
            if \<not> md_ready (os_metadata entry) then Inl TE_NotReady
            else if name = [] then Inl TE_InvalidName
            else Inr (map_option (\<lambda>piece. \<lparr>ph_owner = owner, ph_id = pc_id piece, ph_len = pc_len piece\<rparr>)
                   (btm_get (os_pieces entry) name)))"

text \<open>The section of \<^verbatim>\<open>read\<close> under the mutex, between the acquisition and the release of its guard.
  The conversions to \<^verbatim>\<open>usize\<close> are total on the 64-bit hosts; \<^verbatim>\<open>get(start..end)\<close> fails past the
  end of the bytes.\<close>

definition read_take :: "piece \<Rightarrow> u64 \<Rightarrow> u64 \<Rightarrow> u64" where
  "read_take piece offset max_bytes = min max_bytes (pc_len piece - offset)"

definition read_range :: "piece \<Rightarrow> u64 \<Rightarrow> u64 \<Rightarrow> transport_error + u8 list" where
  "read_range piece offset max_bytes =
     (if pc_len piece < offset then Inl TE_RangeError
      else
        let n = read_take piece offset max_bytes; start = unat offset; end_pos = start + unat n
        in if 2 ^ 64 \<le> end_pos then Inl TE_ArithmeticOverflow
           else if length (pc_bytes piece) < end_pos then Inl TE_ArithmeticOverflow
           else Inr (take (unat n) (drop start (pc_bytes piece))))"

definition read_locked ::
    "prepared_piece_handle \<Rightarrow> u64 \<Rightarrow> u64 \<Rightarrow> store_state \<Rightarrow> (transport_error + u8 list) \<times> store_state" where
  "read_locked h offset max_bytes state =
     (if \<not> st_live state then (Inl TE_AccessDenied, state)
      else case check_owner state (ph_owner h) :: unit preparation_failure + owner_state of
          Inl _ \<Rightarrow> (Inl TE_AccessDenied, state)
        | Inr entry \<Rightarrow>
            if \<not> md_ready (os_metadata entry) then (Inl TE_NotReady, state)
            else (case find (\<lambda>(_, piece). pc_id piece = ph_id h) (os_pieces entry) of
                None \<Rightarrow> (Inl TE_AccessDenied, state)
              | Some (_, piece) \<Rightarrow>
                  let m = os_metadata entry;
                      r = and_then (read_range piece offset max_bytes) (\<lambda>bounded.
                          and_then (add (md_read_calls m) 1) (\<lambda>calls.
                          and_then (add (md_requested_read_bytes m) max_bytes) (\<lambda>requested.
                          and_then (add (md_returned_read_bytes m) (read_take piece offset max_bytes)) (\<lambda>returned.
                          Inr (bounded, m\<lparr>md_read_calls := calls, md_requested_read_bytes := requested,
                                          md_returned_read_bytes := returned\<rparr>)))))
                  in (case r of
                       Inl e \<Rightarrow> (Inl e, state)
                     | Inr (bounded, m') \<Rightarrow>
                         (Inr bounded, set_entry (ph_owner h) (entry\<lparr>os_metadata := m'\<rparr>) state))))"

text \<open>A whole read; \<open>None\<close> is the panic of the guard's drop.\<close>

definition read_piece ::
    "prepared_piece_handle \<Rightarrow> u64 \<Rightarrow> u64 \<Rightarrow> store_state \<Rightarrow> ((transport_error + u8 list) \<times> store_state) option" where
  "read_piece h offset max_bytes state =
     (case guard_acquire (ph_owner h) state of
        (Inl e, s) \<Rightarrow> Some (Inl e, s)
      | (Inr _, s) \<Rightarrow>
         (case read_locked h offset max_bytes s of
            (r, s') \<Rightarrow> map_option (Pair r) (guard_release (ph_owner h) s')))"

end
