(* ===== verification/PreparationSystem.thy ===== *)
theory PreparationSystem
  imports PreparationStore
begin

text \<open>
  The store of prepared plans under concurrent use.  Every critical section of a method is one step;
  the open transactions and the live read guards, which the ownership rules of Rust track for the
  source, are components of the state.  The invariant relates an owner's counters to its pieces and
  scenes, its phase to the open transactions, and its number of active reads to the live guards.
\<close>

section \<open>Steps\<close>

text \<open>A transaction remembers the staging description once \<^verbatim>\<open>finish\<close> has passed its first section.\<close>

type_synonym open_transaction = "preparation_owner \<times> staged_preparation option"

record prep_system =
  sy_store :: store_state
  sy_txs :: "open_transaction list"
  sy_guards :: "preparation_owner list"

definition prep_init :: "nat \<Rightarrow> prep_system" where
  "prep_init self = \<lparr>sy_store = new_store self, sy_txs = [], sy_guards = []\<rparr>"

text \<open>The operations on an open transaction need the transaction; the other operations may be called
  with any token, writer or handle.  A projection is requested at most once in a transaction, as
  \<^verbatim>\<open>prepare_requested\<close> does.  A failing \<^verbatim>\<open>finish\<close> drops its transaction; a running one keeps the
  store alive.\<close>

inductive prep_step :: "prep_system \<Rightarrow> prep_system \<Rightarrow> bool" where
  create: "st_live (sy_store y) \<Longrightarrow> prep_step y (y\<lparr>sy_store := snd (create_owner b (sy_store y) :: (unit preparation_failure + _) \<times> _)\<rparr>)"
| begin_ok: "st_live (sy_store y) \<Longrightarrow> begin_tx slot ow (sy_store y) = (Inr tx :: unit preparation_failure + _, s') \<Longrightarrow>
    prep_step y (y\<lparr>sy_store := s', sy_txs := (tx, None) # sy_txs y\<rparr>)"
| request: "(tx, None) \<in> set (sy_txs y) \<Longrightarrow>
    \<forall>e. btm_get (st_owners (sy_store y)) (ow_id tx) = Some e \<longrightarrow> os_projection e = None \<Longrightarrow>
    prep_step y (y\<lparr>sy_store := snd (request_projections tx views layers (sy_store y) :: (unit preparation_failure + _) \<times> _)\<rparr>)"
| fault: "(tx, None) \<in> set (sy_txs y) \<Longrightarrow> prep_step y (y\<lparr>sy_store := record_writer_fault tx err (sy_store y)\<rparr>)"
| put: "(tx, None) \<in> set (sy_txs y) \<Longrightarrow> prep_step y (y\<lparr>sy_store := snd (put tx name bs (sy_store y))\<rparr>)"
| stage: "(tx, None) \<in> set (sy_txs y) \<Longrightarrow>
    finish_stage tx (sy_store y) = (Inr staged :: unit preparation_failure + _, s') \<Longrightarrow>
    prep_step y (y\<lparr>sy_store := s', sy_txs := (tx, Some staged) # remove1 (tx, None) (sy_txs y)\<rparr>)"
| stage_error: "(tx, None) \<in> set (sy_txs y) \<Longrightarrow>
    finish_stage tx (sy_store y) = (Inl e :: unit preparation_failure + _, s') \<Longrightarrow>
    prep_step y (y\<lparr>sy_store := drop_transaction tx s', sy_txs := remove1 (tx, None) (sy_txs y)\<rparr>)"
| commit: "(tx, Some staged) \<in> set (sy_txs y) \<Longrightarrow> st_live (sy_store y) \<Longrightarrow>
    finish_commit tx staged (sy_store y) = (Inr h :: unit preparation_failure + _, s') \<Longrightarrow>
    prep_step y (y\<lparr>sy_store := s', sy_txs := remove1 (tx, Some staged) (sy_txs y)\<rparr>)"
| commit_error: "(tx, Some staged) \<in> set (sy_txs y) \<Longrightarrow> st_live (sy_store y) \<Longrightarrow>
    finish_commit tx staged (sy_store y) = (Inl e :: unit preparation_failure + _, s') \<Longrightarrow>
    prep_step y (y\<lparr>sy_store := drop_transaction tx s', sy_txs := remove1 (tx, Some staged) (sy_txs y)\<rparr>)"
| abort: "(tx, st) \<in> set (sy_txs y) \<Longrightarrow>
    prep_step y (y\<lparr>sy_store := drop_transaction tx (sy_store y), sy_txs := remove1 (tx, st) (sy_txs y)\<rparr>)"
| views: "prep_step y (y\<lparr>sy_store := snd (requested_views w (sy_store y))\<rparr>)"
| publish: "prep_step y (y\<lparr>sy_store := snd (publish w scene (sy_store y))\<rparr>)"
| acquire: "guard_acquire ow (sy_store y) = (Inr u, s') \<Longrightarrow>
    prep_step y (y\<lparr>sy_store := s', sy_guards := ow # sy_guards y\<rparr>)"
| release: "ow \<in> set (sy_guards y) \<Longrightarrow> guard_release ow (sy_store y) = Some s' \<Longrightarrow>
    prep_step y (y\<lparr>sy_store := s', sy_guards := remove1 ow (sy_guards y)\<rparr>)"
| bind_thread: "active_guard ow (sy_store y) = (Inr i :: unit preparation_failure + _, s') \<Longrightarrow>
    prep_step y (y\<lparr>sy_store := s', sy_guards := ow # sy_guards y\<rparr>)"
| read: "ph_owner h \<in> set (sy_guards y) \<Longrightarrow> prep_step y (y\<lparr>sy_store := snd (read_locked h off n (sy_store y))\<rparr>)"
| invocation: "prep_step y (y\<lparr>sy_store := snd (record_prepare_invocation ow (sy_store y) :: (unit preparation_failure + _) \<times> _)\<rparr>)"
| fuel: "prep_step y (y\<lparr>sy_store := record_prepare_fuel ow amount (sy_store y)\<rparr>)"
| dispose_one: "st_live (sy_store y) \<Longrightarrow> prep_step y (y\<lparr>sy_store := snd (dispose_owner locked ow (sy_store y) :: (unit preparation_failure + _) \<times> _)\<rparr>)"
| dispose_all: "st_live (sy_store y) \<Longrightarrow> prep_step y (y\<lparr>sy_store := snd (dispose locked (sy_store y) :: (unit preparation_failure + _) \<times> _)\<rparr>)"
| drop_store: "list_all (\<lambda>tx. snd tx = None) (sy_txs y) \<Longrightarrow> prep_step y (y\<lparr>sy_store := (sy_store y)\<lparr>st_live := False\<rparr>\<rparr>)"

inductive prep_reachable :: "nat \<Rightarrow> prep_system \<Rightarrow> bool" for self where
  initial: "prep_reachable self (prep_init self)"
| step: "prep_reachable self y \<Longrightarrow> prep_step y y' \<Longrightarrow> prep_reachable self y'"

section \<open>The invariant of an owner\<close>

definition payload_size :: "(string, piece) btree_map \<Rightarrow> nat" where
  "payload_size pieces = (\<Sum>(name, p) \<leftarrow> pieces. length (pc_bytes p))"

definition names_size :: "(string, piece) btree_map \<Rightarrow> nat" where
  "names_size pieces = (\<Sum>(name, p) \<leftarrow> pieces. length name)"

definition scenes_size :: "projection_staging option \<Rightarrow> nat" where
  "scenes_size p = (case p of None \<Rightarrow> 0 | Some p \<Rightarrow> (\<Sum>(view, c) \<leftarrow> pg_scenes p. unat (cp_diagnostic_bytes c)))"

definition pieces_ok :: "(string, piece) btree_map \<Rightarrow> bool" where
  "pieces_ok pieces \<longleftrightarrow>
     btm_wf pieces \<and> distinct (map (pc_id \<circ> snd) pieces) \<and>
     (\<forall>(name, p) \<in> set pieces. name \<noteq> [] \<and> unat (pc_len p) = length (pc_bytes p) \<and> unat (pc_id p) < length pieces)"

definition projection_ok :: "projection_staging option \<Rightarrow> bool" where
  "projection_ok p \<longleftrightarrow> (case p of None \<Rightarrow> True | Some p \<Rightarrow> btm_wf (pg_scenes p))"

definition idle_ok :: "owner_state \<Rightarrow> bool" where
  "idle_ok e \<longleftrightarrow>
     os_pieces e = [] \<and> os_projection e = None \<and> os_call_identity e = None \<and>
     md_pieces (os_metadata e) = [] \<and>
     md_retained_payload_bytes (os_metadata e) = 0 \<and> md_retained_name_bytes (os_metadata e) = 0 \<and>
     md_staged_payload_bytes (os_metadata e) = 0 \<and> md_staged_name_bytes (os_metadata e) = 0 \<and>
     da_staged_bytes (os_diagnostics e) = 0 \<and> da_retained_bytes (os_diagnostics e) = 0"

definition staging_ok :: "owner_state \<Rightarrow> bool" where
  "staging_ok e \<longleftrightarrow>
     md_pieces (os_metadata e) = [] \<and>
     md_retained_payload_bytes (os_metadata e) = 0 \<and> md_retained_name_bytes (os_metadata e) = 0 \<and>
     unat (md_staged_payload_bytes (os_metadata e)) = payload_size (os_pieces e) \<and>
     unat (md_staged_name_bytes (os_metadata e)) = names_size (os_pieces e) \<and>
     unat (da_staged_bytes (os_diagnostics e)) = scenes_size (os_projection e) \<and>
     da_retained_bytes (os_diagnostics e) = 0"

definition ready_ok :: "owner_state \<Rightarrow> bool" where
  "ready_ok e \<longleftrightarrow>
     os_call_identity e = None \<and> os_writer_fault e = None \<and> os_projection_failure e = None \<and>
     missing_scene e = None \<and>
     md_pieces (os_metadata e) = piece_lengths (os_pieces e) \<and>
     unat (md_retained_payload_bytes (os_metadata e)) = payload_size (os_pieces e) \<and>
     unat (md_retained_name_bytes (os_metadata e)) = names_size (os_pieces e) \<and>
     md_staged_payload_bytes (os_metadata e) = 0 \<and> md_staged_name_bytes (os_metadata e) = 0 \<and>
     unat (da_retained_bytes (os_diagnostics e)) = scenes_size (os_projection e) \<and>
     da_staged_bytes (os_diagnostics e) = 0"

definition entry_inv :: "owner_state \<Rightarrow> bool" where
  "entry_inv e \<longleftrightarrow>
     (md_ready (os_metadata e) \<longleftrightarrow> os_phase e = Ready) \<and>
     pieces_ok (os_pieces e) \<and> projection_ok (os_projection e) \<and>
     (case os_phase e of Unready \<Rightarrow> idle_ok e | Staging \<Rightarrow> staging_ok e | Ready \<Rightarrow> ready_ok e | DisposedPhase \<Rightarrow> idle_ok e)"

section \<open>The invariant of the system\<close>

type_synonym owner_map = "u64 \<Rightarrow> owner_state option"

definition owners_of :: "store_state \<Rightarrow> owner_map" where
  "owners_of s = btm_get (st_owners s)"

definition store_ok :: "store_state \<Rightarrow> bool" where
  "store_ok s \<longleftrightarrow>
     btm_wf (st_owners s) \<and>
     (\<forall>k e. owners_of s k = Some e \<longrightarrow>
        k < st_next_owner s \<and> entry_inv e \<and> (st_disposed s \<longrightarrow> os_phase e = DisposedPhase))"

definition guard_count :: "u64 \<Rightarrow> preparation_owner list \<Rightarrow> nat" where
  "guard_count k gs = length (filter (\<lambda>g. ow_id g = k) gs)"

abbreviation tx_ids :: "open_transaction list \<Rightarrow> u64 list" where
  "tx_ids txs \<equiv> map (ow_id \<circ> fst) txs"

definition tx_ok :: "owner_state \<Rightarrow> open_transaction \<Rightarrow> bool" where
  "tx_ok e tx \<longleftrightarrow>
     os_artifact_identity e = ow_artifact_identity (fst tx) \<and>
     (\<forall>staged. snd tx = Some staged \<longrightarrow> sp_pieces staged = piece_lengths (os_pieces e) \<and> missing_scene e = None)"

definition links :: "owner_map \<Rightarrow> open_transaction list \<Rightarrow> preparation_owner list \<Rightarrow> bool" where
  "links g txs gs \<longleftrightarrow>
     (\<forall>k e. g k = Some e \<longrightarrow>
        (os_phase e = Staging \<longleftrightarrow> k \<in> set (tx_ids txs)) \<and> unat (os_active_reads e) = guard_count k gs) \<and>
     distinct (tx_ids txs) \<and>
     (\<forall>tx \<in> set txs. \<exists>e. g (ow_id (fst tx)) = Some e \<and> tx_ok e tx) \<and>
     (\<forall>o' \<in> set gs. g (ow_id o') \<noteq> None)"

definition sys_inv :: "prep_system \<Rightarrow> bool" where
  "sys_inv y \<longleftrightarrow>
     store_ok (sy_store y) \<and>
     (st_live (sy_store y) \<longrightarrow> links (owners_of (sy_store y)) (sy_txs y) (sy_guards y))"

subsection \<open>Frame lemmas\<close>

lemma owners_of_set_entry [simp]: "owners_of (set_entry ow e s) = (owners_of s)(ow_id ow \<mapsto> e)"
  by (auto simp: owners_of_def set_entry_def)

lemma set_entry_fields [simp]:
  "st_live (set_entry ow e s) = st_live s" "st_disposed (set_entry ow e s) = st_disposed s"
  "st_next_owner (set_entry ow e s) = st_next_owner s" "st_self (set_entry ow e s) = st_self s"
  "st_fresh (set_entry ow e s) = st_fresh s"
  by (simp_all add: set_entry_def)

lemma set_entry_wf [simp]: "btm_wf (st_owners s) \<Longrightarrow> btm_wf (st_owners (set_entry ow e s))"
  by (simp add: set_entry_def)

lemma check_owner_Inr:
  "check_owner s ow = Inr e \<longleftrightarrow>
     owners_of s (ow_id ow) = Some e \<and> os_artifact_identity e = ow_artifact_identity ow \<and>
     \<not> st_disposed s \<and> os_phase e \<noteq> DisposedPhase"
  by (auto simp: check_owner_def owners_of_def split: option.splits)

lemma store_ok_set_entry:
  assumes "store_ok s" and "owners_of s (ow_id ow) = Some e" and "entry_inv e'"
    and "st_disposed s \<Longrightarrow> os_phase e' = DisposedPhase"
  shows "store_ok (set_entry ow e' s)"
  using assms by (auto simp: store_ok_def split: if_splits)

text \<open>The update of one entry together with the transactions and the guards.\<close>

lemma links_update:
  assumes l: "links g txs gs" and k: "g k = Some e"
    and phase: "os_phase e' = Staging \<longleftrightarrow> k \<in> set (tx_ids txs')"
    and reads: "unat (os_active_reads e') = guard_count k gs'"
    and others: "\<And>j. j \<noteq> k \<Longrightarrow> (j \<in> set (tx_ids txs') \<longleftrightarrow> j \<in> set (tx_ids txs)) \<and> guard_count j gs' = guard_count j gs"
    and d: "distinct (tx_ids txs')"
    and txs: "\<And>tx. tx \<in> set txs' \<Longrightarrow> if ow_id (fst tx) = k then tx_ok e' tx else tx \<in> set txs"
    and gs: "\<And>o'. o' \<in> set gs' \<Longrightarrow> ow_id o' = k \<or> o' \<in> set gs"
  shows "links (g(k \<mapsto> e')) txs' gs'"
  unfolding links_def
proof (intro conjI allI impI ballI)
  fix j f assume "(g(k \<mapsto> e')) j = Some f"
  then show "os_phase f = Staging \<longleftrightarrow> j \<in> set (tx_ids txs')" "unat (os_active_reads f) = guard_count j gs'"
    using l phase reads others [of j] by (auto simp: links_def split: if_splits)
next
  show "distinct (tx_ids txs')" by (rule d)
next
  fix tx assume "tx \<in> set txs'"
  then show "\<exists>f. (g(k \<mapsto> e')) (ow_id (fst tx)) = Some f \<and> tx_ok f tx"
    using txs [of tx] l by (auto simp: links_def split: if_splits)
next
  fix o' assume "o' \<in> set gs'"
  then show "(g(k \<mapsto> e')) (ow_id o') \<noteq> None"
    using gs [of o'] l by (auto simp: links_def)
qed

text \<open>An update that changes neither the phase nor the reads nor what a finishing transaction saw.\<close>

definition same_frame :: "owner_state \<Rightarrow> owner_state \<Rightarrow> bool" where
  "same_frame e e' \<longleftrightarrow>
     os_phase e' = os_phase e \<and> os_active_reads e' = os_active_reads e \<and>
     os_artifact_identity e' = os_artifact_identity e"

lemma links_same:
  assumes "links g txs gs" and "g k = Some e" and "same_frame e e'"
    and "\<And>tx. tx \<in> set txs \<Longrightarrow> ow_id (fst tx) = k \<Longrightarrow> tx_ok e tx \<Longrightarrow> tx_ok e' tx"
  shows "links (g(k \<mapsto> e')) txs gs"
proof (rule links_update [OF assms(1,2)])
  show "os_phase e' = Staging \<longleftrightarrow> k \<in> set (tx_ids txs)" "unat (os_active_reads e') = guard_count k gs" "distinct (tx_ids txs)"
    using assms(1-3) by (auto simp: links_def same_frame_def)
  fix tx assume tx: "tx \<in> set txs"
  have "tx_ok e tx" if "ow_id (fst tx) = k" using assms(1,2) tx that by (auto simp: links_def)
  then show "if ow_id (fst tx) = k then tx_ok e' tx else tx \<in> set txs"
    using assms(4) [OF tx] tx by simp
qed auto

lemma sys_inv_same:
  assumes "sys_inv y" and "owners_of (sy_store y) (ow_id ow) = Some e" and "entry_inv e'" and "same_frame e e'"
    and "\<And>tx. tx \<in> set (sy_txs y) \<Longrightarrow> ow_id (fst tx) = ow_id ow \<Longrightarrow> tx_ok e tx \<Longrightarrow> tx_ok e' tx"
  shows "sys_inv (y\<lparr>sy_store := set_entry ow e' (sy_store y)\<rparr>)"
proof -
  have "st_disposed (sy_store y) \<Longrightarrow> os_phase e' = DisposedPhase"
    using assms(1,2,4) by (simp add: sys_inv_def store_ok_def same_frame_def)
  then have "store_ok (set_entry ow e' (sy_store y))"
    using assms(1-3) by (intro store_ok_set_entry) (auto simp: sys_inv_def)
  then show ?thesis
    using assms links_same [of "owners_of (sy_store y)" "sy_txs y" "sy_guards y" "ow_id ow" e e'] by (simp add: sys_inv_def)
qed

lemma open_entry:
  assumes "sys_inv y" and "st_live (sy_store y)" and "tx \<in> set (sy_txs y)"
  obtains e where "owners_of (sy_store y) (ow_id (fst tx)) = Some e" "os_phase e = Staging" "entry_inv e" "staging_ok e"
    "tx_ok e tx" "check_owner (sy_store y) (fst tx) = Inr e"
proof -
  have l: "links (owners_of (sy_store y)) (sy_txs y) (sy_guards y)" and ok: "store_ok (sy_store y)"
    using assms by (auto simp: sys_inv_def)
  then obtain e where e: "owners_of (sy_store y) (ow_id (fst tx)) = Some e" "tx_ok e tx" using assms(3) by (auto simp: links_def)
  have "os_phase e = Staging" using l e(1) assms(3) by (auto simp: links_def)
  moreover from this have "entry_inv e" "\<not> st_disposed (sy_store y)" using ok e(1) by (auto simp: store_ok_def)
  ultimately show thesis using e that by (auto simp: check_owner_Inr tx_ok_def entry_inv_def)
qed

lemma same_txs:
  assumes "sys_inv y" and "st_live (sy_store y)" and "tx \<in> set (sy_txs y)" and "tx' \<in> set (sy_txs y)"
    and "ow_id (fst tx) = ow_id (fst tx')"
  shows "tx = tx'"
proof -
  have "distinct (tx_ids (sy_txs y))" using assms(1,2) by (simp add: sys_inv_def links_def)
  then show ?thesis using assms(3-5) by (auto simp: distinct_map inj_on_def comp_def)
qed

section \<open>Entries\<close>

lemma mset_btm_insert: "btm_get m k = None \<Longrightarrow> mset (btm_insert k v m) = add_mset (k, v) (mset m)"
  by (induction m) (auto simp: btm_get_def split: if_splits)

lemma sum_list_btm_insert:
  fixes f :: "_ \<Rightarrow> 'n :: comm_monoid_add"
  assumes "btm_get m k = None"
  shows "sum_list (map f (btm_insert k v m)) = f (k, v) + sum_list (map f m)"
proof -
  have "sum_list (map f (btm_insert k v m)) = sum_mset (image_mset f (mset (btm_insert k v m)))"
    by (metis mset_map sum_mset_sum_list)
  also have "\<dots> = f (k, v) + sum_mset (image_mset f (mset m))" by (simp add: mset_btm_insert [OF assms])
  also have "sum_mset (image_mset f (mset m)) = sum_list (map f m)" by (metis mset_map sum_mset_sum_list)
  finally show ?thesis .
qed

lemma length_btm_insert: "btm_get m k = None \<Longrightarrow> length (btm_insert k v m) = Suc (length m)"
  by (metis mset_btm_insert size_add_mset size_mset)

lemma set_btm_insert_fresh: "btm_get m k = None \<Longrightarrow> set (btm_insert k v m) = insert (k, v) (set m)"
  by (metis mset_btm_insert set_mset_add_mset_insert set_mset_mset)

lemma entry_inv_clear: "phase = Unready \<or> phase = DisposedPhase \<Longrightarrow> entry_inv (clear phase e)"
  by (auto simp: entry_inv_def clear_def os_phase_def idle_ok_def pieces_ok_def projection_ok_def)

lemma clear_fields [simp]:
  "os_phase (clear phase e) = phase" "os_active_reads (clear phase e) = os_active_reads e"
  "os_artifact_identity (clear phase e) = os_artifact_identity e"
  by (simp_all add: clear_def os_phase_def)

lemma entry_inv_new: "entry_inv (new_entry b)"
  by (simp add: entry_inv_def new_entry_def os_phase_def idle_ok_def pieces_ok_def projection_ok_def)

text \<open>Faults of an open transaction are not part of the accounting.\<close>

lemma entry_inv_faults:
  "os_phase e = Staging \<Longrightarrow> entry_inv e \<Longrightarrow> entry_inv (e\<lparr>os_writer_fault := f\<rparr>)"
  "os_phase e = Staging \<Longrightarrow> entry_inv e \<Longrightarrow> entry_inv (e\<lparr>os_projection_failure := g\<rparr>)"
  by (simp_all add: entry_inv_def os_phase_def staging_ok_def)

lemma same_frame_faults [simp]:
  "same_frame e (e\<lparr>os_writer_fault := f\<rparr>)" "same_frame e (e\<lparr>os_projection_failure := g\<rparr>)"
  by (simp_all add: same_frame_def os_phase_def)

lemma tx_ok_faults [simp]:
  "tx_ok (e\<lparr>os_writer_fault := f\<rparr>) tx = tx_ok e tx" "tx_ok (e\<lparr>os_projection_failure := g\<rparr>) tx = tx_ok e tx"
  by (simp_all add: tx_ok_def missing_scene_def)

lemma pieces_ok_insert:
  assumes ok: "pieces_ok ps" and fresh: "btm_get ps name = None" and "name \<noteq> []" and "length ps < 2 ^ 64" and "length bs < 2 ^ 64"
  shows "pieces_ok (btm_insert name \<lparr>pc_id = of_nat (length ps), pc_bytes = bs, pc_len = of_nat (length bs)\<rparr> ps)"
proof -
  let ?p = "\<lparr>pc_id = of_nat (length ps), pc_bytes = bs, pc_len = of_nat (length bs)\<rparr> :: piece"
  have id: "unat (pc_id ?p) = length ps" and len: "unat (pc_len ?p) = length bs"
    using assms(4,5) by (simp_all add: unat_of_nat)
  have "mset (map (pc_id \<circ> snd) (btm_insert name ?p ps)) = mset (pc_id ?p # map (pc_id \<circ> snd) ps)"
    using mset_btm_insert [OF fresh, of ?p] by simp
  then have d: "distinct (map (pc_id \<circ> snd) (btm_insert name ?p ps)) \<longleftrightarrow> distinct (pc_id ?p # map (pc_id \<circ> snd) ps)"
    by (rule mset_eq_imp_distinct_iff)
  have "pc_id ?p \<notin> set (map (pc_id \<circ> snd) ps)"
  proof
    assume "pc_id ?p \<in> set (map (pc_id \<circ> snd) ps)"
    then obtain n p where "(n, p) \<in> set ps" "pc_id p = pc_id ?p" by auto
    then have "unat (pc_id ?p) < length ps" using ok by (fastforce simp: pieces_ok_def)
    then show False using id by simp
  qed
  then have "distinct (map (pc_id \<circ> snd) (btm_insert name ?p ps))"
    unfolding d using ok by (simp add: pieces_ok_def)
  then show ?thesis
    using ok assms(3) id len unfolding pieces_ok_def set_btm_insert_fresh [OF fresh] length_btm_insert [OF fresh]
    by (auto simp: less_Suc_eq)
qed

lemma put_piece_inv:
  assumes "os_phase e = Staging" and "entry_inv e" and "put_piece name bs e = Inr e'"
  shows "entry_inv e'" and "same_frame e e'"
    and "os_pieces e' = btm_insert name \<lparr>pc_id = of_nat (length (os_pieces e)), pc_bytes = bs, pc_len = of_nat (length bs)\<rparr> (os_pieces e)"
proof -
  let ?m = "os_metadata e"
  let ?p = "\<lparr>pc_id = of_nat (length (os_pieces e)), pc_bytes = bs, pc_len = of_nat (length bs)\<rparr> :: piece"
  obtain payload names calls where ne: "name \<noteq> []" and fresh: "btm_get (os_pieces e) name = None"
    and lens: "length bs < 2 ^ 64" "length name < 2 ^ 64" "length (os_pieces e) < 2 ^ 64"
    and a: "add (md_staged_payload_bytes ?m) (of_nat (length bs)) = Inr payload" "add (md_staged_name_bytes ?m) (of_nat (length name)) = Inr names"
    and e': "e' = e\<lparr>os_pieces := btm_insert name ?p (os_pieces e),
      os_metadata := ?m\<lparr>md_staged_payload_bytes := payload, md_staged_name_bytes := names, md_put_calls := calls\<rparr>\<rparr>"
    using assms(3) by (auto simp: put_piece_def Let_def and_then_Inr_iff count_u64_def checked_u64_Inr split: if_splits)
  have sums: "unat payload = unat (md_staged_payload_bytes ?m) + length bs" "unat names = unat (md_staged_name_bytes ?m) + length name"
    using a lens by (auto simp: add_def unat_of_nat dest!: checked_u64_size)
  have st: "staging_ok e" "pieces_ok (os_pieces e)" "projection_ok (os_projection e)" "\<not> md_ready ?m" "md_phase ?m = Staging"
    using assms(1,2) by (auto simp: entry_inv_def os_phase_def)
  have "pieces_ok (os_pieces e')" using pieces_ok_insert [OF st(2) fresh ne lens(3,1)] by (simp add: e')
  moreover have "staging_ok e'"
    using st(1) sums by (simp add: e' staging_ok_def payload_size_def names_size_def sum_list_btm_insert [OF fresh])
  ultimately show "entry_inv e'" using st by (simp add: e' entry_inv_def os_phase_def)
  show "same_frame e e'" by (simp add: e' same_frame_def os_phase_def)
  show "os_pieces e' = btm_insert name ?p (os_pieces e)" by (simp add: e')
qed

lemma find_case_None: "(case find P xs of None \<Rightarrow> None | Some v \<Rightarrow> Some (f v)) = None \<longleftrightarrow> (\<forall>v \<in> set xs. \<not> P v)"
  by (induction xs) auto

lemma missing_scene_None:
  "missing_scene e = None \<longleftrightarrow>
     (\<forall>p. os_projection e = Some p \<longrightarrow> (\<forall>v \<in> set (pg_views p). btm_get (pg_scenes p) v \<noteq> None))"
  by (cases "os_projection e") (simp_all add: missing_scene_def find_case_None)

lemma publish_scene_inv:
  assumes "os_phase e = Staging" and "entry_inv e" and "publish_scene ow scene e = Inr (u, e')"
  shows "entry_inv e'" and "same_frame e e'" and "os_pieces e' = os_pieces e" and "tx_ok e tx \<Longrightarrow> tx_ok e' tx"
proof -
  obtain p c staged n where p: "os_projection e = Some p" and fresh: "btm_get (pg_scenes p) (scene_view scene) = None"
    and a: "checked_add (da_staged_bytes (os_diagnostics e)) (cp_diagnostic_bytes c) = Inr staged"
    and e': "e' = e\<lparr>os_projection := Some (p\<lparr>pg_scenes := btm_insert (scene_view scene) c (pg_scenes p)\<rparr>),
        os_diagnostics := (os_diagnostics e)\<lparr>da_staged_bytes := staged, da_published_scenes := n\<rparr>\<rparr>"
    using assms(3) by (auto simp: publish_scene_def and_then_Inr_iff split: option.splits if_splits)
  have st: "staging_ok e" "pieces_ok (os_pieces e)" "btm_wf (pg_scenes p)" "\<not> md_ready (os_metadata e)" "md_phase (os_metadata e) = Staging"
    using assms(1,2) by (auto simp: entry_inv_def os_phase_def projection_ok_def p)
  have "unat staged = unat (da_staged_bytes (os_diagnostics e)) + unat (cp_diagnostic_bytes c)"
    using a by (auto simp: checked_add_def dest!: checked_u64_size)
  then have "staging_ok e'"
    using st(1) by (simp add: e' staging_ok_def scenes_size_def p sum_list_btm_insert [OF fresh])
  then show "entry_inv e'" using st by (simp add: e' entry_inv_def os_phase_def projection_ok_def)
  show "same_frame e e'" "os_pieces e' = os_pieces e" by (simp_all add: e' same_frame_def os_phase_def)
  show "tx_ok e' tx" if "tx_ok e tx"
    using that by (auto simp: tx_ok_def e' missing_scene_None p)
qed

lemma finish_faults_shape: "finish_faults e = e\<lparr>os_projection_failure := os_projection_failure (finish_faults e)\<rparr>"
  by (auto simp: finish_faults_def Let_def split: option.splits)

lemma finish_faults_None:
  "os_projection_failure (finish_faults e) = None \<Longrightarrow> finish_faults e = e \<and> missing_scene e = None \<and> \<not> isl (retained_total e)"
  by (auto simp: finish_faults_def Let_def split: option.splits if_splits)

text \<open>Counters that no invariant mentions.\<close>

lemma entry_inv_counters:
  "entry_inv (e\<lparr>os_metadata := (os_metadata e)\<lparr>md_read_calls := a, md_requested_read_bytes := b, md_returned_read_bytes := c\<rparr>\<rparr>) = entry_inv e"
  "entry_inv (e\<lparr>os_metadata := (os_metadata e)\<lparr>md_prepare_invocations := a\<rparr>\<rparr>) = entry_inv e"
  "entry_inv (e\<lparr>os_prepare_fuel := a\<rparr>) = entry_inv e"
  "entry_inv (e\<lparr>os_active_reads := a\<rparr>) = entry_inv e"
  by (cases "md_phase (os_metadata e)"; simp add: entry_inv_def os_phase_def idle_ok_def staging_ok_def ready_ok_def missing_scene_def)+

lemma frame_counters:
  "same_frame e (e\<lparr>os_metadata := (os_metadata e)\<lparr>md_read_calls := a, md_requested_read_bytes := b, md_returned_read_bytes := c\<rparr>\<rparr>)"
  "same_frame e (e\<lparr>os_metadata := (os_metadata e)\<lparr>md_prepare_invocations := a\<rparr>\<rparr>)"
  "same_frame e (e\<lparr>os_prepare_fuel := a\<rparr>)"
  by (simp_all add: same_frame_def os_phase_def)

lemma tx_counters:
  "tx_ok (e\<lparr>os_metadata := m\<rparr>) tx = tx_ok e tx" "tx_ok (e\<lparr>os_prepare_fuel := a\<rparr>) tx = tx_ok e tx"
  "tx_ok (e\<lparr>os_active_reads := b\<rparr>) tx = tx_ok e tx"
  by (simp_all add: tx_ok_def missing_scene_def)

text \<open>What the second section of \<^verbatim>\<open>finish\<close> publishes.\<close>

lemma finish_commit_Inr:
  assumes "finish_commit ow staged s = (Inr h :: 'm preparation_failure + _, s')"
  obtains e e' where "check_owner s ow = (Inr e :: 'm preparation_failure + _)" "s' = set_entry ow e' s"
    "os_writer_fault e = None" "os_projection_failure e = None"
    "retained_total e = Inr (da_retained_bytes (os_diagnostics e'))"
    "e' = e\<lparr>os_diagnostics := (os_diagnostics e)\<lparr>da_retained_bytes := da_retained_bytes (os_diagnostics e'), da_staged_bytes := 0\<rparr>,
         os_call_identity := None,
         os_metadata := (os_metadata e)
           \<lparr>md_pieces := sp_pieces staged,
            md_retained_payload_bytes := md_staged_payload_bytes (os_metadata e),
            md_retained_name_bytes := md_staged_name_bytes (os_metadata e),
            md_staged_payload_bytes := 0, md_staged_name_bytes := 0, md_phase := Ready, md_ready := True\<rparr>\<rparr>"
  using assms
  by (auto simp: finish_commit_def split: sum.splits option.splits if_splits intro!: that)

lemma finish_commit_ready:
  assumes "os_phase e = Staging" and "entry_inv e" and "sp_pieces staged = piece_lengths (os_pieces e)" and "missing_scene e = None"
    and "os_writer_fault e = None" and "os_projection_failure e = None"
    and r: "retained_total e = Inr (da_retained_bytes (os_diagnostics e'))"
    and e': "e' = e\<lparr>os_diagnostics := (os_diagnostics e)\<lparr>da_retained_bytes := da_retained_bytes (os_diagnostics e'), da_staged_bytes := 0\<rparr>,
         os_call_identity := None,
         os_metadata := (os_metadata e)
           \<lparr>md_pieces := sp_pieces staged,
            md_retained_payload_bytes := md_staged_payload_bytes (os_metadata e),
            md_retained_name_bytes := md_staged_name_bytes (os_metadata e),
            md_staged_payload_bytes := 0, md_staged_name_bytes := 0, md_phase := Ready, md_ready := True\<rparr>\<rparr>"
  shows "entry_inv e'" and "os_phase e' = Ready" and "os_pieces e' = os_pieces e" and "os_projection e' = os_projection e"
    and "os_active_reads e' = os_active_reads e" and "os_artifact_identity e' = os_artifact_identity e"
proof -
  have st: "staging_ok e" "pieces_ok (os_pieces e)" "projection_ok (os_projection e)"
    using assms(1,2) by (auto simp: entry_inv_def)
  have "unat (da_retained_bytes (os_diagnostics e')) = scenes_size (os_projection e)"
    using r st(1) by (auto simp: retained_total_def checked_add_def staging_ok_def dest!: checked_u64_size)
  then have "ready_ok e'"
    using st(1) assms(3-6)
    by (subst e') (simp add: ready_ok_def staging_ok_def missing_scene_def)
  moreover show "os_pieces e' = os_pieces e" "os_projection e' = os_projection e" "os_phase e' = Ready"
    "os_active_reads e' = os_active_reads e" "os_artifact_identity e' = os_artifact_identity e"
    by (subst e', simp add: os_phase_def)+
  moreover have "md_ready (os_metadata e')" by (subst e') simp
  ultimately show "entry_inv e'" using st by (simp add: entry_inv_def)
qed

section \<open>Every step keeps the invariant\<close>

lemma sys_inv_store: "sys_inv y \<Longrightarrow> sys_inv (y\<lparr>sy_store := sy_store y\<rparr>)"
  by simp

lemma sys_inv_open_faults:
  assumes "sys_inv y" and "st_live (sy_store y)" and "tx \<in> set (sy_txs y)" and "owners_of (sy_store y) (ow_id (fst tx)) = Some e"
  shows "sys_inv (y\<lparr>sy_store := set_entry (fst tx) (e\<lparr>os_writer_fault := f\<rparr>) (sy_store y)\<rparr>)"
    and "sys_inv (y\<lparr>sy_store := set_entry (fst tx) (e\<lparr>os_projection_failure := g\<rparr>) (sy_store y)\<rparr>)"
proof -
  obtain e' where "owners_of (sy_store y) (ow_id (fst tx)) = Some e'" and st: "os_phase e' = Staging" "entry_inv e'"
    using open_entry [OF assms(1-3)] by metis
  then have st: "os_phase e = Staging" "entry_inv e" using assms(4) by auto
  show "sys_inv (y\<lparr>sy_store := set_entry (fst tx) (e\<lparr>os_writer_fault := f\<rparr>) (sy_store y)\<rparr>)"
    "sys_inv (y\<lparr>sy_store := set_entry (fst tx) (e\<lparr>os_projection_failure := g\<rparr>) (sy_store y)\<rparr>)"
    using entry_inv_faults [OF st] by (auto intro!: sys_inv_same [OF assms(1,4)])
qed

lemma step_create:
  assumes "sys_inv y"
  shows "sys_inv (y\<lparr>sy_store := snd (create_owner b (sy_store y) :: ('m preparation_failure + _) \<times> _)\<rparr>)"
proof (cases "snd (create_owner b (sy_store y) :: ('m preparation_failure + _) \<times> _) = sy_store y")
  case False
  let ?s = "sy_store y"
  obtain nxt where n: "add (st_next_owner ?s) 1 = Inr nxt" and nd: "\<not> st_disposed ?s"
    using False by (auto simp: create_owner_def split: sum.splits if_splits)
  let ?ow = "\<lparr>ow_store = st_self ?s, ow_id = st_next_owner ?s,
      ow_artifact_identity = fb_artifact_identity b, ow_stage_id = fb_stage_id b,
      ow_artifact_kind = fb_artifact_kind b,
      ow_declared_views = (case fb_declaration b of None \<Rightarrow> [] | Some d \<Rightarrow> pd_views d),
      ow_input_reads = (case fb_declaration b of None \<Rightarrow> [] | Some d \<Rightarrow> pd_input_reads d)\<rparr>"
  have s': "snd (create_owner b ?s :: ('m preparation_failure + _) \<times> _) = (set_entry ?ow (new_entry b) ?s)\<lparr>st_next_owner := nxt\<rparr>"
    using n nd by (simp add: create_owner_def Let_def)
  have owners: "owners_of ((set_entry ?ow (new_entry b) ?s)\<lparr>st_next_owner := nxt\<rparr>) = (owners_of ?s)(st_next_owner ?s \<mapsto> new_entry b)"
    using owners_of_set_entry [of ?ow "new_entry b" ?s] by (simp add: owners_of_def)
  have lt: "st_next_owner ?s < nxt" using n by (auto simp: add_def word_less_nat_alt dest!: checked_u64_size)
  have ok: "store_ok ?s" using assms by (simp add: sys_inv_def)
  then have fresh: "owners_of ?s (st_next_owner ?s) = None"
    unfolding store_ok_def by (metis less_irrefl not_None_eq)
  have "store_ok ((set_entry ?ow (new_entry b) ?s)\<lparr>st_next_owner := nxt\<rparr>)"
    using ok lt nd entry_inv_new [of b] unfolding store_ok_def owners by (auto simp: set_entry_def intro: less_trans)
  moreover have "links ((owners_of ?s)(st_next_owner ?s \<mapsto> new_entry b)) (sy_txs y) (sy_guards y)"
    if l: "links (owners_of ?s) (sy_txs y) (sy_guards y)"
  proof -
    have "st_next_owner ?s \<notin> set (tx_ids (sy_txs y))" "guard_count (st_next_owner ?s) (sy_guards y) = 0"
      using l fresh by (auto simp: links_def guard_count_def filter_empty_conv)
    then show ?thesis using l fresh by (auto simp: links_def new_entry_def os_phase_def)
  qed
  ultimately show ?thesis using assms unfolding s' sys_inv_def by (simp add: owners)
qed (simp add: assms)

lemma tx_ids_remove1:
  assumes "distinct (tx_ids txs)" and "tx \<in> set txs"
  shows "set (tx_ids (remove1 tx txs)) = set (tx_ids txs) - {ow_id (fst tx)}" and "distinct (tx_ids (remove1 tx txs))"
proof -
  have d: "distinct txs" "inj_on (ow_id \<circ> fst) (set txs)" using assms(1) by (simp_all add: distinct_map)
  then show "set (tx_ids (remove1 tx txs)) = set (tx_ids txs) - {ow_id (fst tx)}"
    using assms(2) by (auto simp: inj_on_def)
  show "distinct (tx_ids (remove1 tx txs))"
    using d by (auto simp: distinct_map inj_on_def)
qed

lemma remove1_other:
  assumes "distinct (tx_ids txs)" and "tx \<in> set txs" and "t \<in> set (remove1 tx txs)"
  shows "t \<in> set txs" and "ow_id (fst t) \<noteq> ow_id (fst tx)"
proof -
  show "t \<in> set txs" using assms(3) set_remove1_subset by fastforce
  have "ow_id (fst t) \<in> set (tx_ids (remove1 tx txs))" using assms(3) by (simp add: image_iff) blast
  then show "ow_id (fst t) \<noteq> ow_id (fst tx)" unfolding tx_ids_remove1(1) [OF assms(1,2)] by simp
qed

text \<open>A transaction ends: its entry leaves the staging phase.\<close>

lemma end_transaction:
  assumes inv: "sys_inv y" and live: "st_live (sy_store y)" and tx: "tx \<in> set (sy_txs y)"
    and e: "owners_of (sy_store y) (ow_id (fst tx)) = Some e"
    and e': "entry_inv e'" "os_phase e' \<noteq> Staging" "os_active_reads e' = os_active_reads e"
  shows "sys_inv (y\<lparr>sy_store := set_entry (fst tx) e' (sy_store y), sy_txs := remove1 tx (sy_txs y)\<rparr>)"
proof -
  have l: "links (owners_of (sy_store y)) (sy_txs y) (sy_guards y)" and ok: "store_ok (sy_store y)"
    using inv live by (auto simp: sys_inv_def)
  then have d: "distinct (tx_ids (sy_txs y))" by (simp add: links_def)
  note r = tx_ids_remove1 [OF d tx]
  obtain f where "owners_of (sy_store y) (ow_id (fst tx)) = Some f" "os_phase f = Staging" using open_entry [OF inv live tx] by metis
  then have "\<not> st_disposed (sy_store y)" using ok by (auto simp: store_ok_def)
  then have "store_ok (set_entry (fst tx) e' (sy_store y))" using store_ok_set_entry [OF ok e e'(1)] by simp
  moreover have "links ((owners_of (sy_store y))(ow_id (fst tx) \<mapsto> e')) (remove1 tx (sy_txs y)) (sy_guards y)"
  proof (rule links_update [OF l e])
    show "os_phase e' = Staging \<longleftrightarrow> ow_id (fst tx) \<in> set (tx_ids (remove1 tx (sy_txs y)))" using e'(2) r(1) by simp
    show "unat (os_active_reads e') = guard_count (ow_id (fst tx)) (sy_guards y)" using l e e'(3) by (auto simp: links_def)
    show "distinct (tx_ids (remove1 tx (sy_txs y)))" by (rule r(2))
    fix t assume "t \<in> set (remove1 tx (sy_txs y))"
    then show "if ow_id (fst t) = ow_id (fst tx) then tx_ok e' t else t \<in> set (sy_txs y)"
      using remove1_other [OF d tx] by simp
  qed (use r(1) in auto)
  ultimately show ?thesis using live by (simp add: sys_inv_def)
qed

lemma step_drop:
  assumes inv: "sys_inv y" and tx: "tx \<in> set (sy_txs y)"
  shows "sys_inv (y\<lparr>sy_store := drop_transaction (fst tx) (sy_store y), sy_txs := remove1 tx (sy_txs y)\<rparr>)"
proof (cases "st_live (sy_store y)")
  case False
  then show ?thesis using inv by (simp add: drop_transaction_def sys_inv_def)
next
  case True
  obtain e where e: "owners_of (sy_store y) (ow_id (fst tx)) = Some e"
    and c: "check_owner (sy_store y) (fst tx) = (Inr e :: unit preparation_failure + _)"
    using open_entry [OF inv True tx] by metis
  then have d: "drop_transaction (fst tx) (sy_store y) = set_entry (fst tx) (clear Unready e) (sy_store y)"
    using True by (simp add: drop_transaction_def)
  show ?thesis unfolding d by (rule end_transaction [OF inv True tx e]) (simp_all add: entry_inv_clear)
qed

lemma step_begin:
  assumes inv: "sys_inv y" and live: "st_live (sy_store y)"
    and b: "begin_tx slot ow (sy_store y) = (Inr tx :: 'm preparation_failure + _, s')"
  shows "sys_inv (y\<lparr>sy_store := s', sy_txs := (tx, None) # sy_txs y\<rparr>)"
proof -
  let ?s = "sy_store y"
  obtain e i f where c: "check_owner ?s ow = (Inr e :: 'm preparation_failure + _)" and u: "os_phase e = Unready" and tx: "tx = ow"
    and s': "s' = (set_entry ow (e\<lparr>os_metadata := (os_metadata e)\<lparr>md_phase := Staging\<rparr>, os_writer_fault := None,
        os_projection_failure := None, os_call_identity := Some i\<rparr>) ?s)\<lparr>st_fresh := f\<rparr>"
    using b by (auto simp: begin_tx_def and_then_def Let_def split: sum.splits if_splits option.splits)
  let ?e = "e\<lparr>os_metadata := (os_metadata e)\<lparr>md_phase := Staging\<rparr>, os_writer_fault := None,
        os_projection_failure := None, os_call_identity := Some i\<rparr>"
  have e: "owners_of ?s (ow_id ow) = Some e" "\<not> st_disposed ?s" and art: "os_artifact_identity e = ow_artifact_identity ow"
    using c by (simp_all add: check_owner_Inr)
  have ok: "store_ok ?s" and l: "links (owners_of ?s) (sy_txs y) (sy_guards y)" using inv live by (auto simp: sys_inv_def)
  have ei: "entry_inv e" using ok e by (auto simp: store_ok_def)
  then have inv': "entry_inv ?e"
    using u by (auto simp: entry_inv_def os_phase_def idle_ok_def staging_ok_def payload_size_def names_size_def scenes_size_def)
  have owners: "owners_of s' = (owners_of ?s)(ow_id ow \<mapsto> ?e)"
    unfolding s' using owners_of_set_entry [of ow ?e ?s] by (simp add: owners_of_def)
  have "store_ok (set_entry ow ?e ?s)" by (rule store_ok_set_entry [OF ok e(1) inv']) (simp add: e(2))
  then have "store_ok s'" by (simp add: s' store_ok_def owners_of_def)
  moreover have "os_phase e = Staging \<longleftrightarrow> ow_id ow \<in> set (tx_ids (sy_txs y))" using l e(1) unfolding links_def by blast
  then have new: "ow_id ow \<notin> set (tx_ids (sy_txs y))" using u by simp
  have "links ((owners_of ?s)(ow_id ow \<mapsto> ?e)) ((tx, None) # sy_txs y) (sy_guards y)"
  proof (rule links_update [OF l e(1)])
    show "unat (os_active_reads ?e) = guard_count (ow_id ow) (sy_guards y)" using l e(1) by (auto simp: links_def)
    show "distinct (tx_ids ((tx, None) # sy_txs y))" using new l by (simp add: tx links_def)
    fix t assume "t \<in> set ((tx, None) # sy_txs y)"
    then show "if ow_id (fst t) = ow_id ow then tx_ok ?e t else t \<in> set (sy_txs y)"
      using new art by (cases "t = (ow, None)") (auto simp: tx tx_ok_def image_iff)
  qed (auto simp: tx os_phase_def)
  ultimately show ?thesis using live by (simp add: sys_inv_def owners)
qed

lemma step_request:
  assumes inv: "sys_inv y" and tx: "(tx, None) \<in> set (sy_txs y)"
    and first: "\<forall>e. btm_get (st_owners (sy_store y)) (ow_id tx) = Some e \<longrightarrow> os_projection e = None"
  shows "sys_inv (y\<lparr>sy_store := snd (request_projections tx views layers (sy_store y) :: ('m preparation_failure + _) \<times> _)\<rparr>)"
proof (cases "st_live (sy_store y) \<and> views \<noteq> []")
  case False
  then have "snd (request_projections tx views layers (sy_store y) :: ('m preparation_failure + _) \<times> _) = sy_store y"
    by (auto simp: request_projections_def originating_store_def and_then_def split: sum.splits)
  then show ?thesis using inv by simp
next
  case True
  obtain e where e: "owners_of (sy_store y) (ow_id tx) = Some e" "os_phase e = Staging" "entry_inv e"
    and c: "check_owner (sy_store y) tx = (Inr e :: 'm preparation_failure + _)"
    using open_entry [OF inv conjunct1 [OF True] tx] by (metis check_owner_Inr fst_conv)
  have none: "os_projection e = None" using first e(1) by (simp add: owners_of_def)
  let ?p = "\<lparr>pg_views = views, pg_layers = layers, pg_scenes = []\<rparr>"
  have staged: "entry_inv (e\<lparr>os_projection := Some ?p, os_projection_failure := f\<rparr>)" for f
    using e(2,3) none by (simp add: entry_inv_def os_phase_def staging_ok_def projection_ok_def scenes_size_def)
  have "\<exists>f. snd (request_projections tx views layers (sy_store y) :: ('m preparation_failure + _) \<times> _) =
      set_entry tx (e\<lparr>os_projection := Some ?p, os_projection_failure := f\<rparr>) (sy_store y)"
  proof (cases "find (\<lambda>view. view \<notin> set (ow_declared_views tx)) views")
    case None
    then show ?thesis using True c
      by (intro exI [of _ "os_projection_failure e"]) (simp add: request_projections_def originating_store_def Let_def)
  next
    case (Some view)
    then show ?thesis using True c by (auto simp: request_projections_def originating_store_def Let_def)
  qed
  then obtain f where s': "snd (request_projections tx views layers (sy_store y) :: ('m preparation_failure + _) \<times> _) =
      set_entry tx (e\<lparr>os_projection := Some ?p, os_projection_failure := f\<rparr>) (sy_store y)" ..
  show ?thesis unfolding s'
  proof (rule sys_inv_same [OF inv e(1) staged])
    show "same_frame e (e\<lparr>os_projection := Some ?p, os_projection_failure := f\<rparr>)" by (simp add: same_frame_def os_phase_def)
    fix t assume "t \<in> set (sy_txs y)" "ow_id (fst t) = ow_id tx" "tx_ok e t"
    then show "tx_ok (e\<lparr>os_projection := Some ?p, os_projection_failure := f\<rparr>) t"
      using same_txs [OF inv conjunct1 [OF True] tx, of t] by (auto simp: tx_ok_def)
  qed
qed

lemma step_fault:
  assumes inv: "sys_inv y" and tx: "(tx, None) \<in> set (sy_txs y)"
  shows "sys_inv (y\<lparr>sy_store := record_writer_fault tx err (sy_store y)\<rparr>)"
proof (cases "st_live (sy_store y)")
  case True
  obtain e where e: "owners_of (sy_store y) (ow_id tx) = Some e"
    and c: "check_owner (sy_store y) tx = (Inr e :: unit preparation_failure + _)"
    using open_entry [OF inv True tx] by (metis fst_conv)
  show ?thesis using sys_inv_open_faults(1) [OF inv True tx] e c True by (simp add: record_writer_fault_def)
qed (simp add: record_writer_fault_def inv)

lemma step_put:
  assumes inv: "sys_inv y" and tx: "(tx, None) \<in> set (sy_txs y)"
  shows "sys_inv (y\<lparr>sy_store := snd (put tx name bs (sy_store y))\<rparr>)"
proof (cases "st_live (sy_store y)")
  case True
  obtain e where e: "owners_of (sy_store y) (ow_id tx) = Some e" "os_phase e = Staging" "entry_inv e"
    and c: "check_owner (sy_store y) tx = (Inr e :: unit preparation_failure + _)"
    using open_entry [OF inv True tx] by (metis check_owner_Inr fst_conv)
  show ?thesis
  proof (cases "put_piece name bs e")
    case (Inl err)
    then show ?thesis using sys_inv_open_faults(1) [OF inv True tx] e(1) c True inv by (simp add: put_def)
  next
    case (Inr e')
    have t: "tx_ok e' t" if "t \<in> set (sy_txs y)" "ow_id (fst t) = ow_id tx" "tx_ok e t" for t
      using that same_txs [OF inv True tx, of t] put_piece_inv(2) [OF e(2,3) Inr] by (auto simp: tx_ok_def same_frame_def)
    show ?thesis
      using sys_inv_same [OF inv e(1) put_piece_inv(1,2) [OF e(2,3) Inr] t] Inr c True inv by (simp add: put_def)
  qed
qed (simp add: put_def inv)

lemma finish_stage_live:
  assumes inv: "sys_inv y" and tx: "(tx, None) \<in> set (sy_txs y)"
    and f: "finish_stage tx (sy_store y) = (r :: 'm preparation_failure + _, s')"
  shows "sys_inv (y\<lparr>sy_store := s'\<rparr>)"
proof (cases "s' = sy_store y")
  case False
  then have live: "st_live (sy_store y)" using f by (auto simp: finish_stage_def split: if_splits)
  obtain e where e: "owners_of (sy_store y) (ow_id tx) = Some e"
    and c: "check_owner (sy_store y) tx = (Inr e :: 'm preparation_failure + _)"
    using open_entry [OF inv live tx] by (metis check_owner_Inr fst_conv)
  have s': "s' = set_entry tx (finish_faults e) (sy_store y)"
    using f False live c by (auto simp: finish_stage_def Let_def split: if_splits option.splits)
  show ?thesis
    unfolding s' using sys_inv_open_faults(2) [OF inv live tx, of e "os_projection_failure (finish_faults e)"] e
    by (simp flip: finish_faults_shape)
qed (simp add: inv)

lemma step_stage:
  assumes inv: "sys_inv y" and tx: "(tx, None) \<in> set (sy_txs y)"
    and f: "finish_stage tx (sy_store y) = (Inr staged :: 'm preparation_failure + _, s')"
  shows "sys_inv (y\<lparr>sy_store := s', sy_txs := (tx, Some staged) # remove1 (tx, None) (sy_txs y)\<rparr>)"
proof -
  let ?txs = "(tx, Some staged) # remove1 (tx, None) (sy_txs y)"
  have live: "st_live (sy_store y)" using f by (auto simp: finish_stage_def split: if_splits)
  obtain e where e: "owners_of (sy_store y) (ow_id tx) = Some e" "os_phase e = Staging"
    and tok: "tx_ok e (tx, None)" and c: "check_owner (sy_store y) tx = (Inr e :: 'm preparation_failure + _)"
    using open_entry [OF inv live tx] by (metis check_owner_Inr fst_conv)
  have n: "os_projection_failure (finish_faults e) = None" and s': "s' = set_entry tx (finish_faults e) (sy_store y)"
    and st: "sp_pieces staged = piece_lengths (os_pieces (finish_faults e))"
    using f live c by (auto simp: finish_stage_def Let_def split: if_splits option.splits)
  have same: "finish_faults e = e" "missing_scene e = None" using finish_faults_None [OF n] by auto
  have l: "links (owners_of (sy_store y)) (sy_txs y) (sy_guards y)" using inv live by (simp add: sys_inv_def)
  then have d: "distinct (tx_ids (sy_txs y))" by (simp add: links_def)
  note r = tx_ids_remove1 [OF d tx, simplified]
  have "links ((owners_of (sy_store y))(ow_id tx \<mapsto> e)) ?txs (sy_guards y)"
  proof (rule links_update [OF l e(1)])
    show "os_phase e = Staging \<longleftrightarrow> ow_id tx \<in> set (tx_ids ?txs)" using e(2) by simp
    show "unat (os_active_reads e) = guard_count (ow_id tx) (sy_guards y)" using l e(1) by (auto simp: links_def)
    show "distinct (tx_ids ?txs)" using r by simp
    fix t assume "t \<in> set ?txs"
    then consider "t = (tx, Some staged)" | "t \<in> set (sy_txs y)" "ow_id (fst t) \<noteq> ow_id tx"
      using remove1_other [OF d tx, of t] by auto
    then show "if ow_id (fst t) = ow_id tx then tx_ok e t else t \<in> set (sy_txs y)"
      using tok st same by cases (auto simp: tx_ok_def)
  qed (use r(1) in auto)
  moreover have "store_ok s'" "st_live s'" "owners_of s' = (owners_of (sy_store y))(ow_id tx \<mapsto> e)"
    using finish_stage_live [OF inv tx f] live by (simp_all add: sys_inv_def s' same)
  ultimately show ?thesis by (simp add: sys_inv_def)
qed

lemma step_stage_error:
  assumes "sys_inv y" and "(tx, None) \<in> set (sy_txs y)" and "finish_stage tx (sy_store y) = (r :: 'm preparation_failure + _, s')"
  shows "sys_inv (y\<lparr>sy_store := drop_transaction tx s', sy_txs := remove1 (tx, None) (sy_txs y)\<rparr>)"
  using step_drop [OF finish_stage_live [OF assms], of "(tx, None)"] assms(2) by simp

lemma step_commit:
  assumes inv: "sys_inv y" and tx: "(tx, Some staged) \<in> set (sy_txs y)" and live: "st_live (sy_store y)"
    and f: "finish_commit tx staged (sy_store y) = (Inr h :: 'm preparation_failure + _, s')"
  shows "sys_inv (y\<lparr>sy_store := s', sy_txs := remove1 (tx, Some staged) (sy_txs y)\<rparr>)"
proof -
  obtain e where e: "owners_of (sy_store y) (ow_id tx) = Some e" "os_phase e = Staging" "entry_inv e"
    and tok: "tx_ok e (tx, Some staged)" and c: "check_owner (sy_store y) tx = (Inr e :: 'm preparation_failure + _)"
    using open_entry [OF inv live tx] by (metis check_owner_Inr fst_conv)
  show ?thesis
  proof (rule finish_commit_Inr [OF f])
    fix d d' assume "check_owner (sy_store y) tx = (Inr d :: 'm preparation_failure + _)" and s': "s' = set_entry tx d' (sy_store y)"
      and rest: "os_writer_fault d = None" "os_projection_failure d = None"
        "retained_total d = Inr (da_retained_bytes (os_diagnostics d'))"
        "d' = d\<lparr>os_diagnostics := (os_diagnostics d)\<lparr>da_retained_bytes := da_retained_bytes (os_diagnostics d'), da_staged_bytes := 0\<rparr>,
         os_call_identity := None,
         os_metadata := (os_metadata d)
           \<lparr>md_pieces := sp_pieces staged,
            md_retained_payload_bytes := md_staged_payload_bytes (os_metadata d),
            md_retained_name_bytes := md_staged_name_bytes (os_metadata d),
            md_staged_payload_bytes := 0, md_staged_name_bytes := 0, md_phase := Ready, md_ready := True\<rparr>\<rparr>"
    then have "d = e" using c by simp
    note ready = finish_commit_ready [OF e(2,3) _ _ rest [unfolded this]]
    have "entry_inv d'" "os_phase d' = Ready" "os_active_reads d' = os_active_reads e"
      using ready tok by (simp_all add: tx_ok_def)
    then show ?thesis
      using end_transaction [OF inv live tx, of e d'] e(1) s' by simp
  qed
qed

lemma commit_error_inv:
  assumes inv: "sys_inv y" and tx: "(tx, Some staged) \<in> set (sy_txs y)" and live: "st_live (sy_store y)"
    and f: "finish_commit tx staged (sy_store y) = (Inl err :: 'm preparation_failure + _, s')"
  shows "sys_inv (y\<lparr>sy_store := s'\<rparr>)"
proof -
  obtain e where e: "owners_of (sy_store y) (ow_id tx) = Some e"
    and c: "check_owner (sy_store y) tx = (Inr e :: 'm preparation_failure + _)"
    using open_entry [OF inv live tx] by (metis check_owner_Inr fst_conv)
  have "s' = sy_store y \<or> s' = set_entry tx (e\<lparr>os_projection_failure := Some (retained_fault e)\<rparr>) (sy_store y)"
    using f c by (auto simp: finish_commit_def split: sum.splits option.splits if_splits)
  then show ?thesis using sys_inv_open_faults(2) [OF inv live tx] e inv by auto
qed

lemma step_commit_error:
  assumes "sys_inv y" and "(tx, Some staged) \<in> set (sy_txs y)" and "st_live (sy_store y)"
    and "finish_commit tx staged (sy_store y) = (Inl err :: 'm preparation_failure + _, s')"
  shows "sys_inv (y\<lparr>sy_store := drop_transaction tx s', sy_txs := remove1 (tx, Some staged) (sy_txs y)\<rparr>)"
  using step_drop [OF commit_error_inv [OF assms], of "(tx, Some staged)"] assms(2) by simp

lemma step_with_entry:
  assumes inv: "sys_inv y"
    and op: "\<And>e u e'. os_phase e = Staging \<Longrightarrow> entry_inv e \<Longrightarrow> operation e = Inr (u, e') \<Longrightarrow>
      entry_inv e' \<and> same_frame e e' \<and> (\<forall>tx. tx_ok e tx \<longrightarrow> tx_ok e' tx)"
  shows "sys_inv (y\<lparr>sy_store := snd (with_entry w operation (sy_store y))\<rparr>)"
proof (cases "snd (with_entry w operation (sy_store y)) = sy_store y")
  case False
  then obtain e where c: "check_owner (sy_store y) (pw_owner w) = (Inr e :: unit preparation_failure + _)" and st: "os_phase e = Staging"
    by (auto simp: with_entry_def split: if_splits sum.splits)
  then have e: "owners_of (sy_store y) (ow_id (pw_owner w)) = Some e" by (simp add: check_owner_Inr)
  then have ei: "entry_inv e" using inv by (auto simp: sys_inv_def store_ok_def)
  show ?thesis
  proof (cases "operation e")
    case (Inl fault)
    then have "snd (with_entry w operation (sy_store y)) = set_entry (pw_owner w) (e\<lparr>os_projection_failure := Some fault\<rparr>) (sy_store y)"
      using False c by (auto simp: with_entry_def split: if_splits)
    then show ?thesis using entry_inv_faults(2) [OF st ei] by (auto intro!: sys_inv_same [OF inv e])
  next
    case (Inr r)
    obtain u e' where "r = (u, e')" by (cases r)
    then have "operation e = Inr (u, e')" and s': "snd (with_entry w operation (sy_store y)) = set_entry (pw_owner w) e' (sy_store y)"
      using Inr False c by (auto simp: with_entry_def split: if_splits)
    then show ?thesis using op [OF st ei] by (auto intro!: sys_inv_same [OF inv e])
  qed
qed (simp add: inv)

lemma step_views: "sys_inv y \<Longrightarrow> sys_inv (y\<lparr>sy_store := snd (requested_views w (sy_store y))\<rparr>)"
  unfolding requested_views_def
  by (rule step_with_entry) (auto simp: same_frame_def split: option.splits)

lemma step_publish: "sys_inv y \<Longrightarrow> sys_inv (y\<lparr>sy_store := snd (publish w scene (sy_store y))\<rparr>)"
  unfolding publish_def
  by (rule step_with_entry) (auto dest: publish_scene_inv)

lemma guard_count_Cons [simp]: "guard_count k (o' # gs) = (if ow_id o' = k then 1 else 0) + guard_count k gs"
  by (simp add: guard_count_def)

lemma guard_count_remove1: "o' \<in> set gs \<Longrightarrow> guard_count k gs = (if ow_id o' = k then 1 else 0) + guard_count k (remove1 o' gs)"
  by (induction gs) auto

lemma step_guards:
  assumes inv: "sys_inv y" and live: "st_live (sy_store y)" and e: "owners_of (sy_store y) (ow_id ow) = Some e"
    and n: "unat n = guard_count (ow_id ow) gs'"
    and others: "\<And>k. k \<noteq> ow_id ow \<Longrightarrow> guard_count k gs' = guard_count k (sy_guards y)"
    and sub: "\<And>o'. o' \<in> set gs' \<Longrightarrow> ow_id o' = ow_id ow \<or> o' \<in> set (sy_guards y)"
  shows "sys_inv (y\<lparr>sy_store := set_entry ow (e\<lparr>os_active_reads := n\<rparr>) (sy_store y), sy_guards := gs'\<rparr>)"
proof -
  have l: "links (owners_of (sy_store y)) (sy_txs y) (sy_guards y)" and ok: "store_ok (sy_store y)"
    using inv live by (auto simp: sys_inv_def)
  have ei: "entry_inv e" "st_disposed (sy_store y) \<Longrightarrow> os_phase e = DisposedPhase" using ok e by (auto simp: store_ok_def)
  have "store_ok (set_entry ow (e\<lparr>os_active_reads := n\<rparr>) (sy_store y))"
    using ei by (intro store_ok_set_entry [OF ok e]) (simp_all add: entry_inv_counters os_phase_def)
  moreover have "links ((owners_of (sy_store y))(ow_id ow \<mapsto> e\<lparr>os_active_reads := n\<rparr>)) (sy_txs y) gs'"
  proof (rule links_update [OF l e])
    show "os_phase (e\<lparr>os_active_reads := n\<rparr>) = Staging \<longleftrightarrow> ow_id ow \<in> set (tx_ids (sy_txs y))"
      using l e by (simp add: links_def os_phase_def)
    show "distinct (tx_ids (sy_txs y))" using l by (simp add: links_def)
    fix t assume "t \<in> set (sy_txs y)"
    then show "if ow_id (fst t) = ow_id ow then tx_ok (e\<lparr>os_active_reads := n\<rparr>) t else t \<in> set (sy_txs y)"
      using l e by (force simp: links_def tx_counters)
  qed (use n others sub in auto)
  ultimately show ?thesis by (simp add: sys_inv_def)
qed

lemma guard_acquire_Inr:
  assumes "guard_acquire ow s = (Inr u, s')"
  obtains e n where "st_live s" "check_owner s ow = (Inr e :: 'm preparation_failure + _)"
    "unat n = unat (os_active_reads e) + 1" "s' = set_entry ow (e\<lparr>os_active_reads := n\<rparr>) s"
  using assms
  by (auto simp: guard_acquire_def add_def check_owner_Inr split: if_splits sum.splits dest!: checked_u64_size intro!: that)

lemma step_acquire:
  assumes inv: "sys_inv y" and g: "guard_acquire ow (sy_store y) = (Inr u, s')"
  shows "sys_inv (y\<lparr>sy_store := s', sy_guards := ow # sy_guards y\<rparr>)"
proof (rule guard_acquire_Inr [OF g, where 'm = unit])
  fix e n assume live: "st_live (sy_store y)" and "check_owner (sy_store y) ow = (Inr e :: unit preparation_failure + _)"
    and n: "unat n = unat (os_active_reads e) + 1" and s': "s' = set_entry ow (e\<lparr>os_active_reads := n\<rparr>) (sy_store y)"
  then have e: "owners_of (sy_store y) (ow_id ow) = Some e" by (simp add: check_owner_Inr)
  moreover have "unat (os_active_reads e) = guard_count (ow_id ow) (sy_guards y)"
    using inv live e by (auto simp: sys_inv_def links_def)
  ultimately show ?thesis unfolding s' using n by (intro step_guards [OF inv live e]) auto
qed

text \<open>A live guard is counted, so dropping it never underflows.\<close>

lemma guard_release_total:
  assumes inv: "sys_inv y" and g: "ow \<in> set (sy_guards y)"
  shows "\<exists>s'. guard_release ow (sy_store y) = Some s' \<and>
     sys_inv (y\<lparr>sy_store := s', sy_guards := remove1 ow (sy_guards y)\<rparr>)"
proof (cases "st_live (sy_store y)")
  case False
  then show ?thesis using inv by (simp add: guard_release_def sys_inv_def)
next
  case True
  then obtain e where e: "owners_of (sy_store y) (ow_id ow) = Some e"
    and c: "unat (os_active_reads e) = guard_count (ow_id ow) (sy_guards y)"
    using inv g by (auto simp: sys_inv_def links_def)
  have n: "unat (os_active_reads e) = Suc (guard_count (ow_id ow) (remove1 ow (sy_guards y)))"
    using c guard_count_remove1 [OF g, of "ow_id ow"] by simp
  then have nz: "os_active_reads e \<noteq> 0" by auto
  then have "unat (os_active_reads e - 1) = guard_count (ow_id ow) (remove1 ow (sy_guards y))"
    using n by (simp add: unat_minus_one)
  then have "sys_inv (y\<lparr>sy_store := set_entry ow (e\<lparr>os_active_reads := os_active_reads e - 1\<rparr>) (sy_store y), sy_guards := remove1 ow (sy_guards y)\<rparr>)"
    by (intro step_guards [OF inv True e]) (use guard_count_remove1 [OF g] set_remove1_subset [of ow "sy_guards y"] in auto)
  then show ?thesis using True e nz by (auto simp: guard_release_def owners_of_def)
qed

lemma step_fresh: "sys_inv y \<Longrightarrow> sys_inv (y\<lparr>sy_store := (sy_store y)\<lparr>st_fresh := f\<rparr>\<rparr>)"
  by (simp add: sys_inv_def store_ok_def owners_of_def)

lemma step_bind:
  assumes inv: "sys_inv y" and g: "active_guard ow (sy_store y) = (Inr i :: 'm preparation_failure + _, s')"
  shows "sys_inv (y\<lparr>sy_store := s', sy_guards := ow # sy_guards y\<rparr>)"
proof -
  obtain s f where "guard_acquire ow (sy_store y) = (Inr (), s)" "s' = s\<lparr>st_fresh := f\<rparr>"
    using g by (auto simp: active_guard_def split: sum.splits prod.splits)
  then show ?thesis using step_fresh [OF step_acquire [OF inv], of ow "()" s f] by (simp add: sys_inv_def)
qed

lemma step_read:
  assumes inv: "sys_inv y"
  shows "sys_inv (y\<lparr>sy_store := snd (read_locked h off n (sy_store y))\<rparr>)"
proof (cases "snd (read_locked h off n (sy_store y)) = sy_store y")
  case False
  then obtain e a b c where ce: "check_owner (sy_store y) (ph_owner h) = (Inr e :: unit preparation_failure + _)"
    and s': "snd (read_locked h off n (sy_store y)) = set_entry (ph_owner h)
      (e\<lparr>os_metadata := (os_metadata e)\<lparr>md_read_calls := a, md_requested_read_bytes := b, md_returned_read_bytes := c\<rparr>\<rparr>) (sy_store y)"
    by (auto simp: read_locked_def Let_def and_then_Inr_iff split: if_splits sum.splits option.splits)
  then have e: "owners_of (sy_store y) (ow_id (ph_owner h)) = Some e" by (simp add: check_owner_Inr)
  then have "entry_inv e" using inv by (auto simp: sys_inv_def store_ok_def)
  then show ?thesis unfolding s' by (intro sys_inv_same [OF inv e]) (simp_all add: entry_inv_counters frame_counters tx_counters)
qed (simp add: inv)

lemma btm_modify_insert:
  assumes "btm_wf m" and "btm_get m k = Some v"
  shows "btm_modify k f m = btm_insert k (f v) m"
  by (rule btm_wf_ext) (use assms in \<open>auto simp: btm_modify_get\<close>)

lemma btm_modify_absent: "btm_get m k = None \<Longrightarrow> btm_modify k f m = m"
  by (induction m) (auto simp: btm_modify_def btm_get_def split: if_splits)

lemma step_modify:
  fixes ow :: preparation_owner
  assumes inv: "sys_inv y" and f: "\<And>e. entry_inv (f e) = entry_inv e" "\<And>e. same_frame e (f e)" "\<And>e tx. tx_ok (f e) tx = tx_ok e tx"
  shows "sys_inv (y\<lparr>sy_store := (sy_store y)\<lparr>st_owners := btm_modify (ow_id ow) f (st_owners (sy_store y))\<rparr>\<rparr>)"
proof (cases "owners_of (sy_store y) (ow_id ow)")
  case None
  then show ?thesis using inv by (simp add: owners_of_def btm_modify_absent)
next
  case (Some e)
  have wf: "btm_wf (st_owners (sy_store y))" and "entry_inv e" using inv Some by (auto simp: sys_inv_def store_ok_def)
  then have "sys_inv (y\<lparr>sy_store := set_entry ow (f e) (sy_store y)\<rparr>)" using f by (intro sys_inv_same [OF inv Some]) auto
  then show ?thesis using btm_modify_insert [OF wf, of "ow_id ow" e f] Some by (simp add: owners_of_def set_entry_def)
qed

lemma step_invocation:
  assumes "sys_inv y"
  shows "sys_inv (y\<lparr>sy_store := snd (record_prepare_invocation ow (sy_store y) :: ('m preparation_failure + _) \<times> _)\<rparr>)"
  using assms step_modify [OF assms, of "\<lambda>e. e\<lparr>os_metadata := (os_metadata e)\<lparr>md_prepare_invocations := n\<rparr>\<rparr>" ow for n]
  by (auto simp: record_prepare_invocation_def update_metadata_def entry_inv_counters frame_counters tx_counters split: option.splits sum.splits)

lemma step_fuel: "sys_inv y \<Longrightarrow> sys_inv (y\<lparr>sy_store := record_prepare_fuel ow amount (sy_store y)\<rparr>)"
  unfolding record_prepare_fuel_def by (rule step_modify) (simp_all add: entry_inv_counters frame_counters tx_counters)

lemma step_dispose_owner:
  assumes inv: "sys_inv y" and live: "st_live (sy_store y)"
  shows "sys_inv (y\<lparr>sy_store := snd (dispose_owner locked ow (sy_store y) :: ('m preparation_failure + _) \<times> _)\<rparr>)"
proof (cases "snd (dispose_owner locked ow (sy_store y) :: ('m preparation_failure + _) \<times> _) = sy_store y")
  case False
  then obtain e where c: "check_owner (sy_store y) ow = (Inr e :: 'm preparation_failure + _)" and nb: "\<not> busy e"
    and s': "snd (dispose_owner locked ow (sy_store y) :: ('m preparation_failure + _) \<times> _) = set_entry ow (clear DisposedPhase e) (sy_store y)"
    by (auto simp: dispose_owner_def split: if_splits sum.splits)
  have e: "owners_of (sy_store y) (ow_id ow) = Some e" using c by (simp add: check_owner_Inr)
  have l: "links (owners_of (sy_store y)) (sy_txs y) (sy_guards y)" and ok: "store_ok (sy_store y)"
    using inv live by (auto simp: sys_inv_def)
  then have none: "ow_id ow \<notin> set (tx_ids (sy_txs y))" and "unat (os_active_reads e) = guard_count (ow_id ow) (sy_guards y)"
    using e nb unfolding links_def busy_def by (blast, blast)
  then have "links ((owners_of (sy_store y))(ow_id ow \<mapsto> clear DisposedPhase e)) (sy_txs y) (sy_guards y)"
    using l by (intro links_update [OF l e]) (auto simp: links_def image_iff)
  moreover have "store_ok (set_entry ow (clear DisposedPhase e) (sy_store y))"
    by (rule store_ok_set_entry [OF ok e]) (simp_all add: entry_inv_clear)
  ultimately show ?thesis unfolding s' by (simp add: sys_inv_def)
qed (simp add: inv)

lemma dispose_Inr:
  assumes "dispose locked s = (Inr u :: 'm preparation_failure + _, s')" and "btm_wf (st_owners s)"
  shows "\<not> locked" and "owners_of s k = Some e \<Longrightarrow> \<not> busy e"
    and "owners_of s' k = map_option (clear DisposedPhase) (owners_of s k)" and "st_disposed s'"
    and "btm_wf (st_owners s')" and "st_next_owner s' = st_next_owner s" and "st_live s' = st_live s"
proof -
  have nb: "\<not> locked" "\<not> list_ex (\<lambda>(_, entry). busy entry) (st_owners s)"
    and s': "s' = s\<lparr>st_owners := map (\<lambda>(k, entry). (k, clear DisposedPhase entry)) (st_owners s), st_disposed := True\<rparr>"
    using assms(1) by (auto simp: dispose_def split: if_splits)
  show "\<not> locked" "st_disposed s'" "st_next_owner s' = st_next_owner s" "st_live s' = st_live s" using nb s' by auto
  show "\<not> busy e" if "owners_of s k = Some e"
    using nb(2) that assms(2) by (auto simp: owners_of_def btm_get_Some_iff list_ex_iff)
  show "owners_of s' k = map_option (clear DisposedPhase) (owners_of s k)"
    by (simp add: s' owners_of_def btm_get_def map_of_map)
  have "map fst (st_owners s') = map fst (st_owners s)" by (simp add: s' comp_def case_prod_unfold)
  then show "btm_wf (st_owners s')" using assms(2) by (simp add: btm_wf_def)
qed

lemma step_dispose:
  assumes inv: "sys_inv y" and live: "st_live (sy_store y)"
  shows "sys_inv (y\<lparr>sy_store := snd (dispose locked (sy_store y) :: ('m preparation_failure + _) \<times> _)\<rparr>)"
proof (cases "fst (dispose locked (sy_store y) :: ('m preparation_failure + _) \<times> _)")
  case (Inl err)
  then have "snd (dispose locked (sy_store y) :: ('m preparation_failure + _) \<times> _) = sy_store y"
    by (auto simp: dispose_def split: if_splits)
  then show ?thesis using inv by simp
next
  case (Inr u)
  then obtain s' where d: "dispose locked (sy_store y) = (Inr u :: 'm preparation_failure + _, s')" by (metis prod.collapse)
  have l: "links (owners_of (sy_store y)) (sy_txs y) (sy_guards y)" and ok: "store_ok (sy_store y)"
    using inv live by (auto simp: sys_inv_def)
  then have wf: "btm_wf (st_owners (sy_store y))" by (simp add: store_ok_def)
  note r = dispose_Inr [OF d wf]
  have "store_ok s'" using ok r by (auto simp: store_ok_def entry_inv_clear)
  moreover have no: "os_phase e \<noteq> Staging" "os_active_reads e = 0" if "owners_of (sy_store y) k = Some e" for k e
    using r(2) [OF that] by (auto simp: busy_def)
  have "sy_txs y = []"
  proof (rule ccontr)
    assume "sy_txs y \<noteq> []"
    then obtain tx where "tx \<in> set (sy_txs y)" by (cases "sy_txs y") auto
    then show False using open_entry [OF inv live] no(1) by metis
  qed
  then have "links (owners_of s') (sy_txs y) (sy_guards y)"
    using l r(3) by (auto simp: links_def)
  ultimately show ?thesis using d live r(7) by (simp add: sys_inv_def)
qed

lemma sys_inv_step: "prep_step y y' \<Longrightarrow> sys_inv y \<Longrightarrow> sys_inv y'"
proof (induction rule: prep_step.induct)
  case (release ow y s')
  then show ?case using guard_release_total [of y ow] by auto
next
  case (drop_store y)
  then show ?case by (simp add: sys_inv_def store_ok_def owners_of_def)
next
  case (abort tx st y)
  then show ?case using step_drop [of y "(tx, st)"] by simp
qed (simp_all add: step_create step_begin step_request step_fault step_put step_stage step_stage_error step_commit
      step_commit_error step_views step_publish step_acquire step_bind step_read step_invocation step_fuel
      step_dispose_owner step_dispose)

lemma sys_inv_reachable: "prep_reachable self y \<Longrightarrow> sys_inv y"
proof (induction rule: prep_reachable.induct)
  case initial
  show ?case
    by (simp add: prep_init_def sys_inv_def store_ok_def owners_of_def new_store_def links_def)
qed (rule sys_inv_step)

end
