(* ===== verification/PreparedPlans.thy ===== *)
theory PreparedPlans
  imports PreparationSystem
begin

text \<open>
  What the clients of the store of prepared plans rely on: exact accounting, publication of all or
  nothing, immutability of a published plan, reads that return what was written, and disposal that
  waits for every user and revokes every handle.
\<close>

section \<open>Published plans never change\<close>

definition plan_kept :: "owner_state \<Rightarrow> owner_state \<Rightarrow> bool" where
  "plan_kept e e' \<longleftrightarrow>
     (os_phase e = Ready \<longrightarrow> os_phase e' = DisposedPhase \<or>
        (os_phase e' = Ready \<and> os_pieces e' = os_pieces e \<and> os_projection e' = os_projection e)) \<and>
     (os_phase e = DisposedPhase \<longrightarrow> os_phase e' = DisposedPhase)"

definition plans_kept :: "store_state \<Rightarrow> store_state \<Rightarrow> bool" where
  "plans_kept s s' \<longleftrightarrow> (\<forall>k e. owners_of s k = Some e \<longrightarrow> (\<exists>e'. owners_of s' k = Some e' \<and> plan_kept e e'))"

lemma plan_kept_refl [simp]: "plan_kept e e"
  by (simp add: plan_kept_def)

lemma plans_kept_refl [simp]: "plans_kept s s"
  by (auto simp: plans_kept_def)

lemma plan_kept_trans: "plan_kept a b \<Longrightarrow> plan_kept b c \<Longrightarrow> plan_kept a c"
  by (auto simp: plan_kept_def)

lemma plans_kept_trans: "plans_kept a b \<Longrightarrow> plans_kept b c \<Longrightarrow> plans_kept a c"
  unfolding plans_kept_def by (meson plan_kept_trans)

lemma plans_kept_set_entry:
  "owners_of s (ow_id ow) = Some e \<Longrightarrow> plan_kept e e' \<Longrightarrow> plans_kept s (set_entry ow e' s)"
  by (auto simp: plans_kept_def)

lemma plan_kept_open: "os_phase e = Staging \<or> os_phase e = Unready \<Longrightarrow> plan_kept e e'"
  by (auto simp: plan_kept_def)

lemma plans_kept_owners: "owners_of s' = owners_of s \<Longrightarrow> plans_kept s s'"
  by (simp add: plans_kept_def)

lemma plans_kept_modify:
  fixes f :: "owner_state \<Rightarrow> owner_state"
  assumes "\<And>e. plan_kept e (f e)"
  shows "plans_kept s (s\<lparr>st_owners := btm_modify k f (st_owners s)\<rparr>)"
  using assms by (auto simp: plans_kept_def owners_of_def btm_modify_get)

text \<open>Which entry each operation touches.\<close>

lemma open_kept:
  assumes "sys_inv y" and "tx \<in> set (sy_txs y)" and "st_live (sy_store y)"
  shows "plans_kept (sy_store y) (set_entry (fst tx) e' (sy_store y))"
  by (rule open_entry [OF assms(1,3,2)]) (auto intro: plans_kept_set_entry plan_kept_open)

lemma drop_kept:
  assumes "sys_inv y" and "tx \<in> set (sy_txs y)"
  shows "plans_kept (sy_store y) (drop_transaction (fst tx) (sy_store y))"
  using open_kept [OF assms] by (auto simp: drop_transaction_def split: sum.splits)

lemma with_entry_kept: "plans_kept s (snd (with_entry w operation s))"
  by (auto simp: with_entry_def check_owner_Inr split: if_splits sum.splits
      intro!: plans_kept_set_entry plan_kept_open)

lemma finish_stage_kept:
  assumes "sys_inv y" and "(tx, st) \<in> set (sy_txs y)" and "finish_stage tx (sy_store y) = (r :: 'm preparation_failure + _, s')"
  shows "plans_kept (sy_store y) s'"
  using assms(3) open_kept [OF assms(1,2)]
  by (auto simp: finish_stage_def Let_def split: if_splits sum.splits option.splits)

lemma finish_commit_kept:
  assumes "sys_inv y" and "(tx, st) \<in> set (sy_txs y)" and "st_live (sy_store y)"
    and "finish_commit tx staged (sy_store y) = (r :: 'm preparation_failure + _, s')"
  shows "plans_kept (sy_store y) s'"
  using assms(4) open_kept [OF assms(1-3)]
  by (auto simp: finish_commit_def split: if_splits sum.splits option.splits)

lemma guard_kept:
  "guard_acquire ow s = (r, s') \<Longrightarrow> plans_kept s s'"
  "guard_release ow s = Some s' \<Longrightarrow> plans_kept s s'"
  by (auto simp: guard_acquire_def guard_release_def check_owner_Inr owners_of_def plan_kept_def os_phase_def
      split: if_splits sum.splits option.splits intro!: plans_kept_set_entry)

lemma active_guard_kept:
  assumes "active_guard ow s = (r :: 'm preparation_failure + _, s')"
  shows "plans_kept s s'"
proof -
  have "plans_kept s t \<Longrightarrow> plans_kept s (t\<lparr>st_fresh := f\<rparr>)" for t f
    by (simp add: plans_kept_def owners_of_def)
  then show ?thesis
    using assms guard_kept(1) [of ow s] by (auto simp: active_guard_def split: sum.splits prod.splits)
qed

lemma begin_kept:
  assumes "begin_tx slot ow s = (r :: 'm preparation_failure + _, s')"
  shows "plans_kept s s'"
proof -
  have "plans_kept s t \<Longrightarrow> plans_kept s (t\<lparr>st_fresh := f\<rparr>)" for t f
    by (simp add: plans_kept_def owners_of_def)
  then show ?thesis
    using assms by (auto simp: begin_tx_def and_then_def Let_def check_owner_Inr split: sum.splits if_splits option.splits
        intro!: plans_kept_set_entry plan_kept_open)
qed

lemma read_kept: "plans_kept s (snd (read_locked h off n s))"
  by (auto simp: read_locked_def Let_def and_then_Inr_iff check_owner_Inr plan_kept_def os_phase_def
      split: if_splits sum.splits option.splits intro!: plans_kept_set_entry)

lemma dispose_kept:
  "plans_kept s (snd (dispose_owner locked ow s :: ('m preparation_failure + _) \<times> _))"
  "plans_kept s (snd (dispose locked s :: ('m preparation_failure + _) \<times> _))"
proof -
  show "plans_kept s (snd (dispose_owner locked ow s :: ('m preparation_failure + _) \<times> _))"
    by (auto simp: dispose_owner_def check_owner_Inr plan_kept_def split: if_splits sum.splits intro!: plans_kept_set_entry)
  show "plans_kept s (snd (dispose locked s :: ('m preparation_failure + _) \<times> _))"
    by (auto simp: dispose_def plans_kept_def plan_kept_def owners_of_def btm_get_def map_of_map)
qed

lemma create_kept:
  assumes "sys_inv y"
  shows "plans_kept (sy_store y) (snd (create_owner b (sy_store y) :: ('m preparation_failure + _) \<times> _))"
proof -
  have "owners_of (sy_store y) (st_next_owner (sy_store y)) = None"
    using assms unfolding sys_inv_def store_ok_def by (metis less_irrefl not_None_eq)
  then show ?thesis
    by (auto simp: create_owner_def Let_def plans_kept_def owners_of_def set_entry_def split: sum.splits if_splits)
qed

lemma step_kept: "prep_step y y' \<Longrightarrow> sys_inv y \<Longrightarrow> plans_kept (sy_store y) (sy_store y')"
proof (induction rule: prep_step.induct)
  case (request tx y views layers)
  then show ?case using open_kept [of y "(tx, None)"]
    by (auto simp: request_projections_def originating_store_def and_then_def Let_def split: sum.splits option.splits)
next
  case (fault tx y err)
  then show ?case using open_kept [of y "(tx, None)"] by (auto simp: record_writer_fault_def split: sum.splits)
next
  case (put tx y name bs)
  then show ?case using open_kept [of y "(tx, None)"] by (auto simp: put_def split: sum.splits)
next
  case (stage_error tx y e s')
  then show ?case
    using drop_kept [OF finish_stage_live, of y tx "Inl e" s' "(tx, None)"] finish_stage_kept [of y tx None "Inl e" s']
    by (auto intro: plans_kept_trans)
next
  case (commit_error tx staged y e s')
  then show ?case
    using drop_kept [OF commit_error_inv, of y tx staged e s' "(tx, Some staged)"] finish_commit_kept [of y tx "Some staged" staged "Inl e" s']
    by (auto intro: plans_kept_trans)
next
  case (abort tx st y)
  then show ?case using drop_kept [of y "(tx, st)"] by simp
next
  case (invocation y ow)
  then show ?case
    by (auto simp: record_prepare_invocation_def update_metadata_def plan_kept_def os_phase_def
        split: option.splits sum.splits intro!: plans_kept_modify)
next
  case (fuel y ow amount)
  then show ?case by (auto simp: record_prepare_fuel_def plan_kept_def os_phase_def intro!: plans_kept_modify)
next
  case (drop_store y)
  then show ?case by (simp add: plans_kept_def owners_of_def)
qed (auto simp: requested_views_def publish_def
      intro: with_entry_kept finish_stage_kept finish_commit_kept guard_kept active_guard_kept begin_kept read_kept
        dispose_kept create_kept)

section \<open>Reading\<close>

lemma read_range_take:
  assumes "unat (pc_len p) = length (pc_bytes p)" and "off \<le> pc_len p"
  shows "read_range p off n = Inr (take (unat n) (drop (unat off) (pc_bytes p)))"
proof -
  have le: "unat off \<le> unat (pc_len p)" using assms(2) by (simp add: word_le_nat_alt)
  have sub: "unat (pc_len p - off) = unat (pc_len p) - unat off" using assms(2) by (simp add: unat_sub)
  have t: "unat (read_take p off n) = min (unat n) (unat (pc_len p) - unat off)"
    by (auto simp: read_take_def min_def sub word_le_nat_alt)
  have "unat off + unat (read_take p off n) \<le> length (pc_bytes p)" using le assms(1) by (simp add: t)
  moreover have "length (pc_bytes p) < 2 ^ 64" using unsigned_less [of "pc_len p", where 'a = nat] assms(1) by simp
  moreover have "take (unat (read_take p off n)) (drop (unat off) (pc_bytes p)) = take (unat n) (drop (unat off) (pc_bytes p))"
    by (cases "unat n \<le> length (pc_bytes p) - unat off") (simp_all add: t assms(1) min_def)
  ultimately show ?thesis using assms(2) by (simp add: read_range_def Let_def not_le not_less)
qed

lemma read_range_past: "pc_len p < off \<Longrightarrow> read_range p off n = Inl TE_RangeError"
  by (simp add: read_range_def)

lemma find_only:
  assumes "x \<in> set xs" and "P x" and only: "\<forall>y \<in> set xs. P y \<longrightarrow> y = x"
  shows "find P xs = Some x"
proof -
  have "find P xs \<noteq> None" using assms(1,2) by (auto simp: find_None_iff)
  then obtain y where "find P xs = Some y" by blast
  then show ?thesis using only by (auto simp: find_Some_iff)
qed

lemma guard_release_counted:
  "owners_of s (ow_id ow) = Some e \<Longrightarrow> os_active_reads e \<noteq> 0 \<Longrightarrow> \<exists>s'. guard_release ow s = Some s'"
  by (simp add: guard_release_def owners_of_def)

lemma find_piece:
  assumes "pieces_ok ps" and "btm_get ps name = Some p"
  shows "find (\<lambda>(_, q). pc_id q = pc_id p) ps = Some (name, p)"
proof -
  have mem: "(name, p) \<in> set ps" using assms by (simp add: pieces_ok_def btm_get_Some_iff)
  have "inj_on (pc_id \<circ> snd) (set ps)" using assms(1) by (simp add: pieces_ok_def distinct_map)
  then have "x = (name, p)" if "x \<in> set ps" "pc_id (snd x) = pc_id p" for x
    by (rule inj_onD) (use that mem in auto)
  then show ?thesis by (intro find_only [OF mem]) auto
qed

text \<open>Room in the counters of an owner for one more read of \<open>n\<close> bytes.\<close>

definition counters_free :: "owner_state \<Rightarrow> u64 \<Rightarrow> bool" where
  "counters_free e n \<longleftrightarrow>
     unat (md_read_calls (os_metadata e)) + 1 < 2 ^ 64 \<and>
     unat (md_requested_read_bytes (os_metadata e)) + unat n < 2 ^ 64 \<and>
     unat (md_returned_read_bytes (os_metadata e)) + unat n < 2 ^ 64"

lemma add_free: "unat a + unat b < 2 ^ 64 \<Longrightarrow> \<exists>c. add a b = Inr c"
  by (simp add: add_def checked_u64_def)

lemma read_locked_value:
  assumes inv: "entry_inv e" and c: "check_owner s (ph_owner h) = (Inr e :: unit preparation_failure + _)"
    and "st_live s" and ready: "os_phase e = Ready"
    and p: "btm_get (os_pieces e) name = Some p" and h: "ph_id h = pc_id p"
  shows "pc_len p < off \<Longrightarrow> read_locked h off n s = (Inl TE_RangeError, s)"
    and "off \<le> pc_len p \<Longrightarrow> counters_free e n \<Longrightarrow>
      \<exists>m. read_locked h off n s =
        (Inr (take (unat n) (drop (unat off) (pc_bytes p))), set_entry (ph_owner h) (e\<lparr>os_metadata := m\<rparr>) s)"
proof -
  have ok: "pieces_ok (os_pieces e)" "md_ready (os_metadata e)" using inv ready by (auto simp: entry_inv_def)
  have f: "find (\<lambda>(_, q). pc_id q = ph_id h) (os_pieces e) = Some (name, p)"
    unfolding h by (rule find_piece [OF ok(1) p])
  have len: "unat (pc_len p) = length (pc_bytes p)"
    using ok(1) p by (auto simp: pieces_ok_def btm_get_Some_iff)
  note unfold = read_locked_def c f
  show "read_locked h off n s = (Inl TE_RangeError, s)" if "pc_len p < off"
    using that assms(3) ok(2) by (simp add: unfold read_range_past)
  show "\<exists>m. read_locked h off n s =
      (Inr (take (unat n) (drop (unat off) (pc_bytes p))), set_entry (ph_owner h) (e\<lparr>os_metadata := m\<rparr>) s)"
    if off: "off \<le> pc_len p" and free: "counters_free e n"
  proof -
    have "unat (read_take p off n) \<le> unat n" by (metis min.cobounded1 read_take_def word_le_nat_alt)
    then obtain c1 c2 c3 where "add (md_read_calls (os_metadata e)) 1 = Inr c1" "add (md_requested_read_bytes (os_metadata e)) n = Inr c2"
      "add (md_returned_read_bytes (os_metadata e)) (read_take p off n) = Inr c3"
      using free add_free [of "md_read_calls (os_metadata e)" 1] add_free [of "md_requested_read_bytes (os_metadata e)" n]
        add_free [of "md_returned_read_bytes (os_metadata e)" "read_take p off n"] by (auto simp: counters_free_def)
    then show ?thesis
      using assms(3) ok(2) by (auto simp: unfold Let_def read_range_take [OF len off])
  qed
qed

text \<open>A whole read through a handle of a published plan.\<close>

lemma read_piece_value:
  assumes inv: "entry_inv e" and own: "owners_of s (ow_id ow) = Some e" "os_artifact_identity e = ow_artifact_identity ow"
    and live: "st_live s" "\<not> st_disposed s" and ready: "os_phase e = Ready"
    and p: "btm_get (os_pieces e) name = Some p" and h: "h = \<lparr>ph_owner = ow, ph_id = pc_id p, ph_len = pc_len p\<rparr>"
    and free: "unat (os_active_reads e) + 1 < 2 ^ 64" "counters_free e n"
  shows "\<exists>s'. read_piece h off n s =
     Some (if off \<le> pc_len p then Inr (take (unat n) (drop (unat off) (pc_bytes p))) else Inl TE_RangeError, s')"
proof -
  obtain a where a: "add (os_active_reads e) 1 = Inr a" using free(1) add_free [of "os_active_reads e" 1] by auto
  then have na: "a \<noteq> 0" by (auto simp: add_def dest!: checked_u64_size)
  let ?e = "e\<lparr>os_active_reads := a\<rparr>" and ?s = "set_entry ow (e\<lparr>os_active_reads := a\<rparr>) s"
  have c: "check_owner s ow = (Inr e :: unit preparation_failure + _)" using own live ready by (simp add: check_owner_Inr)
  have g: "guard_acquire ow s = (Inr (), ?s)" using live c a by (simp add: guard_acquire_def)
  have hid: "ph_id h = pc_id p" "ph_owner h = ow" by (simp_all add: h)
  have c': "check_owner ?s (ph_owner h) = (Inr ?e :: unit preparation_failure + _)"
    using own live ready by (simp add: check_owner_Inr hid os_phase_def)
  have e': "entry_inv ?e" "os_phase ?e = Ready" "btm_get (os_pieces ?e) name = Some p" "counters_free ?e n"
    using inv ready p free(2) by (simp_all add: entry_inv_counters os_phase_def counters_free_def)
  note val = read_locked_value [OF e'(1) c' _ e'(2,3) hid(1)]
  show ?thesis
  proof (cases "off \<le> pc_len p")
    case False
    then have "read_locked h off n ?s = (Inl TE_RangeError, ?s)" using val(1) live by simp
    moreover obtain s' where "guard_release ow ?s = Some s'" using guard_release_counted [of ?s ow ?e] na by auto
    ultimately show ?thesis using False by (simp add: read_piece_def hid g)
  next
    case True
    then obtain m where "read_locked h off n ?s =
        (Inr (take (unat n) (drop (unat off) (pc_bytes p))), set_entry ow (?e\<lparr>os_metadata := m\<rparr>) ?s)"
      using val(2) live e'(4) hid by auto
    moreover obtain s' where "guard_release ow (set_entry ow (?e\<lparr>os_metadata := m\<rparr>) ?s) = Some s'"
      using guard_release_counted [of "set_entry ow (?e\<lparr>os_metadata := m\<rparr>) ?s" ow "?e\<lparr>os_metadata := m\<rparr>"] na by auto
    ultimately show ?thesis using True by (simp add: read_piece_def hid g)
  qed
qed

end
