(* ===== verification/PlanContracts.thy ===== *)
theory PlanContracts
  imports PreparedPlans
begin

text \<open>
  The contracts of the store of prepared plans, over every reachable state of the system of
  \<open>PreparationSystem\<close>.
\<close>

section \<open>Finishing a transaction\<close>

lemma open_owner:
  assumes "sys_inv y" and "st_live (sy_store y)" and "(tx, st) \<in> set (sy_txs y)" and e: "owners_of (sy_store y) (ow_id tx) = Some e"
  shows "check_owner (sy_store y) tx = (Inr e :: 'm preparation_failure + _)" and "os_phase e = Staging" and "entry_inv e"
    and "staging_ok e" and "btm_wf (st_owners (sy_store y))"
proof -
  obtain d where d: "owners_of (sy_store y) (ow_id tx) = Some d" "os_phase d = Staging" "entry_inv d" "staging_ok d"
    and c: "check_owner (sy_store y) tx = (Inr d :: unit preparation_failure + _)"
    using open_entry [OF assms(1-3)] by (metis fst_conv)
  have [simp]: "d = e" using d(1) e by simp
  show "os_phase e = Staging" "entry_inv e" "staging_ok e" using d by simp_all
  show "check_owner (sy_store y) tx = (Inr e :: 'm preparation_failure + _)" using c by (simp add: check_owner_Inr)
  show "btm_wf (st_owners (sy_store y))" using assms(1) by (simp add: sys_inv_def store_ok_def)
qed

lemma drop_owners:
  assumes "st_live s" and "check_owner s ow = (Inr e :: unit preparation_failure + _)"
  shows "owners_of (drop_transaction ow s) = (owners_of s)(ow_id ow \<mapsto> clear Unready e)"
    and "st_live (drop_transaction ow s)"
  using assms by (simp_all add: drop_transaction_def)

lemma check_faults:
  assumes "check_owner s ow = (Inr e :: 'm preparation_failure + _)"
  shows "check_owner (set_entry ow (e\<lparr>os_projection_failure := f\<rparr>) s) ow =
    (Inr (e\<lparr>os_projection_failure := f\<rparr>) :: 'n preparation_failure + _)"
  using assms by (simp add: check_owner_Inr os_phase_def)

lemma check_owner_any:
  "check_owner s ow = (Inr e :: 'm preparation_failure + _) \<Longrightarrow> check_owner s ow = (Inr e :: 'n preparation_failure + _)"
  by (simp add: check_owner_Inr)

text \<open>The faults that keep a staged transaction from being published.\<close>

definition publishable :: "owner_state \<Rightarrow> bool" where
  "publishable e \<longleftrightarrow>
     os_writer_fault e = None \<and> os_projection_failure e = None \<and>
     (\<forall>p. os_projection e = Some p \<longrightarrow> (\<forall>v \<in> set (pg_views p). btm_get (pg_scenes p) v \<noteq> None))"

lemma retained_total_staging:
  assumes "staging_ok e"
  shows "retained_total e = Inr (da_staged_bytes (os_diagnostics e))"
proof -
  have "da_retained_bytes (os_diagnostics e) = 0" using assms by (simp add: staging_ok_def)
  moreover have "unat (da_staged_bytes (os_diagnostics e)) < 2 ^ 64"
    using unsigned_less [of "da_staged_bytes (os_diagnostics e)", where 'a = nat] by simp
  ultimately show ?thesis by (simp add: retained_total_def checked_add_def checked_u64_def)
qed

lemma finish_faults_publishable:
  assumes "staging_ok e" and "os_writer_fault e = None"
  shows "os_projection_failure (finish_faults e) = None \<longleftrightarrow> publishable e"
proof -
  have "publishable e \<longleftrightarrow> os_projection_failure e = None \<and> missing_scene e = None"
    using assms(2) by (simp add: publishable_def missing_scene_None)
  moreover have "os_projection_failure (finish_faults e) = None \<longleftrightarrow> os_projection_failure e = None \<and> missing_scene e = None"
    using retained_total_staging [OF assms(1)]
    by (cases "os_projection_failure e"; cases "missing_scene e") (simp_all add: finish_faults_def)
  ultimately show ?thesis by simp
qed

lemma finish_stage_value:
  assumes "st_live s" and c: "check_owner s ow = (Inr e :: 'm preparation_failure + _)" and "staging_ok e"
  shows "publishable e \<Longrightarrow>
      finish_stage ow s = (Inr \<lparr>sp_owner = ow, sp_pieces = piece_lengths (os_pieces e)\<rparr> :: 'm preparation_failure + _, set_entry ow e s)"
    and "\<not> publishable e \<Longrightarrow>
      \<exists>err f. finish_stage ow s = (Inl err :: 'm preparation_failure + _, s) \<or>
        finish_stage ow s = (Inl err :: 'm preparation_failure + _, set_entry ow (e\<lparr>os_projection_failure := f\<rparr>) s)"
proof -
  note unfold = finish_stage_def Let_def
  show "finish_stage ow s = (Inr \<lparr>sp_owner = ow, sp_pieces = piece_lengths (os_pieces e)\<rparr> :: 'm preparation_failure + _, set_entry ow e s)"
    if p: "publishable e"
  proof -
    have "os_projection_failure (finish_faults e) = None" using p finish_faults_publishable [OF assms(3)] by (simp add: publishable_def)
    then show ?thesis using assms(1) c p finish_faults_None [of e] by (simp add: unfold publishable_def)
  qed
  show "\<exists>err f. finish_stage ow s = (Inl err :: 'm preparation_failure + _, s) \<or>
        finish_stage ow s = (Inl err :: 'm preparation_failure + _, set_entry ow (e\<lparr>os_projection_failure := f\<rparr>) s)"
    if np: "\<not> publishable e"
  proof (cases "os_writer_fault e")
    case None
    then obtain fault where f: "os_projection_failure (finish_faults e) = Some fault"
      using np finish_faults_publishable [OF assms(3)] by auto
    then have "finish_faults e = e\<lparr>os_projection_failure := Some fault\<rparr>" using finish_faults_shape [of e] by simp
    then show ?thesis using None f assms(1) c by (auto simp: unfold)
  qed (use assms(1) c in \<open>auto simp: unfold\<close>)
qed

lemma finish_commit_value:
  assumes "check_owner s ow = (Inr e :: 'm preparation_failure + _)" and "staging_ok e" and "publishable e"
  shows "\<exists>s'. finish_commit ow staged s = (Inr ow :: 'm preparation_failure + _, s')"
  using assms by (simp add: finish_commit_def publishable_def retained_total_staging)

lemma finish_commit_owner: "finish_commit ow staged s = (Inr h :: 'm preparation_failure + _, s') \<Longrightarrow> h = ow"
  by (auto simp: finish_commit_def split: sum.splits option.splits if_splits)

text \<open>A validator that leaves the store alone.\<close>

definition pure_validator :: "(staged_preparation \<Rightarrow> store_state \<Rightarrow> ('m preparation_failure + unit) \<times> store_state) \<Rightarrow> bool" where
  "pure_validator v \<longleftrightarrow> (\<forall>staged s. snd (v staged s) = s)"

definition accepts :: "'m preparation_failure + unit \<Rightarrow>
    (staged_preparation \<Rightarrow> store_state \<Rightarrow> ('m preparation_failure + unit) \<times> store_state) \<Rightarrow>
    preparation_owner \<Rightarrow> owner_state \<Rightarrow> store_state \<Rightarrow> bool" where
  "accepts result v ow e s \<longleftrightarrow>
     result = Inr () \<and> publishable e \<and>
     fst (v \<lparr>sp_owner = ow, sp_pieces = piece_lengths (os_pieces e)\<rparr> s) = Inr ()"

lemma set_entry_same:
  assumes "btm_wf (st_owners s)" and "owners_of s (ow_id ow) = Some e"
  shows "set_entry ow e s = s"
proof -
  have "btm_insert (ow_id ow) e (st_owners s) = st_owners s"
    by (rule btm_wf_ext) (use assms in \<open>auto simp: owners_of_def\<close>)
  then show ?thesis by (simp add: set_entry_def)
qed

lemma finish_accepted:
  assumes "st_live s" and c: "check_owner s ow = (Inr e :: 'm preparation_failure + _)" and "staging_ok e" and "btm_wf (st_owners s)"
    and v: "pure_validator v" and acc: "accepts result v ow e s"
  shows "\<exists>s'. finish_tx ow result v s = (Inr ow :: 'm preparation_failure + _, s') \<and>
     finish_stage ow s = (Inr \<lparr>sp_owner = ow, sp_pieces = piece_lengths (os_pieces e)\<rparr> :: 'm preparation_failure + _, s) \<and>
     finish_commit ow \<lparr>sp_owner = ow, sp_pieces = piece_lengths (os_pieces e)\<rparr> s = (Inr ow :: 'm preparation_failure + _, s')"
proof -
  let ?st = "\<lparr>sp_owner = ow, sp_pieces = piece_lengths (os_pieces e)\<rparr>"
  have p: "publishable e" "result = Inr ()" "v ?st s = (Inr (), s)"
    using acc v by (auto simp: accepts_def pure_validator_def prod_eq_iff)
  have same: "set_entry ow e s = s" using c assms(4) by (intro set_entry_same) (simp_all add: check_owner_Inr)
  have st: "finish_stage ow s = (Inr ?st :: 'm preparation_failure + _, s)"
    using finish_stage_value(1) [OF assms(1-3) p(1)] same by simp
  obtain s' where "finish_commit ow ?st s = (Inr ow :: 'm preparation_failure + _, s')"
    using finish_commit_value [OF c assms(3) p(1)] by blast
  then show ?thesis using st p by (simp add: finish_tx_def)
qed

lemma finish_rejected:
  assumes "st_live s" and c: "check_owner s ow = (Inr e :: 'm preparation_failure + _)" and "staging_ok e" and "btm_wf (st_owners s)"
    and v: "pure_validator v" and rej: "\<not> accepts result v ow e s"
  shows "\<exists>err s' e1. finish_tx ow result v s = (Inl err :: 'm preparation_failure + _, s') \<and>
     owners_of s' = (owners_of s)(ow_id ow \<mapsto> clear Unready e1) \<and> st_live s' \<and>
     os_artifact_identity e1 = os_artifact_identity e \<and> os_active_reads e1 = os_active_reads e"
proof -
  let ?st = "\<lparr>sp_owner = ow, sp_pieces = piece_lengths (os_pieces e)\<rparr>"
  have drop: "owners_of (drop_transaction ow s) = (owners_of s)(ow_id ow \<mapsto> clear Unready e)" "st_live (drop_transaction ow s)"
    using drop_owners [OF assms(1) check_owner_any [OF c]] by simp_all
  have drop': "owners_of (drop_transaction ow (set_entry ow (e\<lparr>os_projection_failure := f\<rparr>) s)) =
      (owners_of s)(ow_id ow \<mapsto> clear Unready (e\<lparr>os_projection_failure := f\<rparr>))"
    "st_live (drop_transaction ow (set_entry ow (e\<lparr>os_projection_failure := f\<rparr>) s))" for f
    using drop_owners [OF _ check_faults [OF c, of f]] assms(1) by simp_all
  show ?thesis
  proof (cases "publishable e \<or> producer_failed result")
    case True
    have same: "set_entry ow e s = s" using c assms(4) by (intro set_entry_same) (simp_all add: check_owner_Inr)
    have st: "publishable e \<Longrightarrow> finish_stage ow s = (Inr ?st :: 'm preparation_failure + _, s)"
      using finish_stage_value(1) [OF assms(1-3)] same by simp
    have "snd (v ?st s) = s" using v by (simp add: pure_validator_def)
    then have "\<exists>err. finish_tx ow result v s = (Inl err, drop_transaction ow s)"
      using True rej st by (cases result; cases "v ?st s"; cases "fst (v ?st s)")
        (auto simp: finish_tx_def accepts_def producer_failed_def)
    then show ?thesis using drop by blast
  next
    case False
    then obtain err f where st: "finish_stage ow s = (Inl err :: 'm preparation_failure + _, s) \<or>
        finish_stage ow s = (Inl err :: 'm preparation_failure + _, set_entry ow (e\<lparr>os_projection_failure := f\<rparr>) s)"
      using finish_stage_value(2) [OF assms(1-3)] by blast
    then have "finish_tx ow result v s = (Inl err, drop_transaction ow s) \<or>
        finish_tx ow result v s = (Inl err, drop_transaction ow (set_entry ow (e\<lparr>os_projection_failure := f\<rparr>) s))"
      using False by (cases result) (auto simp: finish_tx_def)
    then show ?thesis
    proof
      assume "finish_tx ow result v s = (Inl err, drop_transaction ow s)"
      then show ?thesis using drop by blast
    next
      assume "finish_tx ow result v s = (Inl err, drop_transaction ow (set_entry ow (e\<lparr>os_projection_failure := f\<rparr>) s))"
      then show ?thesis using drop' [of f]
        by (intro exI [of _ err] exI [of _ "drop_transaction ow (set_entry ow (e\<lparr>os_projection_failure := f\<rparr>) s)"]
            exI [of _ "e\<lparr>os_projection_failure := f\<rparr>"]) simp
    qed
  qed
qed

section \<open>Runs\<close>

lemma sys_inv_steps: "prep_step\<^sup>*\<^sup>* y z \<Longrightarrow> sys_inv y \<Longrightarrow> sys_inv z"
  by (induction rule: rtranclp_induct) (auto intro: sys_inv_step)

lemma steps_kept: "prep_step\<^sup>*\<^sup>* y z \<Longrightarrow> sys_inv y \<Longrightarrow> plans_kept (sy_store y) (sy_store z)"
proof (induction rule: rtranclp_induct)
  case (step z w)
  then show ?case using step_kept [OF step.hyps(2) sys_inv_steps [OF step.hyps(1)]] by (blast intro: plans_kept_trans)
qed simp

text \<open>A plan read through its handle, later in the run.\<close>

lemma plan_later:
  assumes "prep_step\<^sup>*\<^sup>* y z" and "sys_inv y" and "owners_of (sy_store y) (ow_id ow) = Some e" and "os_phase e = Ready"
    and "check_owner (sy_store z) ow = (Inr e' :: unit preparation_failure + _)"
  shows "os_phase e' = Ready" and "os_pieces e' = os_pieces e" and "os_projection e' = os_projection e" and "entry_inv e'"
proof -
  have z: "owners_of (sy_store z) (ow_id ow) = Some e'" "os_phase e' \<noteq> DisposedPhase" using assms(5) by (simp_all add: check_owner_Inr)
  then have "plan_kept e e'" using steps_kept [OF assms(1,2)] assms(3) by (force simp: plans_kept_def)
  then show "os_phase e' = Ready" "os_pieces e' = os_pieces e" "os_projection e' = os_projection e"
    using assms(4) z(2) by (auto simp: plan_kept_def)
  show "entry_inv e'" using sys_inv_steps [OF assms(1,2)] z(1) by (auto simp: sys_inv_def store_ok_def)
qed

lemma current_Inr:
  assumes "current s ow = (Inr h :: 'm preparation_failure + _)"
  obtains e where "check_owner s ow = (Inr e :: 'm preparation_failure + _)" "md_ready (os_metadata e)" "h = ow"
proof (cases "check_owner s ow :: 'm preparation_failure + owner_state")
  case (Inr e)
  then show thesis using assms that [of e] by (auto simp: current_def and_then_def split: sum.splits if_splits)
qed (use assms in \<open>auto simp: current_def and_then_def split: sum.splits\<close>)

lemma entry_ready: "entry_inv e \<Longrightarrow> md_ready (os_metadata e) \<longleftrightarrow> os_phase e = Ready"
  by (simp add: entry_inv_def)

section \<open>A small run\<close>

definition sample_binding :: frozen_preparation_binding where
  "sample_binding = \<lparr>fb_module_id = ''m'', fb_stage_id = ''s'', fb_artifact_kind = ''k'', fb_artifact_identity = 7, fb_declaration = None\<rparr>"

definition sample_owner :: preparation_owner where
  "sample_owner = \<lparr>ow_store = 0, ow_id = 0, ow_artifact_identity = 7, ow_stage_id = ''s'', ow_artifact_kind = ''k'',
     ow_declared_views = [], ow_input_reads = []\<rparr>"

definition sample_created :: store_state where
  "sample_created = snd (create_owner sample_binding (new_store 0) :: (unit preparation_failure + _) \<times> _)"

definition sample_begun :: store_state where
  "sample_begun = snd (begin_tx None sample_owner sample_created :: (unit preparation_failure + _) \<times> _)"

definition sample_open :: prep_system where
  "sample_open = \<lparr>sy_store = sample_begun, sy_txs = [(sample_owner, None)], sy_guards = []\<rparr>"

definition sample_put :: store_state where
  "sample_put = snd (put sample_owner ''p'' [10, 20, 30] sample_begun)"

definition accept_all :: "staged_preparation \<Rightarrow> store_state \<Rightarrow> (unit preparation_failure + unit) \<times> store_state" where
  "accept_all staged s = (Inr (), s)"

definition sample_published :: prep_system where
  "sample_published = \<lparr>sy_store = snd (finish_tx sample_owner (Inr ()) accept_all sample_put), sy_txs = [], sy_guards = []\<rparr>"

lemmas sample_defs = sample_binding_def sample_owner_def sample_created_def sample_begun_def sample_put_def new_store_def new_entry_def

lemmas store_eval = create_owner_def begin_tx_def put_def put_piece_def finish_stage_def finish_commit_def finish_tx_def check_owner_def
  set_entry_def verify_def add_def count_u64_def checked_u64_def current_call_identity_def os_phase_def btm_get_def and_then_def
  finish_faults_def missing_scene_def retained_total_def checked_add_def piece_lengths_def Let_def

lemma sample_open_reachable: "prep_reachable 0 sample_open"
proof -
  have "prep_reachable 0 (prep_init 0\<lparr>sy_store := snd (create_owner sample_binding (sy_store (prep_init 0)) :: (unit preparation_failure + _) \<times> _)\<rparr>)"
    by (rule prep_reachable.step [OF prep_reachable.initial prep_step.create]) (simp add: prep_init_def new_store_def)
  moreover have "(prep_init 0\<lparr>sy_store := snd (create_owner sample_binding (sy_store (prep_init 0)) :: (unit preparation_failure + _) \<times> _)\<rparr>)
      = \<lparr>sy_store = sample_created, sy_txs = [], sy_guards = []\<rparr>" (is "_ = ?y")
    by (simp add: prep_init_def sample_created_def)
  ultimately have "prep_reachable 0 ?y" by simp
  moreover have "begin_tx None sample_owner sample_created = (Inr sample_owner :: unit preparation_failure + _, sample_begun)"
    "st_live sample_created" by (simp_all add: sample_defs store_eval)
  then have "prep_step ?y (?y\<lparr>sy_store := sample_begun, sy_txs := (sample_owner, None) # sy_txs ?y\<rparr>)"
    by (intro prep_step.begin_ok) simp_all
  ultimately show ?thesis by (auto simp: sample_open_def intro: prep_reachable.step)
qed

lemma sample_published_reachable: "prep_reachable 0 sample_published"
proof -
  let ?st = "\<lparr>sp_owner = sample_owner, sp_pieces = [(''p'', 3)]\<rparr>"
  let ?y = "sample_open\<lparr>sy_store := sample_put\<rparr>" and ?z = "sample_open\<lparr>sy_store := sample_put, sy_txs := [(sample_owner, Some ?st)]\<rparr>"
  have "prep_step sample_open ?y"
    using prep_step.put [of sample_owner sample_open "''p''" "[10, 20, 30]"] by (simp add: sample_open_def sample_put_def)
  moreover have "finish_stage sample_owner sample_put = (Inr ?st :: unit preparation_failure + _, sample_put)" by (simp add: sample_defs store_eval)
  then have "prep_step ?y ?z"
    using prep_step.stage [of sample_owner ?y ?st sample_put] by (simp add: sample_open_def)
  moreover have "finish_commit sample_owner ?st sample_put =
      (Inr sample_owner :: unit preparation_failure + _, sy_store sample_published)" "st_live sample_put"
    by (simp_all add: sample_published_def accept_all_def sample_defs store_eval)
  then have "prep_step ?z sample_published"
    using prep_step.commit [of sample_owner ?st ?z sample_owner "sy_store sample_published"]
    by (simp add: sample_open_def sample_published_def)
  ultimately show ?thesis using sample_open_reachable by (meson prep_reachable.step)
qed

lemma sample_published_entry:
  obtains e where "btm_get (st_owners (sy_store sample_published)) 0 = Some e" "os_phase e = Ready" "md_ready (os_metadata e)"
    "os_artifact_identity e = 7" "os_pieces e = [(''p'', \<lparr>pc_id = 0, pc_bytes = [10, 20, 30], pc_len = 3\<rparr>)]"
    "os_active_reads e = 0" "md_read_calls (os_metadata e) = 0" "md_requested_read_bytes (os_metadata e) = 0"
    "md_returned_read_bytes (os_metadata e) = 0"
  by (simp add: sample_published_def accept_all_def sample_defs store_eval)

lemma sample_published_store:
  "st_live (sy_store sample_published)" "\<not> st_disposed (sy_store sample_published)" "st_self (sy_store sample_published) = 0"
  "sy_txs sample_published = []" "sy_guards sample_published = []"
  by (simp_all add: sample_published_def accept_all_def sample_defs store_eval)

lemma sample_published_current: "current (sy_store sample_published) sample_owner = (Inr sample_owner :: unit preparation_failure + _)"
  by (rule sample_published_entry)
    (simp add: current_def verify_def check_owner_def sample_published_store sample_owner_def)

section \<open>Writing\<close>

text \<open>A producer that stages a list of pieces and stops at the first error.\<close>

primrec put_all :: "preparation_owner \<Rightarrow> (string \<times> u8 list) list \<Rightarrow> store_state \<Rightarrow> (transport_error + unit) \<times> store_state" where
  "put_all ow [] s = (Inr (), s)"
| "put_all ow (item # items) s =
     (case put ow (fst item) (snd item) s of (Inl e, s') \<Rightarrow> (Inl e, s') | (Inr _, s') \<Rightarrow> put_all ow items s')"

lemma put_stages:
  assumes inv: "sys_inv y" and tx: "(tx, None) \<in> set (sy_txs y)" and live: "st_live (sy_store y)"
    and e: "owners_of (sy_store y) (ow_id tx) = Some e" and p: "put tx name bs (sy_store y) = (Inr u, s')"
  shows "\<exists>e'. owners_of s' (ow_id tx) = Some e' \<and> st_live s' \<and> (\<exists>q. btm_get (os_pieces e') name = Some q \<and> pc_bytes q = bs) \<and>
     (\<forall>n q. btm_get (os_pieces e) n = Some q \<longrightarrow> btm_get (os_pieces e') n = Some q)"
proof -
  note c = open_owner(1) [OF inv live tx e, where 'm = unit] and st = open_owner(2,3) [OF inv live tx e]
  obtain e' where e': "put_piece name bs e = Inr e'" "s' = set_entry tx e' (sy_store y)"
    using p live c by (auto simp: put_def split: if_splits sum.splits)
  have "btm_get (os_pieces e) name = None" using e'(1) by (auto simp: put_piece_def split: if_splits)
  then show ?thesis using put_piece_inv(3) [OF st e'(1)] live e'(2) by auto
qed

lemma put_all_stages:
  assumes "sys_inv y" and "(tx, None) \<in> set (sy_txs y)" and "st_live (sy_store y)"
    and "owners_of (sy_store y) (ow_id tx) = Some e" and "put_all tx items (sy_store y) = (Inr u, s')"
  shows "sys_inv (y\<lparr>sy_store := s'\<rparr>) \<and> st_live s' \<and> (\<exists>e'. owners_of s' (ow_id tx) = Some e' \<and>
     (\<forall>(n, bs) \<in> set items. \<exists>q. btm_get (os_pieces e') n = Some q \<and> pc_bytes q = bs) \<and>
     (\<forall>n q. btm_get (os_pieces e) n = Some q \<longrightarrow> btm_get (os_pieces e') n = Some q))"
  using assms
proof (induction items arbitrary: y e)
  case (Cons item items)
  obtain u1 s1 where p: "put tx (fst item) (snd item) (sy_store y) = (Inr u1, s1)" and rest: "put_all tx items s1 = (Inr u, s')"
    using Cons.prems(5) by (auto split: sum.splits prod.splits)
  obtain e1 where e1: "owners_of s1 (ow_id tx) = Some e1" "st_live s1"
    "\<exists>q. btm_get (os_pieces e1) (fst item) = Some q \<and> pc_bytes q = snd item"
    "\<forall>n q. btm_get (os_pieces e) n = Some q \<longrightarrow> btm_get (os_pieces e1) n = Some q"
    using put_stages [OF Cons.prems(1-4) p] by blast
  have "sys_inv (y\<lparr>sy_store := s1\<rparr>)" using step_put [OF Cons.prems(1,2), of "fst item" "snd item"] p by simp
  then have "sys_inv (y\<lparr>sy_store := s'\<rparr>) \<and> st_live s' \<and> (\<exists>e'. owners_of s' (ow_id tx) = Some e' \<and>
     (\<forall>(n, bs) \<in> set items. \<exists>q. btm_get (os_pieces e') n = Some q \<and> pc_bytes q = bs) \<and>
     (\<forall>n q. btm_get (os_pieces e1) n = Some q \<longrightarrow> btm_get (os_pieces e') n = Some q))"
    using Cons.IH [of "y\<lparr>sy_store := s1\<rparr>" e1] Cons.prems(2) e1(1,2) rest by simp
  then show ?case using e1(3,4) by (fastforce simp: case_prod_unfold)
qed auto

text \<open>What a transaction that finishes well leaves behind.\<close>

lemma finish_publishes:
  assumes inv: "sys_inv y" and tx: "(tx, None) \<in> set (sy_txs y)" and live: "st_live (sy_store y)" and v: "pure_validator v"
    and e: "owners_of (sy_store y) (ow_id tx) = Some e" and acc: "accepts result v tx e (sy_store y)"
  shows "\<exists>s' e'. finish_tx tx result v (sy_store y) = (Inr tx :: 'm preparation_failure + _, s') \<and>
     sys_inv (y\<lparr>sy_store := s', sy_txs := remove1 (tx, None) (sy_txs y)\<rparr>) \<and> st_live s' \<and>
     owners_of s' = (owners_of (sy_store y))(ow_id tx \<mapsto> e') \<and> os_phase e' = Ready \<and> os_pieces e' = os_pieces e \<and>
     os_projection e' = os_projection e \<and> os_artifact_identity e' = os_artifact_identity e"
proof -
  let ?st = "\<lparr>sp_owner = tx, sp_pieces = piece_lengths (os_pieces e)\<rparr>"
  note c = open_owner(1) [OF inv live tx e, where 'm = 'm] and st = open_owner(2-4) [OF inv live tx e]
    and wf = open_owner(5) [OF inv live tx e]
  obtain s' where f: "finish_tx tx result v (sy_store y) = (Inr tx :: 'm preparation_failure + _, s')"
    and s: "finish_stage tx (sy_store y) = (Inr ?st :: 'm preparation_failure + _, sy_store y)"
    and cm: "finish_commit tx ?st (sy_store y) = (Inr tx :: 'm preparation_failure + _, s')"
    using finish_accepted [OF live c st(3) wf v acc] by blast
  let ?y = "y\<lparr>sy_txs := (tx, Some ?st) # remove1 (tx, None) (sy_txs y)\<rparr>"
  have "sys_inv ?y" using step_stage [OF inv tx s] by (simp add: sys_inv_def)
  then have inv': "sys_inv (y\<lparr>sy_store := s', sy_txs := remove1 (tx, None) (sy_txs y)\<rparr>)"
    using step_commit [of ?y tx ?st tx s', where 'm = 'm] live cm by simp
  have ms: "missing_scene e = None" using acc by (simp add: accepts_def publishable_def missing_scene_None)
  show ?thesis
  proof (rule finish_commit_Inr [OF cm])
    fix d d' assume "check_owner (sy_store y) tx = (Inr d :: 'm preparation_failure + _)" and s': "s' = set_entry tx d' (sy_store y)"
      and rest: "os_writer_fault d = None" "os_projection_failure d = None"
        "retained_total d = Inr (da_retained_bytes (os_diagnostics d'))"
        "d' = d\<lparr>os_diagnostics := (os_diagnostics d)\<lparr>da_retained_bytes := da_retained_bytes (os_diagnostics d'), da_staged_bytes := 0\<rparr>,
         os_call_identity := None,
         os_metadata := (os_metadata d)
           \<lparr>md_pieces := sp_pieces ?st,
            md_retained_payload_bytes := md_staged_payload_bytes (os_metadata d),
            md_retained_name_bytes := md_staged_name_bytes (os_metadata d),
            md_staged_payload_bytes := 0, md_staged_name_bytes := 0, md_phase := Ready, md_ready := True\<rparr>\<rparr>"
    then have "d = e" using c by simp
    note ready = finish_commit_ready [OF st(1,2) _ ms rest [unfolded this]]
    show ?thesis
      using f inv' live s' ready by (intro exI [of _ s'] exI [of _ d']) simp
  qed
qed

section \<open>Disposal\<close>

lemma step_disposed: "prep_step y z \<Longrightarrow> st_disposed (sy_store y) \<Longrightarrow> st_disposed (sy_store z)"
proof (induction rule: prep_step.induct)
  case (release ow y s')
  then show ?case by (auto simp: guard_release_def split: if_splits option.splits)
next
  case (stage tx y staged s')
  then show ?case by (auto simp: finish_stage_def Let_def split: if_splits sum.splits option.splits)
next
  case (stage_error tx y e s')
  then show ?case by (auto simp: finish_stage_def drop_transaction_def Let_def split: if_splits sum.splits option.splits)
next
  case (commit tx staged y h s')
  then show ?case by (auto simp: finish_commit_def split: if_splits sum.splits option.splits)
next
  case (commit_error tx staged y e s')
  then show ?case by (auto simp: finish_commit_def drop_transaction_def split: if_splits sum.splits option.splits)
qed (auto simp: create_owner_def begin_tx_def and_then_def request_projections_def record_writer_fault_def put_def
      drop_transaction_def requested_views_def publish_def with_entry_def guard_acquire_def active_guard_def read_locked_def
      record_prepare_invocation_def update_metadata_def record_prepare_fuel_def dispose_owner_def dispose_def Let_def
      split: if_splits sum.splits option.splits prod.splits)

lemma steps_disposed: "prep_step\<^sup>*\<^sup>* y z \<Longrightarrow> st_disposed (sy_store y) \<Longrightarrow> st_disposed (sy_store z)"
  by (induction rule: rtranclp_induct) (auto intro: step_disposed)

text \<open>A transaction or a guard keeps its owner busy.\<close>

lemma busy_users:
  assumes inv: "sys_inv y" and live: "st_live (sy_store y)"
  shows "list_ex (\<lambda>(_, entry). busy entry) (st_owners (sy_store y)) \<longleftrightarrow> sy_txs y \<noteq> [] \<or> sy_guards y \<noteq> []"
proof -
  have l: "links (owners_of (sy_store y)) (sy_txs y) (sy_guards y)" and wf: "btm_wf (st_owners (sy_store y))"
    using inv live by (auto simp: sys_inv_def store_ok_def)
  have ex: "list_ex (\<lambda>(_, entry). busy entry) (st_owners (sy_store y)) \<longleftrightarrow> (\<exists>k e. owners_of (sy_store y) k = Some e \<and> busy e)"
    using wf by (auto simp: list_ex_iff owners_of_def btm_get_Some_iff)
  have tx: "\<exists>k e. owners_of (sy_store y) k = Some e \<and> busy e" if "tx \<in> set (sy_txs y)" for tx
    by (rule open_entry [OF inv live that]) (auto simp: busy_def)
  have g: "\<exists>k e. owners_of (sy_store y) k = Some e \<and> busy e" if o': "o' \<in> set (sy_guards y)" for o'
  proof -
    have "\<forall>o' \<in> set (sy_guards y). owners_of (sy_store y) (ow_id o') \<noteq> None" using l by (simp add: links_def)
    then obtain e where e: "owners_of (sy_store y) (ow_id o') = Some e" using o' by fastforce
    then have "unat (os_active_reads e) = guard_count (ow_id o') (sy_guards y)" using l unfolding links_def by blast
    then have "os_active_reads e \<noteq> 0" using guard_count_remove1 [OF o', of "ow_id o'"] by auto
    then show ?thesis using e by (auto simp: busy_def)
  qed
  have "sy_txs y \<noteq> [] \<or> sy_guards y \<noteq> []" if "owners_of (sy_store y) k = Some e" "busy e" for k e
    using l that by (auto simp: links_def busy_def guard_count_def unat_eq_zero)
  then show ?thesis unfolding ex using tx g by (metis list.set_intros(1) neq_Nil_conv)
qed

lemma disposed_refuses:
  assumes "st_disposed s"
  shows "\<exists>err. check_owner s ow = (Inl err :: 'm preparation_failure + _)"
  using assms by (auto simp: check_owner_def split: option.splits)

text \<open>A store that holds nothing and refuses every operation that would create, write or read.\<close>

definition revoked :: "store_state \<Rightarrow> bool" where
  "revoked s \<longleftrightarrow>
     (\<forall>k e. btm_get (st_owners s) k = Some e \<longrightarrow> os_phase e = DisposedPhase \<and> os_pieces e = [] \<and> os_projection e = None) \<and>
     (\<forall>b. create_owner b s = (Inl PF_Disposed :: unit preparation_failure + _, s)) \<and>
     (\<forall>slot ow. \<exists>err. begin_tx slot ow s = (Inl err :: unit preparation_failure + _, s)) \<and>
     (\<forall>ow. \<exists>err. current s ow = (Inl err :: unit preparation_failure + _)) \<and>
     (\<forall>ow name bs. put ow name bs s = (Inl TE_AccessDenied, s)) \<and>
     (\<forall>w scene. publish w scene s = (Inl PE_AccessDenied, s)) \<and>
     (\<forall>h name. plan_open h name s = Inl TE_AccessDenied) \<and>
     (\<forall>h view. plan_projection h view s = Inl PE_AccessDenied) \<and>
     (\<forall>p off n. read_piece p off n s = Some (Inl TE_AccessDenied, s))"

lemma disposed_revoked:
  assumes "store_ok s" and d: "st_disposed s"
  shows "revoked s"
  unfolding revoked_def
proof (intro conjI allI impI)
  fix k e assume "btm_get (st_owners s) k = Some e"
  then have "os_phase e = DisposedPhase" "entry_inv e" using assms by (auto simp: store_ok_def owners_of_def)
  then show "os_phase e = DisposedPhase" "os_pieces e = []" "os_projection e = None"
    by (auto simp: entry_inv_def idle_ok_def)
next
  fix slot ow show "\<exists>err. begin_tx slot ow s = (Inl err :: unit preparation_failure + _, s)"
    using disposed_refuses [OF d, of ow, where 'm = unit] by (auto simp: begin_tx_def and_then_def verify_def)
next
  fix ow show "\<exists>err. current s ow = (Inl err :: unit preparation_failure + _)"
    using disposed_refuses [OF d, of ow, where 'm = unit] by (auto simp: current_def and_then_def verify_def)
next
  fix ow name bs show "put ow name bs s = (Inl TE_AccessDenied, s)"
    using disposed_refuses [OF d, of ow, where 'm = unit] by (auto simp: put_def)
next
  fix w scene show "publish w scene s = (Inl PE_AccessDenied, s)"
    using disposed_refuses [OF d, of "pw_owner w", where 'm = unit] by (auto simp: publish_def with_entry_def)
next
  fix h name show "plan_open h name s = Inl TE_AccessDenied"
    using disposed_refuses [OF d, of h, where 'm = unit] by (auto simp: plan_open_def)
next
  fix h view show "plan_projection h view s = Inl PE_AccessDenied"
    using disposed_refuses [OF d, of h, where 'm = unit] by (auto simp: plan_projection_def)
next
  fix p off n show "read_piece p off n s = Some (Inl TE_AccessDenied, s)"
    using disposed_refuses [OF d, of "ph_owner p", where 'm = unit] by (auto simp: read_piece_def guard_acquire_def)
qed (simp add: create_owner_def d)

section \<open>Claims\<close>

text \<open>C18: in every reachable state the metadata of an owner tells exactly what is retained for it: a
  ready plan lists its pieces, counts every byte of payload, names and scenes, and has a scene for every
  requested view; a staging owner counts them as staged and retains nothing; an owner that is not
  started or disposed of holds nothing at all.\<close>

theorem prepared_plan_accounting:
  assumes "prep_reachable self y" and "btm_get (st_owners (sy_store y)) k = Some e"
  shows "case os_phase e of
      Ready \<Rightarrow>
        md_ready (os_metadata e) \<and> md_pieces (os_metadata e) = piece_lengths (os_pieces e) \<and>
        (\<forall>(name, p) \<in> set (os_pieces e). name \<noteq> [] \<and> unat (pc_len p) = length (pc_bytes p)) \<and>
        unat (md_retained_payload_bytes (os_metadata e)) = payload_size (os_pieces e) \<and>
        unat (md_retained_name_bytes (os_metadata e)) = names_size (os_pieces e) \<and>
        unat (da_retained_bytes (os_diagnostics e)) = scenes_size (os_projection e) \<and>
        publishable e
    | Staging \<Rightarrow>
        \<not> md_ready (os_metadata e) \<and>
        md_retained_payload_bytes (os_metadata e) = 0 \<and> da_retained_bytes (os_diagnostics e) = 0 \<and>
        unat (md_staged_payload_bytes (os_metadata e)) = payload_size (os_pieces e) \<and>
        unat (md_staged_name_bytes (os_metadata e)) = names_size (os_pieces e) \<and>
        unat (da_staged_bytes (os_diagnostics e)) = scenes_size (os_projection e)
    | _ \<Rightarrow>
        \<not> md_ready (os_metadata e) \<and> os_pieces e = [] \<and> os_projection e = None \<and>
        md_retained_payload_bytes (os_metadata e) = 0 \<and> md_staged_payload_bytes (os_metadata e) = 0 \<and>
        da_retained_bytes (os_diagnostics e) = 0 \<and> da_staged_bytes (os_diagnostics e) = 0"
proof -
  have "entry_inv e" using sys_inv_reachable [OF assms(1)] assms(2) by (auto simp: sys_inv_def store_ok_def owners_of_def)
  then show ?thesis
    by (cases "os_phase e")
      (auto simp: entry_inv_def idle_ok_def staging_ok_def ready_ok_def pieces_ok_def publishable_def missing_scene_None)
qed

theorem prepared_plan_accounting_witness:
  "\<exists>e. btm_get (st_owners (sy_store sample_published)) 0 = Some e \<and> os_phase e = Ready \<and>
     unat (md_retained_payload_bytes (os_metadata e)) = 3 \<and> md_pieces (os_metadata e) = [(''p'', 3)]"
proof (rule sample_published_entry)
  fix e assume e: "btm_get (st_owners (sy_store sample_published)) 0 = Some e" "os_phase e = Ready"
    "os_pieces e = [(''p'', \<lparr>pc_id = 0, pc_bytes = [10, 20, 30], pc_len = 3\<rparr>)]"
  show ?thesis
    using prepared_plan_accounting [OF sample_published_reachable e(1)] e by (simp add: payload_size_def piece_lengths_def)
qed

text \<open>C19: once an owner is ready, no sequence of operations of any client changes its plan: the same
  handle opens the same pieces and the same scenes until the plan is disposed of, after which both are
  refused.\<close>

theorem published_plan_immutable:
  assumes "prep_reachable self y" and "current (sy_store y) ow = (Inr h :: unit preparation_failure + _)"
    and "st_live (sy_store y)" and "prep_step\<^sup>*\<^sup>* y z"
  shows "(\<forall>name. plan_open h name (sy_store z) = plan_open h name (sy_store y)) \<and>
         (\<forall>view. plan_projection h view (sy_store z) = plan_projection h view (sy_store y)) \<or>
         (\<forall>name. plan_open h name (sy_store z) = Inl TE_AccessDenied) \<and>
         (\<forall>view. plan_projection h view (sy_store z) = Inl PE_AccessDenied)"
proof -
  have inv: "sys_inv y" by (rule sys_inv_reachable [OF assms(1)])
  obtain e where c: "check_owner (sy_store y) ow = (Inr e :: unit preparation_failure + _)" and r: "md_ready (os_metadata e)" and h: "h = ow"
    by (rule current_Inr [OF assms(2)])
  then have e: "owners_of (sy_store y) (ow_id ow) = Some e" by (simp add: check_owner_Inr)
  then have "os_phase e = Ready" using inv r by (auto simp: sys_inv_def store_ok_def entry_inv_def)
  note later = plan_later [OF assms(4) inv e this]
  show ?thesis
  proof (cases "check_owner (sy_store z) ow :: unit preparation_failure + owner_state")
    case (Inr e')
    then show ?thesis
      using later [OF Inr] entry_ready [of e'] c r assms(3) by (simp add: h plan_open_def plan_projection_def)
  qed (simp add: h plan_open_def plan_projection_def)
qed

theorem published_plan_immutable_witness:
  "\<exists>z. prep_step sample_published z \<and> sy_guards z = [sample_owner] \<and>
     plan_open sample_owner ''p'' (sy_store z) = plan_open sample_owner ''p'' (sy_store sample_published)"
proof (rule sample_published_entry)
  fix e assume e: "btm_get (st_owners (sy_store sample_published)) 0 = Some e" "os_phase e = Ready" "os_artifact_identity e = 7"
    "os_active_reads e = 0"
  let ?z = "sample_published\<lparr>sy_store := set_entry sample_owner (e\<lparr>os_active_reads := 1\<rparr>) (sy_store sample_published),
     sy_guards := sample_owner # sy_guards sample_published\<rparr>"
  have "guard_acquire sample_owner (sy_store sample_published) =
      (Inr (), set_entry sample_owner (e\<lparr>os_active_reads := 1\<rparr>) (sy_store sample_published))"
    using e by (simp add: guard_acquire_def check_owner_def sample_published_store sample_owner_def add_def checked_u64_def)
  then have step: "prep_step sample_published ?z" by (rule prep_step.acquire)
  then have run: "prep_step\<^sup>*\<^sup>* sample_published ?z" by blast
  have "plan_open sample_owner ''p'' (sy_store ?z) \<noteq> Inl TE_AccessDenied"
    using e by (simp add: plan_open_def check_owner_def set_entry_def sample_published_store sample_owner_def os_phase_def)
  then have "plan_open sample_owner ''p'' (sy_store ?z) = plan_open sample_owner ''p'' (sy_store sample_published)"
    using published_plan_immutable [OF sample_published_reachable sample_published_current sample_published_store(1) run]
    by blast
  then show ?thesis using step by (intro exI [of _ ?z]) (simp add: sample_published_store)
qed

text \<open>C20: whatever a producer stages in a transaction that finishes well can be opened by name and read
  back byte for byte later in the run: a read returns the requested range of the piece, cut at its end,
  an offset past the end is a range error, and dropping the guard of the read never panics.\<close>

theorem prepared_piece_roundtrip:
  assumes "prep_reachable self y" and "(tx, None) \<in> set (sy_txs y)" and "st_live (sy_store y)"
    and "put_all tx items (sy_store y) = (Inr (), s1)" and "pure_validator v"
    and "finish_tx tx result v s1 = (Inr h :: 'm preparation_failure + _, s2)"
    and "prep_step\<^sup>*\<^sup>* (y\<lparr>sy_store := s2, sy_txs := remove1 (tx, None) (sy_txs y)\<rparr>) z"
    and "st_live (sy_store z)" and "check_owner (sy_store z) tx = (Inr e :: unit preparation_failure + _)"
    and "unat (os_active_reads e) + 1 < 2 ^ 64" and "counters_free e n"
    and "(name, bs) \<in> set items"
  shows "\<exists>piece s'. plan_open h name (sy_store z) = Inr (Some piece) \<and> unat (ph_len piece) = length bs \<and>
     read_piece piece off n (sy_store z) =
       Some (if unat off \<le> length bs then Inr (take (unat n) (drop (unat off) bs)) else Inl TE_RangeError, s')"
proof -
  have inv: "sys_inv y" by (rule sys_inv_reachable [OF assms(1)])
  obtain e0 where e0: "owners_of (sy_store y) (ow_id tx) = Some e0" using open_entry [OF inv assms(3,2)] by (metis fst_conv)
  let ?y1 = "y\<lparr>sy_store := s1\<rparr>"
  obtain e1 q where inv1: "sys_inv ?y1" "st_live s1" and e1: "owners_of s1 (ow_id tx) = Some e1"
    and q: "btm_get (os_pieces e1) name = Some q" "pc_bytes q = bs"
    using put_all_stages [OF inv assms(2,3) e0 assms(4)] assms(12) by fastforce
  have tx: "(tx, None) \<in> set (sy_txs ?y1)" using assms(2) by simp
  have acc: "accepts result v tx e1 s1"
  proof (rule ccontr)
    assume rej: "\<not> accepts result v tx e1 s1"
    have c: "check_owner s1 tx = (Inr e1 :: 'm preparation_failure + _)" "staging_ok e1" "btm_wf (st_owners s1)"
      using open_owner [OF inv1(1) _ tx] inv1(2) e1 by simp_all
    show False using finish_rejected [OF inv1(2) c assms(5) rej] assms(6) by auto
  qed
  obtain e2 where h: "h = tx" and inv2: "sys_inv (y\<lparr>sy_store := s2, sy_txs := remove1 (tx, None) (sy_txs y)\<rparr>)"
    and e2: "owners_of s2 (ow_id tx) = Some e2" "os_phase e2 = Ready" "os_pieces e2 = os_pieces e1"
    using finish_publishes [OF inv1(1) tx _ assms(5), of e1 result] inv1(2) e1 acc assms(6) by auto
  have ready: "os_phase e = Ready" "os_pieces e = os_pieces e1" "entry_inv e"
    using plan_later [OF assms(7) inv2 _ e2(2) assms(9)] e2(1,3) by simp_all
  have len: "unat (pc_len q) = length bs" and ne: "name \<noteq> []"
    using ready(2,3) q by (auto simp: entry_inv_def pieces_ok_def btm_get_Some_iff)
  have e: "owners_of (sy_store z) (ow_id tx) = Some e" "os_artifact_identity e = ow_artifact_identity tx" "\<not> st_disposed (sy_store z)"
    using assms(9) by (simp_all add: check_owner_Inr)
  let ?h = "\<lparr>ph_owner = tx, ph_id = pc_id q, ph_len = pc_len q\<rparr>"
  have "plan_open h name (sy_store z) = Inr (Some ?h)"
    using assms(8,9) ready ne q entry_ready [of e] by (simp add: h plan_open_def)
  moreover have "btm_get (os_pieces e) name = Some q" using ready(2) q(1) by simp
  from read_piece_value [OF ready(3) e(1,2) assms(8) e(3) ready(1) this refl assms(10,11), of off]
  have "\<exists>s'. read_piece ?h off n (sy_store z) =
       Some (if unat off \<le> length bs then Inr (take (unat n) (drop (unat off) bs)) else Inl TE_RangeError, s')"
    by (simp only: q(2) word_le_nat_alt len)
  ultimately show ?thesis using len by auto
qed

theorem prepared_piece_roundtrip_witness:
  "\<exists>piece s'. plan_open sample_owner ''p'' (sy_store sample_published) = Inr (Some piece) \<and>
     read_piece piece 1 9 (sy_store sample_published) = Some (Inr [20, 30], s')"
proof (rule sample_published_entry)
  fix e assume e: "btm_get (st_owners (sy_store sample_published)) 0 = Some e" "os_phase e = Ready" "os_artifact_identity e = 7"
    "os_active_reads e = 0" "md_read_calls (os_metadata e) = 0" "md_requested_read_bytes (os_metadata e) = 0"
    "md_returned_read_bytes (os_metadata e) = 0"
  have c: "check_owner (sy_store sample_published) sample_owner = (Inr e :: unit preparation_failure + _)"
    using e by (simp add: check_owner_def sample_published_store sample_owner_def)
  have p: "put_all sample_owner [(''p'', [10, 20, 30])] (sy_store sample_open) = (Inr (), sample_put)"
    and f: "finish_tx sample_owner (Inr ()) accept_all sample_put = (Inr sample_owner, sy_store sample_published)"
    by (simp_all add: sample_open_def sample_published_def accept_all_def sample_defs store_eval)
  have run: "prep_step\<^sup>*\<^sup>* (sample_open\<lparr>sy_store := sy_store sample_published,
      sy_txs := remove1 (sample_owner, None) (sy_txs sample_open)\<rparr>) sample_published"
    by (simp add: sample_open_def sample_published_def)
  show ?thesis
    using prepared_piece_roundtrip [OF sample_open_reachable _ _ p _ f run sample_published_store(1) c, of 9 "''p''" "[10, 20, 30]" 1] e
    by (auto simp: sample_open_def sample_defs store_eval pure_validator_def accept_all_def counters_free_def)
qed

text \<open>C21: \<^verbatim>\<open>finish\<close> publishes everything or nothing.  With a validator that leaves the store alone it
  succeeds exactly when the producer and the validator succeeded, no writer or projection fault was
  recorded and every requested view has a scene; then the owner is ready with the staged pieces and
  scenes.  Otherwise the owner is back to not started, holds nothing, and has no current plan.  No
  other owner changes.\<close>

theorem finish_all_or_nothing:
  assumes "prep_reachable self y" and "(tx, None) \<in> set (sy_txs y)" and "st_live (sy_store y)" and "pure_validator v"
    and "btm_get (st_owners (sy_store y)) (ow_id tx) = Some e"
    and "finish_tx tx result v (sy_store y) = (r :: 'm preparation_failure + _, s')"
  shows "((\<exists>h. r = Inr h) \<longleftrightarrow>
           result = Inr () \<and> publishable e \<and>
           fst (v \<lparr>sp_owner = tx, sp_pieces = piece_lengths (os_pieces e)\<rparr> (sy_store y)) = Inr ()) \<and>
         (\<forall>k. k \<noteq> ow_id tx \<longrightarrow> btm_get (st_owners s') k = btm_get (st_owners (sy_store y)) k) \<and>
         (\<exists>e'. btm_get (st_owners s') (ow_id tx) = Some e' \<and>
           (case r of
              Inr h \<Rightarrow> h = tx \<and> os_phase e' = Ready \<and> os_pieces e' = os_pieces e \<and> os_projection e' = os_projection e
            | Inl _ \<Rightarrow> os_phase e' = Unready \<and> os_pieces e' = [] \<and> os_projection e' = None \<and> \<not> md_ready (os_metadata e')))"
proof -
  have inv: "sys_inv y" by (rule sys_inv_reachable [OF assms(1)])
  have e: "owners_of (sy_store y) (ow_id tx) = Some e" using assms(5) by (simp add: owners_of_def)
  show ?thesis
  proof (cases "accepts result v tx e (sy_store y)")
    case True
    then obtain e' where "r = Inr tx" "owners_of s' = (owners_of (sy_store y))(ow_id tx \<mapsto> e')" "os_phase e' = Ready"
      "os_pieces e' = os_pieces e" "os_projection e' = os_projection e"
      using finish_publishes [OF inv assms(2,3,4) e True] assms(6) by auto
    then show ?thesis using True by (simp add: accepts_def owners_of_def)
  next
    case False
    note c = open_owner(1) [OF inv assms(3,2) e, where 'm = 'm] open_owner(4,5) [OF inv assms(3,2) e]
    obtain err e1 where "r = Inl err" "owners_of s' = (owners_of (sy_store y))(ow_id tx \<mapsto> clear Unready e1)"
      using finish_rejected [OF assms(3) c assms(4) False] assms(6) by auto
    then show ?thesis using False by (auto simp: accepts_def owners_of_def clear_def os_phase_def)
  qed
qed

theorem finish_all_or_nothing_witness:
  "\<exists>s' e'. finish_tx sample_owner (Inl (PF_Trap ''t'')) accept_all (sy_store sample_open) = (Inl (PF_Trap ''t''), s') \<and>
     btm_get (st_owners s') 0 = Some e' \<and> os_phase e' = Unready"
proof -
  obtain e where e: "btm_get (st_owners (sy_store sample_open)) (ow_id sample_owner) = Some e"
    by (simp add: sample_open_def sample_defs store_eval)
  let ?s = "drop_transaction sample_owner (sy_store sample_open)"
  have f: "finish_tx sample_owner (Inl (PF_Trap ''t'')) accept_all (sy_store sample_open) = (Inl (PF_Trap ''t''), ?s)"
    by (simp add: finish_tx_def producer_failed_def)
  have "(sample_owner, None) \<in> set (sy_txs sample_open)" "st_live (sy_store sample_open)" "pure_validator accept_all"
    by (simp_all add: sample_open_def sample_defs store_eval pure_validator_def accept_all_def)
  from finish_all_or_nothing [OF sample_open_reachable this e f] f show ?thesis
    by (auto simp: sample_owner_def)
qed

text \<open>C22: disposal of the store succeeds exactly when nobody holds its mutex and no transaction and no
  read guard is open; otherwise it reports busy and changes nothing.  After a disposal, and after any
  further operations, every owner is disposed of and empty, and no token can create, begin, write,
  publish, open, acquire or read.\<close>

theorem store_disposal:
  assumes "prep_reachable self y" and "st_live (sy_store y)"
    and "dispose locked (sy_store y) = (r :: 'm preparation_failure + unit, s')"
  shows "(r = Inr () \<longleftrightarrow> \<not> locked \<and> sy_txs y = [] \<and> sy_guards y = []) \<and>
     (r \<noteq> Inr () \<longrightarrow> r = Inl PF_Busy \<and> s' = sy_store y) \<and>
     (r = Inr () \<longrightarrow> (\<forall>z. prep_step\<^sup>*\<^sup>* (y\<lparr>sy_store := s'\<rparr>) z \<longrightarrow> revoked (sy_store z)))"
proof (intro conjI impI allI)
  have inv: "sys_inv y" by (rule sys_inv_reachable [OF assms(1)])
  show "r = Inr () \<longleftrightarrow> \<not> locked \<and> sy_txs y = [] \<and> sy_guards y = []"
    and "r \<noteq> Inr () \<Longrightarrow> r = Inl PF_Busy" and "r \<noteq> Inr () \<Longrightarrow> s' = sy_store y"
    using busy_users [OF inv assms(2)] assms(3) by (auto simp: dispose_def split: if_splits)
  fix z assume "r = Inr ()" and run: "prep_step\<^sup>*\<^sup>* (y\<lparr>sy_store := s'\<rparr>) z"
  then have "st_disposed s'" using assms(3) by (auto simp: dispose_def split: if_splits)
  then have d: "st_disposed (sy_store z)" using steps_disposed [OF run] by simp
  have "sys_inv (y\<lparr>sy_store := s'\<rparr>)" using step_dispose [OF inv assms(2), of locked, where 'm = 'm] assms(3) by simp
  then have "store_ok (sy_store z)" using sys_inv_steps [OF run] by (simp add: sys_inv_def)
  then show "revoked (sy_store z)" using d by (rule disposed_revoked)
qed

theorem store_disposal_witness:
  "\<exists>s'. dispose False (sy_store sample_published) = (Inr () :: unit preparation_failure + _, s') \<and> revoked s'"
proof -
  obtain r s' where d: "dispose False (sy_store sample_published) = (r :: unit preparation_failure + _, s')" by force
  note t = store_disposal [OF sample_published_reachable sample_published_store(1) d]
  have r: "r = Inr ()" using t by (simp add: sample_published_store)
  have "revoked (sy_store (sample_published\<lparr>sy_store := s'\<rparr>))" using t r by blast
  then show ?thesis using d r by simp
qed

end
