(* ===== verification/Thumbnails.thy ===== *)
theory Thumbnails
  imports Floats
begin

text \<open>
  Thumbnails in the G-code header, \<^verbatim>\<open>crates/slicer-gcode/src/thumbnail.rs\<close>,
  \<^verbatim>\<open>thumbnail_colpic.rs\<close> and \<^verbatim>\<open>thumbnail_btt.rs\<close>: the parser of the requested sizes,
  base64, the ColPic and BTT codecs, and the framing of the block.  Decoding, resizing and the PNG, JPEG
  and QOI encoders belong to the \<^verbatim>\<open>image\<close> crate and are parameters, as is the Unicode upper
  case of the standard library.
\<close>

unbundle bit_operations_syntax

section \<open>Formats and requests\<close>

datatype thumbnail_format = Png | Jpg | Qoi | BttTft | ColPic

fun tag :: "thumbnail_format \<Rightarrow> string" where
  "tag Png = ''thumbnail''"
| "tag Jpg = ''thumbnail_JPG''"
| "tag Qoi = ''thumbnail_QOI''"
| "tag BttTft = ''thumbnail_BIQU''"
| "tag ColPic = ''thumbnail_QIDI''"

definition from_ext :: "string \<Rightarrow> thumbnail_format option" where
  "from_ext ext =
     (if ext = ''PNG'' then Some Png
      else if ext = ''JPG'' \<or> ext = ''JPEG'' then Some Jpg
      else if ext = ''QOI'' then Some Qoi
      else if ext = ''BTT_TFT'' then Some BttTft
      else if ext = ''COLPIC'' then Some ColPic
      else None)"

record thumbnail_spec =
  ts_width :: u32
  ts_height :: u32
  ts_format :: thumbnail_format

datatype thumbnail_error = MalformedSpec string string | DecodeError string | EncodeError string string

definition dim_of :: "string \<Rightarrow> string \<Rightarrow> string \<Rightarrow> thumbnail_error + u32" where
  "dim_of entry what text =
     (case parse_u32 (trim text) of
        Some n \<Rightarrow> Inr n
      | None \<Rightarrow> Inl (MalformedSpec entry (''invalid '' @ what @ '' `'' @ trim text @ ''`'')))"

definition parse_entry :: "(string \<Rightarrow> string) \<Rightarrow> string \<Rightarrow> thumbnail_error + thumbnail_spec" where
  "parse_entry to_uppercase entry =
     (case split_once (CHR ''/'') entry of
        None \<Rightarrow> Inl (MalformedSpec entry ''missing extension (expected WxH/EXT)'')
      | Some (dims, ext) \<Rightarrow>
         (case split_once (CHR ''x'') (trim dims) of
            None \<Rightarrow> Inl (MalformedSpec entry ''missing height (expected WxH/EXT)'')
          | Some (w, h) \<Rightarrow>
             (case dim_of entry ''width'' w of
                Inl e \<Rightarrow> Inl e
              | Inr width \<Rightarrow>
                 (case dim_of entry ''height'' h of
                    Inl e \<Rightarrow> Inl e
                  | Inr height \<Rightarrow>
                     (case from_ext (to_uppercase (trim ext)) of
                        None \<Rightarrow> Inl (MalformedSpec entry (''unsupported extension `'' @ to_uppercase (trim ext) @ ''`''))
                      | Some fmt \<Rightarrow> Inr \<lparr>ts_width = width, ts_height = height, ts_format = fmt\<rparr>)))))"

fun parse_entries :: "(string \<Rightarrow> string) \<Rightarrow> string list \<Rightarrow> thumbnail_error + thumbnail_spec list" where
  "parse_entries up [] = Inr []"
| "parse_entries up (entry # entries) =
     (if trim entry = [] then parse_entries up entries
      else case parse_entry up (trim entry) of
          Inl e \<Rightarrow> Inl e
        | Inr spec \<Rightarrow>
           (case parse_entries up entries of Inl e \<Rightarrow> Inl e | Inr specs \<Rightarrow> Inr (spec # specs)))"

definition parse_thumbnails_key :: "(string \<Rightarrow> string) \<Rightarrow> string \<Rightarrow> thumbnail_error + thumbnail_spec list" where
  "parse_thumbnails_key to_uppercase text =
     (if trim text = [] then Inr [] else parse_entries to_uppercase (split_char (CHR '','') text))"

section \<open>Base64\<close>

text \<open>\<^verbatim>\<open>slice::chunks\<close>.\<close>

function chunks :: "nat \<Rightarrow> 'a list \<Rightarrow> 'a list list" where
  "chunks n xs = (if xs = [] \<or> n = 0 then [] else take n xs # chunks n (drop n xs))"
  by pat_completeness auto

termination
  by (relation "measure (length \<circ> snd)") auto

declare chunks.simps [simp del]

definition TABLE :: string where
  "TABLE = ''ABCDEFGHIJKLMNOPQRSTUVWXYZabcdefghijklmnopqrstuvwxyz0123456789+/''"

definition combine :: "u8 \<Rightarrow> u8 \<Rightarrow> u8 \<Rightarrow> u32" where
  "combine b0 b1 b2 = (push_bit 16 (ucast b0) OR push_bit 8 (ucast b1)) OR ucast b2"

definition sextet :: "nat \<Rightarrow> u32 \<Rightarrow> u32" where
  "sextet shift combined = drop_bit shift combined AND 63"

definition encode_chunk :: "u8 list \<Rightarrow> string" where
  "encode_chunk chunk =
     (let b0 = chunk ! 0;
          b1 = (if 1 < length chunk then chunk ! 1 else 0);
          b2 = (if 2 < length chunk then chunk ! 2 else 0);
          combined = combine b0 b1 b2
      in [TABLE ! unat (sextet 18 combined), TABLE ! unat (sextet 12 combined),
          if 1 < length chunk then TABLE ! unat (sextet 6 combined) else CHR ''='',
          if 2 < length chunk then TABLE ! unat (sextet 0 combined) else CHR ''=''])"

definition encode_base64 :: "u8 list \<Rightarrow> string" where
  "encode_base64 data = concat (map encode_chunk (chunks 3 data))"

definition sextet_value :: "nat \<Rightarrow> u32 option" where
  "sextet_value c =
     (if 65 \<le> c \<and> c \<le> 90 then Some (of_nat (c - 65))
      else if 97 \<le> c \<and> c \<le> 122 then Some (of_nat (c - 97 + 26))
      else if 48 \<le> c \<and> c \<le> 57 then Some (of_nat (c - 48 + 52))
      else if c = 43 then Some 62
      else if c = 47 then Some 63
      else None)"

text \<open>The message of an invalid character quotes it with \<^verbatim>\<open>{:?}\<close>; the error carries the character.\<close>

fun decode_loop :: "string \<Rightarrow> u32 \<Rightarrow> nat \<Rightarrow> u8 list \<Rightarrow> char + u8 list" where
  "decode_loop [] acc nbits buf = Inr buf"
| "decode_loop (c # s) acc nbits buf =
     (if c = CHR ''='' then decode_loop s acc nbits buf
      else case sextet_value (of_char c) of
          None \<Rightarrow> Inl c
        | Some v \<Rightarrow>
            let acc' = push_bit 6 acc OR v; nbits' = nbits + 6
            in if 8 \<le> nbits' then decode_loop s acc' (nbits' - 8) (buf @ [ucast (drop_bit (nbits' - 8) acc')])
               else decode_loop s acc' nbits' buf)"

definition decode_base64 :: "string \<Rightarrow> char + u8 list" where
  "decode_base64 s = decode_loop s 0 0 []"

section \<open>Images\<close>

text \<open>What the codecs use of an \<^verbatim>\<open>RgbaImage\<close>.\<close>

record rgba_image =
  im_width :: u32
  im_height :: u32
  im_pixel :: "u32 \<Rightarrow> u32 \<Rightarrow> u8 \<times> u8 \<times> u8 \<times> u8"

definition to_rgb565 :: "u8 \<Rightarrow> u8 \<Rightarrow> u8 \<Rightarrow> u16" where
  "to_rgb565 r g b =
     (push_bit 11 (ucast (drop_bit 3 r)) OR push_bit 5 (ucast (drop_bit 2 g))) OR ucast (drop_bit 3 b)"

definition pixel565 :: "rgba_image \<Rightarrow> u32 \<Rightarrow> u32 \<Rightarrow> u16" where
  "pixel565 img x y = (case im_pixel img x y of (r, g, b, _) \<Rightarrow> to_rgb565 r g b)"

definition image_rows :: "rgba_image \<Rightarrow> u16 list list" where
  "image_rows img =
     map (\<lambda>y. map (\<lambda>x. pixel565 img (of_nat x) (of_nat y)) [0..<unat (im_width img)]) [0..<unat (im_height img)]"

section \<open>BTT TFT\<close>

definition hex_digit :: "nat \<Rightarrow> char" where
  "hex_digit d = (if d < 10 then char_of (48 + d) else char_of (55 + d))"

fun hex_nat :: "nat \<Rightarrow> string" where
  "hex_nat n = (if n < 16 then [hex_digit n] else hex_nat (n div 16) @ [hex_digit (n mod 16)])"

declare hex_nat.simps [simp del]

definition hex4 :: "nat \<Rightarrow> string" where
  "hex4 n = replicate (4 - length (hex_nat n)) (CHR ''0'') @ hex_nat n"

definition CRLF :: string where
  "CRLF = [char_of (13 :: nat), char_of (10 :: nat)]"

definition btt_row :: "u16 list \<Rightarrow> string" where
  "btt_row row = '';'' @ concat (map (\<lambda>v. hex4 (unat v)) row) @ CRLF"

definition encode_btt_tft :: "rgba_image \<Rightarrow> string" where
  "encode_btt_tft img =
     '';'' @ hex4 (unat (im_width img)) @ hex4 (unat (im_height img)) @ CRLF @
     concat (map btt_row (image_rows img))"

section \<open>ColPic\<close>

definition MAX_DIM :: u32 where
  "MAX_DIM = 512"

definition CHUNK_SIZE :: nat where
  "CHUNK_SIZE = 256"

text \<open>\<^verbatim>\<open>f64::round\<close> followed by \<^verbatim>\<open>as u32\<close>: half away from zero, saturating, NaN to 0.\<close>

definition f64_round_u32 :: "u64 \<Rightarrow> u32" where
  "f64_round_u32 v =
     (if f64_is_nan v then 0
      else if f64_neg v then 0
      else if \<not> f64_is_finite v then - 1
      else let (n, d) = f64_fraction v; r = (2 * n + d) div (2 * d)
           in if 2 ^ 32 \<le> r then - 1 else of_int r)"

definition scaled_dim :: "u32 \<Rightarrow> u32 \<Rightarrow> u32" where
  "scaled_dim short long =
     f64_round_u32 (f64_mul (f64_of_int (uint short)) (f64_div (f64_of_int (uint MAX_DIM)) (f64_of_int (uint long))))"

definition capped_dims :: "u32 \<Rightarrow> u32 \<Rightarrow> u32 \<times> u32" where
  "capped_dims w h =
     (if w \<le> MAX_DIM \<and> h \<le> MAX_DIM then (w, h)
      else if h \<le> w then (MAX_DIM, scaled_dim h w)
      else (scaled_dim w h, MAX_DIM))"

record palette_entry =
  pe_color :: u16
  pe_qty :: nat

fun count_color :: "u16 \<Rightarrow> palette_entry list \<Rightarrow> palette_entry list option" where
  "count_color c [] = None"
| "count_color c (e # es) =
     (if pe_color e = c then Some (e\<lparr>pe_qty := pe_qty e + 1\<rparr> # es) else map_option ((#) e) (count_color c es))"

definition adlist_step :: "nat \<Rightarrow> palette_entry list \<Rightarrow> u16 \<Rightarrow> palette_entry list" where
  "adlist_step maxqty entries c =
     (case count_color c entries of
        Some entries' \<Rightarrow> entries'
      | None \<Rightarrow> if length entries < maxqty then entries @ [\<lparr>pe_color = c, pe_qty = 1\<rparr>] else entries)"

definition adlist0 :: "u16 list \<Rightarrow> nat \<Rightarrow> palette_entry list" where
  "adlist0 pixels maxqty = foldl (adlist_step maxqty) [] pixels"

definition palette :: "u16 list \<Rightarrow> nat \<Rightarrow> palette_entry list" where
  "palette pixels maxqty = sort_key (\<lambda>e. - int (pe_qty e)) (adlist0 pixels maxqty)"

fun position :: "u16 \<Rightarrow> palette_entry list \<Rightarrow> nat option" where
  "position c [] = None"
| "position c (e # es) = (if pe_color e = c then Some 0 else map_option Suc (position c es))"

definition palette_index :: "palette_entry list \<Rightarrow> u16 \<Rightarrow> nat" where
  "palette_index pal c = (case position c pal of Some i \<Rightarrow> i | None \<Rightarrow> 0)"

fun run_length :: "u16 \<Rightarrow> nat \<Rightarrow> u16 list \<Rightarrow> nat" where
  "run_length c run [] = run"
| "run_length c run (x # xs) = (if x = c \<and> run < 255 then run_length c (run + 1) xs else run)"

lemma run_length_ge: "run \<le> run_length c run xs"
  by (induction xs arbitrary: run) (auto intro: le_trans [OF le_SucI [OF order_refl]])

lemma run_length_pos [simp]: "0 < run_length c (Suc 0) xs"
  using run_length_ge [of "Suc 0" c xs] by simp

definition run_bytes :: "nat \<Rightarrow> nat \<Rightarrow> u8 list" where
  "run_bytes tid run =
     (if run \<le> 6 then [push_bit 5 (of_nat run) OR of_nat tid] else [of_nat tid, of_nat run])"

function rle_loop :: "(u16 \<Rightarrow> nat) \<Rightarrow> u16 list \<Rightarrow> int \<Rightarrow> u8 list" where
  "rle_loop index [] last_sid = []"
| "rle_loop index (c # rest) last_sid =
     (let idx = index c; tid = idx mod 32; sid = idx div 32; run = run_length c 1 rest
      in (if int sid \<noteq> last_sid then [push_bit 5 7 OR of_nat sid] else []) @ run_bytes tid run @
         rle_loop index (drop run (c # rest)) (int sid))"
  by pat_completeness auto

termination
  by (relation "measure (length \<circ> fst \<circ> snd)") (auto simp: diff_less_Suc intro!: diff_less)

definition byte8bit_encode :: "u16 list \<Rightarrow> nat \<Rightarrow> u8 list" where
  "byte8bit_encode pixels maxqty = rle_loop (palette_index (palette pixels maxqty)) pixels (- 1)"

definition colpic_encode :: "rgba_image \<Rightarrow> u8 list" where
  "colpic_encode img = byte8bit_encode (concat (image_rows img)) 1024"

definition pad3 :: "u8 list \<Rightarrow> u8 list" where
  "pad3 data = data @ replicate ((3 - length data mod 3) mod 3) 0"

definition colpic_char :: "u32 \<Rightarrow> char" where
  "colpic_char v = (let ch = unat v + 48 in if ch = 0x5C then char_of (126 :: nat) else char_of ch)"

definition colpic_quad :: "u8 list \<Rightarrow> string" where
  "colpic_quad chunk =
     (let combined = combine (chunk ! 0) (chunk ! 1) (chunk ! 2)
      in map (\<lambda>k. colpic_char (sextet (k * 6) combined)) [3, 2, 1, 0])"

definition colpic_encode_str :: "rgba_image \<Rightarrow> string" where
  "colpic_encode_str img = concat (map colpic_quad (chunks 3 (pad3 (colpic_encode img))))"

definition colpic_lines :: "string \<Rightarrow> string" where
  "colpic_lines encoded =
     (case chunks CHUNK_SIZE encoded of
        [] \<Rightarrow> []
      | first # rest \<Rightarrow>
          '';gimage:'' @ first @ [char_of (10 :: nat), char_of (10 :: nat)] @
          concat (map (\<lambda>chunk. '';simage:'' @ chunk @ [char_of (10 :: nat), char_of (10 :: nat)]) rest))"

definition encode_colpic :: "(rgba_image \<Rightarrow> u32 \<Rightarrow> u32 \<Rightarrow> rgba_image) \<Rightarrow> rgba_image \<Rightarrow> string" where
  "encode_colpic resize img =
     (let (w, h) = capped_dims (im_width img) (im_height img);
          target = (if w = im_width img \<and> h = im_height img then img else resize img w h)
      in colpic_lines (colpic_encode_str target))"

definition encode_colpic_with_capped_dims ::
    "(rgba_image \<Rightarrow> u32 \<Rightarrow> u32 \<Rightarrow> rgba_image) \<Rightarrow> rgba_image \<Rightarrow> string \<times> u32 \<times> u32" where
  "encode_colpic_with_capped_dims resize img = (encode_colpic resize img, capped_dims (im_width img) (im_height img))"

section \<open>Rendering\<close>

datatype thumbnail_body = Base64 string | Raw string

record rendered_thumbnail =
  rt_format :: thumbnail_format
  rt_width :: u32
  rt_height :: u32
  rt_body :: thumbnail_body

text \<open>The \<^verbatim>\<open>image\<close> crate.\<close>

record image_crate =
  ic_load_png :: "u8 list \<Rightarrow> string + rgba_image"
  ic_resize :: "rgba_image \<Rightarrow> u32 \<Rightarrow> u32 \<Rightarrow> rgba_image"
  ic_png :: "rgba_image \<Rightarrow> string + u8 list"
  ic_jpeg90 :: "rgba_image \<Rightarrow> string + u8 list"
  ic_qoi :: "rgba_image \<Rightarrow> string + u8 list"

definition base64_body :: "string \<Rightarrow> string + u8 list \<Rightarrow> thumbnail_error + thumbnail_body" where
  "base64_body fmt encoded =
     (case encoded of Inl reason \<Rightarrow> Inl (EncodeError fmt reason) | Inr buf \<Rightarrow> Inr (Base64 (encode_base64 buf)))"

definition render_body ::
    "image_crate \<Rightarrow> u8 list \<Rightarrow> rgba_image \<Rightarrow> thumbnail_spec \<Rightarrow> thumbnail_error + thumbnail_body" where
  "render_body crate source_png rgba spec =
     (let resized = ic_resize crate rgba (ts_width spec) (ts_height spec)
      in case ts_format spec of
           Png \<Rightarrow>
             if ts_width spec = im_width rgba \<and> ts_height spec = im_height rgba
             then Inr (Base64 (encode_base64 source_png))
             else base64_body ''PNG'' (ic_png crate resized)
         | Jpg \<Rightarrow> base64_body ''JPG'' (ic_jpeg90 crate resized)
         | Qoi \<Rightarrow> base64_body ''QOI'' (ic_qoi crate resized)
         | BttTft \<Rightarrow> Inr (Raw (encode_btt_tft resized))
         | ColPic \<Rightarrow> Inr (Raw (encode_colpic (ic_resize crate) resized)))"

fun render_specs ::
    "image_crate \<Rightarrow> u8 list \<Rightarrow> rgba_image \<Rightarrow> thumbnail_spec list \<Rightarrow> thumbnail_error + rendered_thumbnail list" where
  "render_specs crate source_png rgba [] = Inr []"
| "render_specs crate source_png rgba (spec # specs) =
     (case render_body crate source_png rgba spec of
        Inl e \<Rightarrow> Inl e
      | Inr body \<Rightarrow>
         (case render_specs crate source_png rgba specs of
            Inl e \<Rightarrow> Inl e
          | Inr out \<Rightarrow>
              Inr (\<lparr>rt_format = ts_format spec, rt_width = ts_width spec, rt_height = ts_height spec, rt_body = body\<rparr> # out)))"

definition render_thumbnail_entries ::
    "image_crate \<Rightarrow> u8 list \<Rightarrow> thumbnail_spec list \<Rightarrow> thumbnail_error + rendered_thumbnail list" where
  "render_thumbnail_entries crate source_png specs =
     (case ic_load_png crate source_png of
        Inl e \<Rightarrow> Inl (DecodeError e)
      | Inr rgba \<Rightarrow> render_specs crate source_png rgba specs)"

definition MAX_ROW_LENGTH :: nat where
  "MAX_ROW_LENGTH = 78"

definition line :: "string \<Rightarrow> string" where
  "line text = text @ [char_of (10 :: nat)]"

function base64_rows :: "string \<Rightarrow> string list" where
  "base64_rows remaining =
     (if MAX_ROW_LENGTH < length remaining
      then take MAX_ROW_LENGTH remaining # base64_rows (drop MAX_ROW_LENGTH remaining)
      else if remaining \<noteq> [] then [remaining] else [])"
  by pat_completeness auto

termination
  by (relation "measure length") (auto simp: MAX_ROW_LENGTH_def)

declare base64_rows.simps [simp del]

definition entry_lines :: "rendered_thumbnail \<Rightarrow> string" where
  "entry_lines entry =
     (case rt_body entry of
        Base64 s \<Rightarrow>
          line (''; '' @ tag (rt_format entry) @ '' begin '' @ dec_nat (unat (rt_width entry)) @ ''x'' @
                dec_nat (unat (rt_height entry)) @ '' '' @ dec_nat (length s)) @
          concat (map (\<lambda>row. line (''; '' @ row)) (base64_rows s)) @
          line (''; '' @ tag (rt_format entry) @ '' end'')
      | Raw s \<Rightarrow> s)"

definition serialize_thumbnail_block :: "rendered_thumbnail list \<Rightarrow> string" where
  "serialize_thumbnail_block entries =
     line ''; THUMBNAIL_BLOCK_START'' @ concat (map entry_lines entries) @ line ''; THUMBNAIL_BLOCK_END''"

end
