(* ===== verification/ThumbnailCodecs.thy ===== *)
theory ThumbnailCodecs
  imports Thumbnails
begin

text \<open>
  The thumbnail codecs decode to what was encoded.
\<close>

section \<open>Base64\<close>

lemma mask63: "(63 :: u32) = mask 6"
  by (simp add: mask_eq_exp_minus_1)

lemma sextet_less: "unat (sextet k w) < 64"
proof -
  have "sextet k w = take_bit 6 (drop_bit k w)" by (simp only: sextet_def mask63 take_bit_eq_mask)
  then show ?thesis by (simp add: take_bit_eq_mod unat_mod)
qed

lemma table_values: "list_all (\<lambda>n. TABLE ! n \<noteq> CHR ''='' \<and> sextet_value (of_char (TABLE ! n)) = Some (of_nat n)) [0..<64]"
  by code_simp

lemma table_value:
  "n < 64 \<Longrightarrow> TABLE ! n \<noteq> CHR ''='' \<and> sextet_value (of_char (TABLE ! n)) = Some (of_nat n)"
  using table_values by (auto simp: list_all_iff)

definition feed :: "u32 \<Rightarrow> u32 \<Rightarrow> u32" where
  "feed acc v = push_bit 6 acc OR v"

lemma decode_table:
  "decode_loop (TABLE ! unat (sextet k w) # s) acc nbits buf =
     (if 2 \<le> nbits
      then decode_loop s (feed acc (sextet k w)) (nbits - 2) (buf @ [ucast (drop_bit (nbits - 2) (feed acc (sextet k w)))])
      else decode_loop s (feed acc (sextet k w)) (nbits + 6) buf)"
  using table_value [OF sextet_less [of k w]] by (auto simp: Let_def feed_def)

lemma bit_feed: "bit (feed acc v) n \<longleftrightarrow> (6 \<le> n \<and> n < 32 \<and> bit acc (n - 6)) \<or> bit v n"
  by (auto simp: feed_def bit_or_iff bit_push_bit_iff dest: bit_imp_le_length)

lemma bit_sextet: "bit (sextet k w) n \<longleftrightarrow> n < 6 \<and> bit w (k + n)"
  by (auto simp: sextet_def mask63 bit_and_iff bit_mask_iff bit_drop_bit_eq)

lemma bit_combine:
  "bit (combine a b c) n \<longleftrightarrow> (16 \<le> n \<and> bit a (n - 16)) \<or> (8 \<le> n \<and> bit b (n - 8)) \<or> bit c n"
proof -
  have "bit (x :: u8) m \<Longrightarrow> m < 8" for x m using bit_imp_le_length [of x m] by simp
  then show ?thesis by (force simp: combine_def bit_or_iff bit_push_bit_iff bit_ucast_iff)
qed

lemma Suc_Suc_diff: "2 \<le> n \<Longrightarrow> Suc (Suc (n - 2)) = n"
  by arith

lemma bit_u8: "bit (x :: u8) m \<Longrightarrow> m < 8"
  using bit_imp_le_length [of x m] by simp

lemma feed_first: "(ucast (drop_bit 4 (feed (feed acc (sextet 18 (combine a b c))) (sextet 12 (combine a b c)))) :: u8) = a"
proof (rule bit_word_eqI)
  fix n assume n: "n < LENGTH(8)"
  have "bit (ucast (drop_bit 4 (feed (feed acc (sextet 18 (combine a b c))) (sextet 12 (combine a b c)))) :: u8) n \<longleftrightarrow> bit (feed (feed acc (sextet 18 (combine a b c))) (sextet 12 (combine a b c))) (n + 4)"
    using n by (simp add: bit_ucast_iff bit_drop_bit_eq add.commute)
  also have "\<dots> \<longleftrightarrow> bit a n"
    using n unfolding bit_feed bit_sextet bit_combine by (auto simp: Suc_Suc_diff dest: bit_u8)
  finally show "bit (ucast (drop_bit 4 (feed (feed acc (sextet 18 (combine a b c))) (sextet 12 (combine a b c)))) :: u8) n = bit a n" .
qed

lemma feed_second: "(ucast (drop_bit 2 (feed (feed acc (sextet 12 (combine a b c))) (sextet 6 (combine a b c)))) :: u8) = b"
proof (rule bit_word_eqI)
  fix n assume n: "n < LENGTH(8)"
  have "bit (ucast (drop_bit 2 (feed (feed acc (sextet 12 (combine a b c))) (sextet 6 (combine a b c)))) :: u8) n \<longleftrightarrow> bit (feed (feed acc (sextet 12 (combine a b c))) (sextet 6 (combine a b c))) (n + 2)"
    using n by (simp add: bit_ucast_iff bit_drop_bit_eq add.commute)
  also have "\<dots> \<longleftrightarrow> bit b n"
    using n unfolding bit_feed bit_sextet bit_combine by (auto simp: Suc_Suc_diff dest: bit_u8)
  finally show "bit (ucast (drop_bit 2 (feed (feed acc (sextet 12 (combine a b c))) (sextet 6 (combine a b c)))) :: u8) n = bit b n" .
qed

lemma feed_third: "(ucast (feed (feed acc (sextet 6 (combine a b c))) (sextet 0 (combine a b c))) :: u8) = c"
proof (rule bit_word_eqI)
  fix n assume n: "n < LENGTH(8)"
  have "bit (ucast (feed (feed acc (sextet 6 (combine a b c))) (sextet 0 (combine a b c))) :: u8) n \<longleftrightarrow> bit (feed (feed acc (sextet 6 (combine a b c))) (sextet 0 (combine a b c))) (n + 0)"
    using n by (simp add: bit_ucast_iff bit_drop_bit_eq add.commute)
  also have "\<dots> \<longleftrightarrow> bit c n"
    using n unfolding bit_feed bit_sextet bit_combine by (auto simp: Suc_Suc_diff dest: bit_u8)
  finally show "bit (ucast (feed (feed acc (sextet 6 (combine a b c))) (sextet 0 (combine a b c))) :: u8) n = bit c n" .
qed

lemma decode_pad: "decode_loop (CHR ''='' # s) acc nbits buf = decode_loop s acc nbits buf"
  by simp

lemmas decode_steps = encode_chunk_def Let_def decode_table decode_pad feed_first feed_second feed_third

lemma decode_chunk3: "\<exists>acc'. decode_loop (encode_chunk [a, b, c] @ s) acc 0 buf = decode_loop s acc' 0 (buf @ [a, b, c])"
  by (auto simp: decode_steps simp del: decode_loop.simps(2))

lemma decode_chunk2: "decode_loop (encode_chunk [a, b]) acc 0 buf = Inr (buf @ [a, b])"
  by (simp add: decode_steps del: decode_loop.simps(2))

lemma decode_chunk1: "decode_loop (encode_chunk [a]) acc 0 buf = Inr (buf @ [a])"
  by (simp add: decode_steps del: decode_loop.simps(2))

lemma chunks_Nil [simp]: "chunks n [] = []"
  by (subst chunks.simps) simp

lemma chunks_append: "length xs = n \<Longrightarrow> 0 < n \<Longrightarrow> chunks n (xs @ ys) = xs # chunks n ys"
  by (subst chunks.simps) auto

lemma chunks_short: "xs \<noteq> [] \<Longrightarrow> length xs \<le> n \<Longrightarrow> chunks n xs = [xs]"
  by (subst chunks.simps) (cases n; simp)

lemma concat_chunks: "0 < n \<Longrightarrow> concat (chunks n xs) = xs"
proof (induction n xs rule: chunks.induct)
  case (1 n xs)
  then show ?case by (subst chunks.simps) auto
qed

lemma triples:
  obtains "xs = []" | a where "xs = [a]" | a b where "xs = [a, b]" | a b c ys where "xs = [a, b, c] @ ys"
  by (cases xs; cases "tl xs"; cases "tl (tl xs)") auto

lemma decode_encode: "decode_loop (encode_base64 data) acc 0 buf = Inr (buf @ data)"
proof (induction "length data" arbitrary: data acc buf rule: less_induct)
  case less
  show ?case
  proof (cases rule: triples [of data])
    case (4 a b c ys)
    have "decode_loop (encode_base64 ys) acc' 0 buf' = Inr (buf' @ ys)" for acc' buf' by (rule less) (simp add: 4)
    moreover have "encode_base64 data = encode_chunk [a, b, c] @ encode_base64 ys"
      using chunks_append [of "[a, b, c]" 3 ys] by (simp add: encode_base64_def 4 del: append_Cons)
    ultimately show ?thesis using decode_chunk3 [of a b c "encode_base64 ys" acc buf] 4 by auto
  qed (simp_all add: encode_base64_def chunks_short decode_chunk1 decode_chunk2)
qed

section \<open>Rows of the block\<close>

lemma base64_rows_rows: "concat (base64_rows s) = s" "row \<in> set (base64_rows s) \<Longrightarrow> row \<noteq> [] \<and> length row \<le> MAX_ROW_LENGTH"
proof (induction s rule: base64_rows.induct)
  case (1 s)
  {
    case 1
    then show ?case using "1.IH" by (subst base64_rows.simps) auto
  next
    case 2
    then show ?case using "1.IH"(2) by (subst (asm) base64_rows.simps) (auto split: if_splits simp: MAX_ROW_LENGTH_def)
  }
qed

section \<open>The palette of ColPic\<close>

lemma count_color_None: "count_color c es = None \<longleftrightarrow> c \<notin> pe_color ` set es"
  by (induction es) auto

lemma count_color_Some: "count_color c es = Some es' \<Longrightarrow> map pe_color es' = map pe_color es"
  by (induction es arbitrary: es') (auto split: if_splits)

text \<open>The colours of the palette: distinct, bounded in number, and complete below the bound.\<close>

definition palette_ok :: "nat \<Rightarrow> u16 set \<Rightarrow> palette_entry list \<Rightarrow> bool" where
  "palette_ok maxqty seen es \<longleftrightarrow>
     distinct (map pe_color es) \<and> length es \<le> maxqty \<and> pe_color ` set es \<subseteq> seen \<and>
     (length es < maxqty \<longrightarrow> pe_color ` set es = seen)"

lemma palette_ok_step: "palette_ok maxqty seen es \<Longrightarrow> palette_ok maxqty (insert c seen) (adlist_step maxqty es c)"
proof (cases "count_color c es")
  case None
  moreover from this have "c \<notin> pe_color ` set es" by (simp add: count_color_None)
  ultimately show "palette_ok maxqty seen es \<Longrightarrow> ?thesis"
    by (auto simp: palette_ok_def adlist_step_def)
next
  case (Some es')
  have m: "map pe_color es' = map pe_color es" by (rule count_color_Some [OF Some])
  then have "length es' = length es" "pe_color ` set es' = pe_color ` set es"
    by (metis length_map, metis image_set)
  moreover have "c \<in> pe_color ` set es" using Some count_color_None [of c es] by auto
  ultimately show "palette_ok maxqty seen es \<Longrightarrow> ?thesis"
    using Some m by (auto simp: palette_ok_def adlist_step_def)
qed

lemma adlist0_ok: "palette_ok maxqty (set pixels) (adlist0 pixels maxqty)"
proof -
  have "palette_ok maxqty (set pixels \<union> seen) (foldl (adlist_step maxqty) es pixels)" if "palette_ok maxqty seen es" for es seen
    using that
  proof (induction pixels arbitrary: es seen)
    case (Cons c pixels)
    show ?case using Cons.IH [OF palette_ok_step [OF Cons.prems]] by simp
  qed simp
  from this [of "{}" "[]"] show ?thesis by (simp add: adlist0_def palette_ok_def)
qed

lemma palette_ok: "palette_ok maxqty (set pixels) (palette pixels maxqty)"
proof -
  have "mset (palette pixels maxqty) = mset (adlist0 pixels maxqty)" by (simp add: palette_def)
  then have m: "mset (map pe_color (palette pixels maxqty)) = mset (map pe_color (adlist0 pixels maxqty))"
    and "length (palette pixels maxqty) = length (adlist0 pixels maxqty)" "set (palette pixels maxqty) = set (adlist0 pixels maxqty)"
    by (simp, metis mset_eq_length, metis mset_eq_setD)
  moreover have "distinct (map pe_color (palette pixels maxqty)) \<longleftrightarrow> distinct (map pe_color (adlist0 pixels maxqty))"
    by (rule mset_eq_imp_distinct_iff [OF m])
  ultimately show ?thesis using adlist0_ok [of maxqty pixels] by (simp add: palette_ok_def)
qed

lemma position_Some: "position c es = Some i \<Longrightarrow> i < length es \<and> pe_color (es ! i) = c"
  by (induction es arbitrary: i) (auto split: if_splits)

lemma position_None: "position c es = None \<longleftrightarrow> c \<notin> pe_color ` set es"
  by (induction es) auto

lemma palette_complete:
  assumes "card (set pixels) \<le> maxqty"
  shows "pe_color ` set (palette pixels maxqty) = set pixels"
proof (cases "length (palette pixels maxqty) < maxqty")
  case True
  then show ?thesis using palette_ok [of maxqty pixels] by (simp add: palette_ok_def)
next
  case False
  have ok: "distinct (map pe_color (palette pixels maxqty))" "pe_color ` set (palette pixels maxqty) \<subseteq> set pixels"
    using palette_ok [of maxqty pixels] by (simp_all add: palette_ok_def)
  then have "card (pe_color ` set (palette pixels maxqty)) = length (palette pixels maxqty)"
    by (metis distinct_card image_set length_map)
  then show ?thesis using False assms ok(2) by (intro card_seteq) auto
qed

section \<open>The run-length code of ColPic\<close>

lemma run_length_le: "run \<le> 255 \<Longrightarrow> run_length c run xs \<le> 255"
  by (induction xs arbitrary: run) auto

lemma take_run: "run \<le> k \<Longrightarrow> take (run_length c run xs - run) xs = replicate (run_length c run xs - run) c"
proof (induction xs arbitrary: run k)
  case (Cons x xs)
  show ?case
  proof (cases "x = c \<and> run < 255")
    case True
    moreover have "run_length c (run + 1) xs - run = Suc (run_length c (run + 1) xs - (run + 1))"
      using run_length_ge [of "run + 1" c xs] by simp
    ultimately show ?thesis using Cons.IH [of "run + 1" "run + 1"] by simp
  qed auto
qed simp

fun colpic_decode :: "u16 list \<Rightarrow> nat \<Rightarrow> u8 list \<Rightarrow> u16 list" where
  "colpic_decode pal sid [] = []"
| "colpic_decode pal sid (b # bs) =
     (let k = unat b div 32; color = pal ! (sid * 32 + unat b mod 32)
      in if k = 7 then colpic_decode pal (unat b mod 32) bs
         else if k = 0 then (case bs of [] \<Rightarrow> [] | r # bs' \<Rightarrow> replicate (unat r) color @ colpic_decode pal sid bs')
         else replicate k color @ colpic_decode pal sid bs)"

lemma packed_bytes:
  "list_all (\<lambda>k. list_all (\<lambda>t. unat (push_bit 5 (of_nat k) OR of_nat t :: u8) = k * 32 + t) [0..<32]) [0..<8]"
  by code_simp

lemma packed_byte: "k < 8 \<Longrightarrow> t < 32 \<Longrightarrow> unat (push_bit 5 (of_nat k) OR of_nat t :: u8) = k * 32 + t"
  using packed_bytes by (simp add: list_all_iff)

lemma decode_sid:
  assumes "sid < 32"
  shows "colpic_decode pal s ((224 OR of_nat sid) # bs) = colpic_decode pal sid bs"
proof -
  have d: "(224 + sid) div 32 = 7" by (rule div_nat_eqI) (use assms in simp_all)
  moreover have "(224 + sid) mod 32 = sid" using minus_mult_div_eq_mod [of "224 + sid" 32] by (simp add: d)
  ultimately show ?thesis using packed_byte [of 7 sid] assms by (simp add: Let_def)
qed

lemma decode_run:
  assumes "tid < 32" and "0 < run" and "run \<le> 255"
  shows "colpic_decode pal sid (run_bytes tid run @ bs) = replicate run (pal ! (sid * 32 + tid)) @ colpic_decode pal sid bs"
proof (cases "run \<le> 6")
  case True
  then show ?thesis using packed_byte [of run tid] assms by (simp add: run_bytes_def Let_def)
next
  case False
  have "unat (of_nat tid :: u8) = tid" "unat (of_nat run :: u8) = run" using assms by (simp_all add: unat_of_nat)
  then show ?thesis using False assms by (simp add: run_bytes_def Let_def)
qed

lemma decode_rle:
  assumes "\<And>c. c \<in> set pixels \<Longrightarrow> index c < 1024" and "last_sid = - 1 \<or> last_sid = int sid"
  shows "\<exists>sid'. colpic_decode pal sid (rle_loop index pixels last_sid @ bs) = map (\<lambda>c. pal ! index c) pixels @ colpic_decode pal sid' bs"
  using assms
proof (induction index pixels last_sid arbitrary: sid rule: rle_loop.induct)
  case (2 index c rest last_sid)
  let ?run = "run_length c 1 rest" and ?sid = "index c div 32" and ?tid = "index c mod 32"
  have run: "0 < ?run" "?run \<le> 255" using run_length_ge [of 1 c rest] run_length_le [of 1 c rest] by simp_all
  have idx: "?sid * 32 + ?tid = index c" "?sid < 32" using "2.prems"(1) [of c] by (simp_all add: less_mult_imp_div_less)
  have take: "take ?run (c # rest) = replicate ?run c"
    using take_run [of 1 1 c rest] run by (cases ?run) simp_all
  have "\<exists>sid'. colpic_decode pal ?sid (rle_loop index (drop ?run (c # rest)) (int ?sid) @ bs) =
      map (\<lambda>c. pal ! index c) (drop ?run (c # rest)) @ colpic_decode pal sid' bs"
    by (rule "2.IH" [OF refl refl refl refl]) (use "2.prems"(1) in \<open>auto dest: in_set_dropD\<close>)
  then obtain sid' where ih: "colpic_decode pal ?sid (rle_loop index (drop ?run (c # rest)) (int ?sid) @ bs) =
      map (\<lambda>c. pal ! index c) (drop ?run (c # rest)) @ colpic_decode pal sid' bs" ..
  have "map (\<lambda>c. pal ! index c) (c # rest) =
      map (\<lambda>c. pal ! index c) (take ?run (c # rest)) @ map (\<lambda>c. pal ! index c) (drop ?run (c # rest))"
    by (metis append_take_drop_id map_append)
  also have "map (\<lambda>c. pal ! index c) (take ?run (c # rest)) = replicate ?run (pal ! index c)" by (simp only: take map_replicate)
  finally have split: "map (\<lambda>c. pal ! index c) (c # rest) =
      replicate ?run (pal ! index c) @ map (\<lambda>c. pal ! index c) (drop ?run (c # rest))" .
  have "colpic_decode pal ?sid (run_bytes ?tid ?run @ rle_loop index (drop ?run (c # rest)) (int ?sid) @ bs) =
      map (\<lambda>c. pal ! index c) (c # rest) @ colpic_decode pal sid' bs"
    using decode_run [OF _ run, of ?tid pal ?sid] ih idx(1) by (simp only: split append_assoc)
  then show ?case using "2.prems"(2) idx(2) by (auto simp: Let_def decode_sid simp del: colpic_decode.simps)
qed auto

text \<open>The whole encoder against the palette that it builds; padding decodes to nothing.\<close>

lemma decode_byte8bit:
  assumes "maxqty \<le> 1024" and q: "0 < maxqty" and bs: "bs \<in> {[], [0], [0, 0]}"
  shows "colpic_decode (map pe_color (palette pixels maxqty)) 0 (byte8bit_encode pixels maxqty @ bs) =
     map (\<lambda>c. if c \<in> pe_color ` set (palette pixels maxqty) then c else pe_color (palette pixels maxqty ! 0)) pixels"
proof (cases "pixels = []")
  case True
  have "palette pixels maxqty = []" using True palette_ok [of maxqty pixels] by (auto simp: palette_ok_def)
  then show ?thesis using True bs by (auto simp: byte8bit_encode_def)
next
  case False
  let ?pal = "palette pixels maxqty"
  have ok: "palette_ok maxqty (set pixels) ?pal" by (rule palette_ok)
  then have ne: "?pal \<noteq> []" using False q by (auto simp: palette_ok_def)
  have idx: "palette_index ?pal c < length ?pal" "map pe_color ?pal ! palette_index ?pal c =
      (if c \<in> pe_color ` set ?pal then c else pe_color (?pal ! 0))" for c
    using ne position_Some [of c ?pal] position_None [of c ?pal] by (auto simp: palette_index_def split: option.splits)
  have "palette_index ?pal c < 1024" for c using idx(1) [of c] ok assms(1) by (simp add: palette_ok_def)
  then obtain sid' where "colpic_decode (map pe_color ?pal) 0 (byte8bit_encode pixels maxqty @ bs) =
      map (\<lambda>c. map pe_color ?pal ! palette_index ?pal c) pixels @ colpic_decode (map pe_color ?pal) sid' bs"
    using decode_rle [of pixels "palette_index ?pal" "- 1" 0] unfolding byte8bit_encode_def by blast
  moreover have "colpic_decode (map pe_color ?pal) sid' bs = []" using bs by auto
  ultimately show ?thesis by (simp only: idx(2) append_Nil2)
qed

section \<open>The letters of ColPic\<close>

definition colpic_value :: "char \<Rightarrow> u32" where
  "colpic_value c = (let n = (of_char c :: nat) in if n = 126 then 44 else of_nat (n - 48))"

lemma colpic_value_char: "colpic_value (colpic_char (sextet k w)) = sextet k w"
proof -
  let ?n = "unat (sextet k w)"
  have n: "?n < 64" by (rule sextet_less)
  show ?thesis
  proof (cases "?n = 44")
    case True
    moreover have "sextet k w = of_nat ?n" by simp
    ultimately have "sextet k w = 44" by (metis of_nat_numeral)
    then show ?thesis by (simp add: colpic_value_def colpic_char_def Let_def)
  next
    case False
    then have "colpic_char (sextet k w) = char_of (?n + 48)" by (simp add: colpic_char_def Let_def)
    moreover have "of_char (char_of (?n + 48) :: char) = ?n + 48" using n by simp
    ultimately show ?thesis using n by (simp add: colpic_value_def Let_def)
  qed
qed

definition word_bytes :: "u32 \<Rightarrow> u8 list" where
  "word_bytes w = [ucast (drop_bit 16 w), ucast (drop_bit 8 w), ucast w]"

definition colpic_unquad :: "string \<Rightarrow> u8 list" where
  "colpic_unquad s = word_bytes (foldl feed 0 (map colpic_value s))"

definition colpic_unframe :: "string \<Rightarrow> u8 list" where
  "colpic_unframe s = concat (map colpic_unquad (chunks 4 s))"

lemma feed_all: "feed (feed (feed (feed 0 (sextet 18 w)) (sextet 12 w)) (sextet 6 w)) (sextet 0 w) = take_bit 24 w"
proof (rule bit_word_eqI)
  fix n assume "n < LENGTH(32)"
  moreover have "6 + (n - 6) = n" if "6 \<le> n" using that by simp
  moreover have "12 + (n - 12) = n" if "12 \<le> n" using that by simp
  moreover have "18 + (n - 18) = n" if "18 \<le> n" using that by simp
  ultimately show "bit (feed (feed (feed (feed 0 (sextet 18 w)) (sextet 12 w)) (sextet 6 w)) (sextet 0 w)) n = bit (take_bit 24 w) n"
    unfolding bit_feed bit_sextet bit_take_bit_iff by (auto simp: not_le)
qed

lemma combine_take: "take_bit 24 (combine a b c) = combine a b c"
  by (rule bit_word_eqI) (auto simp: bit_take_bit_iff bit_combine dest: bit_u8)

lemma combine_bytes: "word_bytes (combine a b c) = [a, b, c]"
proof -
  have "ucast (drop_bit 16 (combine a b c)) = a" "ucast (drop_bit 8 (combine a b c)) = b" "ucast (combine a b c) = c"
    by (rule bit_word_eqI, auto simp: bit_ucast_iff bit_drop_bit_eq bit_combine dest: bit_u8)+
  then show ?thesis by (simp add: word_bytes_def)
qed

lemma colpic_unquad_quad: "colpic_unquad (colpic_quad [a, b, c]) = [a, b, c]"
  using feed_all [of "combine a b c"] by (simp add: colpic_unquad_def colpic_quad_def Let_def colpic_value_char combine_take combine_bytes)

lemma colpic_unframe_chunks: "length data mod 3 = 0 \<Longrightarrow> colpic_unframe (concat (map colpic_quad (chunks 3 data))) = data"
proof (induction "length data" arbitrary: data rule: less_induct)
  case less
  show ?case
  proof (cases rule: triples [of data])
    case (4 a b c ys)
    have "colpic_unframe (concat (map colpic_quad (chunks 3 ys))) = ys" by (rule less) (use less.prems 4 in simp_all)
    moreover have "chunks 3 data = [a, b, c] # chunks 3 ys" using chunks_append [of "[a, b, c]" 3 ys] by (simp add: 4)
    moreover have "chunks 4 (colpic_quad [a, b, c] @ s) = colpic_quad [a, b, c] # chunks 4 s" for s
      by (rule chunks_append) (simp_all add: colpic_quad_def Let_def)
    ultimately show ?thesis by (simp add: colpic_unframe_def colpic_unquad_quad 4)
  qed (use less.prems in \<open>simp_all add: colpic_unframe_def\<close>)
qed

lemma pad3_cases: "\<exists>bs. pad3 data = data @ bs \<and> bs \<in> {[], [0], [0, 0]} \<and> length (pad3 data) mod 3 = 0"
proof -
  consider "length data mod 3 = 0" | "length data mod 3 = 1" | "length data mod 3 = 2" by linarith
  then show ?thesis by cases (simp_all add: pad3_def numeral_2_eq_2 mod_Suc)
qed

section \<open>ColPic forgets the colours\<close>

definition recolour :: "(u16 \<Rightarrow> u16) \<Rightarrow> palette_entry \<Rightarrow> palette_entry" where
  "recolour f e = e\<lparr>pe_color := f (pe_color e)\<rparr>"

lemma recolour_fields [simp]: "pe_color (recolour f e) = f (pe_color e)" "pe_qty (recolour f e) = pe_qty e"
  by (simp_all add: recolour_def)

lemma count_recolour:
  "inj_on f (insert c (pe_color ` set es)) \<Longrightarrow>
     count_color (f c) (map (recolour f) es) = map_option (map (recolour f)) (count_color c es)"
proof (induction es)
  case (Cons e es)
  have "f (pe_color e) = f c \<longleftrightarrow> pe_color e = c" using Cons.prems by (auto simp: inj_on_def)
  moreover have "inj_on f (insert c (pe_color ` set es))" by (rule inj_on_subset [OF Cons.prems]) auto
  ultimately show ?case using Cons.IH by (cases "count_color c es") (simp_all add: recolour_def)
qed simp

lemma adlist_step_recolour:
  "inj_on f (insert c (pe_color ` set es)) \<Longrightarrow> adlist_step q (map (recolour f) es) (f c) = map (recolour f) (adlist_step q es c)"
  by (auto simp: adlist_step_def count_recolour recolour_def split: option.splits)

lemma adlist0_recolour:
  assumes "inj_on f (set pixels)"
  shows "adlist0 (map f pixels) q = map (recolour f) (adlist0 pixels q)"
  using assms
proof (induction pixels rule: rev_induct)
  case (snoc c pixels)
  have sub: "pe_color ` set (adlist0 pixels q) \<subseteq> set pixels" using adlist0_ok [of q pixels] by (simp add: palette_ok_def)
  have "inj_on f (insert c (pe_color ` set (adlist0 pixels q)))" by (rule inj_on_subset [OF snoc.prems]) (use sub in auto)
  moreover have "adlist0 (map f pixels) q = map (recolour f) (adlist0 pixels q)"
    by (rule snoc.IH [OF inj_on_subset [OF snoc.prems]]) auto
  ultimately show ?case by (simp add: adlist0_def adlist_step_recolour)
qed (simp add: adlist0_def)

lemma insort_key_map: "insort_key k (g x) (map g xs) = map g (insort_key (\<lambda>x. k (g x)) x xs)"
  by (induction xs) auto

lemma sort_key_map: "sort_key k (map g xs) = map g (sort_key (\<lambda>x. k (g x)) xs)"
  by (induction xs) (simp_all add: insort_key_map)

lemma palette_recolour: "inj_on f (set pixels) \<Longrightarrow> palette (map f pixels) q = map (recolour f) (palette pixels q)"
  by (simp add: palette_def adlist0_recolour sort_key_map comp_def)

lemma position_recolour: "inj_on f (insert c (pe_color ` set es)) \<Longrightarrow> position (f c) (map (recolour f) es) = position c es"
proof (induction es)
  case (Cons e es)
  have "f (pe_color e) = f c \<longleftrightarrow> pe_color e = c" using Cons.prems by (auto simp: inj_on_def)
  moreover have "inj_on f (insert c (pe_color ` set es))" by (rule inj_on_subset [OF Cons.prems]) auto
  ultimately show ?case using Cons.IH by simp
qed simp

lemma run_length_map: "inj_on f (insert c (set xs)) \<Longrightarrow> run_length (f c) run (map f xs) = run_length c run xs"
proof (induction xs arbitrary: run)
  case (Cons x xs)
  have "f x = f c \<longleftrightarrow> x = c" using Cons.prems by (auto simp: inj_on_def)
  moreover have "inj_on f (insert c (set xs))" by (rule inj_on_subset [OF Cons.prems]) auto
  ultimately show ?case using Cons.IH by simp
qed simp

lemma rle_loop_map:
  assumes "inj_on f (set pixels)" and "\<And>c. c \<in> set pixels \<Longrightarrow> index' (f c) = index c"
  shows "rle_loop index' (map f pixels) last_sid = rle_loop index pixels last_sid"
  using assms
proof (induction index pixels last_sid rule: rle_loop.induct)
  case (2 index c rest last_sid)
  let ?run = "run_length c 1 rest"
  have run: "run_length (f c) 1 (map f rest) = ?run" using run_length_map [of f c rest 1] "2.prems"(1) by simp
  have "rle_loop index' (map f (drop ?run (c # rest))) (int (index c div 32)) = rle_loop index (drop ?run (c # rest)) (int (index c div 32))"
  proof (rule "2.IH" [OF refl refl refl refl])
    show "inj_on f (set (drop ?run (c # rest)))" by (rule inj_on_subset [OF "2.prems"(1)]) (rule set_drop_subset)
    show "index' (f d) = index d" if "d \<in> set (drop ?run (c # rest))" for d
      using "2.prems"(2) in_set_dropD [OF that] by blast
  qed
  moreover have "drop ?run (f c # map f rest) = map f (drop ?run (c # rest))" by (simp add: drop_map flip: list.map(2))
  ultimately show ?case using "2.prems"(2) [of c] run by (simp add: Let_def)
qed simp

lemma byte8bit_recolour:
  assumes "inj_on f (set pixels)"
  shows "byte8bit_encode (map f pixels) q = byte8bit_encode pixels q"
proof -
  have sub: "pe_color ` set (palette pixels q) \<subseteq> set pixels" using palette_ok [of q pixels] by (simp add: palette_ok_def)
  have "palette_index (palette (map f pixels) q) (f c) = palette_index (palette pixels q) c" if "c \<in> set pixels" for c
  proof -
    have "inj_on f (insert c (pe_color ` set (palette pixels q)))" by (rule inj_on_subset [OF assms]) (use sub that in auto)
    then show ?thesis by (simp add: palette_index_def palette_recolour [OF assms] position_recolour)
  qed
  then show ?thesis unfolding byte8bit_encode_def by (rule rle_loop_map [OF assms])
qed

section \<open>BTT TFT\<close>

lemma hex_digit_inj: "a < 16 \<Longrightarrow> b < 16 \<Longrightarrow> hex_digit a = hex_digit b \<longleftrightarrow> a = b"
  by (auto simp: hex_digit_def char_of_eq_iff take_bit_eq_mod split: if_splits)

lemma hex_nat_length: "n < 16 ^ Suc k \<Longrightarrow> length (hex_nat n) \<le> Suc k"
proof (induction k arbitrary: n)
  case 0
  then show ?case by (simp add: hex_nat.simps)
next
  case (Suc k)
  have "n div 16 < 16 ^ Suc k" using Suc.prems by (simp add: less_mult_imp_div_less)
  then show ?case using Suc.IH [of "n div 16"] by (subst hex_nat.simps) simp
qed

text \<open>Four digits read from the right.\<close>

fun hex_digits :: "nat \<Rightarrow> nat \<Rightarrow> string" where
  "hex_digits 0 n = []"
| "hex_digits (Suc k) n = hex_digits k (n div 16) @ [hex_digit (n mod 16)]"

lemma length_hex_digits [simp]: "length (hex_digits k n) = k"
  by (induction k arbitrary: n) auto

lemma hex_digits_zero: "hex_digits k 0 = replicate k (CHR ''0'')"
proof (induction k)
  case (Suc k)
  have "hex_digit 0 = CHR ''0''" by code_simp
  then show ?case using Suc by (simp add: replicate_append_same)
qed simp

lemma hex_digits_nat: "n < 16 ^ k \<Longrightarrow> 0 < k \<Longrightarrow> hex_digits k n = replicate (k - length (hex_nat n)) (CHR ''0'') @ hex_nat n"
proof (induction k arbitrary: n)
  case (Suc k)
  show ?case
  proof (cases "n < 16")
    case True
    then show ?thesis by (simp add: hex_nat.simps [of n] hex_digits_zero)
  next
    case False
    moreover have "n div 16 < 16 ^ k" using Suc.prems by (simp add: less_mult_imp_div_less)
    moreover have "0 < k" using False Suc.prems by (cases k) auto
    ultimately show ?thesis using Suc.IH [of "n div 16"] by (simp add: hex_nat.simps [of n])
  qed
qed simp

lemma hex4_digits: "n < 65536 \<Longrightarrow> hex4 n = hex_digits 4 n"
  using hex_digits_nat [of n 4] by (simp add: hex4_def)

lemma hex_digits_inj: "a < 16 ^ k \<Longrightarrow> b < 16 ^ k \<Longrightarrow> hex_digits k a = hex_digits k b \<Longrightarrow> a = b"
proof (induction k arbitrary: a b)
  case (Suc k)
  have "a div 16 = b div 16" by (rule Suc.IH) (use Suc.prems in \<open>auto simp: less_mult_imp_div_less\<close>)
  moreover have "a mod 16 = b mod 16" using Suc.prems(3) by (simp add: hex_digit_inj)
  ultimately show ?case by (metis div_mult_mod_eq)
qed simp

lemma hex4_inj: "a < 65536 \<Longrightarrow> b < 65536 \<Longrightarrow> hex4 a = hex4 b \<longleftrightarrow> a = b"
  using hex_digits_inj [of a 4 b] by (auto simp: hex4_digits)

lemma length_hex4: "n < 65536 \<Longrightarrow> length (hex4 n) = 4"
  by (simp add: hex4_digits)

lemma hex_row_inj: "length xs = length ys \<Longrightarrow> concat (map (\<lambda>v. hex4 (unat v)) xs) = concat (map (\<lambda>v. hex4 (unat v)) ys) \<Longrightarrow> xs = ys"
  for xs ys :: "u16 list"
proof (induction xs ys rule: list_induct2)
  case (Cons x xs y ys)
  have b: "unat x < 65536" "unat y < 65536" using unsigned_less [of x, where 'a = nat] unsigned_less [of y, where 'a = nat] by simp_all
  then have "hex4 (unat x) = hex4 (unat y)" "concat (map (\<lambda>v. hex4 (unat v)) xs) = concat (map (\<lambda>v. hex4 (unat v)) ys)"
    using Cons.prems append_eq_append_conv [of "hex4 (unat x)" "hex4 (unat y)"] by (simp_all add: length_hex4)
  then show ?case using Cons.IH b by (auto simp: hex4_inj intro: unsigned_word_eqI)
qed simp

lemma hex_row_length: "length (concat (map (\<lambda>v. hex4 (unat v)) xs)) = 4 * length (xs :: u16 list)"
proof (induction xs)
  case (Cons x xs)
  have "unat x < 65536" using unsigned_less [of x, where 'a = nat] by simp
  then show ?case using Cons.IH by (simp add: length_hex4)
qed simp

lemma hex_rows_inj:
  assumes "length rows = length rows'" and "\<forall>row \<in> set rows \<union> set rows'. length row = w"
    and "concat (map btt_row rows) =
         concat (map btt_row rows')"
  shows "rows = (rows' :: u16 list list)"
  using assms
proof (induction rows rows' rule: list_induct2)
  case (Cons r rs r' rs')
  have "length (concat (map (\<lambda>v. hex4 (unat v)) r)) = length (concat (map (\<lambda>v. hex4 (unat v)) r'))"
    using Cons.prems(1) by (simp only: hex_row_length) simp
  then have "concat (map (\<lambda>v. hex4 (unat v)) r) = concat (map (\<lambda>v. hex4 (unat v)) r')"
    and rest: "concat (map btt_row rs) =
      concat (map btt_row rs')"
    using Cons.prems(2) by (simp_all add: btt_row_def [of r] btt_row_def [of r'])
  moreover have "length r = length r'" using Cons.prems(1) by simp
  ultimately have "r = r'" by (intro hex_row_inj)
  then show ?case using Cons.IH [OF _ rest] Cons.prems(1) by simp
qed simp

lemma image_rows_shape: "length (image_rows img) = unat (im_height img)" "row \<in> set (image_rows img) \<Longrightarrow> length row = unat (im_width img)"
  by (auto simp: image_rows_def)

lemma encode_btt_tft_inj:
  assumes "im_width a < 65536" "im_height a < 65536" "im_width b < 65536" "im_height b < 65536"
    and eq: "encode_btt_tft a = encode_btt_tft b"
  shows "im_width a = im_width b \<and> im_height a = im_height b \<and> image_rows a = image_rows b"
proof -
  have lt: "unat (im_width a) < 65536" "unat (im_height a) < 65536" "unat (im_width b) < 65536" "unat (im_height b) < 65536"
    using assms(1-4) by (simp_all add: word_less_nat_alt)
  note len = lt [THEN length_hex4]
  have "hex4 (unat (im_width a)) = hex4 (unat (im_width b))" "hex4 (unat (im_height a)) = hex4 (unat (im_height b))"
    and rows: "concat (map btt_row (image_rows a)) =
      concat (map btt_row (image_rows b))"
    using eq len unfolding encode_btt_tft_def by simp_all
  then have dims: "im_width a = im_width b" "im_height a = im_height b" using lt by (auto simp: hex4_inj intro: unsigned_word_eqI)
  have "image_rows a = image_rows b"
    by (rule hex_rows_inj [OF _ _ rows, of "unat (im_width a)"]) (use dims image_rows_shape in auto)
  then show ?thesis using dims by simp
qed

section \<open>The request parser\<close>

definition plain :: "char \<Rightarrow> bool" where
  "plain c \<longleftrightarrow> 48 \<le> (of_char c :: nat) \<and> (of_char c :: nat) \<le> 122"

lemma white_space_ends: "list_all (\<lambda>w. w \<noteq> [] \<and> \<not> plain (hd w) \<and> \<not> plain (last w)) WHITE_SPACE"
  by code_simp

lemma trim_plain:
  assumes "s \<noteq> []" and "plain (hd s)" and "plain (last s)"
  shows "trim s = s"
proof -
  have ends: "w \<noteq> [] \<and> \<not> plain (hd w) \<and> \<not> plain (last w)" if "w \<in> set WHITE_SPACE" for w
    using that white_space_ends by (auto simp: list_all_iff)
  have "\<not> prefix w s" "\<not> suffix w s" if "w \<in> set WHITE_SPACE" for w
    using ends [OF that] assms by (auto simp: prefix_def suffix_def)
  then have "leading_space s = None" "trailing_space s = None"
    by (simp_all add: leading_space_def trailing_space_def find_None_iff)
  then show ?thesis by (simp add: trim_def trim_start.simps [of s] trim_end.simps [of s])
qed

lemma dec_nat_plain: "c \<in> set (dec_nat n) \<Longrightarrow> plain c \<and> c \<noteq> CHR ''x''"
proof (induction n rule: dec_nat.induct)
  case (1 n)
  have "plain (digit_char d) \<and> digit_char d \<noteq> CHR ''x''" if "d < 10" for d
    using that digit_value_digit_char [of d] by (auto simp: plain_def digit_value_def Let_def split: if_splits)
  then show ?case using 1 by (cases "n < 10") (auto simp: dec_nat.simps [of n])
qed

lemma split_once_app: "c \<notin> set a \<Longrightarrow> split_once c (a @ c # b) = Some (a, b)"
proof -
  assume c: "c \<notin> set a"
  have "takeWhile (\<lambda>x. x \<noteq> c) (a @ c # b) = a" "dropWhile (\<lambda>x. x \<noteq> c) (a @ c # b) = c # b"
    using c by (induction a) auto
  then show ?thesis by (simp add: split_once_def)
qed

definition ascii_upper :: "char \<Rightarrow> char" where
  "ascii_upper c = (let n = (of_char c :: nat) in if 97 \<le> n \<and> n \<le> 122 then char_of (n - 32) else c)"

text \<open>What the parser relies on of \<^verbatim>\<open>str::to_uppercase\<close>.\<close>

definition uppercase_ok :: "(string \<Rightarrow> string) \<Rightarrow> bool" where
  "uppercase_ok up \<longleftrightarrow> (\<forall>s. (\<forall>c \<in> set s. (of_char c :: nat) < 128) \<longrightarrow> up s = map ascii_upper s)"

definition spec_text :: "u32 \<Rightarrow> u32 \<Rightarrow> string \<Rightarrow> string" where
  "spec_text w h ext = dec_nat (unat w) @ ''x'' @ dec_nat (unat h) @ ''/'' @ ext"

definition ext_letters :: string where
  "ext_letters = ''PNGJEQOIBT_FCL''"

lemma ext_letters_range: "list_all (\<lambda>d. 65 \<le> (of_char d :: nat) \<and> (of_char d :: nat) \<le> 95) ext_letters"
  by code_simp

lemma ext_letter:
  assumes "ascii_upper c \<in> set ext_letters"
  shows "plain c" and "(of_char c :: nat) < 128" and "c \<noteq> CHR '',''" and "c \<noteq> CHR ''/''"
proof -
  have "65 \<le> (of_char (ascii_upper c) :: nat) \<and> (of_char (ascii_upper c) :: nat) \<le> 95"
    using assms ext_letters_range by (auto simp: list_all_iff)
  then have c: "65 \<le> (of_char c :: nat) \<and> (of_char c :: nat) \<le> 122"
    unfolding ascii_upper_def Let_def by (cases "97 \<le> (of_char c :: nat) \<and> (of_char c :: nat) \<le> 122") auto
  then show "plain c" "(of_char c :: nat) < 128" by (auto simp: plain_def)
  show "c \<noteq> CHR '',''" "c \<noteq> CHR ''/''" using c by auto
qed

lemma from_ext_letters: "from_ext (map ascii_upper ext) = Some f \<Longrightarrow> ext \<noteq> [] \<and> (\<forall>c \<in> set ext. ascii_upper c \<in> set ext_letters)"
proof -
  assume "from_ext (map ascii_upper ext) = Some f"
  then have e: "map ascii_upper ext \<in> {''PNG'', ''JPG'', ''JPEG'', ''QOI'', ''BTT_TFT'', ''COLPIC''}"
    by (auto simp: from_ext_def split: if_splits)
  then have "set (map ascii_upper ext) \<subseteq> set ext_letters" by (auto simp: ext_letters_def)
  then show ?thesis using e by auto
qed

lemma parse_spec_text:
  assumes up: "uppercase_ok up" and f: "from_ext (map ascii_upper ext) = Some f"
  shows "trim (spec_text w h ext) = spec_text w h ext" and "spec_text w h ext \<noteq> []" and "CHR '','' \<notin> set (spec_text w h ext)"
    and "parse_entry up (spec_text w h ext) = Inr \<lparr>ts_width = w, ts_height = h, ts_format = f\<rparr>"
proof -
  have ext: "ext \<noteq> []" "\<And>c. c \<in> set ext \<Longrightarrow> plain c \<and> (of_char c :: nat) < 128 \<and> c \<noteq> CHR '','' \<and> c \<noteq> CHR ''/''"
    using from_ext_letters [OF f] ext_letter by blast+
  have num: "plain (hd (dec_nat n))" "plain (last (dec_nat n))" "CHR '','' \<notin> set (dec_nat n)" "CHR ''x'' \<notin> set (dec_nat n)"
    "CHR ''/'' \<notin> set (dec_nat n)" for n
    using dec_nat_plain [of _ n] hd_in_set [OF dec_nat_Nil] last_in_set [OF dec_nat_Nil] by (force simp: plain_def)+
  show "CHR '','' \<notin> set (spec_text w h ext)" using num ext(2) [of "CHR '',''"] by (auto simp: spec_text_def)
  show "spec_text w h ext \<noteq> []" by (simp add: spec_text_def)
  have "plain (last ext)" "plain (hd ext)" using ext by auto
  then have trims: "trim (spec_text w h ext) = spec_text w h ext" "trim ext = ext" "trim (dec_nat n) = dec_nat n"
    "trim (dec_nat n @ CHR ''x'' # dec_nat m) = dec_nat n @ CHR ''x'' # dec_nat m" for n m
    using num ext(1) by (simp_all add: spec_text_def trim_plain)
  show "trim (spec_text w h ext) = spec_text w h ext" by (rule trims)
  have "split_once (CHR ''/'') (spec_text w h ext) = Some (dec_nat (unat w) @ ''x'' @ dec_nat (unat h), ext)"
    using split_once_app [of "CHR ''/''" "dec_nat (unat w) @ ''x'' @ dec_nat (unat h)" ext] num by (simp add: spec_text_def)
  moreover have "split_once (CHR ''x'') (dec_nat (unat w) @ ''x'' @ dec_nat (unat h)) = Some (dec_nat (unat w), dec_nat (unat h))"
    using split_once_app [of "CHR ''x''" "dec_nat (unat w)" "dec_nat (unat h)"] num by simp
  moreover have "up ext = map ascii_upper ext" using up ext(2) by (simp add: uppercase_ok_def)
  ultimately show "parse_entry up (spec_text w h ext) = Inr \<lparr>ts_width = w, ts_height = h, ts_format = f\<rparr>"
    using f by (simp add: parse_entry_def dim_of_def trims parse_u32_dec_nat)
qed

text \<open>A list of requests, written with commas.\<close>

fun join_specs :: "(u32 \<times> u32 \<times> string) list \<Rightarrow> string" where
  "join_specs [] = []"
| "join_specs [(w, h, ext)] = spec_text w h ext"
| "join_specs ((w, h, ext) # items) = spec_text w h ext @ '','' @ join_specs items"

lemma join_specs_split:
  assumes "uppercase_ok up" and "\<forall>(w, h, ext) \<in> set items. from_ext (map ascii_upper ext) \<noteq> None" and "items \<noteq> []"
  shows "split_char (CHR '','') (join_specs items) = map (\<lambda>(w, h, ext). spec_text w h ext) items"
  using assms
proof (induction items rule: join_specs.induct)
  case (2 w h ext)
  then show ?case using parse_spec_text(3) [OF assms(1)] by (auto simp: split_char_none)
next
  case (3 w h ext item items)
  then have "CHR '','' \<notin> set (spec_text w h ext)" using parse_spec_text(3) [OF assms(1)] by auto
  then show ?case using 3 by (simp add: split_char_app)
qed simp

lemma parse_entries_specs:
  assumes "uppercase_ok up" and "\<forall>(w, h, ext) \<in> set items. from_ext (map ascii_upper ext) \<noteq> None"
  shows "parse_entries up (map (\<lambda>(w, h, ext). spec_text w h ext) items) =
     Inr (map (\<lambda>(w, h, ext). \<lparr>ts_width = w, ts_height = h, ts_format = the (from_ext (map ascii_upper ext))\<rparr>) items)"
  using assms(2) parse_spec_text [OF assms(1)]
  by (induction items) auto

lemma join_specs_trim:
  assumes "uppercase_ok up" and "\<forall>(w, h, ext) \<in> set items. from_ext (map ascii_upper ext) \<noteq> None" and "items \<noteq> []"
  shows "trim (join_specs items) = join_specs items" and "join_specs items \<noteq> []"
proof -
  have ends: "plain (hd (spec_text w h ext))" "plain (last (spec_text w h ext))" if "from_ext (map ascii_upper ext) \<noteq> None" for w h ext
    using that from_ext_letters [of ext] ext_letter(1) last_in_set [of ext] dec_nat_plain [of "hd (dec_nat (unat w))" "unat w"]
    by (auto simp: spec_text_def)
  have "join_specs items \<noteq> [] \<and> plain (hd (join_specs items)) \<and> plain (last (join_specs items))"
    using assms(2,3)
  proof (induction items rule: join_specs.induct)
    case (2 w h ext)
    then show ?case using ends by (auto simp: spec_text_def)
  next
    case (3 w h ext item items)
    then show ?case using ends [of ext w h] by (auto simp: spec_text_def hd_append)
  qed simp
  then show "trim (join_specs items) = join_specs items" "join_specs items \<noteq> []" by (simp_all add: trim_plain)
qed

lemma map_known: "set xs \<subseteq> S \<Longrightarrow> map (\<lambda>c. if c \<in> S then c else d) xs = xs"
  by (induction xs) auto

section \<open>Claims\<close>

text \<open>C23: the rows of a thumbnail in the G-code header carry at most 78 characters each and decode to
  the encoded bytes; a PNG request of the size of the source carries the source itself.\<close>

theorem png_block_roundtrip:
  assumes "ic_load_png crate source_png = Inr rgba"
    and "spec = \<lparr>ts_width = im_width rgba, ts_height = im_height rgba, ts_format = Png\<rparr>"
  shows "\<exists>rows. render_thumbnail_entries crate source_png [spec] =
       Inr [\<lparr>rt_format = Png, rt_width = im_width rgba, rt_height = im_height rgba, rt_body = Base64 (concat rows)\<rparr>] \<and>
     serialize_thumbnail_block
         [\<lparr>rt_format = Png, rt_width = im_width rgba, rt_height = im_height rgba, rt_body = Base64 (concat rows)\<rparr>] =
       line ''; THUMBNAIL_BLOCK_START'' @
       line (''; thumbnail begin '' @ dec_nat (unat (im_width rgba)) @ ''x'' @ dec_nat (unat (im_height rgba)) @ '' '' @
             dec_nat (length (concat rows))) @
       concat (map (\<lambda>row. line (''; '' @ row)) rows) @
       line ''; thumbnail end'' @ line ''; THUMBNAIL_BLOCK_END'' \<and>
     (\<forall>row \<in> set rows. row \<noteq> [] \<and> length row \<le> 78) \<and>
     decode_base64 (concat rows) = Inr source_png"
proof (intro exI conjI)
  let ?rows = "base64_rows (encode_base64 source_png)"
  note rows = base64_rows_rows(1) [of "encode_base64 source_png"]
  show "render_thumbnail_entries crate source_png [spec] =
      Inr [\<lparr>rt_format = Png, rt_width = im_width rgba, rt_height = im_height rgba, rt_body = Base64 (concat ?rows)\<rparr>]"
    by (simp add: render_thumbnail_entries_def render_body_def assms rows)
  show "serialize_thumbnail_block
         [\<lparr>rt_format = Png, rt_width = im_width rgba, rt_height = im_height rgba, rt_body = Base64 (concat ?rows)\<rparr>] =
       line ''; THUMBNAIL_BLOCK_START'' @
       line (''; thumbnail begin '' @ dec_nat (unat (im_width rgba)) @ ''x'' @ dec_nat (unat (im_height rgba)) @ '' '' @
             dec_nat (length (concat ?rows))) @
       concat (map (\<lambda>row. line (''; '' @ row)) ?rows) @
       line ''; thumbnail end'' @ line ''; THUMBNAIL_BLOCK_END''"
    by (simp add: serialize_thumbnail_block_def entry_lines_def rows)
  show "\<forall>row \<in> set ?rows. row \<noteq> [] \<and> length row \<le> 78"
    using base64_rows_rows(2) by (auto simp: MAX_ROW_LENGTH_def)
  show "decode_base64 (concat ?rows) = Inr source_png" by (simp add: rows decode_base64_def decode_encode)
qed

definition sample_image :: rgba_image where
  "sample_image = \<lparr>im_width = 2, im_height = 1, im_pixel = \<lambda>x y. if x = 0 then (255, 0, 0, 255) else (0, 0, 255, 255)\<rparr>"

definition sample_crate :: image_crate where
  "sample_crate = \<lparr>ic_load_png = \<lambda>bs. if bs = [] then Inl ''empty'' else Inr sample_image, ic_resize = \<lambda>img w h. img\<lparr>im_width := w, im_height := h\<rparr>,
     ic_png = \<lambda>img. Inr [1, 2], ic_jpeg90 = \<lambda>img. Inr [3], ic_qoi = \<lambda>img. Inl ''no''\<rparr>"

theorem png_block_roundtrip_witness:
  "\<exists>rows. render_thumbnail_entries sample_crate [137, 80, 78, 71] [\<lparr>ts_width = 2, ts_height = 1, ts_format = Png\<rparr>] =
       Inr [\<lparr>rt_format = Png, rt_width = 2, rt_height = 1, rt_body = Base64 (concat rows)\<rparr>] \<and>
     decode_base64 (concat rows) = Inr [137, 80, 78, 71]"
  using png_block_roundtrip [of sample_crate "[137, 80, 78, 71]" sample_image "\<lparr>ts_width = 2, ts_height = 1, ts_format = Png\<rparr>"]
  by (auto simp: sample_crate_def sample_image_def)



text \<open>C32: the ColPic text does not contain its palette: any two images whose pixels differ by an injective
  change of colours, and in particular any two single-coloured images of the same size, are encoded to
  the same text.\<close>

theorem colpic_forgets_colours:
  assumes "concat (image_rows b) = map f (concat (image_rows a))" and "inj_on f (set (concat (image_rows a)))"
  shows "colpic_encode_str b = colpic_encode_str a"
  using byte8bit_recolour [OF assms(2)] by (simp only: colpic_encode_str_def colpic_encode_def assms(1))

definition red_image :: rgba_image where
  "red_image = \<lparr>im_width = 2, im_height = 2, im_pixel = \<lambda>x y. (255, 0, 0, 255)\<rparr>"

definition blue_image :: rgba_image where
  "blue_image = \<lparr>im_width = 2, im_height = 2, im_pixel = \<lambda>x y. (0, 0, 255, 255)\<rparr>"

theorem colpic_forgets_colours_witness: "colpic_encode_str blue_image = colpic_encode_str red_image"
proof (rule colpic_forgets_colours [where f = "\<lambda>_. 0x1F"])
  have "concat (image_rows red_image) = [0xF800, 0xF800, 0xF800, 0xF800]" "concat (image_rows blue_image) = [0x1F, 0x1F, 0x1F, 0x1F]"
    by code_simp+
  then show "concat (image_rows blue_image) = map (\<lambda>_. 0x1F) (concat (image_rows red_image))"
    "inj_on (\<lambda>_. 0x1F) (set (concat (image_rows red_image)))" by simp_all
qed

text \<open>C25: the requested thumbnails are parsed to what they spell: decimal sizes and an extension in any
  case, with both spellings of JPEG, separated by commas.\<close>

theorem thumbnails_key_roundtrip:
  assumes "uppercase_ok up" and "\<forall>(w, h, ext) \<in> set items. from_ext (map ascii_upper ext) \<noteq> None"
  shows "parse_thumbnails_key up (join_specs items) =
     Inr (map (\<lambda>(w, h, ext). \<lparr>ts_width = w, ts_height = h, ts_format = the (from_ext (map ascii_upper ext))\<rparr>) items)"
proof (cases "items = []")
  case True
  have "trim [] = []" by code_simp
  then show ?thesis using True by (simp add: parse_thumbnails_key_def)
next
  case False
  then have "trim (join_specs items) \<noteq> []" using join_specs_trim [OF assms False] by simp
  then show ?thesis
    using join_specs_split [OF assms False] parse_entries_specs [OF assms] by (simp add: parse_thumbnails_key_def)
qed

theorem thumbnails_key_roundtrip_witness:
  "parse_thumbnails_key (map ascii_upper) ''300x200/png,32x32/JpeG'' =
     Inr [\<lparr>ts_width = 300, ts_height = 200, ts_format = Png\<rparr>, \<lparr>ts_width = 32, ts_height = 32, ts_format = Jpg\<rparr>]"
proof -
  have "join_specs [(300, 200, ''png''), (32, 32, ''JpeG'')] = ''300x200/png,32x32/JpeG''"
    and "map ascii_upper ''png'' = ''PNG''" "map ascii_upper ''JpeG'' = ''JPEG''" by code_simp+
  then show ?thesis
    using thumbnails_key_roundtrip [of "map ascii_upper" "[(300, 200, ''png''), (32, 32, ''JpeG'')]"]
    by (simp add: uppercase_ok_def from_ext_def)
qed

end
