(* ===== verification/Spec2Isabelle.thy ===== *)
theory Spec2Isabelle
  imports LayerArena LiveLoad LayerProfile Ingestion PlanContracts ThumbnailCodecs
begin

text \<open>
  \<^bold>\<open>A verification of the scheduling, configuration and preparation core of Pinch 'n Print\<close>

  Pinch 'n Print is a slicer whose features are WASM modules.  A run discovers modules
  (\<^verbatim>\<open>crates/slicer-scheduler/src/manifest.rs\<close>), drops the losers of contested claims and
  orders the modules of every stage (\<^verbatim>\<open>crates/slicer-wasm-host/src/execution_plan_live.rs\<close>),
  validates the result (\<^verbatim>\<open>crates/slicer-scheduler/src/validation.rs\<close>), freezes an execution
  plan (\<^verbatim>\<open>crates/slicer-scheduler/src/execution_plan.rs\<close>), and executes it: the prepass
  tier fills a shared blackboard, the layer tier runs workers in parallel with one arena each, and
  the postpass tier drains the layer outputs in order
  (\<^verbatim>\<open>crates/slicer-runtime/src/blackboard.rs\<close>).  Module instances are leased from a pool
  (\<^verbatim>\<open>crates/slicer-wasm-host/src/pool.rs\<close>).

  The loaded modules and the host declare config keys; \<^verbatim>\<open>crates/slicer-config/src/lib.rs\<close>
  reconciles the declarations into one registry.  Authored settings are ingested against the registry
  (\<^verbatim>\<open>ingestion.rs\<close>) into one typed delta per scope: global, object, layer range, modifier, paint
  semantic, tool.  For a target, \<^verbatim>\<open>resolution.rs\<close> stacks the scopes that apply, expands
  relative values against their base keys, and yields the typed config of
  \<^verbatim>\<open>crates/slicer-ir/src/resolved_config.rs\<close>, which modules see through the projected views
  of the execution plan; it also computes the layer heights of every object and the Z grid of the plate.

  A module may prepare a plan for the whole print before the layers run.  The host keeps prepared plans
  in a store that is shared between threads
  (\<^verbatim>\<open>crates/slicer-wasm-host/src/preparation_store.rs\<close>): opaque pieces that a transaction
  stages and publishes, and typed diagnostic scenes that are validated when they are published
  (\<^verbatim>\<open>preparation_projection.rs\<close>).  The G-code writer embeds thumbnails
  (\<^verbatim>\<open>crates/slicer-gcode/src/thumbnail.rs\<close> and its codecs).

  \<^bold>\<open>Scheduling\<close>

  \<^item> \<^verbatim>\<open>Prelude\<close>: \<^verbatim>\<open>BTreeMap\<close> and \<^verbatim>\<open>BTreeSet\<close> as sorted lists, machine integers as
    words, strings as byte sequences.
  \<^item> \<^verbatim>\<open>Manifest\<close>: versions, the loaded-module record, region-split checks, and the scan of the
    search roots; file access and TOML parsing are arguments.  A scan yields distinct ids; versions
    survive printing and parsing.
  \<^item> \<^verbatim>\<open>StageOrder\<close>: the canonical stage list, its index and its tiers.
  \<^item> \<^verbatim>\<open>Dag\<close>: \<^verbatim>\<open>dag.rs\<close> and the serial edges of \<^verbatim>\<open>instrumentation.rs\<close>.  The graph
    of a stage is exactly the dependency relation of its producers, with the reasons.
  \<^item> \<^verbatim>\<open>Topology\<close>: the two topological sorts and breadth-first reachability.  Both sorts share
    the locale \<open>kahn_worklist\<close>, interpreted for the ordered set and for the queue.  They succeed
    exactly on acyclic graphs, agree, and reachability is the transitive closure.
  \<^item> \<^verbatim>\<open>Validation\<close>: the fourteen passes and \<open>validate_startup_dag\<close>.  A report without errors
    is equivalent to the declarative \<open>startup_contract\<close>.
  \<^item> \<^verbatim>\<open>RegionSplit\<close>: aggregation of region-split declarations
    (\<^verbatim>\<open>region_split.rs\<close>), the canonical order, and the variant chains
    (\<^verbatim>\<open>region_split_registry.rs\<close>).
  \<^item> \<^verbatim>\<open>Config\<close>: config values, the projection of the resolved config onto declared keys, and
    the JSON config source; the JSON parser and its number type are arguments.
  \<^item> \<^verbatim>\<open>ClaimDedup\<close>: support families and claim deduplication.
  \<^item> \<^verbatim>\<open>ExecutionPlan\<close>: \<open>build_execution_plan\<close> and the region index.  It succeeds exactly on
    requests that satisfy \<open>plan_request_ok\<close>.
  \<^item> \<^verbatim>\<open>InstancePool\<close>: pool planning, and the pool as a transition system of critical
    sections.  Leases are exclusive and no wake-up is lost.
  \<^item> \<^verbatim>\<open>LiveLoad\<close>: the composition of all of the above, from discovery to plan, and the
    startup gate of \<^verbatim>\<open>run.rs\<close>.  What loads can be planned, and every stage of the plan runs
    the loaded modules in dependency order.
  \<^item> \<^verbatim>\<open>Blackboard\<close> and \<^verbatim>\<open>LayerArena\<close>: the shared and the per-layer state.  Their slots
    are instances of the locale \<open>write_once_slot\<close>, the deferred queues of \<open>deferred_queue\<close>.  Layer
    outputs are independent of the order in which workers finish, and prepared regions always belong
    to the staged slice.

  \<^bold>\<open>Configuration\<close>

  \<^item> \<^verbatim>\<open>Floats\<close>: \<^verbatim>\<open>f64\<close> and \<^verbatim>\<open>f32\<close> as bit patterns with executable arithmetic
    (an exact rational result, rounded once to nearest, ties to even), comparison, conversions, and the
    text operations of the standard library that the config crates use.
  \<^item> \<^verbatim>\<open>FloatRounding\<close>: the real number a pattern denotes; rounding is monotone and leaves
    representable numbers alone, comparison of patterns is comparison of reals.
  \<^item> \<^verbatim>\<open>ConfigRegistry\<close>: \<^verbatim>\<open>slicer-config/src/lib.rs\<close>: declarations of the host and of the
    modules, their reconciliation per key with its warnings and load errors, the base-key walk, the
    admission sets and the CONFIG_BLOCK map.  Assembly succeeds exactly on compatible declarations and
    does not depend on the order of the modules; effective bounds are the intersection of the declared
    ones.  The tables of live host keys are arguments.
  \<^item> \<^verbatim>\<open>ResolvedConfig\<close>: the rows of the macro \<^verbatim>\<open>declare_resolved_config!\<close> as data, and the
    generated methods as interpreters of the rows: every applied key keeps the type of its row, and the
    rendered config block has exactly the rows that are not excluded.
  \<^item> \<^verbatim>\<open>ConfigIngest\<close>, \<^verbatim>\<open>LayerRanges\<close> and \<^verbatim>\<open>Ingestion\<close>: \<^verbatim>\<open>ingestion.rs\<close> and its
    properties.  Wire keys decode to exactly the scopes they spell, a suggestion is a nearest
    registered key, every retained value has its declared type and every dropped one is diagnosed, and
    committed layer ranges never disagree about a layer, although bounds are compared in \<^verbatim>\<open>f64\<close> and
    looked up in \<^verbatim>\<open>f32\<close>.  The text forms of floats and of debug output (\<open>quote\<close>,
    \<open>text_format\<close>) are arguments.
  \<^item> \<^verbatim>\<open>ConfigResolve\<close> and \<^verbatim>\<open>Resolution\<close>: the scope stack, eligibility, extension checks,
    default seeding and expansion.  The last applicable scope wins, a key never takes effect in a scope
    that denies it, and no relative value survives; an expanded value may exceed the maximum of its key.
  \<^item> \<^verbatim>\<open>LayerProfile\<close>: height profiles, the walk that turns a profile into layer tops, and the
    Z grid.  The walk adds rounded floats, so it is a \<^theory_text>\<open>partial_function\<close> whose value \<open>None\<close> is
    non-termination: it is proved to end whenever every height is at least \<open>2\<^sup>-\<^sup>2\<^sup>0\<close> mm and
    the object at most \<open>2\<^sup>2\<^sup>0\<close> mm high, to give increasing tops, and to hang on a concrete
    profile outside that bound.

  \<^bold>\<open>Preparation\<close>

  \<^item> \<^verbatim>\<open>ProjectionGeometry\<close>: \<^verbatim>\<open>preparation_projection.rs\<close>: the checked 128-bit predicates on
    points with 64-bit coordinates, the validation of rings, polygons and polylines, and of a whole scene
    with its byte count.
  \<^item> \<^verbatim>\<open>SimplePolygons\<close> and \<^verbatim>\<open>Scenes\<close>: the real plane behind the predicates.  With
    coordinates of at most \<open>2\<^sup>4\<^sup>7\<close> units no checked operation overflows, and the validator accepts
    exactly the polygons with a simple counterclockwise contour and disjoint simple clockwise holes
    inside it; a committed scene has resolved references, valid geometry and an exact size.
  \<^item> \<^verbatim>\<open>PreparationStore\<close>: \<^verbatim>\<open>preparation_store.rs\<close>, one function per critical section; an
    \<^verbatim>\<open>Arc\<close> identity is a number of a fresh supply, and a token acts on the store it came from.
  \<^item> \<^verbatim>\<open>PreparationSystem\<close>: the interleavings of all clients as a step relation, with the open
    transactions and live read guards, which Rust's ownership tracks, as part of the state; the invariant
    that ties counters, phases, transactions and guards together, kept by every step.
  \<^item> \<^verbatim>\<open>PreparedPlans\<close> and \<^verbatim>\<open>PlanContracts\<close>: published plans never change, reads return
    what was written, finishing publishes everything or nothing, accounting is exact, and disposal waits
    for every user and revokes every token.

  \<^bold>\<open>Thumbnails\<close>

  \<^item> \<^verbatim>\<open>Thumbnails\<close>: the parser of the requested thumbnails, base64, the ColPic and BTT codecs,
    rendering and framing.  The \<^verbatim>\<open>image\<close> crate is the record \<open>image_crate\<close> of its functions, and
    the Unicode upper case is an argument of which only its value on ASCII is used.
  \<^item> \<^verbatim>\<open>ThumbnailCodecs\<close>: base64 rows decode to the source, ColPic text decodes to the pixels
    for a reader that has the palette, the text itself does not determine the colours, BTT text
    determines the picture, and requests are parsed to what they spell.

  \<^bold>\<open>Conventions\<close>

  An operation of the code is a definition with the same name; a loop that is not structural is a
  \<^theory_text>\<open>function\<close> with a termination proof or, for the layer walk, a \<^theory_text>\<open>partial_function\<close>; no
  fuel occurs anywhere.  \<^verbatim>\<open>Result\<close> is a sum with the error on the left, a panic (an underflow of
  an in-degree, an unreachable arm) is \<open>None\<close>, and theorems show that it does not happen.  A mutated
  \<^verbatim>\<open>self\<close> is returned beside the result.  \<^verbatim>\<open>HashMap\<close> and \<^verbatim>\<open>HashSet\<close> are used by the
  modelled code for lookup and membership only, so a sorted map or a set stands for them.  Payloads
  that the code moves without reading are type parameters.

  \<^bold>\<open>Not modelled\<close>

  Geometry (\<^verbatim>\<open>slicer-core\<close>, \<^verbatim>\<open>slicer-helpers\<close>, the core modules) works on floating-point
  and scaled-integer polygons through numeric algorithms; mesh and 3MF reading, the
  emission of G-code moves and the time estimate, the CLI and its visual debugging, the WIT bindings and
  their generated marshalling, the adapters that invoke a module to prepare a plan, the SDK macros and
  the guest build tools are outside this development.  The scheduler model takes
  config ingestion as a field of \<open>live_env\<close>: loading only relies on it as a function of the loaded
  modules.  The texts of config error messages and the hash of a resolved config are left out.
\<close>

end
